(* ===== verification/Dnas_Prelude.thy ===== *)
theory Dnas_Prelude
  imports
    Main
    "HOL-Library.Word"
    "HOL-Library.Finite_Map"
    "HOL-Library.List_Lexorder"
    "HOL-Library.Char_ord"
begin

text \<open>
  Shared vocabulary of the development: the machine integers of the Go sources, byte strings, Go
  maps as finite maps with a fixed iteration order, errors as optional values, and the generic
  lemmas on words, finite maps and sums that the component theories rely on.
\<close>

named_theorems supply_rules \<open>what an operation does to the total coin held by accounts\<close>
named_theorems asset_rules \<open>what an operation does to the total of each asset\<close>

section \<open>Machine integers and byte strings\<close>

text \<open>
  A Go \<open>uint64\<close> is a \<^typ>\<open>64 word\<close>: addition, subtraction and multiplication wrap. A Go
  \<open>int64\<close> is the same word read in two's complement. A Go \<open>string\<close> and a \<open>[]byte\<close> are both a
  list of 8-bit characters.
\<close>

type_synonym u64 = "64 word"
type_synonym u32 = "32 word"
type_synonym bytes = "char list"

text \<open>The idiom \<open>if a+b < a { overflow }\<close> of the sources decides exactly the overflow.\<close>

definition add_overflows :: "u64 \<Rightarrow> u64 \<Rightarrow> bool" where
  "add_overflows a b \<longleftrightarrow> a + b < a"

lemma add_overflows_iff: "add_overflows a b \<longleftrightarrow> 2 ^ 64 \<le> unat a + unat b"
proof -
  have lt: "unat a < 2 ^ 64" "unat b < 2 ^ 64"
    using unsigned_less [of a] unsigned_less [of b] by simp_all
  show ?thesis
  proof (cases "unat a + unat b < 2 ^ 64")
    case True
    then have "unat (a + b) = unat a + unat b"
      by (simp add: unat_word_ariths)
    with True show ?thesis by (simp add: add_overflows_def word_less_nat_alt)
  next
    case False
    then have "unat (a + b) = unat a + unat b - 2 ^ 64"
      using lt by (simp add: unat_word_ariths mod_if)
    with False lt show ?thesis by (simp add: add_overflows_def word_less_nat_alt)
  qed
qed

lemma unat_add_no_overflow: "\<not> add_overflows a b \<Longrightarrow> unat (a + b) = unat a + unat b"
  by (simp add: add_overflows_iff unat_word_ariths)

lemma unat_diff_le: "b \<le> a \<Longrightarrow> unat (a - b) = unat a - unat (b :: u64)"
  by (simp add: unat_sub)

lemma unat_u64: "unat (x :: u64) < 2 ^ 64"
  using unsigned_less [of x] by simp

lemma unat_add_small: "unat a + unat b < 2 ^ 64 \<Longrightarrow> unat (a + b :: u64) = unat a + unat b"
  by (simp add: unat_word_ariths)

lemma of_nat_unat [simp]: "of_nat (unat (w :: u64)) = w"
  by simp

lemma word_le_unat: "(a :: u64) \<le> b \<longleftrightarrow> unat a \<le> unat b"
  by (rule word_le_nat_alt)

lemma of_nat_eq_small:
  assumes "of_nat m = (of_nat n :: u64)" "m < 2 ^ 64" "n < 2 ^ 64"
  shows "m = n"
proof -
  have "unat (of_nat m :: u64) = unat (of_nat n :: u64)"
    using assms(1) by simp
  then show ?thesis
    using assms(2,3) by (simp add: unat_of_nat)
qed

section \<open>Errors as values\<close>

text \<open>
  A Go function whose only result is an \<open>error\<close> returns an option here: \<^term>\<open>None\<close> is
  \<open>nil\<close>. A Go statement \<open>if err := f(); err != nil { return err }\<close> is \<open>err_then\<close>. A function
  that mutates the ledger while it may fail returns the error together with the state it
  leaves behind; \<open>bind_err\<close> runs the rest only when there was no error.
\<close>

definition err_then :: "'e option \<Rightarrow> 'e option \<Rightarrow> 'e option" where
  "err_then e r = (case e of None \<Rightarrow> r | Some x \<Rightarrow> Some x)"

definition bind_err :: "'e option \<times> 's \<Rightarrow> ('s \<Rightarrow> 'e option \<times> 's) \<Rightarrow> 'e option \<times> 's" where
  "bind_err r k = (case r of (None, s) \<Rightarrow> k s | (Some e, s) \<Rightarrow> (Some e, s))"

lemma err_then_None [simp]: "err_then None r = r"
  by (simp add: err_then_def)

lemma err_then_Some [simp]: "err_then (Some e) r = Some e"
  by (simp add: err_then_def)

lemma err_then_eq_None [simp]: "err_then e r = None \<longleftrightarrow> e = None \<and> r = None"
  by (cases e) simp_all

lemma bind_err_None [simp]: "bind_err (None, s) k = k s"
  by (simp add: bind_err_def)

lemma bind_err_Some [simp]: "bind_err (Some e, s) k = (Some e, s)"
  by (simp add: bind_err_def)

lemma bind_err_eq_None:
  "bind_err r k = (None, t) \<longleftrightarrow> (\<exists>s. r = (None, s) \<and> k s = (None, t))"
  by (auto simp: bind_err_def split: prod.splits option.splits)

section \<open>Go maps\<close>

text \<open>
  A Go map is a finite map. Reading an absent key of a map gives the zero value, which callers
  pass as \<open>d\<close>. Go leaves the iteration order of a map open; where the sources range over a map
  the model iterates in ascending key order, and the lemmas about such loops show that the result
  is a sum or a set that no order can change.
\<close>

definition fmget :: "'v \<Rightarrow> ('k, 'v) fmap \<Rightarrow> 'k \<Rightarrow> 'v" where
  "fmget d m k = (case fmlookup m k of None \<Rightarrow> d | Some v \<Rightarrow> v)"

definition fmkeys :: "('k :: linorder, 'v) fmap \<Rightarrow> 'k list" where
  "fmkeys m = sorted_list_of_fset (fmdom m)"

lemma fmget_upd [simp]: "fmget d (fmupd k v m) k' = (if k' = k then v else fmget d m k')"
  by (auto simp: fmget_def)

lemma fmget_drop [simp]: "fmget d (fmdrop k m) k' = (if k' = k then d else fmget d m k')"
  by (auto simp: fmget_def)

lemma fmget_empty [simp]: "fmget d fmempty k = d"
  by (simp add: fmget_def)

lemma set_fmkeys [simp]: "set (fmkeys m) = fmdom' m"
  by (simp add: fmkeys_def fmdom'_alt_def)

lemma distinct_fmkeys [simp]: "distinct (fmkeys m)"
  by (simp add: fmkeys_def sorted_list_of_fset.rep_eq)

lemma fmget_not_dom: "k \<notin> fmdom' m \<Longrightarrow> fmget d m k = d"
  by (auto simp: fmget_def fmdom'_notD split: option.splits)

text \<open>A sum over the keys of a map, extended to any finite set of keys that covers them.\<close>

lemma sum_fmget_superset:
  fixes f :: "'v \<Rightarrow> 'a :: comm_monoid_add"
  assumes "finite A" "fmdom' m \<subseteq> A" "f d = 0"
  shows "(\<Sum>k\<in>A. f (fmget d m k)) = (\<Sum>k\<in>fmdom' m. f (fmget d m k))"
  by (rule sum.mono_neutral_right) (use assms in \<open>auto simp: fmget_not_dom\<close>)

lemma sum_fmget_cover:
  fixes f :: "'v \<Rightarrow> 'a :: comm_monoid_add"
  assumes "finite A" "fmdom' m \<subseteq> A" "finite B" "fmdom' m \<subseteq> B" "f d = 0"
  shows "(\<Sum>k\<in>A. f (fmget d m k)) = (\<Sum>k\<in>B. f (fmget d m k))"
  using sum_fmget_superset [of A m f d] sum_fmget_superset [of B m f d] assms by metis

lemma sum_list_fmkeys: "sum_list (map f (fmkeys m)) = (\<Sum>k\<in>fmdom' m. f k)"
  by (metis distinct_fmkeys set_fmkeys sum_list_distinct_conv_sum_set)

end
