(* ===== verification/Go_Lib.thy ===== *)
theory Go_Lib
  imports Dnas_Prelude
begin

text \<open>
  The parts of the Go standard library the sources use and every component shares: hexadecimal
  (\<open>encoding/hex\<close>), big-endian integers (\<open>encoding/binary\<close>), decimal integers (\<open>strconv\<close>),
  \<open>strings.TrimSpace\<close>, \<open>strings.HasPrefix\<close>, and \<open>sort.Strings\<close>. The lemmas are the round trips
  the codecs and the address derivations rest on.
\<close>

section \<open>Hexadecimal\<close>

definition hex_digit :: "nat \<Rightarrow> char" where
  "hex_digit n = ''0123456789abcdef'' ! n"

definition hex_val :: "char \<Rightarrow> nat option" where
  "hex_val c = (let n = of_char c in
     if 48 \<le> n \<and> n \<le> 57 then Some (n - 48)
     else if 97 \<le> n \<and> n \<le> 102 then Some (n - 87)
     else if 65 \<le> n \<and> n \<le> 70 then Some (n - 55)
     else None)"

fun hex_encode :: "bytes \<Rightarrow> string" where
  "hex_encode [] = []"
| "hex_encode (c # cs) =
     hex_digit (of_char c div 16) # hex_digit (of_char c mod 16) # hex_encode cs"

text \<open>\<open>hex.DecodeString\<close> accepts both cases and refuses odd lengths and other characters.\<close>

fun hex_decode :: "string \<Rightarrow> bytes option" where
  "hex_decode [] = Some []"
| "hex_decode [c] = None"
| "hex_decode (a # b # cs) =
     (case (hex_val a, hex_val b, hex_decode cs) of
        (Some x, Some y, Some r) \<Rightarrow> Some (char_of (16 * x + y) # r)
      | _ \<Rightarrow> None)"

lemma hex_val_digit [simp]: "n < 16 \<Longrightarrow> hex_val (hex_digit n) = Some n"
proof -
  have "\<forall>n \<in> set [0..<16]. hex_val (hex_digit n) = Some n"
    by (simp add: hex_digit_def hex_val_def upt_rec)
  then show "n < 16 \<Longrightarrow> hex_val (hex_digit n) = Some n" by simp
qed

lemma of_char_lt: "(of_char c :: nat) < 256"
  by simp

lemma hex_decode_encode [simp]: "hex_decode (hex_encode bs) = Some bs"
proof (induction bs)
  case (Cons c bs)
  have "(of_char c :: nat) div 16 < 16" "(of_char c :: nat) mod 16 < 16"
    using of_char_lt [of c] by linarith simp
  moreover have "16 * ((of_char c :: nat) div 16) + of_char c mod 16 = of_char c"
    by simp
  ultimately show ?case using Cons by (simp del: mult_div_mod_eq)
qed simp

lemma length_hex_encode [simp]: "length (hex_encode bs) = 2 * length bs"
  by (induction bs) auto

lemma hex_encode_inject [simp]: "hex_encode a = hex_encode b \<longleftrightarrow> a = b"
  by (metis hex_decode_encode option.inject)

section \<open>Big-endian integers\<close>

fun be_bytes :: "nat \<Rightarrow> nat \<Rightarrow> bytes" where
  "be_bytes 0 n = []"
| "be_bytes (Suc k) n = be_bytes k (n div 256) @ [char_of (n mod 256)]"

definition be_val :: "bytes \<Rightarrow> nat" where
  "be_val bs = foldl (\<lambda>a c. 256 * a + of_char c) 0 bs"

definition be64 :: "u64 \<Rightarrow> bytes" where
  "be64 w = be_bytes 8 (unat w)"

definition be32 :: "u32 \<Rightarrow> bytes" where
  "be32 w = be_bytes 4 (unat w)"

lemma length_be_bytes [simp]: "length (be_bytes k n) = k"
  by (induction k arbitrary: n) auto

lemma be_val_bytes: "be_val (be_bytes k n) = n mod 256 ^ k"
proof (induction k arbitrary: n)
  case (Suc k)
  have "be_val (be_bytes (Suc k) n) = 256 * be_val (be_bytes k (n div 256)) + n mod 256"
    by (simp add: be_val_def)
  also have "\<dots> = 256 * (n div 256 mod 256 ^ k) + n mod 256"
    by (simp only: Suc.IH)
  also have "\<dots> = n mod (256 * 256 ^ k)"
    by (simp only: mod_mult2_eq)
  finally show ?case by simp
qed (simp add: be_val_def)

lemma length_be64 [simp]: "length (be64 w) = 8"
  by (simp add: be64_def)

lemma length_be32 [simp]: "length (be32 w) = 4"
  by (simp add: be32_def)

lemma be64_inject [simp]: "be64 a = be64 b \<longleftrightarrow> a = b"
proof
  assume "be64 a = be64 b"
  then have "unat a mod 256 ^ 8 = unat b mod 256 ^ 8"
    by (metis be64_def be_val_bytes)
  moreover have "unat a < 2 ^ 64" "unat b < 2 ^ 64"
    using unsigned_less [of a] unsigned_less [of b] by simp_all
  ultimately show "a = b" by (simp add: word_unat_eq_iff)
qed simp

lemma be32_inject [simp]: "be32 a = be32 b \<longleftrightarrow> a = b"
proof
  assume "be32 a = be32 b"
  then have "unat a mod 256 ^ 4 = unat b mod 256 ^ 4"
    by (metis be32_def be_val_bytes)
  moreover have "unat a < 2 ^ 32" "unat b < 2 ^ 32"
    using unsigned_less [of a] unsigned_less [of b] by simp_all
  ultimately show "a = b" by (simp add: word_unat_eq_iff)
qed simp

text \<open>The leading byte of a small big-endian count is zero.\<close>

lemma hd_be_bytes: "hd (be_bytes (Suc k) n) = char_of (n div 256 ^ k mod 256)"
proof (induction k arbitrary: n)
  case (Suc k)
  have "be_bytes (Suc k) (n div 256) \<noteq> []"
    by (metis length_be_bytes list.size(3) nat.distinct(1))
  then have "hd (be_bytes (Suc (Suc k)) n) = hd (be_bytes (Suc k) (n div 256))"
    by (metis be_bytes.simps(2) hd_append2)
  also have "\<dots> = char_of (n div 256 ^ Suc k mod 256)"
    by (simp only: Suc.IH div_mult2_eq [symmetric] power_Suc)
  finally show ?case .
qed simp

lemma hd_be32_small: "unat w < 2 ^ 24 \<Longrightarrow> hd (be32 w) = CHR 0x00"
  using hd_be_bytes [of 3 "unat w"] by (simp add: be32_def numeral_eq_Suc [of num.One] char_of_def)

section \<open>Decimal integers\<close>

definition dec_digit :: "nat \<Rightarrow> char" where
  "dec_digit n = char_of (48 + n)"

fun dec :: "nat \<Rightarrow> string" where
  "dec n = (if n < 10 then [dec_digit n] else dec (n div 10) @ [dec_digit (n mod 10)])"

declare dec.simps [simp del]

definition dec_int :: "int \<Rightarrow> string" where
  "dec_int i = (if i < 0 then CHR ''-'' # dec (nat (- i)) else dec (nat i))"

definition is_digit :: "char \<Rightarrow> bool" where
  "is_digit c \<longleftrightarrow> 48 \<le> (of_char c :: nat) \<and> (of_char c :: nat) \<le> 57"

definition dec_val :: "string \<Rightarrow> nat" where
  "dec_val s = foldl (\<lambda>a c. 10 * a + (of_char c - 48)) 0 s"

text \<open>\<open>strconv.ParseUint(s, 10, 64)\<close>: digits only, not empty, and below \<open>2^64\<close>.\<close>

definition parse_uint :: "string \<Rightarrow> u64 option" where
  "parse_uint s =
     (if s = [] \<or> \<not> list_all is_digit s \<or> 2 ^ 64 \<le> dec_val s then None
      else Some (of_nat (dec_val s)))"

lemma of_char_dec_digit [simp]: "n < 10 \<Longrightarrow> (of_char (dec_digit n) :: nat) = 48 + n"
  by (simp add: dec_digit_def)

lemma is_digit_dec_digit [simp]: "n < 10 \<Longrightarrow> is_digit (dec_digit n)"
  by (simp add: is_digit_def)

lemma dec_digits: "list_all is_digit (dec n)"
proof (induction n rule: dec.induct)
  case (1 n)
  then show ?case by (subst dec.simps) simp
qed

lemma dec_nonempty [simp]: "dec n \<noteq> []"
  by (subst dec.simps) simp

lemma dec_val_snoc: "dec_val (s @ [c]) = 10 * dec_val s + (of_char c - 48)"
  by (simp add: dec_val_def)

lemma dec_val_dec [simp]: "dec_val (dec n) = n"
proof (induction n rule: dec.induct)
  case (1 n)
  show ?case
  proof (cases "n < 10")
    case True
    then show ?thesis by (subst dec.simps) (simp add: dec_val_def)
  next
    case False
    with 1 have "dec_val (dec (n div 10)) = n div 10" by blast
    moreover have "10 * (n div 10) + n mod 10 = n" by simp
    ultimately show ?thesis
      using False by (subst dec.simps) (simp add: dec_val_snoc del: mult_div_mod_eq)
  qed
qed

lemma dec_inject [simp]: "dec m = dec n \<longleftrightarrow> m = n"
  by (metis dec_val_dec)

lemma parse_uint_dec: "n < 2 ^ 64 \<Longrightarrow> parse_uint (dec n) = Some (of_nat n)"
  by (simp add: parse_uint_def dec_digits)

section \<open>Strings\<close>

definition has_prefix :: "string \<Rightarrow> string \<Rightarrow> bool" where
  "has_prefix s p \<longleftrightarrow> take (length p) s = p"

text \<open>The UTF-8 encodings of every character for which \<open>unicode.IsSpace\<close> holds.\<close>

definition go_spaces :: "string list" where
  "go_spaces = map (map char_of)
     ([[9], [10], [11], [12], [13], [32], [194, 133], [194, 160], [225, 154, 128],
       [226, 128, 168], [226, 128, 169], [226, 128, 175], [226, 129, 159], [227, 128, 128]]
      @ map (\<lambda>n. [226, 128, n]) [128 ..< 139 :: nat])"

lemma find_prefix_shorter:
  assumes "find (\<lambda>sp. sp \<noteq> [] \<and> has_prefix s sp) sps = Some sp"
  shows "length s - length sp < length s"
proof -
  from assms have sp: "sp \<noteq> []" "take (length sp) s = sp"
    by (auto simp: find_Some_iff has_prefix_def)
  then have "s \<noteq> []" by auto
  with sp(1) show ?thesis by (cases s; cases sp) auto
qed

lemma find_suffix_shorter:
  assumes "find (\<lambda>sp. sp \<noteq> [] \<and> has_prefix (rev s) (rev sp)) sps = Some sp"
  shows "length s - length sp < length s"
proof -
  from assms have sp: "sp \<noteq> []" "take (length sp) (rev s) = rev sp"
    by (auto simp: find_Some_iff has_prefix_def)
  then have "s \<noteq> []" by auto
  with sp(1) show ?thesis by (cases s; cases sp) auto
qed

function trim_left :: "string \<Rightarrow> string" where
  "trim_left s =
     (case find (\<lambda>sp. sp \<noteq> [] \<and> has_prefix s sp) go_spaces of
        None \<Rightarrow> s
      | Some sp \<Rightarrow> trim_left (drop (length sp) s))"
  by pat_completeness auto
termination
  by (relation "measure length") (auto dest: find_prefix_shorter)

declare trim_left.simps [simp del]

function trim_right :: "string \<Rightarrow> string" where
  "trim_right s =
     (case find (\<lambda>sp. sp \<noteq> [] \<and> has_prefix (rev s) (rev sp)) go_spaces of
        None \<Rightarrow> s
      | Some sp \<Rightarrow> trim_right (take (length s - length sp) s))"
  by pat_completeness auto
termination
  by (relation "measure length") (auto dest: find_suffix_shorter)

declare trim_right.simps [simp del]

definition trim_space :: "string \<Rightarrow> string" where
  "trim_space s = trim_right (trim_left s)"

text \<open>\<open>strings.SplitN(s, ".", 2)\<close>: the part before the first separator, and the rest if there is one.\<close>

definition split_dot :: "string \<Rightarrow> string \<times> string option" where
  "split_dot s = (takeWhile (\<lambda>c. c \<noteq> CHR ''.'') s,
     (case dropWhile (\<lambda>c. c \<noteq> CHR ''.'') s of [] \<Rightarrow> None | _ # r \<Rightarrow> Some r))"

text \<open>\<open>sort.Strings\<close> is a stable or unstable sort by byte order; equal strings are equal bytes.\<close>

definition sort_strings :: "string list \<Rightarrow> string list" where
  "sort_strings = sort"

end
