(* ===== verification/Transaction.thy ===== *)
theory Transaction
  imports Go_Lib
begin

text \<open>
  The data of \<open>core/transaction.go\<close>, \<open>core/asset.go\<close>, \<open>core/name.go\<close> and \<open>core/block.go\<close>, the
  process-wide configuration of \<open>core/network.go\<close>, \<open>core/upgrade.go\<close> and \<open>core/checkpoint.go\<close>,
  the classification predicates of a transaction, and the canonical encoding of
  \<open>core/codec.go\<close> with the hash and the size taken over it.
\<close>

section \<open>Data\<close>

record tx_output =
  out_to :: string
  out_amount :: u64

record asset_issue =
  iss_ticker :: string
  iss_supply :: u64
  iss_metadata :: string

record asset_op =
  aop_op :: string
  aop_amount :: u64
  aop_ticker :: string
  aop_issue_nonce :: u64

record name_op =
  nop_op :: string
  nop_name :: string
  nop_target :: string
  nop_periods :: u32

record multisig_script =
  ms_threshold :: int
  ms_pubkeys :: "string list"

record script_auth =
  sc_script :: string
  sc_args :: "string list"

record htlc_script =
  htlc_hash :: string
  htlc_recipient :: string
  htlc_sender :: string
  htlc_timeout :: u64

record vault_script =
  vault_hot :: string
  vault_cold :: string
  vault_unlock :: u64

text \<open>A Go pointer to a struct that may be \<open>nil\<close> is an option.\<close>

record transaction =
  tx_from :: string
  tx_to :: string
  tx_amount :: u64
  tx_fee :: u64
  tx_nonce :: u64
  tx_expiry :: u64
  tx_lock_until :: u64
  tx_memo :: string
  tx_outputs :: "tx_output list"
  tx_asset_id :: string
  tx_issue :: "asset_issue option"
  tx_asset_op :: "asset_op option"
  tx_name :: "name_op option"
  tx_pubkey :: string
  tx_signature :: string
  tx_multisig :: "multisig_script option"
  tx_signatures :: "string list"
  tx_script :: "script_auth option"
  tx_htlc :: "htlc_script option"
  tx_preimage :: string
  tx_vault :: "vault_script option"
  tx_fee_payer :: string
  tx_fee_payer_pubkey :: string
  tx_fee_payer_sig :: string

text \<open>The zero value of the Go struct.\<close>

definition zero_tx :: transaction where
  "zero_tx = \<lparr>tx_from = [], tx_to = [], tx_amount = 0, tx_fee = 0, tx_nonce = 0, tx_expiry = 0,
     tx_lock_until = 0, tx_memo = [], tx_outputs = [], tx_asset_id = [], tx_issue = None,
     tx_asset_op = None, tx_name = None, tx_pubkey = [], tx_signature = [], tx_multisig = None,
     tx_signatures = [], tx_script = None, tx_htlc = None, tx_preimage = [], tx_vault = None,
     tx_fee_payer = [], tx_fee_payer_pubkey = [], tx_fee_payer_sig = []\<rparr>"

record block =
  blk_version :: u32
  blk_index :: u64
  blk_timestamp :: int
  blk_transactions :: "transaction list"
  blk_prev_hash :: string
  blk_merkle_root :: string
  blk_state_root :: string
  blk_base_fee :: u64
  blk_bits :: u32
  blk_nonce :: u64
  blk_hash :: string
  blk_filter_root :: string
  blk_history_root :: string

text \<open>
  What the process holds outside a chain: the cryptographic primitives the sources import
  (\<open>crypto/sha256\<close> as \<open>sha256\<close>, \<open>crypto/ed25519\<close> as \<open>ed25519_verify\<close>, taking the raw public key,
  the message and the raw signature), the id of the selected network, the retarget switch,
  the activation heights installed with \<open>SetUpgradeHeight\<close> and the pinned checkpoints. Theorems
  that need a property of a primitive name it as a hypothesis.
\<close>

record config =
  sha256 :: "bytes \<Rightarrow> bytes"
  ed25519_verify :: "bytes \<Rightarrow> bytes \<Rightarrow> bytes \<Rightarrow> bool"
  network_id :: string
  no_retarget :: bool
  upgrades :: "(string, u64) fmap"
  checkpoints :: "(u64, string) fmap"

section \<open>Upgrades\<close>

definition UpgradeDustLimit :: string where "UpgradeDustLimit = ''dustlimit''"
definition UpgradeMultiOutput :: string where "UpgradeMultiOutput = ''multioutput''"
definition UpgradeVault :: string where "UpgradeVault = ''vault''"
definition UpgradeFeeSponsor :: string where "UpgradeFeeSponsor = ''feesponsor''"
definition UpgradeCheckedAddresses :: string where "UpgradeCheckedAddresses = ''checkedaddresses''"
definition UpgradeUniqueCoinbase :: string where "UpgradeUniqueCoinbase = ''uniquecoinbase''"
definition UpgradeAssetOps :: string where "UpgradeAssetOps = ''assetops''"
definition UpgradeNonFungible :: string where "UpgradeNonFungible = ''nonfungible''"
definition UpgradeScript :: string where "UpgradeScript = ''script''"
definition UpgradeNameService :: string where "UpgradeNameService = ''nameservice''"
definition UpgradeFilterCommit :: string where "UpgradeFilterCommit = ''filtercommit''"
definition UpgradeHistoryRoot :: string where "UpgradeHistoryRoot = ''historyroot''"

definition SetUpgradeHeight :: "string \<Rightarrow> u64 \<Rightarrow> config \<Rightarrow> config" where
  "SetUpgradeHeight name h cfg = cfg\<lparr>upgrades := fmupd name h (upgrades cfg)\<rparr>"

definition ClearUpgradeHeight :: "string \<Rightarrow> config \<Rightarrow> config" where
  "ClearUpgradeHeight name cfg = cfg\<lparr>upgrades := fmdrop name (upgrades cfg)\<rparr>"

definition IsUpgradeActive :: "config \<Rightarrow> string \<Rightarrow> u64 \<Rightarrow> bool" where
  "IsUpgradeActive cfg name blockHeight =
     (case fmlookup (upgrades cfg) name of None \<Rightarrow> False | Some h \<Rightarrow> h \<le> blockHeight)"

section \<open>Classification of a transaction\<close>

definition CoinbaseSender :: string where "CoinbaseSender = ''COINBASE''"

definition IsCoinbase :: "transaction \<Rightarrow> bool" where
  "IsCoinbase t \<longleftrightarrow> tx_from t = CoinbaseSender"

definition IsMultiOutput :: "transaction \<Rightarrow> bool" where
  "IsMultiOutput t \<longleftrightarrow> 0 < length (tx_outputs t)"

definition IsNameOp :: "transaction \<Rightarrow> bool" where
  "IsNameOp t \<longleftrightarrow> tx_name t \<noteq> None"

definition IsIssue :: "transaction \<Rightarrow> bool" where
  "IsIssue t \<longleftrightarrow> tx_issue t \<noteq> None"

definition IsAssetOp :: "transaction \<Rightarrow> bool" where
  "IsAssetOp t \<longleftrightarrow> tx_asset_op t \<noteq> None"

definition IsAssetTransfer :: "transaction \<Rightarrow> bool" where
  "IsAssetTransfer t \<longleftrightarrow> tx_asset_id t \<noteq> [] \<and> tx_issue t = None \<and> tx_asset_op t = None"

definition IsMultisig :: "transaction \<Rightarrow> bool" where
  "IsMultisig t \<longleftrightarrow> tx_multisig t \<noteq> None"

definition IsHTLC :: "transaction \<Rightarrow> bool" where
  "IsHTLC t \<longleftrightarrow> tx_htlc t \<noteq> None"

definition IsVault :: "transaction \<Rightarrow> bool" where
  "IsVault t \<longleftrightarrow> tx_vault t \<noteq> None"

definition IsScript :: "transaction \<Rightarrow> bool" where
  "IsScript t \<longleftrightarrow> tx_script t \<noteq> None"

definition IsSponsored :: "transaction \<Rightarrow> bool" where
  "IsSponsored t \<longleftrightarrow> tx_fee_payer t \<noteq> []"

definition IsExpiredAt :: "transaction \<Rightarrow> u64 \<Rightarrow> bool" where
  "IsExpiredAt t height \<longleftrightarrow> tx_expiry t \<noteq> 0 \<and> tx_expiry t < height"

definition IsLockedAt :: "transaction \<Rightarrow> u64 \<Rightarrow> bool" where
  "IsLockedAt t height \<longleftrightarrow> tx_lock_until t \<noteq> 0 \<and> height < tx_lock_until t"

definition HTLCRefundNotReady :: "transaction \<Rightarrow> u64 \<Rightarrow> bool" where
  "HTLCRefundNotReady t height =
     (case tx_htlc t of None \<Rightarrow> False
      | Some s \<Rightarrow> tx_preimage t = [] \<and> height < htlc_timeout s)"

definition IsNonFungible :: "asset_issue option \<Rightarrow> bool" where
  "IsNonFungible a = (case a of None \<Rightarrow> False | Some i \<Rightarrow> iss_metadata i \<noteq> [])"

text \<open>
  \<open>TotalOut\<close> returns the sum and whether it did not overflow; \<^term>\<open>None\<close> is the overflow.
\<close>

fun sum_outputs :: "u64 \<Rightarrow> tx_output list \<Rightarrow> u64 option" where
  "sum_outputs tot [] = Some tot"
| "sum_outputs tot (out # outs) =
     (if tot + out_amount out < tot then None else sum_outputs (tot + out_amount out) outs)"

definition TotalOut :: "transaction \<Rightarrow> u64 option" where
  "TotalOut t = (if \<not> IsMultiOutput t then Some (tx_amount t) else sum_outputs 0 (tx_outputs t))"

definition outputs :: "transaction \<Rightarrow> tx_output list" where
  "outputs t = (if IsMultiOutput t then tx_outputs t
     else [\<lparr>out_to = tx_to t, out_amount = tx_amount t\<rparr>])"

definition coinAmounts :: "transaction \<Rightarrow> u64 list" where
  "coinAmounts t = map out_amount (outputs t)"

section \<open>Canonical encoding\<close>

definition txCodecVersion :: bytes where "txCodecVersion = [CHR 0x01]"

definition c_str :: "string \<Rightarrow> bytes" where
  "c_str s = be32 (of_nat (length s)) @ s"

definition c_strs :: "string list \<Rightarrow> bytes" where
  "c_strs ss = be32 (of_nat (length ss)) @ concat (map c_str ss)"

definition c_output :: "tx_output \<Rightarrow> bytes" where
  "c_output out = c_str (out_to out) @ be64 (out_amount out)"

text \<open>\<open>signedFields\<close>: the fixed part, then each optional block only when it is present.\<close>

definition signed_fixed :: "transaction \<Rightarrow> bytes" where
  "signed_fixed t =
     c_str (tx_from t) @ c_str (tx_to t) @ be64 (tx_amount t) @ be64 (tx_fee t) @
     be64 (tx_nonce t) @ be64 (tx_expiry t) @ be64 (tx_lock_until t) @ c_str (tx_asset_id t) @
     (case tx_issue t of None \<Rightarrow> [CHR 0x00]
      | Some i \<Rightarrow> CHR 0x01 # c_str (iss_ticker i) @ be64 (iss_supply i)) @
     c_str (tx_memo t)"

definition signed_network :: "config \<Rightarrow> bytes" where
  "signed_network cfg = (if network_id cfg \<noteq> [] then CHR 0x01 # c_str (network_id cfg) else [])"

definition signed_outputs :: "transaction \<Rightarrow> bytes" where
  "signed_outputs t = (if 0 < length (tx_outputs t)
     then be32 (of_nat (length (tx_outputs t))) @ concat (map c_output (tx_outputs t)) else [])"

definition signed_fee_payer :: "transaction \<Rightarrow> bytes" where
  "signed_fee_payer t = (if tx_fee_payer t \<noteq> [] then CHR 0x02 # c_str (tx_fee_payer t) else [])"

definition signed_asset_op :: "transaction \<Rightarrow> bytes" where
  "signed_asset_op t = (case tx_asset_op t of None \<Rightarrow> []
     | Some a \<Rightarrow> CHR 0x05 # c_str (aop_op a) @ be64 (aop_amount a) @ c_str (aop_ticker a) @
         be64 (aop_issue_nonce a))"

definition signed_nft :: "transaction \<Rightarrow> bytes" where
  "signed_nft t = (case tx_issue t of None \<Rightarrow> []
     | Some i \<Rightarrow> if iss_metadata i \<noteq> [] then CHR 0x06 # c_str (iss_metadata i) else [])"

definition signed_name :: "transaction \<Rightarrow> bytes" where
  "signed_name t = (case tx_name t of None \<Rightarrow> []
     | Some n \<Rightarrow> CHR 0x07 # c_str (nop_op n) @ c_str (nop_name n) @ c_str (nop_target n) @
         be64 (ucast (nop_periods n)))"

definition signedFields :: "config \<Rightarrow> transaction \<Rightarrow> bytes" where
  "signedFields cfg t = signed_fixed t @ signed_network cfg @ signed_outputs t @
     signed_fee_payer t @ signed_asset_op t @ signed_nft t @ signed_name t"

definition canonicalSigningBytes :: "config \<Rightarrow> transaction \<Rightarrow> bytes" where
  "canonicalSigningBytes cfg t = txCodecVersion @ signedFields cfg t"

definition authFields :: "transaction \<Rightarrow> bytes" where
  "authFields t =
     c_str (tx_pubkey t) @ c_str (tx_signature t) @
     (case tx_multisig t of None \<Rightarrow> [CHR 0x00]
      | Some m \<Rightarrow> CHR 0x01 # be64 (word_of_int (ms_threshold m)) @ c_strs (ms_pubkeys m)) @
     c_strs (tx_signatures t) @
     (case tx_htlc t of None \<Rightarrow> [CHR 0x00]
      | Some s \<Rightarrow> CHR 0x01 # c_str (htlc_hash s) @ c_str (htlc_recipient s) @
          c_str (htlc_sender s) @ be64 (htlc_timeout s)) @
     c_str (tx_preimage t) @
     (if tx_fee_payer t \<noteq> []
      then CHR 0x03 # c_str (tx_fee_payer_pubkey t) @ c_str (tx_fee_payer_sig t) else []) @
     (case tx_vault t of None \<Rightarrow> []
      | Some v \<Rightarrow> CHR 0x04 # c_str (vault_hot v) @ c_str (vault_cold v) @ be64 (vault_unlock v)) @
     (case tx_script t of None \<Rightarrow> []
      | Some s \<Rightarrow> CHR 0x08 # c_str (sc_script s) @ c_strs (sc_args s))"

definition canonicalBytes :: "config \<Rightarrow> transaction \<Rightarrow> bytes" where
  "canonicalBytes cfg t = txCodecVersion @ signedFields cfg t @ authFields t"

definition signingBytes :: "config \<Rightarrow> transaction \<Rightarrow> bytes" where
  "signingBytes cfg t = canonicalSigningBytes cfg t"

definition hashBytes :: "config \<Rightarrow> bytes \<Rightarrow> string" where
  "hashBytes cfg b = hex_encode (sha256 cfg b)"

definition tx_hash :: "config \<Rightarrow> transaction \<Rightarrow> string" where
  "tx_hash cfg t = hex_encode (sha256 cfg (canonicalBytes cfg t))"

definition tx_size :: "config \<Rightarrow> transaction \<Rightarrow> nat" where
  "tx_size cfg t = length (canonicalBytes cfg t)"

definition NewCoinbase :: "string \<Rightarrow> u64 \<Rightarrow> transaction" where
  "NewCoinbase rcpt amount =
     zero_tx\<lparr>tx_from := CoinbaseSender, tx_to := rcpt, tx_amount := amount\<rparr>"

definition NewCoinbaseAt :: "config \<Rightarrow> string \<Rightarrow> u64 \<Rightarrow> u64 \<Rightarrow> transaction" where
  "NewCoinbaseAt cfg rcpt amount height =
     (let cb = NewCoinbase rcpt amount in
      if IsUpgradeActive cfg UpgradeUniqueCoinbase height then cb\<lparr>tx_nonce := height\<rparr> else cb)"

end
