(* ===== verification/Params.thy ===== *)
theory Params
  imports Transaction
begin

text \<open>
  \<open>core/params.go\<close> and the issuance schedule of \<open>core/supply.go\<close>: the monetary constants, the
  block subsidy, the per-byte base fee of a transaction, the tips and the coinbase amount, the
  decimal rendering of amounts and its parser, and the cumulative subsidy. The lemmas show that
  the epoch walk of \<open>CumulativeSubsidy\<close> is the sum of all subsidies, that it never exceeds twice
  the first epoch, and that parsing undoes rendering.
\<close>

section \<open>Constants\<close>

definition Coin :: u64 where "Coin = 100000000"
definition InitialBlockReward :: u64 where "InitialBlockReward = 50 * Coin"
definition HalvingInterval :: u64 where "HalvingInterval = 210000"
definition TargetBlockTime :: int where "TargetBlockTime = 60"
definition CoinbaseMaturity :: u64 where "CoinbaseMaturity = 3"
definition MaxReorgDepth :: nat where "MaxReorgDepth = 100"
definition MaxBlockTxs :: nat where "MaxBlockTxs = 1000"
definition MaxBlockBytes :: nat where "MaxBlockBytes = 1000000"
definition MaxBlockVerifyOps :: nat where "MaxBlockVerifyOps = 8000"
definition MaxTxOutputs :: nat where "MaxTxOutputs = 64"
definition MaxMemoBytes :: nat where "MaxMemoBytes = 256"
definition MaxAddressBytes :: nat where "MaxAddressBytes = 90"
definition MaxCoinbaseBytes :: nat where "MaxCoinbaseBytes = 1024"
definition DustThreshold :: u64 where "DustThreshold = 1000"
definition MaxFutureDrift :: int where "MaxFutureDrift = 120"
definition InitialBaseFee :: u64 where "InitialBaseFee = 10"
definition MinBaseFee :: u64 where "MinBaseFee = 1"
definition BaseFeeTargetTxs :: nat where "BaseFeeTargetTxs = MaxBlockTxs div 2"
definition BaseFeeMaxChangeDenominator :: u64 where "BaseFeeMaxChangeDenominator = 8"
definition GenesisTimestamp :: int where "GenesisTimestamp = 1735689600"
definition GenesisPrevHash :: string where "GenesisPrevHash = ''0''"

lemmas amount_consts = Coin_def InitialBlockReward_def HalvingInterval_def

section \<open>Subsidy, base fee and tips\<close>

definition BlockReward :: "u64 \<Rightarrow> u64" where
  "BlockReward height = (let halvings = height div HalvingInterval in
     if 64 \<le> halvings then 0 else drop_bit (unat halvings) InitialBlockReward)"

definition BaseFeeFor :: "config \<Rightarrow> transaction \<Rightarrow> u64 \<Rightarrow> u64" where
  "BaseFeeFor cfg tx baseFee = baseFee * of_nat (tx_size cfg tx)"

definition Tips :: "config \<Rightarrow> transaction list \<Rightarrow> u64 \<Rightarrow> u64" where
  "Tips cfg txs baseFee = foldl (\<lambda>tips tx. let m = BaseFeeFor cfg tx baseFee in
     if m < tx_fee tx then tips + (tx_fee tx - m) else tips) 0 txs"

definition CoinbaseAmount :: "config \<Rightarrow> u64 \<Rightarrow> transaction list \<Rightarrow> u64 \<Rightarrow> u64" where
  "CoinbaseAmount cfg height txs baseFee = BlockReward height + Tips cfg txs baseFee"

section \<open>Rendering and parsing amounts\<close>

definition pad8 :: "string \<Rightarrow> string" where
  "pad8 s = replicate (8 - length s) (CHR ''0'') @ s"

definition FormatAmount :: "u64 \<Rightarrow> string" where
  "FormatAmount units =
     dec (unat (units div Coin)) @ ''.'' @ pad8 (dec (unat (units mod Coin))) @ '' DNAS''"

datatype amount_error = InvalidAmount string | InvalidFraction string

definition pad_fraction :: "string \<Rightarrow> string" where
  "pad_fraction f = (let g = (if 8 < length f then take 8 f else f)
     in g @ replicate (8 - length g) (CHR ''0''))"

definition ParseAmount :: "string \<Rightarrow> amount_error + u64" where
  "ParseAmount str = (let s = trim_space str; (w, rest) = split_dot s in
     case parse_uint w of
       None \<Rightarrow> Inl (InvalidAmount s)
     | Some whole \<Rightarrow>
         (case rest of
            Some f \<Rightarrow> if f = [] then Inr (whole * Coin + 0)
              else (case parse_uint (pad_fraction f) of
                  None \<Rightarrow> Inl (InvalidFraction s)
                | Some fr \<Rightarrow> Inr (whole * Coin + fr))
          | None \<Rightarrow> Inr (whole * Coin + 0)))"

section \<open>The issuance schedule\<close>

text \<open>
  The loop of \<open>CumulativeSubsidy\<close>. Every iteration that continues moves \<open>h\<close> to the end of its
  epoch, capped at \<open>height + 1\<close>; it stops when the subsidy is zero. Heights at which
  \<open>height + 1\<close> wraps are excluded by the guard \<open>h < epochEnd\<close>: the Go loop would not terminate
  there, and no chain reaches height \<open>2^64 - 1\<close>.
\<close>

definition epoch_end :: "u64 \<Rightarrow> u64 \<Rightarrow> u64" where
  "epoch_end h height = (let e = (h div HalvingInterval + 1) * HalvingInterval in
     if height + 1 < e then height + 1 else e)"

function cumulative_from :: "u64 \<Rightarrow> u64 \<Rightarrow> u64 \<Rightarrow> u64 option" where
  "cumulative_from h height tot =
     (if height < h then Some tot
      else if BlockReward h = 0 then Some tot
      else if epoch_end h height \<le> h then None
      else cumulative_from (epoch_end h height) height
             (tot + BlockReward h * (epoch_end h height - h)))"
  by pat_completeness auto
termination
proof (relation "measure (\<lambda>(h, height, tot). 2 ^ 64 - unat h)")
  fix h height tot :: u64
  assume "\<not> epoch_end h height \<le> h"
  moreover have "unat (epoch_end h height) < 2 ^ 64"
    using unsigned_less [of "epoch_end h height"] by simp
  ultimately show "((epoch_end h height, height, tot + BlockReward h * (epoch_end h height - h)),
      h, height, tot) \<in> measure (\<lambda>(h, height, tot). 2 ^ 64 - unat h)"
    by (auto simp: word_le_nat_alt intro!: diff_less_mono2)
qed simp

declare cumulative_from.simps [simp del]

definition CumulativeSubsidy :: "u64 \<Rightarrow> u64 option" where
  "CumulativeSubsidy height = cumulative_from 1 height 0"

section \<open>Lemmas on the schedule\<close>

definition reward_at :: "nat \<Rightarrow> nat" where
  "reward_at n = 5000000000 div 2 ^ (n div 210000)"

lemma unat_BlockReward: "unat (BlockReward h) = reward_at (unat h)"
proof -
  have q: "unat (h div HalvingInterval) = unat h div 210000"
    by (simp add: HalvingInterval_def unat_div)
  show ?thesis
  proof (cases "64 \<le> h div HalvingInterval")
    case True
    then have ge: "64 \<le> unat h div 210000"
      using q by (simp add: word_le_nat_alt)
    have "(5000000000 :: nat) < 2 ^ 64" by simp
    also have "\<dots> \<le> 2 ^ (unat h div 210000)"
      using ge by (intro power_increasing) simp_all
    finally show ?thesis
      using True by (simp add: BlockReward_def reward_at_def)
  next
    case False
    have "unat (drop_bit k InitialBlockReward) = drop_bit k 5000000000" for k
      by (simp add: amount_consts unsigned_drop_bit_eq)
    then show ?thesis
      using False q by (simp add: BlockReward_def reward_at_def Let_def drop_bit_eq_div)
  qed
qed

lemma reward_at_antimono: "m \<le> n \<Longrightarrow> reward_at n \<le> reward_at m"
  unfolding reward_at_def by (intro div_le_mono2 power_increasing div_le_mono) simp_all

lemma sum_halvings: "(\<Sum>k<m. a div 2 ^ k) + 2 * (a div 2 ^ m) \<le> 2 * (a :: nat)"
proof (induction m)
  case (Suc m)
  have "2 * (a div 2 ^ Suc m) \<le> a div 2 ^ m"
    by (metis power_Suc2 div_mult2_eq times_div_less_eq_dividend)
  with Suc show ?case by simp
qed simp

lemma reward_epoch: "(\<Sum>i = k * 210000..<k * 210000 + 210000. reward_at i) = 210000 * (5000000000 div 2 ^ k)"
proof -
  have "(\<Sum>i = k * 210000..<k * 210000 + 210000. reward_at i)
      = (\<Sum>i = k * 210000..<k * 210000 + 210000. 5000000000 div 2 ^ k)"
  proof (rule sum.cong [OF refl])
    fix i assume "i \<in> {k * 210000..<k * 210000 + 210000}"
    then have "i div 210000 = k"
      by (intro div_nat_eqI) simp_all
    then show "reward_at i = 5000000000 div 2 ^ k" by (simp add: reward_at_def)
  qed
  then show ?thesis by simp
qed

lemma sum_reward_bound: "(\<Sum>i<n. reward_at i) \<le> 2100000000000000"
proof -
  define m where "m = n div 210000 + 1"
  have "n < 210000 * m"
    using dividend_less_times_div [of 210000 n] by (simp add: m_def)
  then have "(\<Sum>i<n. reward_at i) \<le> (\<Sum>i<m * 210000. reward_at i)"
    by (intro sum_mono2) auto
  also have "\<dots> = (\<Sum>k<m. \<Sum>i = k * 210000..<k * 210000 + 210000. reward_at i)"
    by (simp add: sum.nat_group)
  also have "\<dots> = 210000 * (\<Sum>k<m. 5000000000 div 2 ^ k)"
    by (simp only: reward_epoch sum_distrib_left)
  also have "\<dots> \<le> 210000 * (2 * 5000000000)"
    using sum_halvings [of 5000000000 m] by (intro mult_left_mono) linarith+
  finally show ?thesis by simp
qed

lemma epoch_end_props:
  assumes "h \<le> height" "height < - 1" "BlockReward h \<noteq> 0"
  shows "h < epoch_end h height" "unat (epoch_end h height) \<le> Suc (unat height)"
    "\<And>i. unat h \<le> i \<Longrightarrow> i < unat (epoch_end h height) \<Longrightarrow> reward_at i = reward_at (unat h)"
proof -
  define q where "q = unat h div 210000"
  have lt: "unat h div 210000 < 64"
    using assms(3) by (auto simp: BlockReward_def Let_def HalvingInterval_def word_le_nat_alt
        unat_div split: if_splits)
  have uq: "unat (h div HalvingInterval) = q"
    by (simp add: HalvingInterval_def unat_div q_def)
  have e: "unat ((h div HalvingInterval + 1) * HalvingInterval) = (q + 1) * 210000"
    using lt uq by (simp add: unat_word_ariths HalvingInterval_def q_def)
  have "height \<noteq> - 1"
    using assms(2) by auto
  then have "1 + height \<noteq> 0"
    by (metis add.commute eq_neg_iff_add_eq_0)
  then have h1: "unat (height + 1) = Suc (unat height)"
    by (metis unatSuc add.commute)
  have ee: "unat (epoch_end h height) = min (Suc (unat height)) ((q + 1) * 210000)"
    using e h1 by (auto simp: epoch_end_def Let_def word_less_nat_alt)
  have "unat h < (q + 1) * 210000"
    using dividend_less_times_div [of 210000 "unat h"] by (simp add: q_def)
  then show "h < epoch_end h height"
    using ee assms(1) by (simp add: word_less_nat_alt word_le_nat_alt)
  show "unat (epoch_end h height) \<le> Suc (unat height)"
    using ee by simp
  show "reward_at i = reward_at (unat h)"
    if "unat h \<le> i" "i < unat (epoch_end h height)" for i
  proof -
    have "q * 210000 \<le> unat h" by (simp add: q_def)
    then have "i div 210000 = q"
      using that ee by (intro div_nat_eqI) simp_all
    then show ?thesis by (simp add: reward_at_def q_def)
  qed
qed

lemma cumulative_from_sum:
  assumes "height < - 1"
  shows "cumulative_from h height tot
    = Some (tot + of_nat (\<Sum>i = unat h..<Suc (unat height). reward_at i))"
  using assms
proof (induction h height tot rule: cumulative_from.induct)
  case (1 h height tot)
  let ?e = "epoch_end h height"
  consider "height < h" | "h \<le> height" "BlockReward h = 0" | "h \<le> height" "BlockReward h \<noteq> 0"
    by fastforce
  then show ?case
  proof cases
    case 1
    then show ?thesis
      by (subst cumulative_from.simps) (simp add: word_less_nat_alt)
  next
    case 2
    then have "reward_at (unat h) = 0"
      by (simp add: unat_BlockReward [symmetric])
    then have "reward_at i = 0" if "unat h \<le> i" for i
      using reward_at_antimono [OF that] by simp
    then have "(\<Sum>i = unat h..<Suc (unat height). reward_at i) = 0" by simp
    then show ?thesis
      using 2 by (subst cumulative_from.simps) (simp add: not_less)
  next
    case 3
    note ep = epoch_end_props [OF 3(1) "1.prems" 3(2)]
    have g: "\<not> height < h" "\<not> ?e \<le> h"
      using 3 ep(1) by auto
    have he: "unat h < unat ?e" using ep(1) by (simp add: word_less_nat_alt)
    have "(\<Sum>i = unat h..<Suc (unat height). reward_at i)
        = (\<Sum>i = unat h..<unat ?e. reward_at i) + (\<Sum>i = unat ?e..<Suc (unat height). reward_at i)"
      using he ep(2) by (intro sum.atLeastLessThan_concat [symmetric]) simp_all
    also have "(\<Sum>i = unat h..<unat ?e. reward_at i) = (\<Sum>i = unat h..<unat ?e. reward_at (unat h))"
      by (intro sum.cong refl ep(3)) auto
    also have "\<dots> = unat (BlockReward h) * (unat ?e - unat h)"
      by (simp add: unat_BlockReward)
    finally have nsum: "(\<Sum>i = unat h..<Suc (unat height). reward_at i)
        = unat (BlockReward h) * (unat ?e - unat h) + (\<Sum>i = unat ?e..<Suc (unat height). reward_at i)" .
    have split: "of_nat (\<Sum>i = unat h..<Suc (unat height). reward_at i)
        = BlockReward h * (?e - h) + of_nat (\<Sum>i = unat ?e..<Suc (unat height). reward_at i)"
      by (simp only: nsum of_nat_add of_nat_mult of_nat_diff [OF less_imp_le [OF he]] of_nat_unat)
    have "cumulative_from h height tot
        = cumulative_from ?e height (tot + BlockReward h * (?e - h))"
      using 3 g by (subst cumulative_from.simps) simp
    also have "\<dots> = Some (tot + BlockReward h * (?e - h)
        + of_nat (\<Sum>i = unat ?e..<Suc (unat height). reward_at i))"
      using "1.IH" [OF g(1) 3(2) g(2) "1.prems"] .
    finally show ?thesis
      by (simp only: split add.assoc)
  qed
qed

text \<open>
  The total subsidy of heights \<open>1 .. n\<close>, as a natural number: what \<open>CumulativeSubsidy\<close> computes
  epoch by epoch.
\<close>

definition minted_upto :: "nat \<Rightarrow> nat" where
  "minted_upto n = (\<Sum>i = 1..<Suc n. reward_at i)"

lemma minted_upto_0 [simp]: "minted_upto 0 = 0"
  by (simp add: minted_upto_def)

lemma minted_upto_Suc: "minted_upto (Suc n) = minted_upto n + reward_at (Suc n)"
  by (simp add: minted_upto_def)

lemma minted_upto_bound: "minted_upto n \<le> 2100000000000000"
proof -
  have "minted_upto n \<le> (\<Sum>i<Suc n. reward_at i)"
    unfolding minted_upto_def by (intro sum_mono2) auto
  also have "\<dots> \<le> 2100000000000000" by (rule sum_reward_bound)
  finally show ?thesis .
qed

lemma CumulativeSubsidy_minted:
  "height < - 1 \<Longrightarrow> CumulativeSubsidy height = Some (of_nat (minted_upto (unat height)))"
  by (simp only: CumulativeSubsidy_def cumulative_from_sum minted_upto_def unat_1 add_0)

text \<open>
  C28. The subsidy is capped: the closed form of the total subsidy through a height is the sum of the
  rewards of its blocks, without wrap-around, and never exceeds 21 million coin.
\<close>

theorem subsidy_capped:
  assumes "height < - 1"
  shows "\<exists>m. CumulativeSubsidy height = Some (of_nat m)
    \<and> m = (\<Sum>i = 1..unat height. unat (BlockReward (of_nat i)))
    \<and> m \<le> 21000000 * unat Coin"
proof -
  have "unat height < 2 ^ 64" using unsigned_less [of height] by simp
  then have "unat (BlockReward (of_nat i)) = reward_at i" if "i \<le> unat height" for i
    using that by (simp add: unat_BlockReward unat_of_nat)
  then have "(\<Sum>i = 1..unat height. unat (BlockReward (of_nat i))) = minted_upto (unat height)"
    unfolding minted_upto_def by (intro sum.cong) auto
  then show ?thesis
    using CumulativeSubsidy_minted [OF assms] minted_upto_bound [of "unat height"] by (simp add: Coin_def)
qed

theorem subsidy_capped_witness:
  "\<exists>m. CumulativeSubsidy 420000 = Some (of_nat m) \<and> m \<le> 21000000 * unat Coin"
proof -
  have "(420000 :: u64) < - 1" by (simp flip: word_order.not_eq_extremum)
  from subsidy_capped [OF this] show ?thesis by blast
qed

section \<open>Lemmas on amounts\<close>

lemma go_spaces_shape:
  "\<forall>sp \<in> set go_spaces. sp \<noteq> [] \<and> \<not> is_digit (hd sp) \<and> last sp \<noteq> CHR ''S''"
  by (simp add: go_spaces_def is_digit_def upt_rec char_of_def)

lemma has_prefix_hd: "has_prefix (c # s) sp \<Longrightarrow> sp \<noteq> [] \<Longrightarrow> hd sp = c"
  by (cases sp) (auto simp: has_prefix_def)

lemma trim_left_digit: "is_digit c \<Longrightarrow> trim_left (c # s) = c # s"
proof -
  assume c: "is_digit c"
  have "find (\<lambda>sp. sp \<noteq> [] \<and> has_prefix (c # s) sp) go_spaces = None"
    unfolding find_None_iff
  proof clarify
    fix sp assume "sp \<in> set go_spaces" "sp \<noteq> []" "has_prefix (c # s) sp"
    then show False using go_spaces_shape c has_prefix_hd by blast
  qed
  then show ?thesis by (subst trim_left.simps) simp
qed

lemma trim_right_S: "trim_right (s @ ''S'') = s @ ''S''"
proof -
  have "find (\<lambda>sp. sp \<noteq> [] \<and> has_prefix (rev (s @ ''S'')) (rev sp)) go_spaces = None"
    unfolding find_None_iff
  proof clarify
    fix sp assume sp: "sp \<in> set go_spaces" "sp \<noteq> []" "has_prefix (rev (s @ ''S'')) (rev sp)"
    then have "hd (rev sp) = CHR ''S''"
      by (intro has_prefix_hd [of _ "rev s"]) simp_all
    then have "last sp = CHR ''S''"
      by (simp add: hd_rev)
    with sp(1) go_spaces_shape show False by blast
  qed
  then show ?thesis by (subst trim_right.simps) simp
qed

lemma length_dec: "n < 10 ^ k \<Longrightarrow> 0 < k \<Longrightarrow> length (dec n) \<le> k"
proof (induction k arbitrary: n)
  case (Suc k)
  show ?case
  proof (cases "n < 10")
    case True
    then show ?thesis by (subst dec.simps) simp
  next
    case False
    then have "0 < k" using Suc.prems by (cases k) auto
    moreover have "n div 10 < 10 ^ k" using Suc.prems by simp
    ultimately have "length (dec (n div 10)) \<le> k" by (rule Suc.IH [rotated])
    then show ?thesis using False by (subst dec.simps) simp
  qed
qed simp

lemma dec_val_zeros: "dec_val (replicate k (CHR ''0'') @ s) = dec_val s"
  by (induction k) (simp_all add: dec_val_def)

lemma parse_uint_pad8: "n < 10 ^ 8 \<Longrightarrow> parse_uint (pad8 (dec n)) = Some (of_nat n)"
proof -
  assume n: "n < 10 ^ 8"
  have "list_all is_digit (pad8 (dec n))"
    using dec_digits [of n] by (auto simp: pad8_def list_all_iff is_digit_def)
  moreover have "pad8 (dec n) \<noteq> []" by (simp add: pad8_def)
  ultimately show ?thesis using n
    by (simp add: parse_uint_def pad8_def dec_val_zeros)
qed

lemma dec_no_dot: "takeWhile (\<lambda>c. c \<noteq> CHR ''.'') (dec n @ CHR ''.'' # r) = dec n"
  "dropWhile (\<lambda>c. c \<noteq> CHR ''.'') (dec n @ CHR ''.'' # r) = CHR ''.'' # r"
proof -
  have "\<forall>c \<in> set (dec n). c \<noteq> CHR ''.''"
    using dec_digits [of n] by (auto simp: list_all_iff is_digit_def)
  then show "takeWhile (\<lambda>c. c \<noteq> CHR ''.'') (dec n @ CHR ''.'' # r) = dec n"
    "dropWhile (\<lambda>c. c \<noteq> CHR ''.'') (dec n @ CHR ''.'' # r) = CHR ''.'' # r"
    by (simp_all add: takeWhile_append2 dropWhile_append2)
qed

lemma trim_FormatAmount: "trim_space (FormatAmount u) = FormatAmount u"
proof -
  obtain c s where cs: "dec (unat (u div Coin)) = c # s"
    by (cases "dec (unat (u div Coin))") simp_all
  then have c: "is_digit c"
    using dec_digits [of "unat (u div Coin)"] by simp
  have "trim_left (FormatAmount u) = FormatAmount u"
    by (simp add: FormatAmount_def cs trim_left_digit [OF c])
  moreover have "FormatAmount u = (dec (unat (u div Coin)) @ ''.'' @ pad8 (dec (unat (u mod Coin)))
      @ '' DNA'') @ ''S''"
    by (simp add: FormatAmount_def)
  ultimately show ?thesis by (metis trim_right_S trim_space_def)
qed

text \<open>
  Amounts survive printing: every amount of base units is printed in coin with eight decimals and
  parsed back to exactly itself.
\<close>

theorem amount_roundtrip: "ParseAmount (FormatAmount u) = Inr u"
proof -
  let ?w = "unat (u div Coin)" and ?f = "unat (u mod Coin)"
  have f: "?f < 10 ^ 8"
    by (simp add: unat_mod Coin_def)
  have w: "?w < 2 ^ 64"
    using unsigned_less [of "u div Coin"] by simp
  have len: "length (pad8 (dec ?f)) = 8"
    using length_dec [OF f] by (simp add: pad8_def)
  then have frac: "pad_fraction (pad8 (dec ?f) @ '' DNAS'') = pad8 (dec ?f)"
    by (simp add: pad_fraction_def Let_def)
  have "split_dot (FormatAmount u) = (dec ?w, Some (pad8 (dec ?f) @ '' DNAS''))"
    by (simp add: split_dot_def FormatAmount_def dec_no_dot)
  then have "ParseAmount (FormatAmount u) = Inr (of_nat ?w * Coin + of_nat ?f)"
    using parse_uint_dec [OF w] parse_uint_pad8 [OF f] frac
    by (simp add: ParseAmount_def trim_FormatAmount Let_def)
  then show ?thesis
    by (simp add: word_mod_div_equality)
qed

end
