(* ===== verification/Wallet.thy ===== *)
theory Wallet
  imports Params
begin

text \<open>
  Address derivation and signature checking of \<open>wallet/wallet.go\<close>, \<open>wallet/htlc.go\<close> and
  \<open>wallet/vault.go\<close>, over the two primitives \<open>sha256\<close> and \<open>ed25519_verify\<close> of the
  configuration. Keys and signatures travel in hexadecimal and are decoded before use.
\<close>

datatype addr_error =
    AddrPrefix | AddrNotHex | AddrWrongLength | AddrChecksum
  | BadPubKeyHex | BadPubKeyLength
  | TooManyMembers | BadThreshold | BadMemberKey | DuplicateMember
  | BadHtlcHash | BadRecipientKey | BadSenderKey
  | BadHotKey | BadColdKey | SameVaultKeys
  | ScriptNotHex | EmptyScript | ScriptLength

definition AddressPrefix :: string where "AddressPrefix = ''dnas''"
definition addressChecksumLen :: nat where "addressChecksumLen = 4"
definition addressBodyLen :: nat where "addressBodyLen = 20"
definition PublicKeySize :: nat where "PublicKeySize = 32"
definition SignatureSize :: nat where "SignatureSize = 64"
definition MaxMultisigKeys :: nat where "MaxMultisigKeys = 16"

definition addressChecksum :: "config \<Rightarrow> bytes \<Rightarrow> bytes" where
  "addressChecksum cfg body = take addressChecksumLen (sha256 cfg (AddressPrefix @ body))"

definition addressFromBody :: "config \<Rightarrow> bytes \<Rightarrow> string" where
  "addressFromBody cfg body = AddressPrefix @ hex_encode (body @ addressChecksum cfg body)"

definition AddressFromPubKey :: "config \<Rightarrow> bytes \<Rightarrow> string" where
  "AddressFromPubKey cfg pub = addressFromBody cfg (take 20 (sha256 cfg pub))"

definition AddressFromPubKeyHex :: "config \<Rightarrow> string \<Rightarrow> addr_error + string" where
  "AddressFromPubKeyHex cfg pubHex =
     (case hex_decode pubHex of
        None \<Rightarrow> Inl BadPubKeyHex
      | Some pub \<Rightarrow> if length pub \<noteq> PublicKeySize then Inl BadPubKeyLength
          else Inr (AddressFromPubKey cfg pub))"

definition ValidateAddress :: "config \<Rightarrow> string \<Rightarrow> addr_error option" where
  "ValidateAddress cfg addr =
     (if \<not> has_prefix addr AddressPrefix then Some AddrPrefix
      else case hex_decode (drop (length AddressPrefix) addr) of
        None \<Rightarrow> Some AddrNotHex
      | Some raw \<Rightarrow>
          if length raw \<noteq> addressBodyLen + addressChecksumLen then Some AddrWrongLength
          else if drop addressBodyLen raw \<noteq> addressChecksum cfg (take addressBodyLen raw)
          then Some AddrChecksum
          else None)"

text \<open>
  The loop of \<open>MultisigAddress\<close> over the sorted member keys: decode each, refuse a repeated
  spelling, and append the raw keys.
\<close>

fun multisig_members :: "string set \<Rightarrow> string list \<Rightarrow> addr_error + bytes" where
  "multisig_members seen [] = Inr []"
| "multisig_members seen (pk # pks) =
     (case hex_decode pk of
        None \<Rightarrow> Inl BadMemberKey
      | Some raw \<Rightarrow>
          if length raw \<noteq> PublicKeySize then Inl BadMemberKey
          else if pk \<in> seen then Inl DuplicateMember
          else (case multisig_members (insert pk seen) pks of
              Inl e \<Rightarrow> Inl e
            | Inr rest \<Rightarrow> Inr (raw @ rest)))"

definition MultisigAddress :: "config \<Rightarrow> int \<Rightarrow> string list \<Rightarrow> addr_error + string" where
  "MultisigAddress cfg threshold pubKeysHex =
     (if MaxMultisigKeys < length pubKeysHex then Inl TooManyMembers
      else if threshold < 1 \<or> int (length pubKeysHex) < threshold then Inl BadThreshold
      else (case multisig_members {} (sort_strings pubKeysHex) of
          Inl e \<Rightarrow> Inl e
        | Inr keys \<Rightarrow> Inr (addressFromBody cfg
            (take 20 (sha256 cfg (''dnas-multisig'' @ char_of (nat threshold) # keys))))))"

definition HTLCAddress :: "config \<Rightarrow> string \<Rightarrow> string \<Rightarrow> string \<Rightarrow> u64 \<Rightarrow> addr_error + string" where
  "HTLCAddress cfg hashHex recipientHex senderHex timeout =
     (case hex_decode hashHex of
        None \<Rightarrow> Inl BadHtlcHash
      | Some hash \<Rightarrow> if length hash \<noteq> 32 then Inl BadHtlcHash else
     (case hex_decode recipientHex of
        None \<Rightarrow> Inl BadRecipientKey
      | Some rcp \<Rightarrow> if length rcp \<noteq> PublicKeySize then Inl BadRecipientKey else
     (case hex_decode senderHex of
        None \<Rightarrow> Inl BadSenderKey
      | Some sndr \<Rightarrow> if length sndr \<noteq> PublicKeySize then Inl BadSenderKey else
          Inr (addressFromBody cfg
            (take 20 (sha256 cfg (''dnas-htlc'' @ hash @ rcp @ sndr @ be64 timeout)))))))"

definition VaultAddress :: "config \<Rightarrow> string \<Rightarrow> string \<Rightarrow> u64 \<Rightarrow> addr_error + string" where
  "VaultAddress cfg hotHex coldHex unlock =
     (case hex_decode hotHex of
        None \<Rightarrow> Inl BadHotKey
      | Some hot \<Rightarrow> if length hot \<noteq> PublicKeySize then Inl BadHotKey else
     (case hex_decode coldHex of
        None \<Rightarrow> Inl BadColdKey
      | Some cold \<Rightarrow> if length cold \<noteq> PublicKeySize then Inl BadColdKey else
          if hotHex = coldHex then Inl SameVaultKeys else
          Inr (addressFromBody cfg
            (take 20 (sha256 cfg (''dnas-vault'' @ hot @ cold @ be64 unlock))))))"

definition wallet_ScriptAddress :: "config \<Rightarrow> string \<Rightarrow> addr_error + string" where
  "wallet_ScriptAddress cfg scriptHex =
     (case hex_decode scriptHex of
        None \<Rightarrow> Inl ScriptNotHex
      | Some raw \<Rightarrow> if length raw = 0 then Inl EmptyScript
          else Inr (addressFromBody cfg (take 20 (sha256 cfg (''dnas-script-v1'' @ raw)))))"

definition Verify :: "config \<Rightarrow> string \<Rightarrow> string \<Rightarrow> bytes \<Rightarrow> bool" where
  "Verify cfg pubHex sigHex msg =
     (case hex_decode pubHex of
        None \<Rightarrow> False
      | Some pub \<Rightarrow> if length pub \<noteq> PublicKeySize then False else
          (case hex_decode sigHex of
             None \<Rightarrow> False
           | Some sig \<Rightarrow> if length sig \<noteq> SignatureSize then False
               else ed25519_verify cfg pub msg sig))"

section \<open>Lemmas\<close>

text \<open>What the sources rely on of \<open>crypto/sha256\<close>: a digest is 32 bytes.\<close>

definition sha256_length :: "config \<Rightarrow> bool" where
  "sha256_length cfg \<longleftrightarrow> (\<forall>b. length (sha256 cfg b) = 32)"

lemma ValidateAddress_fromBody:
  assumes "sha256_length cfg" "length body = addressBodyLen"
  shows "ValidateAddress cfg (addressFromBody cfg body) = None"
  using assms
  by (simp add: ValidateAddress_def addressFromBody_def has_prefix_def addressChecksum_def
      sha256_length_def addressChecksumLen_def)

lemma AddressFromPubKeyHex_valid:
  assumes "sha256_length cfg" "AddressFromPubKeyHex cfg pk = Inr a"
  shows "ValidateAddress cfg a = None"
  using assms ValidateAddress_fromBody [OF assms(1)]
  by (auto simp: AddressFromPubKeyHex_def AddressFromPubKey_def sha256_length_def addressBodyLen_def
      split: option.splits if_splits)

text \<open>No derived address is a key of another namespace: it starts with a letter.\<close>

lemma addressFromBody_hd: "hd (addressFromBody cfg body) = CHR ''d''"
  by (simp add: addressFromBody_def AddressPrefix_def)

end
