(* ===== verification/Assets_Names.thy ===== *)
theory Assets_Names
  imports Wallet
begin

text \<open>
  The account record of \<open>core/blockchain.go\<close>, native assets (\<open>core/asset.go\<close>) and the pure part
  of the name service (\<open>core/name.go\<close>): identifiers, shape checks, authority, the copy-on-write
  asset update and the name records. The lemmas show what an asset update does to every holding
  and that a non-fungible id is never authorised for a mint or a burn.
\<close>

record account =
  acc_balance :: u64
  acc_nonce :: u64
  acc_assets :: "(string, u64) fmap"
  acc_owner :: string
  acc_expires :: u64

definition zero_account :: account where
  "zero_account = \<lparr>acc_balance = 0, acc_nonce = 0, acc_assets = fmempty, acc_owner = [],
     acc_expires = 0\<rparr>"

section \<open>Assets\<close>

datatype asset_error =
    TickerLength | TickerNotAlnum | MetadataLength | MetadataNotHex
  | NoAssetOp | UnknownAssetOp string | AssetAmountRange

definition MaxTickerLen :: nat where "MaxTickerLen = 8"
definition MaxAssetSupply :: u64 where "MaxAssetSupply = 2 ^ 62"
definition MetadataHashLen :: nat where "MetadataHashLen = 64"
definition AssetOpMint :: string where "AssetOpMint = ''mint''"
definition AssetOpBurn :: string where "AssetOpBurn = ''burn''"

definition char_in :: "nat \<Rightarrow> nat \<Rightarrow> char \<Rightarrow> bool" where
  "char_in lo hi c \<longleftrightarrow> lo \<le> of_char c \<and> of_char c \<le> hi"

definition validMetadata :: "string \<Rightarrow> asset_error option" where
  "validMetadata meta =
     (if length meta \<noteq> MetadataHashLen then Some MetadataLength
      else if \<not> list_all (\<lambda>c. char_in 48 57 c \<or> char_in 97 102 c) meta then Some MetadataNotHex
      else None)"

definition validTicker :: "string \<Rightarrow> asset_error option" where
  "validTicker t =
     (if length t = 0 \<or> MaxTickerLen < length t then Some TickerLength
      else if \<not> list_all (\<lambda>c. char_in 65 90 c \<or> char_in 97 122 c \<or> char_in 48 57 c) t
      then Some TickerNotAlnum else None)"

definition AssetID :: "config \<Rightarrow> string \<Rightarrow> string \<Rightarrow> u64 \<Rightarrow> string" where
  "AssetID cfg issuer ticker nonce = ''tok'' @ hex_encode
     (take 16 (sha256 cfg (issuer @ ''|'' @ ticker @ ''|'' @ dec (unat nonce))))"

definition NonFungibleAssetID :: "config \<Rightarrow> string \<Rightarrow> string \<Rightarrow> u64 \<Rightarrow> string \<Rightarrow> string" where
  "NonFungibleAssetID cfg issuer ticker nonce metadata = ''nft'' @ hex_encode
     (take 16 (sha256 cfg (''nft|'' @ issuer @ ''|'' @ ticker @ ''|'' @ dec (unat nonce) @ ''|'' @
        metadata)))"

definition IssuedAssetID :: "config \<Rightarrow> string \<Rightarrow> u64 \<Rightarrow> asset_issue \<Rightarrow> string" where
  "IssuedAssetID cfg issuer nonce issue =
     (if IsNonFungible (Some issue)
      then NonFungibleAssetID cfg issuer (iss_ticker issue) nonce (iss_metadata issue)
      else AssetID cfg issuer (iss_ticker issue) nonce)"

definition IsNonFungibleID :: "string \<Rightarrow> bool" where
  "IsNonFungibleID i \<longleftrightarrow> length i = 35 \<and> take 3 i = ''nft''"

definition KnownAssetOp :: "string \<Rightarrow> bool" where
  "KnownAssetOp opn \<longleftrightarrow> opn = AssetOpMint \<or> opn = AssetOpBurn"

definition AssetOp_Validate :: "asset_op option \<Rightarrow> asset_error option" where
  "AssetOp_Validate ao =
     (case ao of
        None \<Rightarrow> Some NoAssetOp
      | Some a \<Rightarrow>
          if \<not> KnownAssetOp (aop_op a) then Some (UnknownAssetOp (aop_op a))
          else if aop_amount a = 0 \<or> MaxAssetSupply < aop_amount a then Some AssetAmountRange
          else validTicker (aop_ticker a))"

definition AuthorizedBy :: "config \<Rightarrow> asset_op option \<Rightarrow> string \<Rightarrow> string \<Rightarrow> bool" where
  "AuthorizedBy cfg ao issuer assetID =
     (case ao of None \<Rightarrow> False
      | Some a \<Rightarrow> AssetID cfg issuer (aop_ticker a) (aop_issue_nonce a) = assetID)"

text \<open>
  The signed delta of \<open>withAssetDelta\<close> is an \<open>int64\<close>; adding it to the stored amount is the word
  addition, since both conversions keep the bits.
\<close>

definition withAssetDelta :: "account \<Rightarrow> string \<Rightarrow> u64 \<Rightarrow> account" where
  "withAssetDelta a i delta =
     (let v = fmget 0 (acc_assets a) i + delta;
          m = fmupd i v (acc_assets a)
      in a\<lparr>acc_assets := (if v = 0 then fmdrop i m else m)\<rparr>)"

lemma withAssetDelta_fields [simp]:
  "acc_balance (withAssetDelta a i d) = acc_balance a"
  "acc_nonce (withAssetDelta a i d) = acc_nonce a"
  "acc_owner (withAssetDelta a i d) = acc_owner a"
  "acc_expires (withAssetDelta a i d) = acc_expires a"
  by (simp_all add: withAssetDelta_def Let_def)

lemma withAssetDelta_get [simp]:
  "fmget 0 (acc_assets (withAssetDelta a i d)) j
     = fmget 0 (acc_assets a) j + (if j = i then d else 0)"
  by (simp add: withAssetDelta_def Let_def)

lemma AssetID_not_nft: "AssetID cfg a b c \<noteq> NonFungibleAssetID cfg a' b' c' m"
  by (simp add: AssetID_def NonFungibleAssetID_def)

section \<open>Names\<close>

datatype name_error =
    NameLength nat | NameHyphenEnd | NameDoubleHyphen | NameBadChar | NameMissing
  | NamePeriods | NameNoTarget | NameReleaseArgs | NameUnknownOp string | NameTargetIsName

definition nameKeyPrefix :: string where "nameKeyPrefix = CHR 0x00 # ''name:''"
definition MinNameLen :: nat where "MinNameLen = 3"
definition MaxNameLen :: nat where "MaxNameLen = 32"
definition NameLeasePeriod :: u64 where "NameLeasePeriod = 100000"
definition MaxNameLeases :: u32 where "MaxNameLeases = 10"
definition NameOpRegister :: string where "NameOpRegister = ''register''"
definition NameOpRenew :: string where "NameOpRenew = ''renew''"
definition NameOpTransfer :: string where "NameOpTransfer = ''transfer''"
definition NameOpRelease :: string where "NameOpRelease = ''release''"

lemmas name_ops = NameOpRegister_def NameOpRenew_def NameOpTransfer_def NameOpRelease_def

definition isEmpty :: "account \<Rightarrow> bool" where
  "isEmpty a \<longleftrightarrow> acc_balance a = 0 \<and> acc_nonce a = 0 \<and> acc_assets a = fmempty \<and>
     acc_owner a = [] \<and> acc_expires a = 0"

definition nameStateKey :: "string \<Rightarrow> string" where
  "nameStateKey name = nameKeyPrefix @ name"

definition isNameKey :: "string \<Rightarrow> bool" where
  "isNameKey k = has_prefix k nameKeyPrefix"

definition nameFromKey :: "string \<Rightarrow> string" where
  "nameFromKey k = (if isNameKey k then drop (length nameKeyPrefix) k else k)"

text \<open>The loop of \<open>ValidName\<close>, at index \<open>i\<close> of a name of length \<open>n\<close>, with the previous character.\<close>

fun valid_name_from :: "nat \<Rightarrow> nat \<Rightarrow> char \<Rightarrow> string \<Rightarrow> name_error option" where
  "valid_name_from n i prev [] = None"
| "valid_name_from n i prev (c # cs) =
     (if char_in 97 122 c \<or> char_in 48 57 c then valid_name_from n (Suc i) c cs
      else if c = CHR ''-'' then
        (if i = 0 \<or> i = n - 1 then Some NameHyphenEnd
         else if prev = CHR ''-'' then Some NameDoubleHyphen
         else valid_name_from n (Suc i) c cs)
      else Some NameBadChar)"

definition ValidName :: "string \<Rightarrow> name_error option" where
  "ValidName name =
     (if length name < MinNameLen \<or> MaxNameLen < length name then Some (NameLength (length name))
      else valid_name_from (length name) 0 (CHR 0x00) name)"

definition NameOp_Validate :: "name_op option \<Rightarrow> name_error option" where
  "NameOp_Validate no =
     (case no of
        None \<Rightarrow> Some NameMissing
      | Some n \<Rightarrow> err_then (ValidName (nop_name n)) (err_then
          (if nop_op n = NameOpRegister \<or> nop_op n = NameOpRenew then
             (if MaxNameLeases < nop_periods n then Some NamePeriods else None)
           else if nop_op n = NameOpTransfer then
             (if nop_target n = [] then Some NameNoTarget else None)
           else if nop_op n = NameOpRelease then
             (if nop_target n \<noteq> [] \<or> nop_periods n \<noteq> 0 then Some NameReleaseArgs else None)
           else Some (NameUnknownOp (nop_op n)))
          (if nop_target n \<noteq> [] \<and> isNameKey (nop_target n) then Some NameTargetIsName else None)))"

definition periods :: "name_op \<Rightarrow> u64" where
  "periods n = (if nop_periods n = 0 then 1 else ucast (nop_periods n))"

record name_record =
  rec_name :: string
  rec_owner :: string
  rec_expires :: u64

definition nameRecordOf :: "string \<Rightarrow> account \<Rightarrow> name_record" where
  "nameRecordOf name acc =
     \<lparr>rec_name = name, rec_owner = acc_owner acc, rec_expires = acc_expires acc\<rparr>"

definition heldAt :: "name_record \<Rightarrow> u64 \<Rightarrow> bool" where
  "heldAt r height \<longleftrightarrow> rec_owner r \<noteq> [] \<and> height < rec_expires r"

lemma isNameKey_nameStateKey [simp]: "isNameKey (nameStateKey n)"
  by (simp add: isNameKey_def nameStateKey_def has_prefix_def)

lemma nameFromKey_nameStateKey [simp]: "nameFromKey (nameStateKey n) = n"
  by (simp add: nameFromKey_def) (simp add: nameStateKey_def)

lemma nameStateKey_inject [simp]: "nameStateKey a = nameStateKey b \<longleftrightarrow> a = b"
  by (simp add: nameStateKey_def)

lemma isNameKey_iff: "isNameKey k \<longleftrightarrow> (\<exists>n. k = nameStateKey n)"
  by (metis append_take_drop_id has_prefix_def isNameKey_def isNameKey_nameStateKey nameStateKey_def)

lemma isNameKey_hd: "isNameKey k \<Longrightarrow> hd k = CHR 0x00"
  by (auto simp: isNameKey_iff nameStateKey_def nameKeyPrefix_def)

text \<open>An address derived from a key or a script is never a name key.\<close>

lemma addressFromBody_not_name [simp]: "\<not> isNameKey (addressFromBody cfg b)"
  using isNameKey_hd [of "addressFromBody cfg b"] by (auto simp: addressFromBody_hd)

end
