(* ===== verification/Tx_Rules.thy ===== *)
theory Tx_Rules
  imports Auth Assets_Names
begin

text \<open>
  The consensus rules on a single transaction: \<open>CheckTxSanity\<close> and its helpers in
  \<open>core/transaction.go\<close>, which need nothing but the transaction, and \<open>checkTxAtHeight\<close> with
  \<open>checkTxAddresses\<close>, which need the height and the upgrade table. The order of the checks is
  the order of the code.
\<close>

datatype shape_error =
    ManyScripts | MultisigWithSignature | MultisigWithPreimage | HtlcWithKey
  | HtlcWithSignatures | ScriptWithSignature | ScriptWithSignatures | ScriptWithPreimage
  | VaultWithKey | VaultWithSignatures | VaultWithPreimage | SingleWithSignatures
  | SingleWithPreimage | SponsorWithoutPayer | PayerWithoutSponsor | PayerIsSender

datatype form_error =
    IssueWithAssetId | SupplyRange
  | AssetOpNoAsset | AssetOpWithIssue | AssetOpWithTransfer | NotIssuer
  | AssetTransferNoRecipient | EmptyAssetTransfer | NoRecipient | EmptyTransfer | AmountFeeOverflow
  | TooManyOutputs | OutputsWithTransfer | OutputsWithAsset | OutputNoRecipient nat
  | OutputTooLong nat | OutputZero nat | OutputsOverflow | OutputsFeeOverflow

datatype height_error =
    Expired | NotYetValid | HtlcTooEarly | ScriptTooEarly | VaultTooEarly
  | VaultInactive | AssetOpsInactive | ScriptInactive | NameServiceInactive
  | NonFungibleInactive | FeeSponsorInactive | MultiOutputInactive
  | SenderAddress addr_error | RecipientAddress addr_error | NameTargetAddress addr_error
  | FeePayerAddress addr_error | DustOutput u64

datatype apply_error =
    BadNonce | FeeReserveOverflow | InsufficientBalance
  | NonFungibleSupply | MintPastCap | BurnTooMuch | UnknownOperation | InsufficientAsset
  | SponsorCannotPay | AmountReserveOverflow | RecipientOverflow
  | NameHeld | NameAlreadyYours | NameNotHeld | NameNotYours

datatype tx_error =
    SanityCoinbase | SenderTooLong | RecipientTooLong | MemoTooLong | ImpossibleWindow
  | FeePayerTooLong | AddressIsNameKey | NameWithTransfer
  | NameErr name_error | AssetErr asset_error | AuthErr auth_error
  | Shape shape_error | Form form_error | AtHeight height_error | Apply apply_error

section \<open>Shape of the authorization\<close>

definition checkSponsorShape :: "transaction \<Rightarrow> tx_error option" where
  "checkSponsorShape t =
     (if tx_fee_payer t = [] then
        (if tx_fee_payer_pubkey t \<noteq> [] \<or> tx_fee_payer_sig t \<noteq> [] then Some (Shape SponsorWithoutPayer)
         else None)
      else if tx_fee_payer_pubkey t = [] \<or> tx_fee_payer_sig t = [] then Some (Shape PayerWithoutSponsor)
      else if tx_fee_payer t = tx_from t then Some (Shape PayerIsSender)
      else None)"

definition checkAuthShape :: "transaction \<Rightarrow> tx_error option" where
  "checkAuthShape t =
     (if 1 < length (filter id [IsMultisig t, IsHTLC t, IsVault t, IsScript t]) then Some (Shape ManyScripts)
      else err_then
       (if IsMultisig t then
          (if tx_pubkey t \<noteq> [] \<or> tx_signature t \<noteq> [] then Some (Shape MultisigWithSignature)
           else if tx_preimage t \<noteq> [] then Some (Shape MultisigWithPreimage) else None)
        else if IsHTLC t then
          (if tx_pubkey t \<noteq> [] then Some (Shape HtlcWithKey)
           else if tx_signatures t \<noteq> [] then Some (Shape HtlcWithSignatures) else None)
        else if IsScript t then
          (if tx_pubkey t \<noteq> [] \<or> tx_signature t \<noteq> [] then Some (Shape ScriptWithSignature)
           else if tx_signatures t \<noteq> [] then Some (Shape ScriptWithSignatures)
           else if tx_preimage t \<noteq> [] then Some (Shape ScriptWithPreimage) else None)
        else if IsVault t then
          (if tx_pubkey t \<noteq> [] then Some (Shape VaultWithKey)
           else if tx_signatures t \<noteq> [] then Some (Shape VaultWithSignatures)
           else if tx_preimage t \<noteq> [] then Some (Shape VaultWithPreimage) else None)
        else
          (if tx_signatures t \<noteq> [] then Some (Shape SingleWithSignatures)
           else if tx_preimage t \<noteq> [] then Some (Shape SingleWithPreimage) else None))
       (checkSponsorShape t))"

section \<open>Context-free rules\<close>

fun check_each_output :: "nat \<Rightarrow> tx_output list \<Rightarrow> tx_error option" where
  "check_each_output i [] = None"
| "check_each_output i (out # outs) =
     (if out_to out = [] then Some (Form (OutputNoRecipient i))
      else if MaxAddressBytes < length (out_to out) then Some (Form (OutputTooLong i))
      else if out_amount out = 0 then Some (Form (OutputZero i))
      else check_each_output (Suc i) outs)"

definition checkOutputs :: "transaction \<Rightarrow> tx_error option" where
  "checkOutputs tx =
     (if MaxTxOutputs < length (tx_outputs tx) then Some (Form TooManyOutputs)
      else if tx_to tx \<noteq> [] \<or> tx_amount tx \<noteq> 0 then Some (Form OutputsWithTransfer)
      else if tx_asset_id tx \<noteq> [] \<or> tx_issue tx \<noteq> None then Some (Form OutputsWithAsset)
      else err_then (check_each_output 0 (tx_outputs tx))
        (case TotalOut tx of
           None \<Rightarrow> Some (Form OutputsOverflow)
         | Some tot \<Rightarrow> if tot + tx_fee tx < tot then Some (Form OutputsFeeOverflow) else None))"

definition checkIssue :: "transaction \<Rightarrow> asset_issue \<Rightarrow> tx_error option" where
  "checkIssue tx i =
     (if tx_asset_id tx \<noteq> [] then Some (Form IssueWithAssetId)
      else err_then (map_option AssetErr (validTicker (iss_ticker i)))
        (if iss_supply i = 0 \<or> MaxAssetSupply < iss_supply i then Some (Form SupplyRange) else None))"

definition checkAssetOp :: "config \<Rightarrow> transaction \<Rightarrow> tx_error option" where
  "checkAssetOp cfg tx =
     (if tx_asset_id tx = [] then Some (Form AssetOpNoAsset)
      else if tx_issue tx \<noteq> None then Some (Form AssetOpWithIssue)
      else if tx_to tx \<noteq> [] \<or> tx_amount tx \<noteq> 0 then Some (Form AssetOpWithTransfer)
      else err_then (map_option AssetErr (AssetOp_Validate (tx_asset_op tx)))
        (if \<not> AuthorizedBy cfg (tx_asset_op tx) (tx_from tx) (tx_asset_id tx)
         then Some (Form NotIssuer) else None))"

text \<open>The final \<open>switch\<close> of \<open>CheckTxSanity\<close>, one case per form of transaction.\<close>

definition checkForm :: "config \<Rightarrow> transaction \<Rightarrow> tx_error option" where
  "checkForm cfg tx =
     (if IsMultiOutput tx then checkOutputs tx
      else case tx_issue tx of
        Some i \<Rightarrow> checkIssue tx i
      | None \<Rightarrow>
          if IsAssetOp tx then checkAssetOp cfg tx
          else if IsNameOp tx then None
          else if IsAssetTransfer tx then
            (if tx_to tx = [] then Some (Form AssetTransferNoRecipient)
             else if tx_amount tx = 0 then Some (Form EmptyAssetTransfer) else None)
          else
            (if tx_to tx = [] then Some (Form NoRecipient)
             else if tx_amount tx = 0 \<and> tx_fee tx = 0 then Some (Form EmptyTransfer)
             else if tx_amount tx + tx_fee tx < tx_amount tx then Some (Form AmountFeeOverflow)
             else None))"

definition checkNameForm :: "transaction \<Rightarrow> tx_error option" where
  "checkNameForm tx =
     (if IsNameOp tx then
        err_then (map_option NameErr (NameOp_Validate (tx_name tx)))
          (if tx_amount tx \<noteq> 0 \<or> tx_asset_id tx \<noteq> [] \<or> tx_issue tx \<noteq> None
              \<or> tx_asset_op tx \<noteq> None \<or> tx_outputs tx \<noteq> []
           then Some NameWithTransfer else None)
      else None)"

definition CheckTxSanity :: "config \<Rightarrow> transaction \<Rightarrow> tx_error option" where
  "CheckTxSanity cfg tx =
     (if IsCoinbase tx then Some SanityCoinbase
      else if MaxAddressBytes < length (tx_from tx) then Some SenderTooLong
      else if MaxAddressBytes < length (tx_to tx) then Some RecipientTooLong
      else if MaxMemoBytes < length (tx_memo tx) then Some MemoTooLong
      else if tx_expiry tx \<noteq> 0 \<and> tx_expiry tx < tx_lock_until tx then Some ImpossibleWindow
      else if MaxAddressBytes < length (tx_fee_payer tx) then Some FeePayerTooLong
      else if isNameKey (tx_from tx) \<or> isNameKey (tx_to tx) \<or> isNameKey (tx_fee_payer tx)
      then Some AddressIsNameKey
      else if list_ex (\<lambda>out. isNameKey (out_to out)) (tx_outputs tx) then Some AddressIsNameKey
      else err_then (checkNameForm tx) (err_then (checkAuthShape tx) (checkForm cfg tx)))"

section \<open>Height-dependent rules\<close>

fun check_recipients :: "config \<Rightarrow> transaction \<Rightarrow> tx_output list \<Rightarrow> tx_error option" where
  "check_recipients cfg tx [] = None"
| "check_recipients cfg tx (out # outs) =
     (if out_to out = [] \<and> (IsIssue tx \<or> IsAssetOp tx \<or> IsNameOp tx)
      then check_recipients cfg tx outs
      else err_then (map_option (AtHeight \<circ> RecipientAddress) (ValidateAddress cfg (out_to out)))
        (check_recipients cfg tx outs))"

definition checkTxAddresses :: "config \<Rightarrow> transaction \<Rightarrow> tx_error option" where
  "checkTxAddresses cfg tx =
     err_then (if \<not> IsCoinbase tx
               then map_option (AtHeight \<circ> SenderAddress) (ValidateAddress cfg (tx_from tx)) else None)
    (err_then (check_recipients cfg tx (outputs tx))
    (err_then (case tx_name tx of
                 None \<Rightarrow> None
               | Some n \<Rightarrow> if nop_target n \<noteq> []
                   then map_option (AtHeight \<circ> NameTargetAddress) (ValidateAddress cfg (nop_target n)) else None)
    (if tx_fee_payer tx \<noteq> []
     then map_option (AtHeight \<circ> FeePayerAddress) (ValidateAddress cfg (tx_fee_payer tx)) else None)))"

definition checkDust :: "config \<Rightarrow> transaction \<Rightarrow> u64 \<Rightarrow> tx_error option" where
  "checkDust cfg tx height =
     (if IsUpgradeActive cfg UpgradeDustLimit height \<and> \<not> IsIssue tx \<and> \<not> IsAssetTransfer tx
      then map_option (AtHeight \<circ> DustOutput) (find (\<lambda>a. 0 < a \<and> a < DustThreshold) (coinAmounts tx))
      else None)"

definition checkTxAtHeight :: "config \<Rightarrow> transaction \<Rightarrow> u64 \<Rightarrow> tx_error option" where
  "checkTxAtHeight cfg tx height =
     (if IsExpiredAt tx height then Some (AtHeight Expired)
      else if IsLockedAt tx height then Some (AtHeight NotYetValid)
      else if HTLCRefundNotReady tx height then Some (AtHeight HtlcTooEarly)
      else if ScriptNotReady cfg tx height then Some (AtHeight ScriptTooEarly)
      else if VaultHotNotReady cfg tx height then Some (AtHeight VaultTooEarly)
      else if IsVault tx \<and> \<not> IsUpgradeActive cfg UpgradeVault height then Some (AtHeight VaultInactive)
      else if IsAssetOp tx \<and> \<not> IsUpgradeActive cfg UpgradeAssetOps height then Some (AtHeight AssetOpsInactive)
      else if IsScript tx \<and> \<not> IsUpgradeActive cfg UpgradeScript height then Some (AtHeight ScriptInactive)
      else if IsNameOp tx \<and> \<not> IsUpgradeActive cfg UpgradeNameService height
      then Some (AtHeight NameServiceInactive)
      else if IsNonFungible (tx_issue tx) \<and> \<not> IsUpgradeActive cfg UpgradeNonFungible height
      then Some (AtHeight NonFungibleInactive)
      else if IsSponsored tx \<and> \<not> IsUpgradeActive cfg UpgradeFeeSponsor height
      then Some (AtHeight FeeSponsorInactive)
      else if IsMultiOutput tx \<and> \<not> IsUpgradeActive cfg UpgradeMultiOutput height
      then Some (AtHeight MultiOutputInactive)
      else err_then
        (if IsUpgradeActive cfg UpgradeCheckedAddresses height then checkTxAddresses cfg tx else None)
        (checkDust cfg tx height))"

section \<open>What sanity gives\<close>

text \<open>The facts about a sane transaction that the ledger relies on.\<close>

lemma sane_not_name_keys:
  assumes "CheckTxSanity cfg tx = None"
  shows "\<not> isNameKey (tx_from tx)" "\<not> isNameKey (tx_to tx)" "\<not> isNameKey (tx_fee_payer tx)"
    "out \<in> set (tx_outputs tx) \<Longrightarrow> \<not> isNameKey (out_to out)"
  using assms by (auto simp: CheckTxSanity_def list_ex_iff split: if_splits)

lemma sane_outputs_not_name:
  "CheckTxSanity cfg tx = None \<Longrightarrow> out \<in> set (outputs tx) \<Longrightarrow> \<not> isNameKey (out_to out)"
  using sane_not_name_keys [of cfg tx] by (auto simp: outputs_def split: if_splits)

lemma sane_sponsor_not_sender:
  assumes "CheckTxSanity cfg tx = None" "IsSponsored tx"
  shows "tx_fee_payer tx \<noteq> tx_from tx"
proof -
  have "checkAuthShape tx = None"
    using assms(1) by (simp add: CheckTxSanity_def split: if_splits)
  then have "checkSponsorShape tx = None"
    by (auto simp: checkAuthShape_def split: if_splits)
  with assms(2) show ?thesis
    by (auto simp: checkSponsorShape_def IsSponsored_def split: if_splits)
qed

lemma sane_forms:
  assumes "CheckTxSanity cfg tx = None"
  shows "checkForm cfg tx = None" "checkAuthShape tx = None" "checkNameForm tx = None"
    "\<not> IsCoinbase tx"
  using assms by (auto simp: CheckTxSanity_def split: if_splits)

end
