(* ===== verification/Ledger.thy ===== *)
theory Ledger
  imports Tx_Rules
begin

text \<open>
  The account ledger (\<open>core/statedb.go\<close>) and the application of one transaction to it
  (\<open>core/blockchain.go\<close>: \<open>applyTxTo\<close>, \<open>applyIssue\<close>, \<open>applyAssetOp\<close>, \<open>applyAssetTransfer\<close>,
  \<open>chargeSponsor\<close>, \<open>applyUndo\<close>; \<open>core/name.go\<close>: \<open>applyNameOp\<close>). Every write goes through \<open>set\<close>,
  which first appends the previous value to the undo log. An operation returns its error together
  with the state it leaves, because the caller rolls a failed block back through the log.
\<close>

section \<open>StateDB\<close>

text \<open>
  The \<open>StateDB\<close> interface as the application path uses it: a missing account reads as the zero
  account, and two ledgers that answer every lookup alike are the same ledger.
\<close>

locale state_db =
  fixes lookup :: "'s \<Rightarrow> string \<Rightarrow> account option"
    and put :: "string \<Rightarrow> account \<Rightarrow> 's \<Rightarrow> 's"
    and delete :: "string \<Rightarrow> 's \<Rightarrow> 's"
  assumes lookup_put: "lookup (put a v s) b = (if b = a then Some v else lookup s b)"
    and lookup_delete: "lookup (delete a s) b = (if b = a then None else lookup s b)"
    and lookup_ext: "(\<And>b. lookup s b = lookup t b) \<Longrightarrow> s = t"
begin

lemma put_back: "lookup s a = Some p \<Longrightarrow> put a p (put a v s) = s"
  by (rule lookup_ext) (simp add: lookup_put)

lemma put_back_deleted: "lookup s a = Some p \<Longrightarrow> put a p (delete a s) = s"
  by (rule lookup_ext) (simp add: lookup_put lookup_delete)

lemma delete_new: "lookup s a = None \<Longrightarrow> delete a (put a v s) = s"
  by (rule lookup_ext) (simp add: lookup_put lookup_delete)

lemma delete_absent: "lookup s a = None \<Longrightarrow> delete a (delete a s) = s"
  by (rule lookup_ext) (simp add: lookup_delete)

end

text \<open>\<open>memState\<close>: the resident map.\<close>

type_synonym state = "(string, account) fmap"

definition NewMemState :: state where "NewMemState = fmempty"

definition state_Get :: "state \<Rightarrow> string \<Rightarrow> account" where
  "state_Get s addr = fmget zero_account s addr"

definition state_Lookup :: "state \<Rightarrow> string \<Rightarrow> account option" where
  "state_Lookup s addr = fmlookup s addr"

definition state_Put :: "string \<Rightarrow> account \<Rightarrow> state \<Rightarrow> state" where
  "state_Put addr acc s = fmupd addr acc s"

definition state_Delete :: "string \<Rightarrow> state \<Rightarrow> state" where
  "state_Delete addr s = fmdrop addr s"

definition state_Len :: "state \<Rightarrow> nat" where
  "state_Len s = length (fmkeys s)"

text \<open>\<open>Range\<close> yields every account in ascending address order; a consumer folds over this list.\<close>

definition state_Range :: "state \<Rightarrow> (string \<times> account) list" where
  "state_Range s = map (\<lambda>a. (a, state_Get s a)) (fmkeys s)"

interpretation mem: state_db state_Lookup state_Put state_Delete
proof
  show "s = t" if "\<And>b. state_Lookup s b = state_Lookup t b" for s t
    using that by (intro fmap_ext) (simp add: state_Lookup_def)
qed (auto simp: state_Lookup_def state_Put_def state_Delete_def)

lemma state_Get_Lookup: "state_Get s a = (case state_Lookup s a of None \<Rightarrow> zero_account | Some v \<Rightarrow> v)"
  by (simp add: state_Get_def state_Lookup_def fmget_def)

lemma state_Get_Put [simp]: "state_Get (state_Put a v s) b = (if b = a then v else state_Get s b)"
  by (simp add: state_Get_def state_Put_def)

lemma state_Get_Delete [simp]:
  "state_Get (state_Delete a s) b = (if b = a then zero_account else state_Get s b)"
  by (simp add: state_Get_def state_Delete_def)

section \<open>The undo log\<close>

record undo_entry =
  ue_addr :: string
  ue_prev :: account
  ue_existed :: bool

definition restore :: "undo_entry \<Rightarrow> state \<Rightarrow> state" where
  "restore u s = (if ue_existed u then state_Put (ue_addr u) (ue_prev u) s
     else state_Delete (ue_addr u) s)"

definition applyUndo :: "state \<Rightarrow> undo_entry list \<Rightarrow> state" where
  "applyUndo s undo = fold restore (rev undo) s"

text \<open>The state threaded through the application of a block.\<close>

record app =
  app_state :: state
  app_undo :: "undo_entry list"
  app_cache :: "vcache option"

definition set_acc :: "string \<Rightarrow> account \<Rightarrow> app \<Rightarrow> app" where
  "set_acc addr acc a =
     (let s = app_state a;
          entry = \<lparr>ue_addr = addr, ue_prev = state_Get s addr,
                   ue_existed = (state_Lookup s addr \<noteq> None)\<rparr>
      in a\<lparr>app_undo := app_undo a @ [entry],
           app_state := (if isNameKey addr \<and> isEmpty acc then state_Delete addr s
                         else state_Put addr acc s)\<rparr>)"

abbreviation get_acc :: "app \<Rightarrow> string \<Rightarrow> account" where
  "get_acc a addr \<equiv> state_Get (app_state a) addr"

section \<open>Applying one transaction\<close>

definition senderFee :: "transaction \<Rightarrow> u64" where
  "senderFee tx = (if IsSponsored tx then 0 else tx_fee tx)"

definition chargeSponsor :: "transaction \<Rightarrow> u64 \<Rightarrow> app \<Rightarrow> tx_error option \<times> app" where
  "chargeSponsor tx reserve a =
     (if \<not> IsSponsored tx then (None, a)
      else let payer = get_acc a (tx_fee_payer tx); need = tx_fee tx + reserve in
        if need < tx_fee tx then (Some (Apply FeeReserveOverflow), a)
        else if acc_balance payer < need then (Some (Apply SponsorCannotPay), a)
        else (None, set_acc (tx_fee_payer tx)
                      (payer\<lparr>acc_balance := acc_balance payer - tx_fee tx\<rparr>) a))"

text \<open>The checks every asset and name operation makes before it writes: nonce, then the coin fee.\<close>

definition fee_checks :: "transaction \<Rightarrow> account \<Rightarrow> u64 \<Rightarrow> tx_error option" where
  "fee_checks tx sender reserve =
     (if tx_nonce tx \<noteq> acc_nonce sender then Some (Apply BadNonce)
      else let fee = senderFee tx; need = fee + reserve in
        if need < fee then Some (Apply FeeReserveOverflow)
        else if acc_balance sender < need then Some (Apply InsufficientBalance)
        else None)"

definition debit :: "account \<Rightarrow> u64 \<Rightarrow> account" where
  "debit acc amount = acc\<lparr>acc_balance := acc_balance acc - amount, acc_nonce := acc_nonce acc + 1\<rparr>"

definition applyIssue :: "config \<Rightarrow> transaction \<Rightarrow> asset_issue \<Rightarrow> u64 \<Rightarrow> u64 \<Rightarrow> app
    \<Rightarrow> tx_error option \<times> app" where
  "applyIssue cfg tx i reserve payerReserve a =
     (case validTicker (iss_ticker i) of Some e \<Rightarrow> (Some (AssetErr e), a) | None \<Rightarrow>
      if iss_supply i = 0 \<or> MaxAssetSupply < iss_supply i then (Some (Form SupplyRange), a) else
      (case (if IsNonFungible (Some i)
             then err_then (map_option AssetErr (validMetadata (iss_metadata i)))
                    (if iss_supply i \<noteq> 1 then Some (Apply NonFungibleSupply) else None)
             else None) of Some e \<Rightarrow> (Some e, a) | None \<Rightarrow>
       let sender = get_acc a (tx_from tx) in
       (case fee_checks tx sender reserve of Some e \<Rightarrow> (Some e, a) | None \<Rightarrow>
         chargeSponsor tx payerReserve
           (set_acc (tx_from tx)
             (withAssetDelta (debit sender (senderFee tx))
               (IssuedAssetID cfg (tx_from tx) (tx_nonce tx) i) (iss_supply i)) a))))"

definition assetOpDelta :: "asset_op \<Rightarrow> u64 \<Rightarrow> tx_error + u64" where
  "assetOpDelta opr held =
     (if aop_op opr = AssetOpMint then
        (if held + aop_amount opr < held \<or> MaxAssetSupply < held + aop_amount opr
         then Inl (Apply MintPastCap) else Inr (aop_amount opr))
      else if aop_op opr = AssetOpBurn then
        (if held < aop_amount opr then Inl (Apply BurnTooMuch) else Inr (- aop_amount opr))
      else Inl (Apply UnknownOperation))"

definition applyAssetOp :: "config \<Rightarrow> transaction \<Rightarrow> asset_op \<Rightarrow> u64 \<Rightarrow> u64 \<Rightarrow> app
    \<Rightarrow> tx_error option \<times> app" where
  "applyAssetOp cfg tx opr reserve payerReserve a =
     (case AssetOp_Validate (Some opr) of Some e \<Rightarrow> (Some (AssetErr e), a) | None \<Rightarrow>
      if \<not> AuthorizedBy cfg (Some opr) (tx_from tx) (tx_asset_id tx) then (Some (Form NotIssuer), a)
      else let sender = get_acc a (tx_from tx) in
       (case fee_checks tx sender reserve of Some e \<Rightarrow> (Some e, a) | None \<Rightarrow>
        (case assetOpDelta opr (fmget 0 (acc_assets sender) (tx_asset_id tx)) of
           Inl e \<Rightarrow> (Some e, a)
         | Inr delta \<Rightarrow>
             chargeSponsor tx payerReserve
               (set_acc (tx_from tx)
                 (withAssetDelta (debit sender (senderFee tx)) (tx_asset_id tx) delta) a))))"

definition applyAssetTransfer :: "transaction \<Rightarrow> u64 \<Rightarrow> u64 \<Rightarrow> app \<Rightarrow> tx_error option \<times> app" where
  "applyAssetTransfer tx reserve payerReserve a =
     (if tx_amount tx = 0 then (Some (Form EmptyAssetTransfer), a)
      else let sender = get_acc a (tx_from tx) in
       (case fee_checks tx sender reserve of Some e \<Rightarrow> (Some e, a) | None \<Rightarrow>
        if fmget 0 (acc_assets sender) (tx_asset_id tx) < tx_amount tx
        then (Some (Apply InsufficientAsset), a)
        else bind_err
          (chargeSponsor tx payerReserve
            (set_acc (tx_from tx)
              (withAssetDelta (debit sender (senderFee tx)) (tx_asset_id tx) (- tx_amount tx)) a))
          (\<lambda>a1. (None, set_acc (tx_to tx)
             (withAssetDelta (get_acc a1 (tx_to tx)) (tx_asset_id tx) (tx_amount tx)) a1))))"

text \<open>The \<open>switch\<close> of \<open>applyNameOp\<close>: the record after the operation, or the refusal.\<close>

definition nameOpRecord :: "name_op \<Rightarrow> string \<Rightarrow> u64 \<Rightarrow> name_record \<Rightarrow> tx_error + name_record" where
  "nameOpRecord opr sender height r =
     (if nop_op opr = NameOpRegister then
        (if heldAt r height then
           (if rec_owner r \<noteq> sender then Inl (Apply NameHeld) else Inl (Apply NameAlreadyYours))
         else Inr \<lparr>rec_name = nop_name opr,
                   rec_owner = (if nop_target opr = [] then sender else nop_target opr),
                   rec_expires = height + periods opr * NameLeasePeriod\<rparr>)
      else if nop_op opr = NameOpRenew then
        (if \<not> heldAt r height then Inl (Apply NameNotHeld)
         else if rec_owner r \<noteq> sender then Inl (Apply NameNotYours)
         else Inr (r\<lparr>rec_expires := rec_expires r + periods opr * NameLeasePeriod\<rparr>))
      else if nop_op opr = NameOpTransfer then
        (if \<not> heldAt r height then Inl (Apply NameNotHeld)
         else if rec_owner r \<noteq> sender then Inl (Apply NameNotYours)
         else Inr (r\<lparr>rec_owner := nop_target opr\<rparr>))
      else if nop_op opr = NameOpRelease then
        (if \<not> heldAt r height then Inl (Apply NameNotHeld)
         else if rec_owner r \<noteq> sender then Inl (Apply NameNotYours)
         else Inr \<lparr>rec_name = nop_name opr, rec_owner = [], rec_expires = 0\<rparr>)
      else Inr r)"

definition name_account :: "name_record \<Rightarrow> account" where
  "name_account r = (if rec_owner r = [] then zero_account
     else zero_account\<lparr>acc_owner := rec_owner r, acc_expires := rec_expires r\<rparr>)"

definition applyNameOp :: "transaction \<Rightarrow> name_op \<Rightarrow> u64 \<Rightarrow> u64 \<Rightarrow> u64 \<Rightarrow> app
    \<Rightarrow> tx_error option \<times> app" where
  "applyNameOp tx opr height reserve payerReserve a =
     (case NameOp_Validate (Some opr) of Some e \<Rightarrow> (Some (NameErr e), a) | None \<Rightarrow>
      let sender = get_acc a (tx_from tx); key = nameStateKey (nop_name opr) in
      (case fee_checks tx sender reserve of Some e \<Rightarrow> (Some e, a) | None \<Rightarrow>
       (case nameOpRecord opr (tx_from tx) height (nameRecordOf (nop_name opr) (get_acc a key)) of
          Inl e \<Rightarrow> (Some e, a)
        | Inr r \<Rightarrow>
            chargeSponsor tx payerReserve
              (set_acc key (name_account r)
                (set_acc (tx_from tx) (debit sender (senderFee tx)) a)))))"

fun credit_outputs :: "tx_output list \<Rightarrow> app \<Rightarrow> tx_error option \<times> app" where
  "credit_outputs [] a = (None, a)"
| "credit_outputs (out # outs) a =
     (let recip = get_acc a (out_to out) in
      if acc_balance recip + out_amount out < acc_balance recip
      then (Some (Apply RecipientOverflow), a)
      else credit_outputs outs
        (set_acc (out_to out) (recip\<lparr>acc_balance := acc_balance recip + out_amount out\<rparr>) a))"

definition applyCoinTransfer :: "transaction \<Rightarrow> u64 \<Rightarrow> u64 \<Rightarrow> app \<Rightarrow> tx_error option \<times> app" where
  "applyCoinTransfer tx reserve payerReserve a =
     (case TotalOut tx of
        None \<Rightarrow> (Some (Form OutputsOverflow), a)
      | Some out \<Rightarrow>
          if out = 0 \<and> tx_fee tx = 0 then (Some (Form EmptyTransfer), a)
          else let tot = out + senderFee tx in
            if tot < out then (Some (Form AmountFeeOverflow), a)
            else let sender = get_acc a (tx_from tx) in
              if tx_nonce tx \<noteq> acc_nonce sender then (Some (Apply BadNonce), a)
              else if tot + reserve < tot then (Some (Apply AmountReserveOverflow), a)
              else if acc_balance sender < tot + reserve then (Some (Apply InsufficientBalance), a)
              else bind_err
                (chargeSponsor tx payerReserve (set_acc (tx_from tx) (debit sender tot) a))
                (\<lambda>a1. credit_outputs (outputs tx) a1))"

definition applyTxTo :: "config \<Rightarrow> transaction \<Rightarrow> u64 \<Rightarrow> u64 \<Rightarrow> u64 \<Rightarrow> app
    \<Rightarrow> tx_error option \<times> app" where
  "applyTxTo cfg tx height reserve payerReserve a0 =
     (case cache_Verify cfg tx (app_cache a0) of
        (Some e, c) \<Rightarrow> (Some (AuthErr e), a0\<lparr>app_cache := c\<rparr>)
      | (None, c) \<Rightarrow>
          let a = a0\<lparr>app_cache := c\<rparr> in
          (case tx_name tx of
             Some n \<Rightarrow> applyNameOp tx n height reserve payerReserve a
           | None \<Rightarrow>
          (case tx_issue tx of
             Some i \<Rightarrow> applyIssue cfg tx i reserve payerReserve a
           | None \<Rightarrow>
          (case tx_asset_op tx of
             Some opr \<Rightarrow> applyAssetOp cfg tx opr reserve payerReserve a
           | None \<Rightarrow>
               if IsAssetTransfer tx then applyAssetTransfer tx reserve payerReserve a
               else applyCoinTransfer tx reserve payerReserve a))))"

section \<open>Reading back a write\<close>

lemma isEmpty_iff: "isEmpty acc \<longleftrightarrow> acc = zero_account"
  by (cases acc) (simp add: isEmpty_def zero_account_def)

lemma get_set_acc [simp]: "get_acc (set_acc k v a) k' = (if k' = k then v else get_acc a k')"
  by (auto simp: set_acc_def Let_def isEmpty_iff)

lemma cache_set_acc [simp]: "app_cache (set_acc k v a) = app_cache a"
  by (simp add: set_acc_def Let_def)

section \<open>Rewinding\<close>

text \<open>The state that replaying the undo log backwards gives.\<close>

definition rewind :: "app \<Rightarrow> state" where
  "rewind a = applyUndo (app_state a) (app_undo a)"

lemma applyUndo_snoc: "applyUndo s (us @ [u]) = applyUndo (restore u s) us"
  by (simp add: applyUndo_def)

lemma applyUndo_Nil [simp]: "applyUndo s [] = s"
  by (simp add: applyUndo_def)

lemma rewind_set_acc [simp]: "rewind (set_acc k v a) = rewind a"
proof -
  let ?s = "app_state a"
  have "restore \<lparr>ue_addr = k, ue_prev = state_Get ?s k, ue_existed = (state_Lookup ?s k \<noteq> None)\<rparr>
      (if isNameKey k \<and> isEmpty v then state_Delete k ?s else state_Put k v ?s) = ?s"
    by (cases "state_Lookup ?s k")
      (simp_all add: restore_def state_Get_Lookup mem.put_back mem.put_back_deleted mem.delete_new
        mem.delete_absent)
  then show ?thesis by (simp add: rewind_def set_acc_def Let_def applyUndo_snoc)
qed

lemma rewind_cache [simp]: "rewind (a\<lparr>app_cache := c\<rparr>) = rewind a"
  by (simp add: rewind_def)

section \<open>Invariants of the application path\<close>

text \<open>
  Every operation writes only through \<open>set\<close> and the signature cache, to the addresses the
  transaction names and to the record of the name it operates on. A property that such writes keep
  is kept by the application of any transaction, whether it succeeds or fails half way.
\<close>

definition tx_targets :: "transaction \<Rightarrow> string set" where
  "tx_targets tx = {tx_from tx, tx_to tx, tx_fee_payer tx} \<union> out_to ` set (outputs tx)"

locale app_invariant =
  fixes P :: "app \<Rightarrow> bool" and W :: "string \<Rightarrow> account \<Rightarrow> bool"
  assumes set_acc: "P a \<Longrightarrow> W k v \<Longrightarrow> P (set_acc k v a)"
    and cache: "P a \<Longrightarrow> P (a\<lparr>app_cache := c\<rparr>)"
    and name_write: "W (nameStateKey n) (name_account r)"
begin

lemma credit_outputs:
  "P a \<Longrightarrow> (\<And>out v. out \<in> set outs \<Longrightarrow> W (out_to out) v) \<Longrightarrow> P (snd (credit_outputs outs a))"
  by (induction outs arbitrary: a) (auto simp: Let_def set_acc)

lemma bind:
  assumes "P (snd r)" "\<And>s. P s \<Longrightarrow> P (snd (k s))"
  shows "P (snd (bind_err r k))"
  using assms by (cases r) (auto simp: bind_err_def split: option.splits)

lemma transaction:
  assumes a: "P a" and W: "\<And>k v. k \<in> tx_targets tx \<Longrightarrow> W k v"
  shows "P (snd (applyTxTo cfg tx h r pr a))"
proof -
  have w [simp]: "W (tx_from tx) v" "W (tx_to tx) v" "W (tx_fee_payer tx) v" for v
    using W by (simp_all add: tx_targets_def)
  have out [simp]: "P s \<Longrightarrow> P (snd (credit_outputs (outputs tx) s))" for s
    using W by (intro credit_outputs) (auto simp: tx_targets_def)
  have sp [simp]: "P s \<Longrightarrow> P (snd (chargeSponsor tx pr s))" for s
    by (simp add: chargeSponsor_def Let_def set_acc)
  have "P s \<Longrightarrow> P (snd (applyIssue cfg tx i r pr s))"
    "P s \<Longrightarrow> P (snd (applyAssetOp cfg tx opr r pr s))"
    "P s \<Longrightarrow> P (snd (applyNameOp tx n h r pr s))" for s i opr n
    by (simp_all add: applyIssue_def applyAssetOp_def applyNameOp_def Let_def set_acc name_write
        split: option.split sum.split)
  moreover have "P s \<Longrightarrow> P (snd (applyAssetTransfer tx r pr s))"
    "P s \<Longrightarrow> P (snd (applyCoinTransfer tx r pr s))" for s
    by (auto simp: applyAssetTransfer_def applyCoinTransfer_def Let_def set_acc
        split: option.split intro!: bind)
  ultimately show ?thesis
    using a by (simp add: applyTxTo_def Let_def cache split: prod.split option.split)
qed

end

text \<open>The rewound state never changes, and every log entry of a new account holds the zero account.\<close>

interpretation rewinding: app_invariant "\<lambda>a. rewind a = s" "\<lambda>_ _. True" for s
  by unfold_locales simp_all

definition undo_wf :: "undo_entry list \<Rightarrow> bool" where
  "undo_wf us \<longleftrightarrow> (\<forall>u \<in> set us. \<not> ue_existed u \<longrightarrow> ue_prev u = zero_account)"

interpretation logging: app_invariant "\<lambda>a. undo_wf (app_undo a)" "\<lambda>_ _. True"
  by unfold_locales (auto simp: undo_wf_def set_acc_def Let_def state_Get_Lookup)

text \<open>
  Name records hold an owner and an expiry and nothing else: no coin, no nonce, no assets.
\<close>

definition name_record_account :: "account \<Rightarrow> bool" where
  "name_record_account acc \<longleftrightarrow> acc_balance acc = 0 \<and> acc_nonce acc = 0 \<and> acc_assets acc = fmempty"

definition names_clean :: "state \<Rightarrow> bool" where
  "names_clean s \<longleftrightarrow> (\<forall>k. isNameKey k \<longrightarrow> name_record_account (state_Get s k))"

interpretation naming: app_invariant "\<lambda>a. names_clean (app_state a)"
  "\<lambda>k v. isNameKey k \<longrightarrow> name_record_account v"
  by unfold_locales (auto simp: names_clean_def name_record_account_def name_account_def
      zero_account_def)

end
