(* ===== verification/Ledger_Effects.thy ===== *)
theory Ledger_Effects
  imports Ledger
begin

text \<open>
  What a successful application does to the ledger as a whole: the total coin falls by exactly the
  fee, each asset total moves by what the transaction issues, mints or burns, the sender's nonce
  advances by one and no other nonce moves, and the immature reserve of the sender and of the
  fee payer stays unspent. The totals are instances of one additive measure over accounts.
\<close>

section \<open>Additive measures of a ledger\<close>

definition ledger_sum :: "(account \<Rightarrow> 'a :: comm_monoid_add) \<Rightarrow> state \<Rightarrow> 'a" where
  "ledger_sum f s = (\<Sum>k\<in>fmdom' s. f (state_Get s k))"

locale ledger_measure =
  fixes f :: "account \<Rightarrow> 'a :: comm_monoid_add"
  assumes zero [simp]: "f zero_account = 0"
begin

lemma sum_cover:
  assumes "finite A" "fmdom' s \<subseteq> A"
  shows "ledger_sum f s = (\<Sum>k\<in>A. f (state_Get s k))"
  using sum_fmget_superset [of A s f zero_account] assms by (simp add: ledger_sum_def state_Get_def)

lemma sum_write:
  assumes "\<And>b. b \<noteq> k \<Longrightarrow> state_Get t b = state_Get s b" "fmdom' t \<subseteq> insert k (fmdom' s)"
  shows "ledger_sum f t + f (state_Get s k) = ledger_sum f s + f (state_Get t k)"
proof -
  let ?A = "insert k (fmdom' s)" and ?R = "\<Sum>b\<in>fmdom' s - {k}. f (state_Get s b)"
  have "(\<Sum>b\<in>?A. f (state_Get t b)) = f (state_Get t k) + (\<Sum>b\<in>fmdom' s - {k}. f (state_Get t b))"
    by (subst sum.insert_remove) simp_all
  also have "(\<Sum>b\<in>fmdom' s - {k}. f (state_Get t b)) = ?R"
    by (rule sum.cong) (use assms(1) in auto)
  finally have t: "ledger_sum f t = f (state_Get t k) + ?R"
    using sum_cover [of ?A t] assms(2) by simp
  have "(\<Sum>b\<in>?A. f (state_Get s b)) = f (state_Get s k) + ?R"
    by (subst sum.insert_remove) simp_all
  then have "ledger_sum f s = f (state_Get s k) + ?R"
    using sum_cover [of ?A s] by auto
  with t show ?thesis by (simp add: ac_simps)
qed

lemma sum_set_acc:
  "ledger_sum f (app_state (set_acc k v a)) + f (get_acc a k) = ledger_sum f (app_state a) + f v"
proof -
  have "fmdom' (app_state (set_acc k v a)) \<subseteq> insert k (fmdom' (app_state a))"
    by (auto simp: set_acc_def Let_def state_Put_def state_Delete_def split: if_splits)
  then show ?thesis
    using sum_write [of k "app_state (set_acc k v a)" "app_state a"] by simp
qed

end

text \<open>The coin held by all accounts, exactly; and one asset's total, modulo \<open>2^64\<close>.\<close>

definition coin_supply :: "state \<Rightarrow> nat" where
  "coin_supply s = ledger_sum (\<lambda>acc. unat (acc_balance acc)) s"

definition asset_total :: "string \<Rightarrow> state \<Rightarrow> u64" where
  "asset_total i s = ledger_sum (\<lambda>acc. fmget 0 (acc_assets acc) i) s"

interpretation coin: ledger_measure "\<lambda>acc. unat (acc_balance acc)"
  by unfold_locales (simp add: zero_account_def)

interpretation asset: ledger_measure "\<lambda>acc. fmget 0 (acc_assets acc) i" for i
  by unfold_locales (simp add: zero_account_def)

interpretation coin64: ledger_measure "\<lambda>acc. acc_balance acc"
  by unfold_locales (simp add: zero_account_def)

lemma coin_supply_cache [simp]: "app_state (a\<lparr>app_cache := c\<rparr>) = app_state a"
  by simp

lemma coin_supply_set [supply_rules]:
  "coin_supply (app_state (set_acc k v a)) + unat (acc_balance (get_acc a k))
     = coin_supply (app_state a) + unat (acc_balance v)"
  unfolding coin_supply_def by (rule coin.sum_set_acc)

lemma asset_total_set [asset_rules]:
  "asset_total i (app_state (set_acc k v a))
     = asset_total i (app_state a) + fmget 0 (acc_assets v) i - fmget 0 (acc_assets (get_acc a k)) i"
  using asset.sum_set_acc [of i k v a] unfolding asset_total_def by (simp add: algebra_simps)

section \<open>Fees and debits\<close>

definition sponsor_fee :: "transaction \<Rightarrow> nat" where
  "sponsor_fee tx = (if IsSponsored tx then unat (tx_fee tx) else 0)"

lemma fee_split: "unat (senderFee tx) + sponsor_fee tx = unat (tx_fee tx)"
  by (simp add: senderFee_def sponsor_fee_def)

lemma no_wrap_le: "\<not> (x :: u64) + y < x \<Longrightarrow> x \<le> x + y \<and> unat (x + y) = unat x + unat y"
  using unat_add_no_overflow [of x y] by (simp add: add_overflows_def word_le_nat_alt)

lemma debit_simps [simp]:
  "acc_balance (debit acc n) = acc_balance acc - n"
  "acc_nonce (debit acc n) = acc_nonce acc + 1"
  "acc_assets (debit acc n) = acc_assets acc"
  by (simp_all add: debit_def)

lemma fee_checks_ok:
  assumes "fee_checks tx sender reserve = None"
  shows "tx_nonce tx = acc_nonce sender" "senderFee tx \<le> acc_balance sender"
    "unat (senderFee tx) + unat reserve \<le> unat (acc_balance sender)"
proof -
  have nw: "\<not> senderFee tx + reserve < senderFee tx"
    and le: "\<not> acc_balance sender < senderFee tx + reserve"
    and n: "tx_nonce tx = acc_nonce sender"
    using assms by (simp_all add: fee_checks_def Let_def split: if_splits)
  from no_wrap_le [OF nw] le have "unat (senderFee tx) + unat reserve \<le> unat (acc_balance sender)"
    by (simp add: word_less_nat_alt)
  with n show "tx_nonce tx = acc_nonce sender" "senderFee tx \<le> acc_balance sender"
    "unat (senderFee tx) + unat reserve \<le> unat (acc_balance sender)"
    by (simp_all add: word_le_nat_alt)
qed

lemma coin_supply_debit:
  assumes "amount \<le> acc_balance (get_acc a k)" "acc_balance v = acc_balance (get_acc a k) - amount"
  shows "coin_supply (app_state (set_acc k v a)) + unat amount = coin_supply (app_state a)"
  using coin_supply_set [of k v a] assms by (simp add: unat_diff_le word_le_nat_alt)

lemma chargeSponsor_ok:
  assumes "chargeSponsor tx r a = (None, a')"
  shows "coin_supply (app_state a') + sponsor_fee tx = coin_supply (app_state a)"
    "asset_total i (app_state a') = asset_total i (app_state a)"
    "IsSponsored tx \<Longrightarrow> unat r \<le> unat (acc_balance (get_acc a' (tx_fee_payer tx)))"
    "acc_nonce (get_acc a' k) = acc_nonce (get_acc a k)"
    "\<not> IsSponsored tx \<or> k \<noteq> tx_fee_payer tx \<Longrightarrow> get_acc a' k = get_acc a k"
proof -
  let ?p = "get_acc a (tx_fee_payer tx)"
  have un: "a' = a" if "\<not> IsSponsored tx"
    using assms that by (simp add: chargeSponsor_def)
  have sp: "a' = set_acc (tx_fee_payer tx) (?p\<lparr>acc_balance := acc_balance ?p - tx_fee tx\<rparr>) a"
    "unat (tx_fee tx) + unat r \<le> unat (acc_balance ?p)" if "IsSponsored tx"
  proof -
    have nw: "\<not> tx_fee tx + r < tx_fee tx" "\<not> acc_balance ?p < tx_fee tx + r"
      using assms that by (simp_all add: chargeSponsor_def Let_def split: if_splits)
    with no_wrap_le [OF nw(1)] show "unat (tx_fee tx) + unat r \<le> unat (acc_balance ?p)"
      by (simp add: word_less_nat_alt)
    show "a' = set_acc (tx_fee_payer tx) (?p\<lparr>acc_balance := acc_balance ?p - tx_fee tx\<rparr>) a"
      using assms that nw by (simp add: chargeSponsor_def Let_def)
  qed
  have le: "tx_fee tx \<le> acc_balance ?p" if "IsSponsored tx"
    using sp(2) [OF that] by (simp add: word_le_nat_alt)
  show "coin_supply (app_state a') + sponsor_fee tx = coin_supply (app_state a)"
    using un sp le coin_supply_debit [of "tx_fee tx" a "tx_fee_payer tx"]
    by (cases "IsSponsored tx") (simp_all add: sponsor_fee_def)
  show "asset_total i (app_state a') = asset_total i (app_state a)"
    using un sp by (cases "IsSponsored tx") (simp_all add: asset_total_set)
  show "unat r \<le> unat (acc_balance (get_acc a' (tx_fee_payer tx)))" if "IsSponsored tx"
    using sp [OF that] le [OF that] by (simp add: unat_diff_le)
  show "acc_nonce (get_acc a' k) = acc_nonce (get_acc a k)"
    using un sp by (cases "IsSponsored tx") simp_all
  show "get_acc a' k = get_acc a k" if "\<not> IsSponsored tx \<or> k \<noteq> tx_fee_payer tx"
    using un sp that by (cases "IsSponsored tx") simp_all
qed

section \<open>Outputs\<close>

definition outputs_nat :: "tx_output list \<Rightarrow> nat" where
  "outputs_nat outs = sum_list (map (\<lambda>out. unat (out_amount out)) outs)"

lemma sum_outputs_nat: "sum_outputs tot outs = Some t \<Longrightarrow> unat t = unat tot + outputs_nat outs"
proof (induction outs arbitrary: tot)
  case (Cons out outs)
  then have "\<not> tot + out_amount out < tot" "unat t = unat (tot + out_amount out) + outputs_nat outs"
    by (auto split: if_splits)
  with no_wrap_le show ?case by (simp add: outputs_nat_def)
qed (simp add: outputs_nat_def)

lemma TotalOut_nat: "TotalOut tx = Some out \<Longrightarrow> unat out = outputs_nat (outputs tx)"
  using sum_outputs_nat [of 0 "tx_outputs tx" out]
  by (auto simp: TotalOut_def outputs_def outputs_nat_def split: if_splits)

lemma credit_outputs_ok:
  assumes "credit_outputs outs a = (None, a')"
  shows "coin_supply (app_state a') = coin_supply (app_state a) + outputs_nat outs"
    "asset_total i (app_state a') = asset_total i (app_state a)"
    "acc_nonce (get_acc a' k) = acc_nonce (get_acc a k)"
    "acc_balance (get_acc a k) \<le> acc_balance (get_acc a' k)"
proof -
  have "coin_supply (app_state a') = coin_supply (app_state a) + outputs_nat outs \<and>
    asset_total i (app_state a') = asset_total i (app_state a) \<and>
    acc_nonce (get_acc a' k) = acc_nonce (get_acc a k) \<and>
    acc_balance (get_acc a k) \<le> acc_balance (get_acc a' k)"
    using assms
  proof (induction outs arbitrary: a)
    case (Cons out outs)
    let ?r = "get_acc a (out_to out)"
    let ?v = "?r\<lparr>acc_balance := acc_balance ?r + out_amount out\<rparr>"
    let ?a1 = "set_acc (out_to out) ?v a"
    have nw: "\<not> acc_balance ?r + out_amount out < acc_balance ?r"
      and rec: "credit_outputs outs ?a1 = (None, a')"
      using Cons.prems by (auto simp: Let_def split: if_splits)
    note w = no_wrap_le [OF nw]
    have c1: "coin_supply (app_state ?a1) = coin_supply (app_state a) + unat (out_amount out)"
      using coin_supply_set [of "out_to out" ?v a] w by simp
    have "asset_total i (app_state ?a1) = asset_total i (app_state a)"
      by (simp add: asset_total_set)
    moreover have "acc_balance (get_acc a k) \<le> acc_balance (get_acc ?a1 k)"
      using w by simp
    moreover have "acc_nonce (get_acc ?a1 k) = acc_nonce (get_acc a k)" by simp
    ultimately show ?case
      using Cons.IH [OF rec] c1 by (auto simp: outputs_nat_def intro: order_trans)
  qed (simp add: outputs_nat_def)
  then show "coin_supply (app_state a') = coin_supply (app_state a) + outputs_nat outs"
    "asset_total i (app_state a') = asset_total i (app_state a)"
    "acc_nonce (get_acc a' k) = acc_nonce (get_acc a k)"
    "acc_balance (get_acc a k) \<le> acc_balance (get_acc a' k)" by auto
qed

section \<open>The effect of a transaction\<close>

text \<open>What a block's asset accounting expects a transaction to create or destroy.\<close>

definition asset_want :: "config \<Rightarrow> transaction \<Rightarrow> string \<Rightarrow> u64" where
  "asset_want cfg tx i =
     (case tx_issue tx of
        Some iss \<Rightarrow> if i = IssuedAssetID cfg (tx_from tx) (tx_nonce tx) iss then iss_supply iss else 0
      | None \<Rightarrow>
     (case tx_asset_op tx of
        Some opr \<Rightarrow>
          if i \<noteq> tx_asset_id tx then 0
          else if aop_op opr = AssetOpMint then aop_amount opr
          else if aop_op opr = AssetOpBurn then - aop_amount opr else 0
      | None \<Rightarrow> 0))"

text \<open>
  The account a name operation overwrites. On a ledger whose name records hold no coin and no
  assets this is empty apart from its owner and expiry.
\<close>

definition overwritten :: "transaction \<Rightarrow> app \<Rightarrow> account" where
  "overwritten tx a = (case tx_name tx of None \<Rightarrow> zero_account
     | Some n \<Rightarrow> get_acc a (nameStateKey (nop_name n)))"

lemma overwritten_cache [simp]: "overwritten tx (a\<lparr>app_cache := c\<rparr>) = overwritten tx a"
  by (simp add: overwritten_def split: option.split)

definition tx_effect :: "config \<Rightarrow> transaction \<Rightarrow> u64 \<Rightarrow> u64 \<Rightarrow> app \<Rightarrow> app \<Rightarrow> bool" where
  "tx_effect cfg tx reserve payerReserve a a' \<longleftrightarrow>
     coin_supply (app_state a') + unat (tx_fee tx) + unat (acc_balance (overwritten tx a))
       = coin_supply (app_state a) \<and>
     (\<forall>i. asset_total i (app_state a') + fmget 0 (acc_assets (overwritten tx a)) i
       = asset_total i (app_state a) + asset_want cfg tx i) \<and>
     tx_nonce tx = acc_nonce (get_acc a (tx_from tx)) \<and>
     acc_nonce (get_acc a' (tx_from tx)) = acc_nonce (get_acc a (tx_from tx)) + 1 \<and>
     (\<forall>k. k \<noteq> tx_from tx \<longrightarrow> \<not> isNameKey k \<longrightarrow> acc_nonce (get_acc a' k) = acc_nonce (get_acc a k)) \<and>
     (\<forall>k. k \<noteq> tx_from tx \<longrightarrow> \<not> (IsSponsored tx \<and> k = tx_fee_payer tx) \<longrightarrow> \<not> isNameKey k \<longrightarrow>
        acc_balance (get_acc a k) \<le> acc_balance (get_acc a' k)) \<and>
     unat reserve \<le> unat (acc_balance (get_acc a' (tx_from tx))) \<and>
     (IsSponsored tx \<longrightarrow> unat payerReserve \<le> unat (acc_balance (get_acc a' (tx_fee_payer tx))))"

lemma zero_account_simps [simp]:
  "acc_balance zero_account = 0" "acc_assets zero_account = fmempty" "acc_nonce zero_account = 0"
  "acc_owner zero_account = []" "acc_expires zero_account = 0"
  by (simp_all add: zero_account_def)

text \<open>
  The common tail of every operation that debits the sender's fee, rewrites the sender's account and
  then charges the sponsor.
\<close>

lemma sender_then_sponsor:
  assumes fee: "fee_checks tx (get_acc a (tx_from tx)) r = None"
    and v: "acc_balance v = acc_balance (get_acc a (tx_from tx)) - senderFee tx"
      "acc_nonce v = acc_nonce (get_acc a (tx_from tx)) + 1"
    and sp: "chargeSponsor tx pr (set_acc (tx_from tx) v a) = (None, a')"
    and ne: "\<not> IsSponsored tx \<or> tx_from tx \<noteq> tx_fee_payer tx"
  shows "coin_supply (app_state a') + unat (tx_fee tx) = coin_supply (app_state a)"
    "asset_total i (app_state a') = asset_total i (app_state a) + fmget 0 (acc_assets v) i
        - fmget 0 (acc_assets (get_acc a (tx_from tx))) i"
    "tx_nonce tx = acc_nonce (get_acc a (tx_from tx))"
    "acc_nonce (get_acc a' (tx_from tx)) = acc_nonce (get_acc a (tx_from tx)) + 1"
    "k \<noteq> tx_from tx \<Longrightarrow> acc_nonce (get_acc a' k) = acc_nonce (get_acc a k)"
    "unat r \<le> unat (acc_balance (get_acc a' (tx_from tx)))"
    "IsSponsored tx \<Longrightarrow> unat pr \<le> unat (acc_balance (get_acc a' (tx_fee_payer tx)))"
    "k \<noteq> tx_from tx \<Longrightarrow> \<not> (IsSponsored tx \<and> k = tx_fee_payer tx) \<Longrightarrow> get_acc a' k = get_acc a k"
    "get_acc a' (tx_from tx) = v"
proof -
  note fc = fee_checks_ok [OF fee] and cs = chargeSponsor_ok [OF sp]
  have "coin_supply (app_state (set_acc (tx_from tx) v a)) + unat (senderFee tx)
      = coin_supply (app_state a)"
    by (rule coin_supply_debit) (use fc v in simp_all)
  then show "coin_supply (app_state a') + unat (tx_fee tx) = coin_supply (app_state a)"
    using cs(1) fee_split [of tx] by linarith
  show "asset_total i (app_state a') = asset_total i (app_state a) + fmget 0 (acc_assets v) i
      - fmget 0 (acc_assets (get_acc a (tx_from tx))) i"
    using cs(2) [of i] by (simp add: asset_total_set)
  show "tx_nonce tx = acc_nonce (get_acc a (tx_from tx))" by (rule fc(1))
  show "get_acc a' (tx_from tx) = v"
    using cs(5) [OF ne] by simp
  then show "acc_nonce (get_acc a' (tx_from tx)) = acc_nonce (get_acc a (tx_from tx)) + 1"
    "unat r \<le> unat (acc_balance (get_acc a' (tx_from tx)))"
    using v fc by (simp_all add: unat_diff_le)
  show "acc_nonce (get_acc a' k) = acc_nonce (get_acc a k)" if "k \<noteq> tx_from tx"
    using cs(4) [of k] that by simp
  show "unat pr \<le> unat (acc_balance (get_acc a' (tx_fee_payer tx)))" if "IsSponsored tx"
    by (rule cs(3) [OF that])
  show "get_acc a' k = get_acc a k"
    if "k \<noteq> tx_from tx" "\<not> (IsSponsored tx \<and> k = tx_fee_payer tx)"
    using cs(5) [of k] that by auto
qed

lemma applyIssue_effect:
  assumes "applyIssue cfg tx iss r pr a = (None, a')" "tx_issue tx = Some iss" "tx_name tx = None"
    and ne: "\<not> IsSponsored tx \<or> tx_from tx \<noteq> tx_fee_payer tx"
  shows "tx_effect cfg tx r pr a a'"
proof -
  let ?s = "get_acc a (tx_from tx)"
  let ?v = "withAssetDelta (debit ?s (senderFee tx))
    (IssuedAssetID cfg (tx_from tx) (tx_nonce tx) iss) (iss_supply iss)"
  have fee: "fee_checks tx ?s r = None"
    and sp: "chargeSponsor tx pr (set_acc (tx_from tx) ?v a) = (None, a')"
    using assms(1) by (simp_all add: applyIssue_def Let_def split: option.splits if_splits)
  note e = sender_then_sponsor [OF fee _ _ sp ne]
  show ?thesis
    unfolding tx_effect_def using e assms(2,3)
    by (simp add: overwritten_def asset_want_def)
qed

lemma assetOpDelta_want:
  "assetOpDelta opr held = Inr d \<Longrightarrow> tx_issue tx = None \<Longrightarrow> tx_asset_op tx = Some opr \<Longrightarrow>
     asset_want cfg tx i = (if i = tx_asset_id tx then d else 0)"
  by (auto simp: assetOpDelta_def asset_want_def AssetOpMint_def AssetOpBurn_def split: if_splits)

lemma applyAssetOp_effect:
  assumes "applyAssetOp cfg tx opr r pr a = (None, a')" "tx_issue tx = None"
    "tx_asset_op tx = Some opr" "tx_name tx = None"
    and ne: "\<not> IsSponsored tx \<or> tx_from tx \<noteq> tx_fee_payer tx"
  shows "tx_effect cfg tx r pr a a'"
proof -
  let ?s = "get_acc a (tx_from tx)"
  obtain d where fee: "fee_checks tx ?s r = None"
    and d: "assetOpDelta opr (fmget 0 (acc_assets ?s) (tx_asset_id tx)) = Inr d"
    and sp: "chargeSponsor tx pr (set_acc (tx_from tx)
      (withAssetDelta (debit ?s (senderFee tx)) (tx_asset_id tx) d) a) = (None, a')"
    using assms(1) by (auto simp: applyAssetOp_def Let_def split: option.splits if_splits sum.splits)
  note e = sender_then_sponsor [OF fee _ _ sp ne]
  show ?thesis
    unfolding tx_effect_def using e assms(2-4)
    by (simp add: overwritten_def assetOpDelta_want [OF d])
qed

lemma applyAssetTransfer_effect:
  assumes "applyAssetTransfer tx r pr a = (None, a')" "tx_issue tx = None" "tx_asset_op tx = None"
    "tx_name tx = None"
    and ne: "\<not> IsSponsored tx \<or> tx_from tx \<noteq> tx_fee_payer tx"
  shows "tx_effect cfg tx r pr a a'"
proof -
  let ?s = "get_acc a (tx_from tx)"
  obtain a1 where fee: "fee_checks tx ?s r = None"
    and sp: "chargeSponsor tx pr (set_acc (tx_from tx)
      (withAssetDelta (debit ?s (senderFee tx)) (tx_asset_id tx) (- tx_amount tx)) a) = (None, a1)"
    and a': "a' = set_acc (tx_to tx)
      (withAssetDelta (get_acc a1 (tx_to tx)) (tx_asset_id tx) (tx_amount tx)) a1"
    using assms(1)
    by (auto simp: applyAssetTransfer_def Let_def bind_err_eq_None split: option.splits if_splits)
  note e = sender_then_sponsor [OF fee _ _ sp ne]
  have "coin_supply (app_state a') = coin_supply (app_state a1)"
    using coin_supply_set [of "tx_to tx"
        "withAssetDelta (get_acc a1 (tx_to tx)) (tx_asset_id tx) (tx_amount tx)" a1]
    by (simp add: a')
  moreover have "asset_total i (app_state a') = asset_total i (app_state a)" for i
    using e(2) [of i] by (simp add: a' asset_total_set)
  moreover have "acc_balance (get_acc a' k) = acc_balance (get_acc a1 k)"
    "acc_nonce (get_acc a' k) = acc_nonce (get_acc a1 k)" for k
    by (simp_all add: a')
  ultimately show ?thesis
    unfolding tx_effect_def using e(1,3-8) assms(2-4)
    by (simp add: overwritten_def asset_want_def)
qed

lemma name_account_simps [simp]:
  "acc_balance (name_account r) = 0" "acc_assets (name_account r) = fmempty"
  "acc_nonce (name_account r) = 0"
  by (simp_all add: name_account_def)

lemma applyNameOp_effect:
  assumes "applyNameOp tx opr h r pr a = (None, a')" "tx_name tx = Some opr" "tx_issue tx = None"
    "tx_asset_op tx = None" "\<not> isNameKey (tx_from tx)" "\<not> isNameKey (tx_fee_payer tx)"
    and ne: "\<not> IsSponsored tx \<or> tx_from tx \<noteq> tx_fee_payer tx"
  shows "tx_effect cfg tx r pr a a'"
proof -
  let ?s = "get_acc a (tx_from tx)" and ?key = "nameStateKey (nop_name opr)"
  let ?a1 = "set_acc (tx_from tx) (debit ?s (senderFee tx)) a"
  obtain rr where fee: "fee_checks tx ?s r = None"
    and sp: "chargeSponsor tx pr (set_acc ?key (name_account rr) ?a1) = (None, a')"
    using assms(1) by (auto simp: applyNameOp_def Let_def split: option.splits sum.splits)
  have key: "?key \<noteq> tx_from tx" using assms(5) by (metis isNameKey_nameStateKey)
  have ow: "overwritten tx a = get_acc a ?key" using assms(2) by (simp add: overwritten_def)
  note fc = fee_checks_ok [OF fee] and cs = chargeSponsor_ok [OF sp]
  have "coin_supply (app_state ?a1) + unat (senderFee tx) = coin_supply (app_state a)"
    by (rule coin_supply_debit) (use fc in simp_all)
  moreover have "coin_supply (app_state (set_acc ?key (name_account rr) ?a1))
      + unat (acc_balance (get_acc a ?key)) = coin_supply (app_state ?a1)"
    using coin_supply_set [of ?key "name_account rr" ?a1] key by simp
  ultimately have coin: "coin_supply (app_state a') + unat (tx_fee tx)
      + unat (acc_balance (overwritten tx a)) = coin_supply (app_state a)"
    unfolding ow using cs(1) fee_split [of tx] by linarith
  have assets: "asset_total i (app_state a') + fmget 0 (acc_assets (overwritten tx a)) i
      = asset_total i (app_state a) + asset_want cfg tx i" for i
    using cs(2) [of i] key assms(3,4) by (simp add: asset_total_set ow asset_want_def)
  have from_acc: "get_acc a' (tx_from tx) = debit ?s (senderFee tx)"
    using cs(5) [OF ne] key by simp
  have others: "acc_nonce (get_acc a' k) = acc_nonce (get_acc a k)"
    if "k \<noteq> tx_from tx" "\<not> isNameKey k" for k
    using cs(4) [of k] that by (auto split: if_splits)
  have rest: "get_acc a' k = get_acc a k"
    if "k \<noteq> tx_from tx" "\<not> (IsSponsored tx \<and> k = tx_fee_payer tx)" "\<not> isNameKey k" for k
    using cs(5) [of k] that by (auto split: if_splits)
  show ?thesis
    unfolding tx_effect_def using coin assets from_acc others rest fc cs(3)
    by (simp add: unat_diff_le)
qed

lemma applyCoinTransfer_effect:
  assumes "applyCoinTransfer tx r pr a = (None, a')" "tx_issue tx = None" "tx_asset_op tx = None"
    "tx_name tx = None"
    and ne: "\<not> IsSponsored tx \<or> tx_from tx \<noteq> tx_fee_payer tx"
  shows "tx_effect cfg tx r pr a a'"
proof -
  let ?s = "get_acc a (tx_from tx)"
  obtain out a1 where out: "TotalOut tx = Some out"
    and nw: "\<not> out + senderFee tx < out" "\<not> out + senderFee tx + r < out + senderFee tx"
      "\<not> acc_balance ?s < out + senderFee tx + r" "tx_nonce tx = acc_nonce ?s"
    and sp: "chargeSponsor tx pr (set_acc (tx_from tx) (debit ?s (out + senderFee tx)) a) = (None, a1)"
    and cr: "credit_outputs (outputs tx) a1 = (None, a')"
    using assms(1)
    by (auto simp: applyCoinTransfer_def Let_def bind_err_eq_None split: option.splits if_splits)
  note w = no_wrap_le [OF nw(1)] no_wrap_le [OF nw(2)]
  have need: "unat out + unat (senderFee tx) + unat r \<le> unat (acc_balance ?s)"
    using nw(3) w by (simp add: word_less_nat_alt)
  then have le: "out + senderFee tx \<le> acc_balance ?s"
    using w by (simp add: word_le_nat_alt)
  note cs = chargeSponsor_ok [OF sp] and co = credit_outputs_ok [OF cr]
  have "coin_supply (app_state (set_acc (tx_from tx) (debit ?s (out + senderFee tx)) a))
      + unat (out + senderFee tx) = coin_supply (app_state a)"
    by (rule coin_supply_debit) (use le in simp_all)
  then have coin: "coin_supply (app_state a') + unat (tx_fee tx) = coin_supply (app_state a)"
    using cs(1) co(1) fee_split [of tx] TotalOut_nat [OF out] w by linarith
  have f1: "get_acc a1 (tx_from tx) = debit ?s (out + senderFee tx)"
    using cs(5) [OF ne] by simp
  have "unat r \<le> unat (acc_balance (get_acc a1 (tx_from tx)))"
    using f1 need w le by (simp add: unat_diff_le)
  then have res: "unat r \<le> unat (acc_balance (get_acc a' (tx_from tx)))"
    using co(4) [of "tx_from tx"] by (simp add: word_le_nat_alt)
  have pay: "unat pr \<le> unat (acc_balance (get_acc a' (tx_fee_payer tx)))" if "IsSponsored tx"
    using cs(3) [OF that] co(4) [of "tx_fee_payer tx"] by (simp add: word_le_nat_alt)
  have as: "asset_total i (app_state a') = asset_total i (app_state a)" for i
    using co(2) [of i] cs(2) [of i] by (simp add: asset_total_set)
  have others: "acc_nonce (get_acc a' k) = acc_nonce (get_acc a k)" if "k \<noteq> tx_from tx" for k
    using co(3) [of k] cs(4) [of k] that by simp
  have rest: "acc_balance (get_acc a k) \<le> acc_balance (get_acc a' k)"
    if "k \<noteq> tx_from tx" "\<not> (IsSponsored tx \<and> k = tx_fee_payer tx)" for k
    using co(4) [of k] cs(5) [of k] that by auto
  show ?thesis
    unfolding tx_effect_def using coin res pay as others rest co(3) [of "tx_from tx"] f1 nw(4) assms(2-4)
    by (simp add: overwritten_def asset_want_def)
qed

lemma name_form_exclusive:
  "CheckTxSanity cfg tx = None \<Longrightarrow> tx_name tx = Some n \<Longrightarrow> tx_issue tx = None \<and> tx_asset_op tx = None"
  using sane_forms(3) [of cfg tx] by (auto simp: checkNameForm_def IsNameOp_def split: if_splits)

text \<open>Every sane transaction that applies has the effect above, whatever its form.\<close>

lemma applyTxTo_effect:
  assumes "applyTxTo cfg tx h r pr a = (None, a')" and sane: "CheckTxSanity cfg tx = None"
  shows "tx_effect cfg tx r pr a a'"
proof -
  obtain c where c: "cache_Verify cfg tx (app_cache a) = (None, c)"
    using assms(1) by (auto simp: applyTxTo_def split: prod.splits option.splits)
  let ?b = "a\<lparr>app_cache := c\<rparr>"
  have ne: "\<not> IsSponsored tx \<or> tx_from tx \<noteq> tx_fee_payer tx"
    using sane_sponsor_not_sender [OF sane] by fastforce
  note nk = sane_not_name_keys [OF sane]
  have "tx_effect cfg tx r pr ?b a'"
  proof (cases "tx_name tx")
    case (Some n)
    with name_form_exclusive [OF sane Some] assms(1) c nk ne show ?thesis
      by (intro applyNameOp_effect [of tx n h]) (simp_all add: applyTxTo_def)
  next
    case nm: None
    show ?thesis
    proof (cases "tx_issue tx")
      case (Some i)
      with nm assms(1) c ne show ?thesis
        by (intro applyIssue_effect [of cfg tx i]) (simp_all add: applyTxTo_def)
    next
      case isn: None
      show ?thesis
      proof (cases "tx_asset_op tx")
        case (Some opr)
        with nm isn assms(1) c ne show ?thesis
          by (intro applyAssetOp_effect [of cfg tx opr]) (simp_all add: applyTxTo_def)
      next
        case None
        with nm isn assms(1) c ne show ?thesis
          by (cases "IsAssetTransfer tx")
            (auto simp: applyTxTo_def intro: applyAssetTransfer_effect applyCoinTransfer_effect)
      qed
    qed
  qed
  then show ?thesis by (simp add: tx_effect_def)
qed

end
