(* ===== verification/Conservation.thy ===== *)
theory Conservation
  imports Ledger_Effects
begin

text \<open>
  \<open>core/conservation.go\<close> and the ledger total of \<open>core/supply.go\<close>: the pre-block values of the
  accounts a block touched, read from the undo log, the net change of coin and of each asset over
  them, and the check a block must pass. The lemmas show that the sums over the touched accounts
  are the changes of the whole ledger, whatever order a map is walked in.
\<close>

section \<open>Definitions\<close>

fun touched_from :: "(string, account) fmap \<Rightarrow> undo_entry list \<Rightarrow> (string, account) fmap" where
  "touched_from bef [] = bef"
| "touched_from bef (u # us) =
     (case fmlookup bef (ue_addr u) of
        Some _ \<Rightarrow> touched_from bef us
      | None \<Rightarrow> touched_from (fmupd (ue_addr u) (ue_prev u) bef) us)"

definition touchedBefore :: "undo_entry list \<Rightarrow> (string, account) fmap" where
  "touchedBefore undo = touched_from fmempty undo"

definition coinDelta :: "state \<Rightarrow> (string, account) fmap \<Rightarrow> u64" where
  "coinDelta s bef =
     sum_list (map (\<lambda>addr. acc_balance (state_Get s addr)) (fmkeys bef))
     - sum_list (map (\<lambda>addr. acc_balance (fmget zero_account bef addr)) (fmkeys bef))"

definition add_delta :: "string \<Rightarrow> u64 \<Rightarrow> (string, u64) fmap \<Rightarrow> (string, u64) fmap" where
  "add_delta i d m = fmupd i (fmget 0 m i + d) m"

definition drop_zero :: "(string, u64) fmap \<Rightarrow> (string, u64) fmap" where
  "drop_zero m = fmfilter (\<lambda>i. fmget 0 m i \<noteq> 0) m"

definition sub_assets :: "account \<Rightarrow> (string, u64) fmap \<Rightarrow> (string, u64) fmap" where
  "sub_assets acc m =
     fold (\<lambda>i. add_delta i (- fmget 0 (acc_assets acc) i)) (fmkeys (acc_assets acc)) m"

definition add_assets :: "account \<Rightarrow> (string, u64) fmap \<Rightarrow> (string, u64) fmap" where
  "add_assets acc m =
     fold (\<lambda>i. add_delta i (fmget 0 (acc_assets acc) i)) (fmkeys (acc_assets acc)) m"

definition assetDeltas :: "state \<Rightarrow> (string, account) fmap \<Rightarrow> (string, u64) fmap" where
  "assetDeltas s bef = drop_zero
     (fold (\<lambda>addr m. add_assets (state_Get s addr) (sub_assets (fmget zero_account bef addr) m))
        (fmkeys bef) fmempty)"

definition want_step :: "config \<Rightarrow> transaction \<Rightarrow> (string, u64) fmap \<Rightarrow> (string, u64) fmap" where
  "want_step cfg tx m =
     (case tx_issue tx of
        Some i \<Rightarrow> add_delta (IssuedAssetID cfg (tx_from tx) (tx_nonce tx) i) (iss_supply i) m
      | None \<Rightarrow>
     (case tx_asset_op tx of
        Some opr \<Rightarrow>
          if aop_op opr = AssetOpMint then add_delta (tx_asset_id tx) (aop_amount opr) m
          else if aop_op opr = AssetOpBurn then add_delta (tx_asset_id tx) (- aop_amount opr) m
          else m
      | None \<Rightarrow> m))"

definition wantAssets :: "config \<Rightarrow> transaction list \<Rightarrow> (string, u64) fmap" where
  "wantAssets cfg txs = drop_zero (fold (want_step cfg) (drop 1 txs) fmempty)"

datatype conservation_error =
    CoinNotConserved u64 u64 | AssetNotConserved string | AssetUnexplained string

definition checkConservation :: "config \<Rightarrow> state \<Rightarrow> undo_entry list \<Rightarrow> transaction list \<Rightarrow> u64 \<Rightarrow> u64
    \<Rightarrow> conservation_error option" where
  "checkConservation cfg s undo txs reward burned =
     (let bef = touchedBefore undo;
          wantCoin = reward - burned;
          want = wantAssets cfg txs;
          got = assetDeltas s bef
      in if coinDelta s bef \<noteq> wantCoin then Some (CoinNotConserved (coinDelta s bef) wantCoin)
         else err_then
           (map_option AssetNotConserved (find (\<lambda>i. fmget 0 got i \<noteq> fmget 0 want i) (fmkeys want)))
           (map_option AssetUnexplained (find (\<lambda>i. fmlookup want i = None) (fmkeys got))))"

definition totalBalance :: "state \<Rightarrow> u64" where
  "totalBalance s = sum_list (map (\<lambda>(_, acc). acc_balance acc) (state_Range s))"

section \<open>The undo log and the touched accounts\<close>

lemma restore_Get:
  "state_Get (restore u s) k = (if k = ue_addr u then (if ue_existed u then ue_prev u else zero_account)
     else state_Get s k)"
  by (simp add: restore_def)

lemma applyUndo_Cons: "applyUndo s (u # us) = restore u (applyUndo s us)"
  by (simp add: applyUndo_def)

lemma applyUndo_untouched:
  "k \<notin> ue_addr ` set us \<Longrightarrow> state_Get (applyUndo s us) k = state_Get s k"
  by (induction us) (auto simp: applyUndo_Cons restore_Get)

lemma touched_from_lookup:
  assumes "undo_wf us"
  shows "fmlookup (touched_from bef us) k =
     (case fmlookup bef k of Some v \<Rightarrow> Some v
      | None \<Rightarrow> if k \<in> ue_addr ` set us then Some (state_Get (applyUndo s us) k) else None)"
  using assms
proof (induction us arbitrary: bef)
  case (Cons u us)
  then have wf: "undo_wf us" "\<not> ue_existed u \<Longrightarrow> ue_prev u = zero_account"
    by (auto simp: undo_wf_def)
  show ?case
    using Cons.IH [OF wf(1)] wf(2)
    by (auto simp: applyUndo_Cons restore_Get split: option.splits)
qed (simp split: option.splits)

lemma touchedBefore_lookup:
  "undo_wf us \<Longrightarrow> fmlookup (touchedBefore us) k =
     (if k \<in> ue_addr ` set us then Some (state_Get (applyUndo s us) k) else None)"
  unfolding touchedBefore_def by (subst touched_from_lookup [of _ _ _ s]) simp_all

lemma touchedBefore_dom: "undo_wf us \<Longrightarrow> fmdom' (touchedBefore us) = ue_addr ` set us"
  by (auto simp: fmlookup_dom'_iff touchedBefore_lookup [of us _ fmempty] split: if_splits)

lemma touchedBefore_get:
  "undo_wf us \<Longrightarrow> k \<in> ue_addr ` set us \<Longrightarrow>
     fmget zero_account (touchedBefore us) k = state_Get (applyUndo s us) k"
  by (simp add: fmget_def touchedBefore_lookup [of us k s])

text \<open>A change summed over the touched accounts is the change of the whole ledger.\<close>

lemma touched_change:
  fixes f :: "account \<Rightarrow> 'a :: ab_group_add"
  assumes "undo_wf us" "f zero_account = 0"
  shows "(\<Sum>k\<in>fmdom' (touchedBefore us). f (state_Get s k))
      - (\<Sum>k\<in>fmdom' (touchedBefore us). f (fmget zero_account (touchedBefore us) k))
    = ledger_sum f s - ledger_sum f (applyUndo s us)"
proof -
  let ?t = "applyUndo s us" and ?T = "ue_addr ` set us"
  let ?A = "?T \<union> fmdom' s \<union> fmdom' ?t"
  have cover: "ledger_sum f s = (\<Sum>k\<in>?A. f (state_Get s k))"
    "ledger_sum f ?t = (\<Sum>k\<in>?A. f (state_Get ?t k))"
    using sum_fmget_superset [of ?A s f zero_account] sum_fmget_superset [of ?A ?t f zero_account]
      assms(2) by (simp_all add: ledger_sum_def state_Get_def le_supI1)
  have "(\<Sum>k\<in>?A. f (state_Get s k)) - (\<Sum>k\<in>?A. f (state_Get ?t k))
      = (\<Sum>k\<in>?A. f (state_Get s k) - f (state_Get ?t k))"
    by (simp add: sum_subtractf)
  also have "\<dots> = (\<Sum>k\<in>?T. f (state_Get s k) - f (state_Get ?t k))"
    by (rule sum.mono_neutral_right) (auto simp: applyUndo_untouched)
  also have "\<dots> = (\<Sum>k\<in>?T. f (state_Get s k)) - (\<Sum>k\<in>?T. f (state_Get ?t k))"
    by (simp add: sum_subtractf)
  also have "(\<Sum>k\<in>?T. f (state_Get ?t k))
      = (\<Sum>k\<in>?T. f (fmget zero_account (touchedBefore us) k))"
    by (rule sum.cong) (simp_all add: touchedBefore_get [OF assms(1), of _ s])
  finally show ?thesis
    using cover by (simp add: touchedBefore_dom [OF assms(1)])
qed

lemma coinDelta_ledger:
  assumes "undo_wf us"
  shows "coinDelta s (touchedBefore us)
    = of_nat (coin_supply s) - of_nat (coin_supply (applyUndo s us))"
proof -
  have nat: "of_nat (coin_supply t) = ledger_sum acc_balance t" for t
    by (simp add: coin_supply_def ledger_sum_def)
  show ?thesis
    using touched_change [OF assms, of acc_balance s]
    by (simp add: coinDelta_def sum_list_fmkeys nat)
qed

section \<open>Asset accounting\<close>

lemma add_delta_get [simp]: "fmget 0 (add_delta i d m) j = fmget 0 m j + (if j = i then d else 0)"
  by (simp add: add_delta_def)

lemma drop_zero_get [simp]: "fmget 0 (drop_zero m) i = fmget 0 m i"
  by (auto simp: drop_zero_def fmget_def split: option.splits)

lemma drop_zero_lookup: "fmlookup (drop_zero m) i = None \<longleftrightarrow> fmget 0 m i = 0"
  by (auto simp: drop_zero_def fmget_def split: option.splits)

lemma fold_add_delta:
  "fmget 0 (fold (\<lambda>i. add_delta i (g i)) xs m) j = fmget 0 m j + (\<Sum>i\<leftarrow>xs. if j = i then g i else 0)"
  by (induction xs arbitrary: m) (simp_all add: algebra_simps)

lemma sum_keys_single:
  "(\<Sum>i\<leftarrow>fmkeys m. if j = i then g i else 0) = (if j \<in> fmdom' m then g j else (0 :: u64))"
  by (subst sum_list_fmkeys) (simp add: sum.delta)

lemma sub_assets_get: "fmget 0 (sub_assets acc m) j = fmget 0 m j - fmget 0 (acc_assets acc) j"
  by (auto simp: sub_assets_def fold_add_delta sum_keys_single fmget_not_dom)

lemma add_assets_get: "fmget 0 (add_assets acc m) j = fmget 0 m j + fmget 0 (acc_assets acc) j"
  by (auto simp: add_assets_def fold_add_delta sum_keys_single fmget_not_dom)

lemma fold_assets:
  "fmget 0 (fold (\<lambda>addr m. add_assets (f addr) (sub_assets (g addr) m)) xs m) j
     = fmget 0 m j + ((\<Sum>addr\<leftarrow>xs. fmget 0 (acc_assets (f addr)) j)
         - (\<Sum>addr\<leftarrow>xs. fmget 0 (acc_assets (g addr)) j))"
  by (induction xs arbitrary: m) (simp_all add: sub_assets_get add_assets_get algebra_simps)

lemma assetDeltas_ledger:
  assumes "undo_wf us"
  shows "fmget 0 (assetDeltas s (touchedBefore us)) i
    = asset_total i s - asset_total i (applyUndo s us)"
  using touched_change [OF assms, of "\<lambda>acc. fmget 0 (acc_assets acc) i" s]
  by (simp add: assetDeltas_def fold_assets sum_list_fmkeys asset_total_def)

lemma want_step_get: "fmget 0 (want_step cfg tx m) i = fmget 0 m i + asset_want cfg tx i"
  by (simp add: want_step_def asset_want_def split: option.split)

lemma wantAssets_get: "fmget 0 (wantAssets cfg txs) i = (\<Sum>tx\<leftarrow>drop 1 txs. asset_want cfg tx i)"
proof -
  have "fmget 0 (fold (want_step cfg) xs m) i = fmget 0 m i + (\<Sum>tx\<leftarrow>xs. asset_want cfg tx i)" for xs m
    by (induction xs arbitrary: m) (simp_all add: want_step_get algebra_simps)
  then show ?thesis by (simp add: wantAssets_def)
qed

text \<open>
  The check passes exactly when the ledger's coin moved by subsidy minus burn and every asset total
  moved by what the transactions issue, all modulo \<open>2^64\<close>.
\<close>

lemma checkConservation_iff:
  assumes "undo_wf us"
  shows "checkConservation cfg s us txs reward burned = None \<longleftrightarrow>
    of_nat (coin_supply s) - of_nat (coin_supply (applyUndo s us)) = reward - burned \<and>
    (\<forall>i. asset_total i s - asset_total i (applyUndo s us) = (\<Sum>tx\<leftarrow>drop 1 txs. asset_want cfg tx i))"
proof -
  let ?got = "assetDeltas s (touchedBefore us)" and ?want = "wantAssets cfg txs"
  have keys: "i \<in> fmdom' ?want \<longleftrightarrow> fmget 0 ?want i \<noteq> 0" "i \<in> fmdom' ?got \<longleftrightarrow> fmget 0 ?got i \<noteq> 0" for i
    unfolding wantAssets_def assetDeltas_def
    by (simp_all add: fmlookup_dom'_iff drop_zero_lookup flip: not_None_eq)
  have lk: "fmlookup ?want i = None \<longleftrightarrow> fmget 0 ?want i = 0" for i
    unfolding wantAssets_def by (simp add: drop_zero_lookup)
  have "(find (\<lambda>i. fmget 0 ?got i \<noteq> fmget 0 ?want i) (fmkeys ?want) = None \<and>
      find (\<lambda>i. fmlookup ?want i = None) (fmkeys ?got) = None)
    \<longleftrightarrow> (\<forall>i. fmget 0 ?got i = fmget 0 ?want i)"
    unfolding find_None_iff set_fmkeys keys lk by metis
  then show ?thesis
    by (auto simp: checkConservation_def Let_def coinDelta_ledger [OF assms]
        assetDeltas_ledger [OF assms] wantAssets_get)
qed

lemma totalBalance_supply: "totalBalance s = of_nat (coin_supply s)"
  by (simp add: totalBalance_def state_Range_def coin_supply_def ledger_sum_def comp_def sum_list_fmkeys)

end
