(* ===== verification/Samples.thy ===== *)
theory Samples
  imports Conservation "HOL-Library.Code_Target_Nat"
begin

text \<open>
  Concrete values for the instances beside the theorems: a configuration whose hash keeps the last
  32 bytes of its argument and whose signatures always verify, two key pairs, and a ledger that
  funds the first.
\<close>

definition sample_sha :: "bytes \<Rightarrow> bytes" where
  "sample_sha b = take 32 (rev b @ replicate 32 (CHR 0x00))"

definition sample_cfg :: config where
  "sample_cfg = \<lparr>sha256 = sample_sha, ed25519_verify = (\<lambda>_ _ _. True), network_id = ''dnas-test'',
     no_retarget = False,
     upgrades = fmap_of_list [(UpgradeFeeSponsor, 0), (UpgradeNameService, 0), (UpgradeMultiOutput, 0)],
     checkpoints = fmempty\<rparr>"

definition sample_key :: "char \<Rightarrow> string" where
  "sample_key c = replicate 64 c"

definition sample_sig :: string where
  "sample_sig = replicate 128 (CHR ''0'')"

definition sample_addr :: "char \<Rightarrow> string" where
  "sample_addr c = (case AddressFromPubKeyHex sample_cfg (sample_key c) of Inr a \<Rightarrow> a | Inl _ \<Rightarrow> [])"

definition alice :: string where "alice = sample_addr (CHR ''a'')"
definition bob :: string where "bob = sample_addr (CHR ''b'')"
definition carol :: string where "carol = sample_addr (CHR ''c'')"

definition sample_state :: state where
  "sample_state = fmap_of_list
     [(alice, zero_account\<lparr>acc_balance := 1000000\<rparr>), (carol, zero_account\<lparr>acc_balance := 500000\<rparr>)]"

text \<open>Alice pays Bob 700 with a fee of 50000, signed with her key.\<close>

definition sample_payment :: transaction where
  "sample_payment = zero_tx\<lparr>tx_from := alice, tx_to := bob, tx_amount := 700, tx_fee := 50000,
     tx_pubkey := sample_key (CHR ''a''), tx_signature := sample_sig\<rparr>"

lemma sample_sha_length: "sha256_length sample_cfg"
  by (auto simp: sha256_length_def sample_cfg_def sample_sha_def)

end
