(* ===== verification/Block_Apply.thy ===== *)
theory Block_Apply
  imports Samples
begin

text \<open>
  Applying the transactions and the coinbase of a block (\<open>core/blockchain.go\<close>:
  \<open>immatureCoinbase\<close>, \<open>applyTxsAndCoinbase\<close>; \<open>core/supply.go\<close>: \<open>blockBurned\<close>). The theorems: a
  rejected block leaves the ledger exactly as it was, the undo log of an accepted block restores
  it exactly, an accepted block changes the coin in existence by the subsidy minus the burned
  base fees, and on a ledger with clean name records the conservation guard never fires.
\<close>

section \<open>Definitions\<close>

datatype tx_reject = OneCoinbase | TxErr tx_error | FeeBelowBase | DuplicateTx

datatype apply_block_error =
    TxRejection nat tx_reject | BadCoinbaseAmount | CoinbaseOverflow
  | NotConserved conservation_error | NoTransactions

text \<open>
  The coinbase of block \<open>i\<close> counts for \<open>start \<le> i < height\<close> as far as the chain reaches; a block
  without transactions is a pruned placeholder and counts nothing.
\<close>

definition immatureCoinbase :: "block list \<Rightarrow> u64 \<Rightarrow> string \<Rightarrow> u64" where
  "immatureCoinbase blocks height addr =
     (let start = (if CoinbaseMaturity < height then height - CoinbaseMaturity + 1 else 1)
      in sum_list (map (\<lambda>i. case blk_transactions (blocks ! i) of [] \<Rightarrow> 0
           | cb # _ \<Rightarrow> if IsCoinbase cb \<and> tx_to cb = addr then tx_amount cb else 0)
         [unat start ..< min (unat height) (length blocks)]))"

fun apply_txs :: "config \<Rightarrow> block list \<Rightarrow> u64 \<Rightarrow> u64 \<Rightarrow> nat \<Rightarrow> transaction list \<Rightarrow> string list
    \<Rightarrow> u64 \<Rightarrow> u64 \<Rightarrow> app \<Rightarrow> apply_block_error option \<times> u64 \<times> u64 \<times> app" where
  "apply_txs cfg blocks height baseFee i [] seen tips burned a = (None, tips, burned, a)"
| "apply_txs cfg blocks height baseFee i (tx # txs) seen tips burned a =
     (let reject = (\<lambda>e a'. (Some (TxRejection i e), tips, burned, a')) in
      if IsCoinbase tx then reject OneCoinbase a
      else case CheckTxSanity cfg tx of Some e \<Rightarrow> reject (TxErr e) a | None \<Rightarrow>
     (case checkTxAtHeight cfg tx height of Some e \<Rightarrow> reject (TxErr e) a | None \<Rightarrow>
      let minFee = BaseFeeFor cfg tx baseFee; h = tx_hash cfg tx in
      if tx_fee tx < minFee then reject FeeBelowBase a
      else if h \<in> set seen then reject DuplicateTx a
      else
       (case applyTxTo cfg tx height (immatureCoinbase blocks height (tx_from tx))
               (if IsSponsored tx then immatureCoinbase blocks height (tx_fee_payer tx) else 0) a of
          (Some e, a') \<Rightarrow> reject (TxErr e) a'
        | (None, a') \<Rightarrow>
            apply_txs cfg blocks height baseFee (Suc i) txs (h # seen)
              (tips + (tx_fee tx - minFee)) (burned + minFee) a')))"

definition applyTxsAndCoinbase :: "config \<Rightarrow> state \<Rightarrow> block list \<Rightarrow> block \<Rightarrow> vcache option
    \<Rightarrow> (apply_block_error + undo_entry list) \<times> state \<times> vcache option" where
  "applyTxsAndCoinbase cfg s blocks blk cache =
     (case blk_transactions blk of
        [] \<Rightarrow> (Inl NoTransactions, s, cache)
      | coinbase # txs \<Rightarrow>
          let height = blk_index blk;
              fail = (\<lambda>e a. (Inl e, applyUndo (app_state a) (app_undo a), app_cache a))
          in case apply_txs cfg blocks height (blk_base_fee blk) 1 txs [] 0 0
                    \<lparr>app_state = s, app_undo = [], app_cache = cache\<rparr> of
            (Some e, _, _, a) \<Rightarrow> fail e a
          | (None, tips, burned, a) \<Rightarrow>
              let reward = BlockReward height; acc = get_acc a (tx_to coinbase) in
              if tx_amount coinbase \<noteq> reward + tips then fail BadCoinbaseAmount a
              else if acc_balance acc + tx_amount coinbase < acc_balance acc
              then fail CoinbaseOverflow a
              else let a2 = set_acc (tx_to coinbase)
                         (acc\<lparr>acc_balance := acc_balance acc + tx_amount coinbase\<rparr>) a in
                (case checkConservation cfg (app_state a2) (app_undo a2) (blk_transactions blk)
                        reward burned of
                   Some e \<Rightarrow> fail (NotConserved e) a2
                 | None \<Rightarrow> (Inr (app_undo a2), app_state a2, app_cache a2)))"

definition blockBurned :: "config \<Rightarrow> block \<Rightarrow> u64" where
  "blockBurned cfg b = sum_list (map (\<lambda>tx. BaseFeeFor cfg tx (blk_base_fee b))
     (drop 1 (blk_transactions b)))"

section \<open>The transaction loop\<close>

lemma apply_txs_invariant:
  assumes "app_invariant P W" "P a"
    and "\<And>tx k v. tx \<in> set txs \<Longrightarrow> CheckTxSanity cfg tx = None \<Longrightarrow> k \<in> tx_targets tx \<Longrightarrow> W k v"
  shows "P (snd (snd (snd (apply_txs cfg blocks height bf i txs seen tips burned a))))"
  using assms(2,3)
proof (induction txs arbitrary: i seen tips burned a)
  case (Cons tx txs)
  have tx: "P (snd (applyTxTo cfg tx height r pr a))" if "CheckTxSanity cfg tx = None" for r pr
    using app_invariant.transaction [OF assms(1) Cons.prems(1)] Cons.prems(2) [of tx] that by simp
  show ?case
    using Cons.IH [of _ _ _ _] Cons.prems tx
    by (auto simp: Let_def split: option.split prod.split)
      (metis snd_conv)+
qed simp

lemma apply_txs_rewind:
  "rewind (snd (snd (snd (apply_txs cfg blocks height bf i txs seen tips burned a)))) = rewind a"
  by (rule apply_txs_invariant [OF rewinding.app_invariant_axioms]) simp_all

lemma apply_txs_undo_wf:
  "undo_wf (app_undo a) \<Longrightarrow>
     undo_wf (app_undo (snd (snd (snd (apply_txs cfg blocks height bf i txs seen tips burned a)))))"
  by (rule apply_txs_invariant [OF logging.app_invariant_axioms]) simp_all

lemma sane_targets:
  "CheckTxSanity cfg tx = None \<Longrightarrow> k \<in> tx_targets tx \<Longrightarrow> \<not> isNameKey k"
  using sane_not_name_keys [of cfg tx] sane_outputs_not_name [of cfg tx]
  by (auto simp: tx_targets_def)

lemma apply_txs_names_clean:
  "names_clean (app_state a) \<Longrightarrow>
     names_clean (app_state (snd (snd (snd (apply_txs cfg blocks height bf i txs seen tips burned a)))))"
  by (rule apply_txs_invariant [OF naming.app_invariant_axioms]) (auto dest: sane_targets)

lemma apply_txs_ConsE:
  assumes "apply_txs cfg blocks height bf i (tx # txs) seen tips burned a = (None, t', b', a')"
  obtains a1 where "CheckTxSanity cfg tx = None" "checkTxAtHeight cfg tx height = None"
    "BaseFeeFor cfg tx bf \<le> tx_fee tx" "tx_hash cfg tx \<notin> set seen"
    "applyTxTo cfg tx height (immatureCoinbase blocks height (tx_from tx))
       (if IsSponsored tx then immatureCoinbase blocks height (tx_fee_payer tx) else 0) a = (None, a1)"
    "apply_txs cfg blocks height bf (Suc i) txs (tx_hash cfg tx # seen)
       (tips + (tx_fee tx - BaseFeeFor cfg tx bf)) (burned + BaseFeeFor cfg tx bf) a1 = (None, t', b', a')"
  using assms by (auto simp: Let_def not_less split: option.splits prod.splits if_splits)

text \<open>
  The coin of the ledger together with the accumulated tips and burns: no transaction adds to it, and
  with clean name records none removes from it.
\<close>

lemma apply_txs_coin:
  assumes "apply_txs cfg blocks height bf i txs seen tips burned a = (None, tips', burned', a')"
    "coin_supply (app_state a) + unat tips + unat burned < 2 ^ 64"
  shows "coin_supply (app_state a') + unat tips' + unat burned'
      \<le> coin_supply (app_state a) + unat tips + unat burned"
    "names_clean (app_state a) \<Longrightarrow> coin_supply (app_state a') + unat tips' + unat burned'
      = coin_supply (app_state a) + unat tips + unat burned"
  using assms
proof (induction txs arbitrary: i seen tips burned a)
  case (Cons tx txs)
  case 1
  from 1(1) show ?case
  proof (rule apply_txs_ConsE)
    fix a1
    let ?m = "BaseFeeFor cfg tx bf"
    assume sane: "CheckTxSanity cfg tx = None" and fee: "?m \<le> tx_fee tx"
      and app: "applyTxTo cfg tx height (immatureCoinbase blocks height (tx_from tx))
        (if IsSponsored tx then immatureCoinbase blocks height (tx_fee_payer tx) else 0) a = (None, a1)"
      and rest: "apply_txs cfg blocks height bf (Suc i) txs (tx_hash cfg tx # seen)
        (tips + (tx_fee tx - ?m)) (burned + ?m) a1 = (None, tips', burned', a')"
    have eff: "coin_supply (app_state a1) + unat (tx_fee tx) \<le> coin_supply (app_state a)"
      using applyTxTo_effect [OF app sane] by (simp add: tx_effect_def)
    have split: "unat (tx_fee tx - ?m) + unat ?m = unat (tx_fee tx)"
      using fee by (simp add: unat_diff_le word_le_nat_alt)
    have t: "unat (tips + (tx_fee tx - ?m)) = unat tips + unat (tx_fee tx - ?m)"
      by (rule unat_add_small) (use 1(2) eff split in linarith)
    have b: "unat (burned + ?m) = unat burned + unat ?m"
      by (rule unat_add_small) (use 1(2) eff split in linarith)
    show ?case
      using Cons.IH(1) [OF rest] 1(2) eff split t b by linarith
  qed
next
  case (Cons tx txs)
  case 2
  from 2(2) show ?case
  proof (rule apply_txs_ConsE)
    fix a1
    let ?m = "BaseFeeFor cfg tx bf"
    assume sane: "CheckTxSanity cfg tx = None" and fee: "?m \<le> tx_fee tx"
      and app: "applyTxTo cfg tx height (immatureCoinbase blocks height (tx_from tx))
        (if IsSponsored tx then immatureCoinbase blocks height (tx_fee_payer tx) else 0) a = (None, a1)"
      and rest: "apply_txs cfg blocks height bf (Suc i) txs (tx_hash cfg tx # seen)
        (tips + (tx_fee tx - ?m)) (burned + ?m) a1 = (None, tips', burned', a')"
    have "acc_balance (overwritten tx a) = 0"
      using 2(1) by (auto simp: overwritten_def names_clean_def name_record_account_def
          split: option.split)
    then have eff: "coin_supply (app_state a1) + unat (tx_fee tx) = coin_supply (app_state a)"
      using applyTxTo_effect [OF app sane] by (simp add: tx_effect_def)
    have nc: "names_clean (app_state a1)"
      using naming.transaction [OF 2(1), of tx cfg height] sane_targets [OF sane] app
      by (metis snd_conv)
    have split: "unat (tx_fee tx - ?m) + unat ?m = unat (tx_fee tx)"
      using fee by (simp add: unat_diff_le word_le_nat_alt)
    have t: "unat (tips + (tx_fee tx - ?m)) = unat tips + unat (tx_fee tx - ?m)"
      by (rule unat_add_small) (use 2(3) eff split in linarith)
    have b: "unat (burned + ?m) = unat burned + unat ?m"
      by (rule unat_add_small) (use 2(3) eff split in linarith)
    show ?case
      using Cons.IH(2) [OF nc rest] 2(3) eff split t b by linarith
  qed
qed simp_all

lemma apply_txs_assets:
  assumes "apply_txs cfg blocks height bf i txs seen tips burned a = (None, tips', burned', a')"
    "names_clean (app_state a)"
  shows "asset_total j (app_state a') = asset_total j (app_state a) + (\<Sum>tx\<leftarrow>txs. asset_want cfg tx j)"
  using assms
proof (induction txs arbitrary: i seen tips burned a)
  case (Cons tx txs)
  from Cons.prems(1) show ?case
  proof (rule apply_txs_ConsE)
    fix a1
    assume sane: "CheckTxSanity cfg tx = None"
      and app: "applyTxTo cfg tx height (immatureCoinbase blocks height (tx_from tx))
        (if IsSponsored tx then immatureCoinbase blocks height (tx_fee_payer tx) else 0) a = (None, a1)"
      and rest: "apply_txs cfg blocks height bf (Suc i) txs (tx_hash cfg tx # seen)
        (tips + (tx_fee tx - BaseFeeFor cfg tx bf)) (burned + BaseFeeFor cfg tx bf) a1
          = (None, tips', burned', a')"
    have "fmget 0 (acc_assets (overwritten tx a)) j = 0"
      using Cons.prems(2) by (auto simp: overwritten_def names_clean_def name_record_account_def
          split: option.split)
    then have eff: "asset_total j (app_state a1) = asset_total j (app_state a) + asset_want cfg tx j"
      using applyTxTo_effect [OF app sane] unfolding tx_effect_def by (metis add.right_neutral)
    have nc: "names_clean (app_state a1)"
      using naming.transaction [OF Cons.prems(2), of tx cfg height] sane_targets [OF sane] app
      by (metis snd_conv)
    show ?thesis
      using Cons.IH [OF rest nc] eff by (simp add: algebra_simps)
  qed
qed simp

lemma apply_txs_error:
  "fst (apply_txs cfg blocks height bf i txs seen tips burned a) \<noteq> Some (NotConserved e)"
  by (induction txs arbitrary: i seen tips burned a)
    (auto simp: Let_def split: option.split prod.split)

lemma apply_txs_burned:
  assumes "apply_txs cfg blocks height bf i txs seen tips burned a = (None, tips', burned', a')"
  shows "burned' = burned + sum_list (map (\<lambda>tx. BaseFeeFor cfg tx bf) txs)"
    "tips' = tips + sum_list (map (\<lambda>tx. tx_fee tx - BaseFeeFor cfg tx bf) txs)"
    "\<forall>tx \<in> set txs. CheckTxSanity cfg tx = None \<and> checkTxAtHeight cfg tx height = None
       \<and> BaseFeeFor cfg tx bf \<le> tx_fee tx"
    "distinct (map (tx_hash cfg) txs)" "set (map (tx_hash cfg) txs) \<inter> set seen = {}"
proof -
  have "burned' = burned + sum_list (map (\<lambda>tx. BaseFeeFor cfg tx bf) txs) \<and>
    tips' = tips + sum_list (map (\<lambda>tx. tx_fee tx - BaseFeeFor cfg tx bf) txs) \<and>
    (\<forall>tx \<in> set txs. CheckTxSanity cfg tx = None \<and> checkTxAtHeight cfg tx height = None
       \<and> BaseFeeFor cfg tx bf \<le> tx_fee tx) \<and>
    distinct (map (tx_hash cfg) txs) \<and> set (map (tx_hash cfg) txs) \<inter> set seen = {}"
    using assms
  proof (induction txs arbitrary: i seen tips burned a)
    case (Cons tx txs)
    from Cons.prems show ?case
      by (rule apply_txs_ConsE) (drule Cons.IH, auto simp: algebra_simps)
  qed simp
  then show "burned' = burned + sum_list (map (\<lambda>tx. BaseFeeFor cfg tx bf) txs)"
    "tips' = tips + sum_list (map (\<lambda>tx. tx_fee tx - BaseFeeFor cfg tx bf) txs)"
    "\<forall>tx \<in> set txs. CheckTxSanity cfg tx = None \<and> checkTxAtHeight cfg tx height = None
       \<and> BaseFeeFor cfg tx bf \<le> tx_fee tx"
    "distinct (map (tx_hash cfg) txs)" "set (map (tx_hash cfg) txs) \<inter> set seen = {}"
    by auto
qed

section \<open>Accepted and rejected blocks\<close>

lemma rewind_app: "rewind a = applyUndo (app_state a) (app_undo a)"
  by (simp add: rewind_def)

lemma apply_txs_undo:
  assumes "apply_txs cfg blocks height bf i txs seen tips burned
      \<lparr>app_state = s, app_undo = [], app_cache = c\<rparr> = (e, t, b, a)"
  shows "applyUndo (app_state a) (app_undo a) = s" "undo_wf (app_undo a)"
  using apply_txs_rewind [of cfg blocks height bf i txs seen tips burned
      "\<lparr>app_state = s, app_undo = [], app_cache = c\<rparr>"]
    apply_txs_undo_wf [of "\<lparr>app_state = s, app_undo = [], app_cache = c\<rparr>"
      cfg blocks height bf i txs seen tips burned] assms
  by (simp_all add: rewind_app applyUndo_def undo_wf_def)

lemma set_acc_undo:
  "applyUndo (app_state (set_acc k v a)) (app_undo (set_acc k v a))
     = applyUndo (app_state a) (app_undo a)"
  "undo_wf (app_undo a) \<Longrightarrow> undo_wf (app_undo (set_acc k v a))"
  using rewinding.set_acc [of a "rewind a" k v] logging.set_acc [of a k v] by (simp_all add: rewind_app)

text \<open>What the transaction loop and the payment of the coinbase do to the totals.\<close>

abbreviation pay_coinbase :: "transaction \<Rightarrow> app \<Rightarrow> app" where
  "pay_coinbase cb a \<equiv> set_acc (tx_to cb) ((get_acc a (tx_to cb))
     \<lparr>acc_balance := acc_balance (get_acc a (tx_to cb)) + tx_amount cb\<rparr>) a"

lemma applyTxsAndCoinbase_okE:
  assumes "applyTxsAndCoinbase cfg s blocks blk cache = (Inr undo, s', cache')"
  obtains cb txs tips burned a where
    "blk_transactions blk = cb # txs"
    "apply_txs cfg blocks (blk_index blk) (blk_base_fee blk) 1 txs [] 0 0
       \<lparr>app_state = s, app_undo = [], app_cache = cache\<rparr> = (None, tips, burned, a)"
    "tx_amount cb = BlockReward (blk_index blk) + tips"
    "\<not> acc_balance (get_acc a (tx_to cb)) + tx_amount cb < acc_balance (get_acc a (tx_to cb))"
    "s' = app_state (pay_coinbase cb a)" "undo = app_undo (pay_coinbase cb a)"
    "checkConservation cfg s' undo (blk_transactions blk) (BlockReward (blk_index blk)) burned = None"
    "burned = blockBurned cfg blk"
proof -
  obtain cb txs where tx: "blk_transactions blk = cb # txs"
    using assms by (cases "blk_transactions blk") (auto simp: applyTxsAndCoinbase_def)
  obtain e t b a where r: "apply_txs cfg blocks (blk_index blk) (blk_base_fee blk) (Suc 0) txs [] 0 0
      \<lparr>app_state = s, app_undo = [], app_cache = cache\<rparr> = (e, t, b, a)"
    by (metis prod_cases4)
  from assms have "e = None"
    by (cases e) (simp_all add: applyTxsAndCoinbase_def tx r Let_def)
  note r' = r [unfolded this]
  have "b = blockBurned cfg blk"
    using apply_txs_burned(1) [OF r'] by (simp add: blockBurned_def tx)
  with that [of cb txs t b a] assms r' show ?thesis
    by (auto simp: applyTxsAndCoinbase_def tx Let_def split: option.splits if_splits)
qed

lemma applyTxsAndCoinbase_undo:
  "case applyTxsAndCoinbase cfg s blocks blk cache of
     (Inl e, s', _) \<Rightarrow> s' = s
   | (Inr undo, s', _) \<Rightarrow> applyUndo s' undo = s \<and> undo_wf undo"
proof (cases "blk_transactions blk")
  case (Cons cb txs)
  obtain e t b a where r: "apply_txs cfg blocks (blk_index blk) (blk_base_fee blk) (Suc 0) txs [] 0 0
      \<lparr>app_state = s, app_undo = [], app_cache = cache\<rparr> = (e, t, b, a)"
    by (metis prod_cases4)
  note u = apply_txs_undo [OF r]
  show ?thesis
    using u by (cases e) (simp_all add: applyTxsAndCoinbase_def Cons r Let_def set_acc_undo split: option.split)
qed (simp add: applyTxsAndCoinbase_def)

lemma coinbase_coin:
  fixes cb :: transaction
  assumes run: "apply_txs cfg blocks height bf i txs [] 0 0
      \<lparr>app_state = s, app_undo = [], app_cache = cache\<rparr> = (None, tips, burned, a)"
    and amt: "tx_amount cb = reward + tips"
    and nw: "\<not> acc_balance (get_acc a (tx_to cb)) + tx_amount cb < acc_balance (get_acc a (tx_to cb))"
    and small: "coin_supply s + unat reward < 2 ^ 64"
  shows "coin_supply (app_state (pay_coinbase cb a)) + unat burned \<le> coin_supply s + unat reward"
    "names_clean s \<Longrightarrow>
      coin_supply (app_state (pay_coinbase cb a)) + unat burned = coin_supply s + unat reward"
    "names_clean s \<Longrightarrow> asset_total j (app_state (pay_coinbase cb a))
      = asset_total j s + (\<Sum>tx\<leftarrow>txs. asset_want cfg tx j)"
proof -
  let ?v = "(get_acc a (tx_to cb))\<lparr>acc_balance := acc_balance (get_acc a (tx_to cb)) + tx_amount cb\<rparr>"
  have le: "coin_supply (app_state a) + unat tips + unat burned \<le> coin_supply s"
    and eq: "names_clean s \<Longrightarrow> coin_supply (app_state a) + unat tips + unat burned = coin_supply s"
    using apply_txs_coin [OF run] small by simp_all
  have "unat (reward + tips) = unat reward + unat tips"
    by (rule unat_add_small) (use le small in linarith)
  moreover have "coin_supply (app_state (pay_coinbase cb a)) = coin_supply (app_state a) + unat (tx_amount cb)"
    using coin_supply_set [of "tx_to cb" ?v a] no_wrap_le [OF nw] by simp
  ultimately have
    "coin_supply (app_state (pay_coinbase cb a)) = coin_supply (app_state a) + unat reward + unat tips"
    by (simp add: amt)
  with le eq show
    "coin_supply (app_state (pay_coinbase cb a)) + unat burned \<le> coin_supply s + unat reward"
    "names_clean s \<Longrightarrow>
      coin_supply (app_state (pay_coinbase cb a)) + unat burned = coin_supply s + unat reward"
    by auto
  show "names_clean s \<Longrightarrow> asset_total j (app_state (pay_coinbase cb a))
      = asset_total j s + (\<Sum>tx\<leftarrow>txs. asset_want cfg tx j)"
    using apply_txs_assets [OF run] by (simp add: asset_total_set)
qed

lemma block_coin_exact:
  assumes "applyTxsAndCoinbase cfg s blocks blk cache = (Inr undo, s', cache')"
    "coin_supply s + unat (BlockReward (blk_index blk)) < 2 ^ 64"
  shows "coin_supply s' + unat (blockBurned cfg blk) = coin_supply s + unat (BlockReward (blk_index blk))"
  using assms(1)
proof (rule applyTxsAndCoinbase_okE)
  fix cb :: transaction and txs tips burned a
  let ?R = "BlockReward (blk_index blk)"
  assume run: "apply_txs cfg blocks (blk_index blk) (blk_base_fee blk) 1 txs [] 0 0
      \<lparr>app_state = s, app_undo = [], app_cache = cache\<rparr> = (None, tips, burned, a)"
    and amt: "tx_amount cb = ?R + tips"
    and nw: "\<not> acc_balance (get_acc a (tx_to cb)) + tx_amount cb < acc_balance (get_acc a (tx_to cb))"
    and s': "s' = app_state (pay_coinbase cb a)"
    and burned: "burned = blockBurned cfg blk"
    and cons: "checkConservation cfg s' undo (blk_transactions blk) ?R burned = None"
  have u: "applyUndo s' undo = s" "undo_wf undo"
    using applyTxsAndCoinbase_undo [where cfg = cfg and s = s and blocks = blocks and blk = blk
        and cache = cache] assms(1) by simp_all
  have "of_nat (coin_supply s') - of_nat (coin_supply s) = ?R - burned"
    using checkConservation_iff [OF u(2)] cons u(1) by blast
  then have "(of_nat (coin_supply s' + unat burned) :: u64) = of_nat (coin_supply s + unat ?R)"
    by (simp add: algebra_simps)
  moreover have "coin_supply s' + unat burned < 2 ^ 64"
    using coinbase_coin(1) [OF run amt nw assms(2)] assms(2) unfolding s' by linarith
  ultimately have "coin_supply s' + unat burned = coin_supply s + unat ?R"
    using assms(2) by (rule of_nat_eq_small)
  then show ?thesis unfolding burned .
qed

lemma block_guard_silent:
  assumes "names_clean s" "coin_supply s + unat (BlockReward (blk_index blk)) < 2 ^ 64"
  shows "fst (applyTxsAndCoinbase cfg s blocks blk cache) \<noteq> Inl (NotConserved e)"
proof (cases "blk_transactions blk")
  case (Cons cb txs)
  obtain e1 t b a where r: "apply_txs cfg blocks (blk_index blk) (blk_base_fee blk) (Suc 0) txs [] 0 0
      \<lparr>app_state = s, app_undo = [], app_cache = cache\<rparr> = (e1, t, b, a)"
    by (metis prod_cases4)
  let ?R = "BlockReward (blk_index blk)"
  have "checkConservation cfg (app_state (pay_coinbase cb a)) (app_undo (pay_coinbase cb a))
      (cb # txs) ?R b = None"
    if e1: "e1 = None" and amt: "tx_amount cb = ?R + t"
      and nw: "\<not> acc_balance (get_acc a (tx_to cb)) + tx_amount cb < acc_balance (get_acc a (tx_to cb))"
  proof -
    note run = r [unfolded e1] and u = apply_txs_undo [OF r]
    note cc = coinbase_coin [OF run amt nw assms(2)]
    have "(of_nat (coin_supply (app_state (pay_coinbase cb a)) + unat b) :: u64)
        = of_nat (coin_supply s + unat ?R)"
      using cc(2) [OF assms(1)] by presburger
    with cc(3) [OF assms(1)] show ?thesis
      by (subst checkConservation_iff) (simp_all add: set_acc_undo u algebra_simps)
  qed
  moreover have "e1 \<noteq> Some (NotConserved e)"
    using apply_txs_error [of cfg blocks "blk_index blk" "blk_base_fee blk" "Suc 0" txs "[]" 0 0]
      r by (metis fst_conv)
  ultimately show ?thesis
    by (cases e1) (auto simp: applyTxsAndCoinbase_def Cons r Let_def)
qed (simp add: applyTxsAndCoinbase_def)

section \<open>Nonces and immature coin\<close>

lemma apply_txs_nonces:
  assumes "apply_txs cfg blocks height bf i txs seen tips burned a = (None, tips', burned', a')"
    "\<not> isNameKey k"
  shows "map tx_nonce (filter (\<lambda>tx. tx_from tx = k) txs)
      = map (\<lambda>n. acc_nonce (get_acc a k) + of_nat n) [0..<length (filter (\<lambda>tx. tx_from tx = k) txs)]
    \<and> acc_nonce (get_acc a' k)
      = acc_nonce (get_acc a k) + of_nat (length (filter (\<lambda>tx. tx_from tx = k) txs))"
  using assms(1)
proof (induction txs arbitrary: i seen tips burned a)
  case (Cons tx txs)
  from Cons.prems show ?case
  proof (rule apply_txs_ConsE)
    fix a1
    assume sane: "CheckTxSanity cfg tx = None"
      and app: "applyTxTo cfg tx height (immatureCoinbase blocks height (tx_from tx))
        (if IsSponsored tx then immatureCoinbase blocks height (tx_fee_payer tx) else 0) a = (None, a1)"
      and rest: "apply_txs cfg blocks height bf (Suc i) txs (tx_hash cfg tx # seen)
        (tips + (tx_fee tx - BaseFeeFor cfg tx bf)) (burned + BaseFeeFor cfg tx bf) a1
          = (None, tips', burned', a')"
    have "tx_nonce tx = acc_nonce (get_acc a (tx_from tx))"
      "acc_nonce (get_acc a1 k) = acc_nonce (get_acc a k) + (if tx_from tx = k then 1 else 0)"
      using applyTxTo_effect [OF app sane] assms(2) by (auto simp: tx_effect_def)
    with Cons.IH [OF rest] show ?thesis
      by (auto simp: upt_conv_Cons map_Suc_upt [symmetric] comp_def algebra_simps simp del: upt_Suc)
  qed
qed simp

text \<open>The addresses a transaction takes coin from.\<close>

definition spenders :: "transaction \<Rightarrow> string set" where
  "spenders tx = {tx_from tx} \<union> (if IsSponsored tx then {tx_fee_payer tx} else {})"

lemma apply_txs_mature:
  assumes "apply_txs cfg blocks height bf i txs seen tips burned a = (None, tips', burned', a')"
    "\<not> isNameKey k"
    "k \<in> \<Union> (spenders ` set txs) \<or> immatureCoinbase blocks height k \<le> acc_balance (get_acc a k)"
  shows "immatureCoinbase blocks height k \<le> acc_balance (get_acc a' k)"
  using assms(1,3)
proof (induction txs arbitrary: i seen tips burned a)
  case (Cons tx txs)
  let ?R = "immatureCoinbase blocks height"
  from Cons.prems(1) show ?case
  proof (rule apply_txs_ConsE)
    fix a1
    assume sane: "CheckTxSanity cfg tx = None"
      and app: "applyTxTo cfg tx height (?R (tx_from tx))
        (if IsSponsored tx then ?R (tx_fee_payer tx) else 0) a = (None, a1)"
      and rest: "apply_txs cfg blocks height bf (Suc i) txs (tx_hash cfg tx # seen)
        (tips + (tx_fee tx - BaseFeeFor cfg tx bf)) (burned + BaseFeeFor cfg tx bf) a1
          = (None, tips', burned', a')"
    note eff = applyTxTo_effect [OF app sane, unfolded tx_effect_def]
    have spent: "k \<in> spenders tx \<Longrightarrow> ?R k \<le> acc_balance (get_acc a1 k)"
      using eff by (auto simp: spenders_def word_le_nat_alt split: if_splits)
    have "k \<notin> spenders tx \<Longrightarrow> acc_balance (get_acc a k) \<le> acc_balance (get_acc a1 k)"
      using eff assms(2) by (auto simp: spenders_def split: if_splits)
    then have "k \<in> \<Union> (spenders ` set txs) \<or> ?R k \<le> acc_balance (get_acc a1 k)"
      using Cons.prems(2) spent by (auto intro: order_trans)
    then show ?thesis using Cons.IH [OF rest] by blast
  qed
qed simp

lemma pay_coinbase_get:
  "acc_nonce (get_acc (pay_coinbase cb a) k) = acc_nonce (get_acc a k)"
  "\<not> acc_balance (get_acc a (tx_to cb)) + tx_amount cb < acc_balance (get_acc a (tx_to cb)) \<Longrightarrow>
     acc_balance (get_acc a k) \<le> acc_balance (get_acc (pay_coinbase cb a) k)"
  using no_wrap_le by auto

end
