(* ===== verification/Block_Samples.thy ===== *)
theory Block_Samples
  imports Block_Apply
begin

text \<open>
  A block with one payment and its coinbase, accepted on the funded ledger of the samples. The
  instances beside the theorems on blocks use it.
\<close>

definition sample_block :: block where
  "sample_block = \<lparr>blk_version = 1, blk_index = 1, blk_timestamp = 0,
     blk_transactions =
       [zero_tx\<lparr>tx_from := CoinbaseSender, tx_to := carol,
          tx_amount := BlockReward 1 + (50000 - BaseFeeFor sample_cfg sample_payment 10)\<rparr>,
        sample_payment],
     blk_prev_hash = [], blk_merkle_root = [], blk_state_root = [], blk_base_fee = 10, blk_bits = 0,
     blk_nonce = 0, blk_hash = [], blk_filter_root = [], blk_history_root = []\<rparr>"

definition block_accepted :: "(apply_block_error + undo_entry list) \<times> state \<times> vcache option \<Rightarrow> bool" where
  "block_accepted r = (case fst r of Inl _ \<Rightarrow> False | Inr _ \<Rightarrow> True)"

lemma sample_block_accepted:
  "block_accepted (applyTxsAndCoinbase sample_cfg sample_state [] sample_block None)"
  by code_simp

lemma sample_block_run:
  obtains undo s' cache' where
    "applyTxsAndCoinbase sample_cfg sample_state [] sample_block None = (Inr undo, s', cache')"
  using sample_block_accepted
  by (cases "applyTxsAndCoinbase sample_cfg sample_state [] sample_block None")
    (auto simp: block_accepted_def split: sum.splits)

lemma alice_not_carol: "alice \<noteq> carol"
  by code_simp

lemma sample_coin: "coin_supply sample_state = 1500000"
  using alice_not_carol
  by (simp add: coin_supply_def ledger_sum_def sample_state_def state_Get_def fmget_def fmap_of_list.rep_eq
      fmdom'_alt_def)

lemma sample_names_clean: "names_clean sample_state"
proof -
  have "\<not> isNameKey alice" "\<not> isNameKey carol" by code_simp+
  then show ?thesis
    by (auto simp: names_clean_def sample_state_def state_Get_def fmget_def fmap_of_list.rep_eq
        name_record_account_def)
qed

lemma sample_small: "coin_supply sample_state + unat (BlockReward (blk_index sample_block)) < 2 ^ 64"
proof -
  have "unat (BlockReward 1) = 5000000000" by code_simp
  then show ?thesis by (simp add: sample_coin sample_block_def)
qed

end
