(* ===== verification/Target.thy ===== *)
theory Target
  imports Params
begin

unbundle bit_operations_syntax

text \<open>
  Proof of work: the compact target encoding (\<open>core/target.go\<close>), block and chain work
  (\<open>core/work.go\<close>), the difficulty and base-fee schedules and the median time
  (\<open>core/blockchain.go\<close>: \<open>expectedBits\<close>, \<open>expectedBaseFee\<close>, \<open>medianTimePast\<close>). A \<open>big.Int\<close> is an
  \<^typ>\<open>int\<close>; a header's \<open>Bits\<close> stays a 32-bit word. The theorems bound the loss of the compact
  form, show that every scheduled target is satisfiable and never easier than the floor, that the
  miner's byte comparison decides the target comparison, and how fast a schedule can move.
\<close>

section \<open>Definitions\<close>

definition lwmaWindow :: nat where "lwmaWindow = 20"

function bit_len :: "nat \<Rightarrow> nat" where
  "bit_len n = (if n = 0 then 0 else Suc (bit_len (n div 2)))"
  by auto
termination by (relation "measure id") auto

declare bit_len.simps [simp del]

definition powOfTwoMinusOne :: "nat \<Rightarrow> int" where
  "powOfTwoMinusOne n = push_bit n 1 - 1"

definition CompactToBig :: "u32 \<Rightarrow> int" where
  "CompactToBig bits =
     (let mantissa = uint (bits AND 0x007fffff); exponent = unat (drop_bit 24 bits)
      in if exponent \<le> 3 then drop_bit (8 * (3 - exponent)) mantissa
         else push_bit (8 * (exponent - 3)) mantissa)"

definition BigToCompact :: "int \<Rightarrow> u32" where
  "BigToCompact n =
     (if n \<le> 0 then 0
      else let nBytes = (bit_len (nat n) + 7) div 8;
               mantissa = (word_of_int (if nBytes \<le> 3 then push_bit (8 * (3 - nBytes)) n
                                        else drop_bit (8 * (nBytes - 3)) n) :: u32)
           in if mantissa AND 0x00800000 \<noteq> 0
              then push_bit 24 (of_nat (nBytes + 1)) OR (drop_bit 8 mantissa AND 0x007fffff)
              else push_bit 24 (of_nat nBytes) OR (mantissa AND 0x007fffff))"

definition PowLimitBits :: u32 where "PowLimitBits = BigToCompact (powOfTwoMinusOne 244)"
definition GenesisBits :: u32 where "GenesisBits = BigToCompact (powOfTwoMinusOne 240)"
definition PowLimit :: int where "PowLimit = CompactToBig PowLimitBits"

definition hashToBig :: "string \<Rightarrow> int" where
  "hashToBig hash = (case hex_decode hash of None \<Rightarrow> push_bit 256 1 | Some b \<Rightarrow> int (be_val b))"

definition meetsTarget :: "string \<Rightarrow> u32 \<Rightarrow> bool" where
  "meetsTarget hash bits =
     (let target = CompactToBig bits
      in if target \<le> 0 \<or> PowLimit < target then False else hashToBig hash \<le> target)"

definition targetBytes :: "u32 \<Rightarrow> bytes" where
  "targetBytes bits =
     (let t = CompactToBig bits
      in if t \<le> 0 then replicate 32 (CHR 0x00)
         else if 256 < bit_len (nat t) then replicate 32 (CHR 0xFF)
         else be_bytes 32 (nat t))"

definition BlockWork :: "u32 \<Rightarrow> int" where
  "BlockWork bits =
     (let target = CompactToBig bits
      in if target \<le> 0 then 0 else push_bit 256 1 div (target + 1))"

definition ChainWork :: "block list \<Rightarrow> int" where
  "ChainWork blocks = sum_list (map (\<lambda>b. BlockWork (blk_bits b)) blocks)"

text \<open>Go's \<open>int64\<close> subtraction.\<close>

definition int64 :: "int \<Rightarrow> int" where
  "int64 x = sint (word_of_int x :: u64)"

definition solve_time :: "block list \<Rightarrow> nat \<Rightarrow> int" where
  "solve_time blocks cur =
     (let st = int64 (blk_timestamp (blocks ! cur) - blk_timestamp (blocks ! (cur - 1)))
      in if st < 1 then 1 else if 6 * TargetBlockTime < st then 6 * TargetBlockTime else st)"

definition expectedBits :: "config \<Rightarrow> block list \<Rightarrow> u64 \<Rightarrow> u32" where
  "expectedBits cfg blocks height =
     (if no_retarget cfg \<or> unat height \<le> lwmaWindow then GenesisBits
      else let N = lwmaWindow;
               cur = (\<lambda>i. unat height - N - 1 + i);
               weightedSolve = (\<Sum>i\<leftarrow>[1..<N+1]. int i * solve_time blocks (cur i));
               sumTarget = (\<Sum>i\<leftarrow>[1..<N+1]. CompactToBig (blk_bits (blocks ! cur i)));
               avgTarget = sumTarget div int N;
               denom = TargetBlockTime * int N * int (N + 1) div 2;
               n1 = avgTarget * weightedSolve div denom;
               n2 = (if n1 \<le> 0 then 1 else n1);
               n3 = (if PowLimit < n2 then PowLimit else n2)
           in BigToCompact n3)"

definition expectedBaseFee :: "block list \<Rightarrow> u64 \<Rightarrow> u64" where
  "expectedBaseFee blocks height =
     (if height = 0 then InitialBaseFee
      else let parent = blocks ! unat (height - 1);
               base = (if blk_base_fee parent < MinBaseFee then MinBaseFee else blk_base_fee parent);
               parentTxs = length (blk_transactions parent) - 1;
               target = BaseFeeTargetTxs
           in if parentTxs = target then base
              else if target < parentTxs then
                let delta = base * of_nat (parentTxs - target) div of_nat target
                              div BaseFeeMaxChangeDenominator
                in base + (if delta = 0 then 1 else delta)
              else
                let delta = base * of_nat (target - parentTxs) div of_nat target
                              div BaseFeeMaxChangeDenominator
                in if base \<le> delta \<or> base - delta < MinBaseFee then MinBaseFee else base - delta)"

definition medianTimePast :: "block list \<Rightarrow> int" where
  "medianTimePast blocks =
     (let k = min 11 (length blocks);
          ts = sort (map blk_timestamp (take k (rev blocks)))
      in ts ! (k div 2))"

section \<open>Bit lengths and bytes\<close>

lemma bit_len_upper: "n < 2 ^ bit_len n"
proof (induction n rule: bit_len.induct)
  case (1 n)
  show ?case
  proof (cases "n = 0")
    case False
    with 1 have "n div 2 < 2 ^ bit_len (n div 2)" by blast
    moreover have "bit_len n = Suc (bit_len (n div 2))"
      using False by (subst bit_len.simps) simp
    ultimately show ?thesis by simp
  qed (simp add: bit_len.simps)
qed

lemma bit_len_lower: "0 < n \<Longrightarrow> 2 ^ bit_len n \<le> 2 * n"
proof (induction n rule: bit_len.induct)
  case (1 n)
  have eq: "bit_len n = Suc (bit_len (n div 2))"
    using 1(2) by (subst bit_len.simps) simp
  show ?case
  proof (cases "n div 2 = 0")
    case True
    have "bit_len (n div 2) = 0" unfolding True by (simp add: bit_len.simps)
    with eq 1(2) show ?thesis by simp
  next
    case False
    with 1 have "2 ^ bit_len (n div 2) \<le> 2 * (n div 2)" by blast
    with eq show ?thesis by simp
  qed
qed

lemma bit_len_le: "n < 2 ^ k \<Longrightarrow> bit_len n \<le> k"
proof (rule ccontr)
  assume n: "n < 2 ^ k" and "\<not> bit_len n \<le> k"
  then have "2 * (2 :: nat) ^ k \<le> 2 ^ bit_len n"
    using power_increasing [of "Suc k" "bit_len n" "2 :: nat"] by simp
  moreover have "0 < n"
    using \<open>\<not> bit_len n \<le> k\<close> by (cases "n = 0") (simp_all add: bit_len.simps)
  ultimately show False using bit_len_lower [of n] n by linarith
qed

definition byte_len :: "nat \<Rightarrow> nat" where
  "byte_len n = (bit_len n + 7) div 8"

lemma pow256: "(256 :: nat) ^ k = 2 ^ (8 * k)"
  by (simp add: power_mult)

lemma byte_len_upper: "n < 256 ^ byte_len n"
proof -
  have "bit_len n \<le> 8 * byte_len n" unfolding byte_len_def by presburger
  then have "(2 :: nat) ^ bit_len n \<le> 2 ^ (8 * byte_len n)" by (rule power_increasing) simp
  then show ?thesis unfolding pow256 using bit_len_upper [of n] by linarith
qed

lemma byte_len_lower: "0 < n \<Longrightarrow> 256 ^ (byte_len n - 1) \<le> n"
proof -
  assume n: "0 < n"
  then have p: "0 < bit_len n" by (subst bit_len.simps) simp
  have "8 * (byte_len n - 1) \<le> bit_len n - 1" unfolding byte_len_def by presburger
  then have "(2 :: nat) ^ (8 * (byte_len n - 1)) \<le> 2 ^ (bit_len n - 1)"
    by (rule power_increasing) simp
  moreover have "2 * (2 :: nat) ^ (bit_len n - 1) = 2 ^ bit_len n"
    using p by (cases "bit_len n") simp_all
  ultimately show ?thesis using bit_len_lower [OF n] unfolding pow256 by linarith
qed

lemma byte_len_pos: "0 < n \<Longrightarrow> 0 < byte_len n"
  using byte_len_upper [of n] by (cases "byte_len n") simp_all

lemma byte_len_le: "n < 256 ^ k \<Longrightarrow> byte_len n \<le> k"
  using bit_len_le [of n "8 * k"] by (simp add: pow256 byte_len_def)

section \<open>The compact form\<close>

text \<open>The exponent and the mantissa the encoder writes, and the value a decoder reads from them.\<close>

definition compact_pair :: "nat \<Rightarrow> nat \<times> nat" where
  "compact_pair n =
     (let k = byte_len n; m = (if k \<le> 3 then n * 256 ^ (3 - k) else n div 256 ^ (k - 3))
      in if 2 ^ 23 \<le> m then (k + 1, m div 256) else (k, m))"

definition compact_value :: "nat \<times> nat \<Rightarrow> nat" where
  "compact_value p = (case p of (e, m) \<Rightarrow> if e \<le> 3 then m div 256 ^ (3 - e) else m * 256 ^ (e - 3))"

lemma compact_mantissa_range:
  assumes "0 < n" "k = byte_len n" "m = (if k \<le> 3 then n * 256 ^ (3 - k) else n div 256 ^ (k - 3))"
  shows "2 ^ 16 \<le> m" "m < 2 ^ 24"
proof -
  have lo: "256 ^ (k - 1) \<le> n" and hi: "n < 256 ^ k" and k: "0 < k"
    using byte_len_lower byte_len_upper byte_len_pos assms(1,2) by auto
  have "2 ^ 16 \<le> m \<and> m < 2 ^ 24"
  proof (cases "k \<le> 3")
    case True
    have e: "(256 :: nat) ^ (k - 1) * 256 ^ (3 - k) = 65536"
      "(256 :: nat) ^ k * 256 ^ (3 - k) = 16777216"
      using True k by (simp_all flip: power_add)
    have "256 ^ (k - 1) * 256 ^ (3 - k) \<le> n * 256 ^ (3 - k)"
      using lo by (rule mult_right_mono) simp
    moreover have "n * 256 ^ (3 - k) < 256 ^ k * 256 ^ (3 - k)"
      using hi by (rule mult_strict_right_mono) simp
    ultimately have "65536 \<le> m" "m < 16777216" unfolding e assms(3) using True by simp_all
    then show ?thesis by simp
  next
    case False
    have "k - 1 = 2 + (k - 3)" "k = 3 + (k - 3)" using False by linarith+
    then have "(256 :: nat) ^ (k - 1) = 256 ^ 2 * 256 ^ (k - 3)"
      "(256 :: nat) ^ k = 256 ^ 3 * 256 ^ (k - 3)" by (metis power_add)+
    then have "256 ^ 2 \<le> n div 256 ^ (k - 3)" "n div 256 ^ (k - 3) < 256 ^ 3"
      using lo hi by (simp_all add: less_eq_div_iff_mult_less_eq div_less_iff_less_mult)
    then show ?thesis using False assms(3) by simp
  qed
  then show "2 ^ 16 \<le> m" "m < 2 ^ 24" by auto
qed

lemma compact_pair_range:
  assumes "0 < n" "compact_pair n = (e, m)"
  shows "2 ^ 15 \<le> m" "m < 2 ^ 23" "e \<le> byte_len n + 1"
  using compact_mantissa_range [OF assms(1) refl refl] assms(2)
  by (auto simp: compact_pair_def Let_def split: if_splits)

text \<open>Decoding never gives more than was encoded, and loses less than one part in \<open>2^15\<close>.\<close>

lemma div_mult_gap: "0 < (d :: nat) \<Longrightarrow> n div d * d \<le> n \<and> n < n div d * d + d"
  by (metis add.commute div_mult_mod_eq le_add2 mod_less_divisor nat_add_left_cancel_less)

lemma compact_value_bounds:
  assumes "0 < n"
  shows "compact_value (compact_pair n) \<le> n"
    "2 ^ 15 * n < 2 ^ 15 * compact_value (compact_pair n) + compact_value (compact_pair n) + 1"
proof -
  let ?k = "byte_len n"
  define m where "m = (if ?k \<le> 3 then n * 256 ^ (3 - ?k) else n div 256 ^ (?k - 3))"
  have r: "2 ^ 16 \<le> m" "m < 2 ^ 24"
    using compact_mantissa_range [OF assms refl m_def] by auto
  have pair: "compact_pair n = (if 2 ^ 23 \<le> m then (?k + 1, m div 256) else (?k, m))"
    by (simp add: compact_pair_def m_def Let_def)
  have gap: "v \<le> n \<Longrightarrow> n < v + d \<Longrightarrow> 2 ^ 15 * d \<le> v \<Longrightarrow>
      v \<le> n \<and> 2 ^ 15 * n < 2 ^ 15 * v + v + 1" for v d :: nat
    by simp
  have "compact_value (compact_pair n) \<le> n \<and>
    2 ^ 15 * n < 2 ^ 15 * compact_value (compact_pair n) + compact_value (compact_pair n) + 1"
  proof (cases "?k \<le> 2 \<or> (?k = 3 \<and> m < 2 ^ 23)")
    case exact: True
    then have "m = n * 256 ^ (3 - ?k)" by (auto simp: m_def)
    moreover have "m div 256 = n * 256 ^ (2 - ?k)" if "?k \<le> 2"
    proof -
      have "(256 :: nat) ^ (3 - ?k) = 256 * 256 ^ (2 - ?k)"
        using that by (metis Suc_diff_le eval_nat_numeral(3) power_Suc)
      with \<open>m = n * 256 ^ (3 - ?k)\<close> show ?thesis by simp
    qed
    moreover have "3 - (?k + 1) = 2 - ?k" by simp
    ultimately have "compact_value (compact_pair n) = n"
      using exact unfolding pair compact_value_def by auto
    then show ?thesis by simp
  next
    case False
    define d where "d = (if 2 ^ 23 \<le> m then (256 :: nat) ^ (?k - 2) else 256 ^ (?k - 3))"
    define q where "q = (if 2 ^ 23 \<le> m then m div 256 else m)"
    have k: "3 \<le> ?k" "?k = 3 \<Longrightarrow> 2 ^ 23 \<le> m" using False by auto
    have mk: "m = n div 256 ^ (?k - 3)" using k by (cases "?k = 3") (auto simp: m_def)
    have "(256 :: nat) ^ (?k - 2) = 256 ^ (?k - 3) * 256"
      using k(1) by (metis Suc_diff_le eval_nat_numeral(3) diff_Suc_Suc mult.commute power_Suc numeral_2_eq_2)
    then have q: "q = n div d" by (simp add: q_def d_def mk div_mult2_eq)
    have v: "compact_value (compact_pair n) = q * d"
      using k unfolding pair compact_value_def q_def d_def by (auto simp: numeral_3_eq_3 numeral_2_eq_2)
    have "2 ^ 15 \<le> q" using r by (auto simp: q_def)
    moreover have "0 < d" by (simp add: d_def)
    ultimately show ?thesis
      unfolding v using div_mult_gap [of d n] by (intro gap [of "q * d" d]) (simp_all add: q)
  qed
  then show "compact_value (compact_pair n) \<le> n"
    "2 ^ 15 * n < 2 ^ 15 * compact_value (compact_pair n) + compact_value (compact_pair n) + 1"
    by auto
qed

lemma compact_word_fields:
  assumes "e < 2 ^ 8" "m < 2 ^ 23"
  shows "(push_bit 24 (of_nat e) OR of_nat m :: u32) AND 0x007fffff = of_nat m"
    "drop_bit 24 (push_bit 24 (of_nat e) OR of_nat m :: u32) = of_nat e"
proof -
  have mask: "(0x007fffff :: u32) = mask 23" by (simp add: mask_eq_exp_minus_1)
  have m: "i < 23" if "bit m i" for i
    using assms(2) that by (metis bit_take_bit_iff take_bit_nat_eq_self)
  have e: "i < 8" if "bit e i" for i
    using assms(1) that by (metis bit_take_bit_iff take_bit_nat_eq_self)
  show "(push_bit 24 (of_nat e) OR of_nat m :: u32) AND 0x007fffff = of_nat m"
    unfolding mask by (rule bit_word_eqI) (use m in \<open>auto simp: bit_simps\<close>)
  show "drop_bit 24 (push_bit 24 (of_nat e) OR of_nat m :: u32) = of_nat e"
    by (rule bit_word_eqI) (use m e in \<open>fastforce simp: bit_simps\<close>)
qed

lemma word_nat_mask23:
  assumes "m < 2 ^ 23"
  shows "(of_nat m :: u32) AND 0x007fffff = of_nat m"
proof -
  have mask: "(0x007fffff :: u32) = mask 23" by (simp add: mask_eq_exp_minus_1)
  show ?thesis
    unfolding mask take_bit_eq_mask [symmetric] using assms
    by (metis of_nat_take_bit take_bit_nat_eq_self take_bit_of_nat)
qed

lemma word_nat_bit23:
  assumes "m < 2 ^ 24"
  shows "(of_nat m :: u32) AND 0x00800000 \<noteq> 0 \<longleftrightarrow> 2 ^ 23 \<le> m"
proof -
  have "(0x00800000 :: u32) = push_bit 23 1" by simp
  then have "(of_nat m :: u32) AND 0x00800000 \<noteq> 0 \<longleftrightarrow> bit (of_nat m :: u32) 23"
    by (metis and_exp_eq_0_iff_not_bit push_bit_of_1)
  also have "\<dots> \<longleftrightarrow> bit m 23" by (simp add: bit_simps)
  also have "\<dots> \<longleftrightarrow> 2 ^ 23 \<le> m"
  proof -
    have "m div 2 ^ 23 < 2" using assms by (simp add: div_less_iff_less_mult)
    then have "odd (m div 2 ^ 23) \<longleftrightarrow> 1 \<le> m div 2 ^ 23" by (cases "m div 2 ^ 23") auto
    then show ?thesis unfolding bit_iff_odd by (simp add: less_eq_div_iff_mult_less_eq)
  qed
  finally show ?thesis .
qed

lemma word_nat_drop8: "m < 2 ^ 32 \<Longrightarrow> drop_bit 8 (of_nat m :: u32) = of_nat (m div 256)"
proof -
  assume "m < 2 ^ 32"
  then have "unat (drop_bit 8 (of_nat m :: u32)) = unat (of_nat (m div 256) :: u32)"
    by (simp add: drop_bit_eq_div unat_div unat_of_nat)
  then show ?thesis by (simp only: word_unat_eq_iff)
qed

lemma CompactToBig_fields:
  assumes "e < 2 ^ 8" "m < 2 ^ 23"
  shows "CompactToBig (push_bit 24 (of_nat e) OR of_nat m) = int (compact_value (e, m))"
proof -
  have u: "uint (of_nat m :: u32) = int m" "unat (of_nat e :: u32) = e"
    using assms by (simp_all add: uint_nat unat_of_nat)
  have "drop_bit (8 * (3 - e)) (int m) = int (m div 256 ^ (3 - e))"
    "push_bit (8 * (e - 3)) (int m) = int (m * 256 ^ (e - 3))"
    by (simp_all add: drop_bit_eq_div push_bit_eq_mult pow256 zdiv_int)
  then show ?thesis
    unfolding CompactToBig_def Let_def compact_word_fields [OF assms] u compact_value_def by simp
qed

lemma BigToCompact_fields:
  assumes "0 < n" "compact_pair n = (e, m)"
  shows "BigToCompact (int n) = push_bit 24 (of_nat e) OR of_nat m"
proof -
  let ?k = "(bit_len n + 7) div 8"
  define M where "M = (if ?k \<le> 3 then n * 256 ^ (3 - ?k) else n div 256 ^ (?k - 3))"
  have r: "M < 2 ^ 24"
    using compact_mantissa_range(2) [OF assms(1) refl refl] unfolding M_def byte_len_def .
  have "(if ?k \<le> 3 then push_bit (8 * (3 - ?k)) (int n) else drop_bit (8 * (?k - 3)) (int n)) = int M"
    by (simp add: M_def drop_bit_eq_div push_bit_eq_mult pow256 zdiv_int)
  then have man: "(word_of_int (if ?k \<le> 3 then push_bit (8 * (3 - ?k)) (int n)
      else drop_bit (8 * (?k - 3)) (int n)) :: u32) = of_nat M"
    by (simp only: of_int_of_nat_eq)
  have pair: "(e, m) = (if 2 ^ 23 \<le> M then (?k + 1, M div 256) else (?k, M))"
    unfolding M_def by (rule assms(2) [unfolded compact_pair_def Let_def byte_len_def, symmetric])
  have big: "drop_bit 8 (of_nat M :: u32) AND 0x007fffff = of_nat (M div 256)"
    using word_nat_drop8 [of M] word_nat_mask23 [of "M div 256"] r by simp
  have small: "M < 2 ^ 23 \<Longrightarrow> (of_nat M :: u32) AND 0x007fffff = of_nat M"
    by (rule word_nat_mask23)
  have "BigToCompact (int n) = (if 2 ^ 23 \<le> M
      then push_bit 24 (of_nat (?k + 1)) OR of_nat (M div 256)
      else push_bit 24 (of_nat ?k) OR of_nat M)"
    using assms(1) unfolding BigToCompact_def Let_def nat_int man word_nat_bit23 [OF r] big
    by (cases "2 ^ 23 \<le> M") (auto simp: small)
  with pair show ?thesis by (auto split: if_splits)
qed

lemma compact_roundtrip:
  assumes "0 < n" "n < 2 ^ 256"
  shows "CompactToBig (BigToCompact (int n)) = int (compact_value (compact_pair n))"
proof -
  obtain e m where p: "compact_pair n = (e, m)" by (cases "compact_pair n")
  have "byte_len n \<le> 32"
    using byte_len_le [of n 32] assms(2) by (simp add: pow256)
  then have "e < 2 ^ 8" "m < 2 ^ 23"
    using compact_pair_range [OF assms(1) p] by simp_all
  then show ?thesis
    using BigToCompact_fields [OF assms(1) p] CompactToBig_fields by (simp add: p)
qed

lemma compact_bounds:
  assumes "0 < t" "t < 2 ^ 256"
  shows "CompactToBig (BigToCompact t) \<le> t" "0 < CompactToBig (BigToCompact t)"
    "2 ^ 15 * (t - CompactToBig (BigToCompact t)) \<le> CompactToBig (BigToCompact t)"
proof -
  obtain n where n: "t = int n" "0 < n" "n < 2 ^ 256"
    using assms by (metis nat_less_numeral_power_cancel_iff pos_int_cases of_nat_less_numeral_power_cancel_iff)
  define v where "v = compact_value (compact_pair n)"
  have "v \<le> n" "2 ^ 15 * n < 2 ^ 15 * v + v + 1"
    unfolding v_def by (rule compact_value_bounds [OF n(2)])+
  then have "v \<le> n \<and> 0 < v \<and> 2 ^ 15 * (int n - int v) \<le> int v"
    using n(2) by simp
  then show "CompactToBig (BigToCompact t) \<le> t" "0 < CompactToBig (BigToCompact t)"
    "2 ^ 15 * (t - CompactToBig (BigToCompact t)) \<le> CompactToBig (BigToCompact t)"
    using compact_roundtrip [OF n(2,3)] by (simp_all add: n(1) v_def)
qed

section \<open>Targets\<close>

lemma PowLimit_range: "0 < PowLimit" "PowLimit < 2 ^ 244" "PowLimit < 2 ^ 256"
proof -
  have "CompactToBig (BigToCompact (powOfTwoMinusOne 244)) \<le> powOfTwoMinusOne 244"
    "0 < CompactToBig (BigToCompact (powOfTwoMinusOne 244))"
    by (rule compact_bounds; simp add: powOfTwoMinusOne_def)+
  then show "0 < PowLimit" "PowLimit < 2 ^ 244" "PowLimit < 2 ^ 256"
    by (simp_all add: PowLimit_def PowLimitBits_def powOfTwoMinusOne_def)
qed

lemma GenesisBits_range: "0 < CompactToBig GenesisBits" "CompactToBig GenesisBits \<le> PowLimit"
proof -
  have "CompactToBig (BigToCompact (powOfTwoMinusOne 240)) \<le> powOfTwoMinusOne 240"
    "0 < CompactToBig (BigToCompact (powOfTwoMinusOne 240))"
    by (rule compact_bounds; simp add: powOfTwoMinusOne_def)+
  moreover have "2 ^ 15 * (powOfTwoMinusOne 244 - PowLimit) \<le> PowLimit"
    unfolding PowLimit_def PowLimitBits_def
    by (rule compact_bounds(3)) (simp_all add: powOfTwoMinusOne_def)
  ultimately show "0 < CompactToBig GenesisBits" "CompactToBig GenesisBits \<le> PowLimit"
    by (simp_all add: GenesisBits_def powOfTwoMinusOne_def)
qed

text \<open>The byte comparison of the miner.\<close>

lemma be_val_Cons: "be_val (c # cs) = of_char c * 256 ^ length cs + be_val cs"
proof -
  have "foldl (\<lambda>a c. 256 * a + of_char c) x cs = x * 256 ^ length cs + be_val cs" for x
    unfolding be_val_def
  proof (induction cs arbitrary: x)
    case (Cons c cs)
    show ?case using Cons [of "256 * x + of_char c"] Cons [of "of_char c"] by (simp add: algebra_simps)
  qed simp
  from this [of "of_char c"] show ?thesis by (simp add: be_val_def)
qed

lemma be_val_less: "be_val bs < 256 ^ length bs"
proof (induction bs)
  case (Cons c cs)
  have "of_char c + 1 \<le> (256 :: nat)" using of_char_lt [of c] by linarith
  then have "(of_char c + 1) * 256 ^ length cs \<le> 256 * (256 :: nat) ^ length cs"
    by (rule mult_right_mono) simp
  then have "of_char c * 256 ^ length cs + 256 ^ length cs \<le> 256 * (256 :: nat) ^ length cs"
    by (simp only: distrib_right mult_1_left)
  with Cons show ?case unfolding be_val_Cons length_Cons power_Suc by linarith
qed (simp add: be_val_def)

lemma byte_order: "length a = length b \<Longrightarrow> a \<le> b \<longleftrightarrow> be_val a \<le> be_val b"
proof (induction a b rule: list_induct2)
  case (Cons x xs y ys)
  have lt: "be_val xs < 256 ^ length xs" "be_val ys < 256 ^ length xs"
    using be_val_less [of xs] be_val_less [of ys] Cons.hyps by simp_all
  have "of_char u + 1 \<le> (of_char v :: nat) \<Longrightarrow>
      of_char u * 256 ^ length xs + 256 ^ length xs \<le> of_char v * (256 :: nat) ^ length xs" for u v :: char
    using mult_right_mono [of "of_char u + 1" "of_char v" "256 ^ length xs :: nat"] by simp
  note big = this [of x y] this [of y x]
  have "x = y \<or> x < y \<or> y < x" by auto
  then show ?case
    using big lt Cons by (auto simp: be_val_Cons less_char_def)
qed simp

lemma be_val_replicate_FF: "be_val (replicate k (CHR 0xFF)) + 1 = 256 ^ k"
  by (induction k) (simp_all add: be_val_Cons, simp add: be_val_def)

lemma be_val_replicate_0: "be_val (replicate k (CHR 0x00)) = 0"
  by (induction k) (simp_all add: be_val_Cons, simp add: be_val_def)

lemma CompactToBig_nonneg: "0 \<le> CompactToBig bits"
  by (simp add: CompactToBig_def Let_def)

lemma targetBytes_order:
  assumes "length d = 32"
  shows "d \<le> targetBytes bits \<longleftrightarrow> int (be_val d) \<le> CompactToBig bits"
proof -
  let ?t = "CompactToBig bits"
  have d: "be_val d < 256 ^ 32" using be_val_less [of d] assms by simp
  have len: "length (targetBytes bits) = 32" by (simp add: targetBytes_def Let_def)
  have le: "d \<le> targetBytes bits \<longleftrightarrow> be_val d \<le> be_val (targetBytes bits)"
    by (rule byte_order) (simp add: assms len)
  consider "?t = 0" | "0 < ?t" "256 < bit_len (nat ?t)" | "0 < ?t" "bit_len (nat ?t) \<le> 256"
    using CompactToBig_nonneg [of bits] by linarith
  then show ?thesis
  proof cases
    case 1
    then show ?thesis unfolding le by (simp add: targetBytes_def be_val_replicate_0)
  next
    case 2
    have "\<not> nat ?t < 2 ^ 256" using bit_len_le 2(2) by (metis leD)
    then have "int (be_val d) \<le> ?t"
      using d by (simp add: pow256)
    moreover have "be_val d \<le> be_val (targetBytes bits)"
      using 2 d be_val_replicate_FF [of 32] by (simp add: targetBytes_def)
    ultimately show ?thesis unfolding le by simp
  next
    case 3
    have "nat ?t < 2 ^ bit_len (nat ?t)" by (rule bit_len_upper)
    also have "\<dots> \<le> 2 ^ 256" using 3(2) by (rule power_increasing) simp
    finally have "nat ?t < 256 ^ 32" by (simp add: pow256)
    then have "be_val (targetBytes bits) = nat ?t"
      using 3 by (simp add: targetBytes_def Let_def be_val_bytes)
    then show ?thesis unfolding le using 3(1) by (simp add: le_nat_iff)
  qed
qed

section \<open>The difficulty schedule\<close>

lemma solve_time_range: "1 \<le> solve_time blocks i" "solve_time blocks i \<le> 6 * TargetBlockTime"
  by (auto simp: solve_time_def Let_def TargetBlockTime_def)

text \<open>The blocks the schedule averages over, and the mean of their targets.\<close>

definition window :: "u64 \<Rightarrow> nat list" where
  "window height = map (\<lambda>i. unat height - lwmaWindow - 1 + i) [1..<lwmaWindow + 1]"

definition mean_target :: "block list \<Rightarrow> u64 \<Rightarrow> int" where
  "mean_target blocks height =
     (\<Sum>i\<leftarrow>window height. CompactToBig (blk_bits (blocks ! i))) div int lwmaWindow"

definition weighted_solve :: "block list \<Rightarrow> u64 \<Rightarrow> int" where
  "weighted_solve blocks height =
     (\<Sum>i\<leftarrow>[1..<lwmaWindow + 1]. int i * solve_time blocks (unat height - lwmaWindow - 1 + i))"

lemma expectedBits_retarget:
  assumes "\<not> no_retarget cfg" "lwmaWindow < unat height"
  shows "expectedBits cfg blocks height = BigToCompact (min PowLimit
    (max 1 (mean_target blocks height * weighted_solve blocks height div 12600)))"
proof -
  have d: "TargetBlockTime * int lwmaWindow * int (lwmaWindow + 1) div 2 = 12600"
    by (simp add: TargetBlockTime_def lwmaWindow_def)
  have m: "(\<Sum>i\<leftarrow>[1..<lwmaWindow + 1]. CompactToBig (blk_bits (blocks ! (unat height - lwmaWindow - 1 + i))))
      div int lwmaWindow = mean_target blocks height"
    by (simp add: mean_target_def window_def comp_def)
  show ?thesis
    unfolding expectedBits_def Let_def d m weighted_solve_def [symmetric]
    using assms by (auto simp: min_def max_def)
qed

lemma expectedBits_cases:
  obtains "expectedBits cfg blocks height = GenesisBits"
  | n where "expectedBits cfg blocks height = BigToCompact n" "0 < n" "n \<le> PowLimit"
proof (cases "no_retarget cfg \<or> unat height \<le> lwmaWindow")
  case True
  then show ?thesis by (intro that(1)) (simp add: expectedBits_def)
next
  case False
  then show ?thesis
    using expectedBits_retarget [of cfg height blocks] PowLimit_range(1)
    by (intro that(2) [of "min PowLimit (max 1
        (mean_target blocks height * weighted_solve blocks height div 12600))"]) auto
qed

lemma expectedBits_range:
  "0 < CompactToBig (expectedBits cfg blocks height)"
  "CompactToBig (expectedBits cfg blocks height) \<le> PowLimit"
proof -
  have "0 < CompactToBig (expectedBits cfg blocks height) \<and>
    CompactToBig (expectedBits cfg blocks height) \<le> PowLimit"
  proof (rule expectedBits_cases [of cfg blocks height])
    assume "expectedBits cfg blocks height = GenesisBits"
    then show ?thesis using GenesisBits_range by simp
  next
    fix n assume n: "expectedBits cfg blocks height = BigToCompact n" "0 < n" "n \<le> PowLimit"
    have "n < 2 ^ 256" using n(3) PowLimit_range(3) by linarith
    with compact_bounds(1,2) [OF n(2)] n show ?thesis by fastforce
  qed
  then show "0 < CompactToBig (expectedBits cfg blocks height)"
    "CompactToBig (expectedBits cfg blocks height) \<le> PowLimit" by auto
qed

lemma weights: "(\<Sum>i\<leftarrow>[1..<lwmaWindow + 1]. int i) = 210"
  by (simp add: lwmaWindow_def upt_rec)

lemma weighted_solve_le: "weighted_solve blocks height \<le> 6 * 12600"
proof -
  have "weighted_solve blocks height \<le> (\<Sum>i\<leftarrow>[1..<lwmaWindow + 1]. int i * 360)"
    unfolding weighted_solve_def
    by (rule sum_list_mono, rule mult_left_mono) (use solve_time_range in \<open>auto simp: TargetBlockTime_def\<close>)
  also have "\<dots> = 210 * 360" by (simp only: sum_list_mult_const weights)
  finally show ?thesis by simp
qed

lemma weighted_solve_on_time:
  assumes "\<forall>i \<in> set (window height). solve_time blocks i = TargetBlockTime"
  shows "weighted_solve blocks height = 12600"
proof -
  have "weighted_solve blocks height = (\<Sum>i\<leftarrow>[1..<lwmaWindow + 1]. int i * 60)"
    unfolding weighted_solve_def
    by (rule arg_cong [of _ _ sum_list], rule map_cong)
      (use assms in \<open>auto simp: window_def TargetBlockTime_def\<close>)
  also have "\<dots> = 210 * 60" by (simp only: sum_list_mult_const weights)
  finally show ?thesis by simp
qed

lemma mean_target_nonneg: "0 \<le> mean_target blocks height"
  unfolding mean_target_def
  by (intro pos_imp_zdiv_nonneg_iff [THEN iffD2] sum_list_nonneg)
    (auto simp: lwmaWindow_def CompactToBig_nonneg)

section \<open>Properties of the schedules\<close>

text \<open>
  The compact form of a target never makes it easier: what a header commits to is positive, at
  most the target it was computed from, and within one part in \<open>2^15\<close> of it.
\<close>

theorem compact_target_tight:
  assumes "0 < t" "t < 2 ^ 256"
  shows "0 < CompactToBig (BigToCompact t) \<and> CompactToBig (BigToCompact t) \<le> t
    \<and> 2 ^ 15 * (t - CompactToBig (BigToCompact t)) \<le> CompactToBig (BigToCompact t)"
  using compact_bounds [OF assms] by blast

theorem compact_target_tight_witness:
  "CompactToBig (BigToCompact 0x123456789a) \<le> 0x123456789a
     \<and> 2 ^ 15 * (0x123456789a - CompactToBig (BigToCompact 0x123456789a))
       \<le> CompactToBig (BigToCompact 0x123456789a)"
  using compact_target_tight [of "0x123456789a"] by simp

text \<open>
  C26. Whatever the history, the target a block must meet is satisfiable and never easier than the
  floor: it is positive and at most \<open>PowLimit\<close>.
\<close>

theorem expected_target_in_range:
  "0 < CompactToBig (expectedBits cfg blocks height)
     \<and> CompactToBig (expectedBits cfg blocks height) \<le> PowLimit"
  using expectedBits_range by blast

text \<open>
  Difficulty eases slowly: one retarget step raises the target at most six-fold over the mean
  target of the window, whatever timestamps the window carries.
\<close>

theorem retarget_eases_at_most_sixfold:
  assumes "\<not> no_retarget cfg" "lwmaWindow < unat height"
  shows "CompactToBig (expectedBits cfg blocks height) \<le> max 1 (6 * mean_target blocks height)"
proof -
  let ?m = "mean_target blocks height" and ?w = "weighted_solve blocks height"
  have "?m * ?w \<le> ?m * (6 * 12600)"
    using weighted_solve_le mean_target_nonneg by (rule mult_left_mono)
  then have step: "?m * ?w div 12600 \<le> 6 * ?m"
    using zdiv_mono1 [of "?m * ?w" "?m * (6 * 12600)" 12600] by simp
  let ?n = "min PowLimit (max 1 (?m * ?w div 12600))"
  have "0 < ?n" "?n < 2 ^ 256" using PowLimit_range by auto
  then have "CompactToBig (BigToCompact ?n) \<le> ?n" by (rule compact_bounds)
  also have "?n \<le> max 1 (6 * ?m)" using step by auto
  finally show ?thesis unfolding expectedBits_retarget [OF assms] .
qed

definition sample_window :: "block list" where
  "sample_window = map (\<lambda>i. \<lparr>blk_version = 1, blk_index = of_nat i, blk_timestamp = 60 * int i,
     blk_transactions = [], blk_prev_hash = [], blk_merkle_root = [], blk_state_root = [],
     blk_base_fee = 10, blk_bits = GenesisBits, blk_nonce = 0, blk_hash = [], blk_filter_root = [],
     blk_history_root = []\<rparr>) [0..<22]"

definition retarget_cfg :: config where
  "retarget_cfg = \<lparr>sha256 = (\<lambda>_. []), ed25519_verify = (\<lambda>_ _ _. False), network_id = [],
     no_retarget = False, upgrades = fmempty, checkpoints = fmempty\<rparr>"

theorem retarget_eases_at_most_sixfold_witness:
  "CompactToBig (expectedBits retarget_cfg sample_window 22) \<le> max 1 (6 * mean_target sample_window 22)"
  using retarget_eases_at_most_sixfold [of retarget_cfg 22 sample_window]
  by (simp add: retarget_cfg_def lwmaWindow_def)

text \<open>
  A chain that is on schedule keeps its difficulty: when every block of the window commits to the
  same target and came exactly \<open>TargetBlockTime\<close> after its parent, the next block commits to it too.
\<close>

theorem on_schedule_keeps_target:
  assumes "\<not> no_retarget cfg" "lwmaWindow < unat height" "0 < t" "t \<le> PowLimit"
    and "\<forall>i \<in> set (window height). solve_time blocks i = TargetBlockTime"
    and "\<forall>i \<in> set (window height). CompactToBig (blk_bits (blocks ! i)) = t"
  shows "expectedBits cfg blocks height = BigToCompact t"
proof -
  have "(\<Sum>i\<leftarrow>window height. CompactToBig (blk_bits (blocks ! i))) = (\<Sum>i\<leftarrow>window height. t)"
    by (rule arg_cong [of _ _ sum_list], rule map_cong) (use assms(6) in auto)
  also have "\<dots> = 20 * t" by (simp add: sum_list_triv window_def lwmaWindow_def comp_def)
  finally have "mean_target blocks height = t" by (simp add: mean_target_def lwmaWindow_def)
  then show ?thesis
    using expectedBits_retarget [OF assms(1,2), of blocks] weighted_solve_on_time [OF assms(5)] assms(3,4)
    by (simp add: min_def max_def)
qed

theorem on_schedule_keeps_target_witness:
  "expectedBits retarget_cfg sample_window 22 = BigToCompact (CompactToBig GenesisBits)"
proof (rule on_schedule_keeps_target)
  show "\<not> no_retarget retarget_cfg" "lwmaWindow < unat (22 :: u64)"
    by (simp_all add: retarget_cfg_def lwmaWindow_def)
  show "\<forall>i \<in> set (window 22). solve_time sample_window i = TargetBlockTime"
    by (simp add: window_def lwmaWindow_def sample_window_def solve_time_def int64_def TargetBlockTime_def
        Let_def upt_rec)
  show "\<forall>i \<in> set (window 22). CompactToBig (blk_bits (sample_window ! i)) = CompactToBig GenesisBits"
    by (simp add: window_def lwmaWindow_def sample_window_def upt_rec)
qed (rule GenesisBits_range)+

lemma BaseFeeTargetTxs_val: "BaseFeeTargetTxs = 500"
  by (simp add: BaseFeeTargetTxs_def MaxBlockTxs_def)

text \<open>
  The step of the base fee, in natural numbers: \<open>d\<close> transactions away from the target of 500, at
  most 500, move it by at most an eighth.
\<close>

lemma base_fee_delta:
  fixes base :: u64
  assumes "unat base * 500 < 2 ^ 64" "d \<le> 500"
  shows "unat (base * of_nat d div of_nat BaseFeeTargetTxs div BaseFeeMaxChangeDenominator)
    = unat base * d div 4000"
    and "unat base * d div 4000 \<le> unat base div 8"
proof -
  have le: "unat base * d \<le> unat base * 500" using assms(2) by simp
  then have "unat base * d < 2 ^ 64" using assms(1) by linarith
  then have "unat (base * of_nat d) = unat base * d"
    using assms(2) by (simp add: unat_word_ariths unat_of_nat)
  then show "unat (base * of_nat d div of_nat BaseFeeTargetTxs div BaseFeeMaxChangeDenominator)
      = unat base * d div 4000"
    by (simp add: unat_div BaseFeeTargetTxs_val BaseFeeMaxChangeDenominator_def div_mult2_eq [symmetric])
  have "unat base * d div 4000 \<le> unat base * 500 div 4000"
    using le by (rule div_le_mono)
  also have "\<dots> = unat base div 8" by simp
  finally show "unat base * d div 4000 \<le> unat base div 8" .
qed



section \<open>Work\<close>

lemma BlockWork_nonneg: "0 \<le> BlockWork bits"
  using CompactToBig_nonneg [of bits] by (simp add: BlockWork_def Let_def pos_imp_zdiv_nonneg_iff)

lemma ChainWork_append: "ChainWork (a @ b) = ChainWork a + ChainWork b"
  by (simp add: ChainWork_def)

lemma ChainWork_nonneg: "0 \<le> ChainWork blocks"
  unfolding ChainWork_def by (rule sum_list_nonneg) (auto simp: BlockWork_nonneg)

lemma meetsTarget_range:
  "meetsTarget hash bits \<Longrightarrow> 0 < CompactToBig bits \<and> CompactToBig bits \<le> PowLimit"
  by (simp add: meetsTarget_def Let_def split: if_splits)

lemma BlockWork_min:
  assumes "0 < CompactToBig bits" "CompactToBig bits \<le> PowLimit"
  shows "2 ^ 12 \<le> BlockWork bits"
proof -
  have le: "CompactToBig bits + 1 \<le> 2 ^ 244" using assms(2) PowLimit_range(2) by linarith
  have "(2 :: int) ^ 256 div 2 ^ 244 \<le> 2 ^ 256 div (CompactToBig bits + 1)"
    by (rule zdiv_mono2) (use assms(1) le in simp_all)
  then show ?thesis using assms(1) by (simp add: BlockWork_def)
qed

text \<open>
  A harder target is more work: of two targets a block can meet, the smaller one counts at least as
  much work, and every block that meets its target adds at least \<open>2^12\<close> to the work of its chain.
\<close>

theorem harder_target_more_work:
  assumes "meetsTarget h bits" "meetsTarget h' bits'" "CompactToBig bits \<le> CompactToBig bits'"
  shows "BlockWork bits' \<le> BlockWork bits \<and> 2 ^ 12 \<le> BlockWork bits'"
proof -
  note r = meetsTarget_range [OF assms(1)] meetsTarget_range [OF assms(2)]
  have "(2 :: int) ^ 256 div (CompactToBig bits' + 1) \<le> 2 ^ 256 div (CompactToBig bits + 1)"
    by (rule zdiv_mono2) (use r assms(3) in simp_all)
  then show ?thesis using r BlockWork_min [of bits'] by (simp add: BlockWork_def)
qed

theorem harder_target_more_work_witness:
  "BlockWork PowLimitBits \<le> BlockWork GenesisBits \<and> 2 ^ 12 \<le> BlockWork PowLimitBits"
proof (rule harder_target_more_work)
  have "hashToBig ''00'' = 0" by (simp add: hashToBig_def hex_val_def be_val_def)
  then show "meetsTarget ''00'' GenesisBits" "meetsTarget ''00'' PowLimitBits"
    using GenesisBits_range PowLimit_range(1) by (simp_all add: meetsTarget_def PowLimit_def)
qed (use GenesisBits_range in \<open>simp add: PowLimit_def\<close>)

end
