(* ===== verification/Merkle.thy ===== *)
theory Merkle
  imports Samples
begin

text \<open>
  The transaction merkle tree of \<open>core/merkle.go\<close>: the root with the last node of an odd layer paired
  with itself, inclusion proofs and their verification. The theorems: a proof built for a leaf
  verifies; a proof of the tree's depth that verifies names a leaf of the tree; and two lists of
  the same length with the same root are equal. Collision freedom of the hash is a hypothesis on
  the strings that the tree and the proof actually hash.
\<close>

section \<open>Definitions\<close>

record merkle_step =
  step_hash :: string
  step_right :: bool

fun merkle_next :: "config \<Rightarrow> string list \<Rightarrow> string list" where
  "merkle_next cfg [] = []"
| "merkle_next cfg [a] = [hashBytes cfg (a @ a)]"
| "merkle_next cfg (a # b # rest) = hashBytes cfg (a @ b) # merkle_next cfg rest"

lemma length_merkle_next [simp]: "length (merkle_next cfg layer) = (length layer + 1) div 2"
  by (induction cfg layer rule: merkle_next.induct) simp_all

function merkle_up :: "config \<Rightarrow> string list \<Rightarrow> string" where
  "merkle_up cfg layer = (if 1 < length layer then merkle_up cfg (merkle_next cfg layer) else hd layer)"
  by auto
termination by (relation "measure (\<lambda>(_, layer). length layer)") auto

declare merkle_up.simps [simp del]

definition merkleRootOf :: "config \<Rightarrow> string list \<Rightarrow> string" where
  "merkleRootOf cfg leaves = (if leaves = [] then hashBytes cfg ''empty'' else merkle_up cfg leaves)"

text \<open>
  One layer of \<open>merkleProofOf\<close>, from position \<open>i\<close>: the hashes of the next layer and the step recorded
  when the pair holds the running index.
\<close>

definition proof_step :: "nat \<Rightarrow> nat \<Rightarrow> string \<Rightarrow> string \<Rightarrow> merkle_step list" where
  "proof_step i idx left right =
     (if idx = i then [\<lparr>step_hash = right, step_right = True\<rparr>]
      else if idx = i + 1 then [\<lparr>step_hash = left, step_right = False\<rparr>] else [])"

fun proof_layer :: "config \<Rightarrow> nat \<Rightarrow> nat \<Rightarrow> string list \<Rightarrow> string list \<times> merkle_step list" where
  "proof_layer cfg i idx [] = ([], [])"
| "proof_layer cfg i idx [a] = ([hashBytes cfg (a @ a)], proof_step i idx a a)"
| "proof_layer cfg i idx (a # b # rest) =
     (case proof_layer cfg (i + 2) idx rest of
        (nxt, steps) \<Rightarrow> (hashBytes cfg (a @ b) # nxt, proof_step i idx a b @ steps))"

lemma proof_layer_next [simp]: "fst (proof_layer cfg i idx layer) = merkle_next cfg layer"
  by (induction cfg i idx layer rule: proof_layer.induct) (auto split: prod.split)

function proof_up :: "config \<Rightarrow> string list \<Rightarrow> nat \<Rightarrow> merkle_step list" where
  "proof_up cfg layer idx =
     (if 1 < length layer
      then snd (proof_layer cfg 0 idx layer) @ proof_up cfg (fst (proof_layer cfg 0 idx layer)) (idx div 2)
      else [])"
  by auto
termination by (relation "measure (\<lambda>(_, layer, _). length layer)") auto

declare proof_up.simps [simp del]

definition merkleProofOf :: "config \<Rightarrow> string list \<Rightarrow> int \<Rightarrow> merkle_step list option" where
  "merkleProofOf cfg leaves index =
     (if index < 0 \<or> int (length leaves) \<le> index then None else Some (proof_up cfg leaves (nat index)))"

definition txHashes :: "config \<Rightarrow> transaction list \<Rightarrow> string list" where
  "txHashes cfg txs = map (tx_hash cfg) txs"

definition MerkleRoot :: "config \<Rightarrow> transaction list \<Rightarrow> string" where
  "MerkleRoot cfg txs = merkleRootOf cfg (txHashes cfg txs)"

definition MerkleProof :: "config \<Rightarrow> transaction list \<Rightarrow> int \<Rightarrow> merkle_step list option" where
  "MerkleProof cfg txs index = merkleProofOf cfg (txHashes cfg txs) index"

fun fold_proof :: "config \<Rightarrow> string \<Rightarrow> merkle_step list \<Rightarrow> string" where
  "fold_proof cfg h [] = h"
| "fold_proof cfg h (s # ss) =
     fold_proof cfg (if step_right s then hashBytes cfg (h @ step_hash s)
                     else hashBytes cfg (step_hash s @ h)) ss"

definition VerifyMerkleProof :: "config \<Rightarrow> string \<Rightarrow> string \<Rightarrow> merkle_step list \<Rightarrow> bool" where
  "VerifyMerkleProof cfg leafHash root pf \<longleftrightarrow> fold_proof cfg leafHash pf = root"

section \<open>Completeness\<close>

text \<open>The sibling of position \<open>idx\<close> in a layer.\<close>

definition sibling :: "string list \<Rightarrow> nat \<Rightarrow> merkle_step" where
  "sibling layer idx =
     (if even idx
      then \<lparr>step_hash = (if idx + 1 < length layer then layer ! (idx + 1) else layer ! idx), step_right = True\<rparr>
      else \<lparr>step_hash = layer ! (idx - 1), step_right = False\<rparr>)"

lemma sibling_shift: "sibling (a # b # rest) (Suc (Suc j)) = sibling rest j"
  by (auto simp: sibling_def nth_Cons')

lemma proof_layer_steps:
  "even i \<Longrightarrow> snd (proof_layer cfg i idx layer)
     = (if i \<le> idx \<and> idx < i + length layer then [sibling layer (idx - i)] else [])
   \<or> (odd (length layer) \<and> idx = i + length layer)"
proof (induction cfg i idx layer rule: proof_layer.induct)
  case (2 cfg i idx a)
  then show ?case by (auto simp: proof_step_def sibling_def)
next
  case (3 cfg i idx a b rest)
  then consider "idx = i" | "idx = i + 1" | "idx < i" | "i + 2 \<le> idx" by linarith
  then show ?case
  proof cases
    case 4
    then obtain j where "idx = i + 2 + j" using le_Suc_ex by blast
    then have "sibling (a # b # rest) (idx - i) = sibling rest (idx - (i + 2))"
      by (simp add: sibling_shift)
    with 3 4 show ?thesis by (auto simp: proof_step_def split: prod.split)
  qed (use 3 in \<open>auto simp: proof_step_def sibling_def split: prod.split\<close>)
qed simp

lemma merkle_next_nth:
  "idx < length layer \<Longrightarrow> merkle_next cfg layer ! (idx div 2) =
     (if step_right (sibling layer idx) then hashBytes cfg (layer ! idx @ step_hash (sibling layer idx))
      else hashBytes cfg (step_hash (sibling layer idx) @ layer ! idx))"
proof (induction cfg layer arbitrary: idx rule: merkle_next.induct)
  case (3 cfg a b rest)
  show ?case
  proof (cases "idx < 2")
    case True
    then have "idx = 0 \<or> idx = 1" by linarith
    then show ?thesis by (auto simp: sibling_def)
  next
    case False
    then obtain j where j: "idx = Suc (Suc j)"
      by (metis add_2_eq_Suc le_Suc_ex not_less)
    with 3 show ?thesis by (simp add: j sibling_shift)
  qed
qed (auto simp: sibling_def)

lemma proof_up_complete:
  "idx < length layer \<Longrightarrow> fold_proof cfg (layer ! idx) (proof_up cfg layer idx) = merkle_up cfg layer"
proof (induction cfg layer arbitrary: idx rule: merkle_up.induct)
  case (1 cfg layer)
  show ?case
  proof (cases "1 < length layer")
    case True
    have st: "snd (proof_layer cfg 0 idx layer) = [sibling layer idx]"
      using proof_layer_steps [of 0 cfg idx layer] 1(2) by auto
    have "idx div 2 < length (merkle_next cfg layer)" using 1(2) by simp
    from 1(1) [OF True this] show ?thesis
      using True merkle_next_nth [OF 1(2), of cfg] st
      by (subst proof_up.simps, subst merkle_up.simps) (simp split: if_splits)
  next
    case False
    with 1(2) have "idx = 0" "layer \<noteq> []" by auto
    with False show ?thesis
      by (subst proof_up.simps, subst merkle_up.simps) (simp add: hd_conv_nth)
  qed
qed

section \<open>Soundness\<close>

text \<open>The depth of the tree, and the strings the tree and a proof hash.\<close>

function merkle_depth :: "nat \<Rightarrow> nat" where
  "merkle_depth n = (if 1 < n then Suc (merkle_depth ((n + 1) div 2)) else 0)"
  by auto
termination by (relation "measure id") auto

declare merkle_depth.simps [simp del]

fun layer_inputs :: "string list \<Rightarrow> bytes set" where
  "layer_inputs [] = {}"
| "layer_inputs [a] = {a @ a}"
| "layer_inputs (a # b # rest) = insert (a @ b) (layer_inputs rest)"

function tree_inputs :: "config \<Rightarrow> string list \<Rightarrow> bytes set" where
  "tree_inputs cfg layer =
     (if 1 < length layer then layer_inputs layer \<union> tree_inputs cfg (merkle_next cfg layer) else {})"
  by auto
termination by (relation "measure (\<lambda>(_, layer). length layer)") auto

declare tree_inputs.simps [simp del]

fun proof_inputs :: "config \<Rightarrow> string \<Rightarrow> merkle_step list \<Rightarrow> bytes set" where
  "proof_inputs cfg h [] = {}"
| "proof_inputs cfg h (s # ss) =
     (let x = (if step_right s then h @ step_hash s else step_hash s @ h)
      in insert x (proof_inputs cfg (hashBytes cfg x) ss))"

lemma hashBytes_inj_on: "inj_on (sha256 cfg) A \<Longrightarrow> inj_on (hashBytes cfg) A"
  by (auto simp: inj_on_def hashBytes_def)

lemma hashBytes_length: "sha256_length cfg \<Longrightarrow> length (hashBytes cfg x) = 64"
  by (simp add: hashBytes_def sha256_length_def)

lemma merkle_next_image: "set (merkle_next cfg layer) = hashBytes cfg ` layer_inputs layer"
  by (induction cfg layer rule: merkle_next.induct) auto

lemma layer_inputs_halves:
  "x \<in> layer_inputs layer \<Longrightarrow> \<exists>a \<in> set layer. \<exists>b \<in> set layer. x = a @ b"
  by (induction layer rule: layer_inputs.induct) auto

lemma fold_proof_sound:
  assumes "sha256_length cfg"
  shows "fold_proof cfg h pf = merkle_up cfg layer \<Longrightarrow> length pf = merkle_depth (length layer) \<Longrightarrow>
    layer \<noteq> [] \<Longrightarrow> length h = 64 \<Longrightarrow> \<forall>x \<in> set layer. length x = 64 \<Longrightarrow>
    inj_on (sha256 cfg) (tree_inputs cfg layer \<union> proof_inputs cfg h pf) \<Longrightarrow> h \<in> set layer"
proof (induction pf arbitrary: h layer)
  case Nil
  then have "\<not> 1 < length layer" by (subst (asm) merkle_depth.simps) (simp split: if_splits)
  with Nil show ?case by (subst (asm) merkle_up.simps) (simp add: list.set_sel(1))
next
  case (Cons s pf)
  let ?x = "if step_right s then h @ step_hash s else step_hash s @ h"
  have long: "1 < length layer"
    using Cons.prems(2) by (subst (asm) merkle_depth.simps) (simp split: if_splits)
  let ?nxt = "merkle_next cfg layer"
  have inj: "inj_on (sha256 cfg) (layer_inputs layer \<union> tree_inputs cfg ?nxt
      \<union> insert ?x (proof_inputs cfg (hashBytes cfg ?x) pf))"
    using Cons.prems(6) long by (subst (asm) tree_inputs.simps) (simp add: Let_def Un_assoc)
  have "hashBytes cfg ?x \<in> set ?nxt"
  proof (rule Cons.IH)
    show "fold_proof cfg (hashBytes cfg ?x) pf = merkle_up cfg ?nxt"
      using Cons.prems(1) long by (subst (asm) merkle_up.simps) (simp split: if_splits)
    show "length pf = merkle_depth (length ?nxt)"
      using Cons.prems(2) long by (subst (asm) merkle_depth.simps) simp
    have "0 < length ?nxt" using long by simp
    then show "?nxt \<noteq> []" by (metis length_greater_0_conv)
    show "length (hashBytes cfg ?x) = 64" by (rule hashBytes_length [OF assms])
    show "\<forall>y \<in> set ?nxt. length y = 64"
      by (auto simp: merkle_next_image hashBytes_length [OF assms])
    show "inj_on (sha256 cfg) (tree_inputs cfg ?nxt \<union> proof_inputs cfg (hashBytes cfg ?x) pf)"
      by (rule inj_on_subset [OF inj]) auto
  qed
  then obtain y where y: "y \<in> layer_inputs layer" "hashBytes cfg ?x = hashBytes cfg y"
    by (auto simp: merkle_next_image)
  then have "?x = y"
    using inj_onD [OF hashBytes_inj_on [OF inj], of ?x y] by auto
  then obtain a b where ab: "a \<in> set layer" "b \<in> set layer" "?x = a @ b"
    using layer_inputs_halves [OF y(1)] by blast
  then have "length a = 64" "length b = 64" using Cons.prems(5) by auto
  with ab Cons.prems(4) show ?case
    by (cases "step_right s") auto
qed

section \<open>Binding\<close>

lemma merkle_next_inj:
  assumes "sha256_length cfg"
  shows "merkle_next cfg xs = merkle_next cfg ys \<Longrightarrow> length xs = length ys \<Longrightarrow>
    \<forall>x \<in> set xs \<union> set ys. length x = 64 \<Longrightarrow>
    inj_on (sha256 cfg) (layer_inputs xs \<union> layer_inputs ys) \<Longrightarrow> xs = ys"
proof (induction xs arbitrary: ys rule: layer_inputs.induct)
  case (2 a)
  then obtain b where ys: "ys = [b]" by (cases ys) auto
  have "inj_on (hashBytes cfg) (layer_inputs [a] \<union> layer_inputs ys)"
    by (rule hashBytes_inj_on) (rule 2(4))
  moreover have "hashBytes cfg (a @ a) = hashBytes cfg (b @ b)" using 2(1) ys by simp
  ultimately have "a @ a = b @ b" unfolding ys by (auto dest: inj_onD)
  moreover have "length a = length b" using 2(3) ys by simp
  ultimately show ?case by (simp add: ys)
next
  case (3 a b rest)
  from 3(3) obtain c d rest' where ys: "ys = c # d # rest'"
    by (metis Suc_length_conv length_Cons)
  have "inj_on (hashBytes cfg) (layer_inputs (a # b # rest) \<union> layer_inputs ys)"
    by (rule hashBytes_inj_on) (rule 3(5))
  moreover have "hashBytes cfg (a @ b) = hashBytes cfg (c @ d)" using 3(2) ys by simp
  ultimately have "a @ b = c @ d" unfolding ys by (elim inj_onD) simp_all
  moreover have "length a = length c" using 3(4) ys by simp
  moreover have "rest = rest'"
  proof (rule 3(1))
    show "inj_on (sha256 cfg) (layer_inputs rest \<union> layer_inputs rest')"
      by (rule inj_on_subset [OF 3(5)]) (auto simp: ys)
  qed (use 3(2-4) ys in auto)
  ultimately show ?case by (simp add: ys)
qed simp

lemma merkle_up_inj:
  assumes "sha256_length cfg"
  shows "merkle_up cfg xs = merkle_up cfg ys \<Longrightarrow> length xs = length ys \<Longrightarrow> xs \<noteq> [] \<Longrightarrow>
    \<forall>x \<in> set xs \<union> set ys. length x = 64 \<Longrightarrow>
    inj_on (sha256 cfg) (tree_inputs cfg xs \<union> tree_inputs cfg ys) \<Longrightarrow> xs = ys"
proof (induction "length xs" arbitrary: xs ys rule: less_induct)
  case less
  show ?case
  proof (cases "1 < length xs")
    case True
    let ?nx = "merkle_next cfg xs" and ?ny = "merkle_next cfg ys"
    have ty: "tree_inputs cfg xs = layer_inputs xs \<union> tree_inputs cfg ?nx"
      "tree_inputs cfg ys = layer_inputs ys \<union> tree_inputs cfg ?ny"
      using True less.prems(2) by (subst tree_inputs.simps, simp)+
    have "?nx = ?ny"
    proof (rule less.hyps)
      show "merkle_up cfg ?nx = merkle_up cfg ?ny"
        using less.prems(1,2) True by (metis merkle_up.simps)
      show "inj_on (sha256 cfg) (tree_inputs cfg ?nx \<union> tree_inputs cfg ?ny)"
        by (rule inj_on_subset [OF less.prems(5)]) (auto simp: ty)
      have "0 < length ?nx" using True by simp
      then show "?nx \<noteq> []" by (metis length_greater_0_conv)
      show "length ?nx < length xs" "length ?nx = length ?ny" using True less.prems(2) by simp_all
      show "\<forall>x \<in> set ?nx \<union> set ?ny. length x = 64"
        by (auto simp: merkle_next_image hashBytes_length [OF assms])
    qed
    moreover have "inj_on (sha256 cfg) (layer_inputs xs \<union> layer_inputs ys)"
      by (rule inj_on_subset [OF less.prems(5)]) (auto simp: ty)
    ultimately show ?thesis
      using merkle_next_inj [OF assms] less.prems(2,4) by blast
  next
    case False
    with less.prems(2,3) obtain a b where "xs = [a]" "ys = [b]"
      by (metis One_nat_def Suc_length_conv length_0_conv less_Suc0 linorder_neqE_nat)
    with less.prems(1) show ?thesis by (simp add: merkle_up.simps)
  qed
qed

section \<open>Properties\<close>

text \<open>
  Every transaction of a block has an inclusion proof, and the proof verifies against the block's
  merkle root; an index outside the block has none.
\<close>

theorem merkle_proof_complete:
  "case merkleProofOf cfg leaves i of
     Some pf \<Rightarrow> 0 \<le> i \<and> i < int (length leaves)
       \<and> VerifyMerkleProof cfg (leaves ! nat i) (merkleRootOf cfg leaves) pf
   | None \<Rightarrow> i < 0 \<or> int (length leaves) \<le> i"
proof (cases "i < 0 \<or> int (length leaves) \<le> i")
  case False
  then have "nat i < length leaves" by linarith
  with False show ?thesis
    using proof_up_complete [of "nat i" leaves cfg]
    by (auto simp: merkleProofOf_def VerifyMerkleProof_def merkleRootOf_def)
qed (simp add: merkleProofOf_def)

text \<open>
  A light client is not fooled: a proof of the tree's depth that verifies against a root computed
  over a list of 32-byte hashes in hex names a member of that list, as long as no two of the strings
  hashed by the tree and by the verification collide.
\<close>

theorem merkle_proof_sound:
  assumes "sha256_length cfg" "VerifyMerkleProof cfg leaf (merkleRootOf cfg leaves) pf"
    and "leaves \<noteq> []" "\<forall>x \<in> set leaves. length x = 64" "length leaf = 64"
    and "length pf = merkle_depth (length leaves)"
    and "inj_on (sha256 cfg) (tree_inputs cfg leaves \<union> proof_inputs cfg leaf pf)"
  shows "leaf \<in> set leaves"
  using assms fold_proof_sound [OF assms(1), of leaf pf leaves]
  by (simp add: VerifyMerkleProof_def merkleRootOf_def)

definition sample_leaf :: "char \<Rightarrow> string" where
  "sample_leaf c = replicate 64 c"

theorem merkle_proof_sound_witness:
  "sample_leaf (CHR ''a'') \<in> set [sample_leaf (CHR ''a''), sample_leaf (CHR ''b'')]"
proof (rule merkle_proof_sound [OF sample_sha_length])
  let ?ls = "[sample_leaf (CHR ''a''), sample_leaf (CHR ''b'')]"
    and ?p = "[\<lparr>step_hash = sample_leaf (CHR ''b''), step_right = True\<rparr>]"
  show "VerifyMerkleProof sample_cfg (sample_leaf (CHR ''a'')) (merkleRootOf sample_cfg ?ls) ?p"
    by (simp add: VerifyMerkleProof_def merkleRootOf_def merkle_up.simps)
  show "length ?p = merkle_depth (length ?ls)" by (simp add: merkle_depth.simps)
  show "inj_on (sha256 sample_cfg) (tree_inputs sample_cfg ?ls
      \<union> proof_inputs sample_cfg (sample_leaf (CHR ''a'')) ?p)"
    by (simp add: tree_inputs.simps)
qed (simp_all add: sample_leaf_def)

text \<open>
  The merkle root binds the block's contents: two lists of transaction hashes of the same length
  with the same root are the same list, as long as no two of the strings their trees hash collide.
\<close>

theorem merkle_root_binding:
  assumes "sha256_length cfg" "merkleRootOf cfg xs = merkleRootOf cfg ys" "length xs = length ys"
    and "\<forall>x \<in> set xs \<union> set ys. length x = 64"
    and "inj_on (sha256 cfg) (tree_inputs cfg xs \<union> tree_inputs cfg ys)"
  shows "xs = ys"
proof (cases "xs = []")
  case False
  with assms(3) have "ys \<noteq> []" by auto
  with False assms merkle_up_inj [OF assms(1)] show ?thesis by (simp add: merkleRootOf_def)
qed (use assms(3) in simp)

theorem merkle_root_binding_witness:
  "merkleRootOf sample_cfg [sample_leaf (CHR ''a''), sample_leaf (CHR ''b'')]
     \<noteq> merkleRootOf sample_cfg [sample_leaf (CHR ''a''), sample_leaf (CHR ''c'')]"
proof
  assume "merkleRootOf sample_cfg [sample_leaf (CHR ''a''), sample_leaf (CHR ''b'')]
    = merkleRootOf sample_cfg [sample_leaf (CHR ''a''), sample_leaf (CHR ''c'')]"
  then have "[sample_leaf (CHR ''a''), sample_leaf (CHR ''b'')]
      = [sample_leaf (CHR ''a''), sample_leaf (CHR ''c'')]"
    by (rule merkle_root_binding [OF sample_sha_length])
      (simp_all add: sample_leaf_def tree_inputs.simps sample_cfg_def sample_sha_def)
  then show False by (simp add: sample_leaf_def)
qed

text \<open>
  The duplicated last node is visible to the rest of validation and not to the tree: appending a
  copy of the last hash of an odd list leaves the root unchanged. Block validation therefore refuses
  repeated transactions on its own.
\<close>

theorem merkle_duplicate_last:
  assumes "odd (length xs)" "1 < length xs"
  shows "merkleRootOf cfg (xs @ [last xs]) = merkleRootOf cfg xs"
proof -
  have "odd (length ys) \<Longrightarrow> merkle_next cfg (ys @ [last ys]) = merkle_next cfg ys" for ys
    by (induction cfg ys rule: merkle_next.induct) auto
  with assms have "merkle_next cfg (xs @ [last xs]) = merkle_next cfg xs" by blast
  with assms(2) have "merkle_up cfg (xs @ [last xs]) = merkle_up cfg xs"
    by (subst (1 2) merkle_up.simps) auto
  with assms(2) show ?thesis by (auto simp: merkleRootOf_def)
qed

theorem merkle_duplicate_last_witness:
  "merkleRootOf sample_cfg [''a'', ''b'', ''c'', ''c''] = merkleRootOf sample_cfg [''a'', ''b'', ''c'']"
  using merkle_duplicate_last [of "[''a'', ''b'', ''c'']" sample_cfg] by simp

end
