(* ===== verification/Trie.thy ===== *)
theory Trie
  imports Samples
begin

text \<open>
  The authenticated trie of \<open>core/trie.go\<close>: nodes, their content addresses and their stored form,
  the store interface with its in-memory implementations (\<open>memNodeStore\<close>, \<open>boundedNodeStore\<close> and
  \<open>teeNodeStore\<close>), lookup, insertion, deletion with path compression, proofs and their
  verification. A \<open>NodeStore\<close> value is a table of its two methods over a store state, which every
  operation threads, because a bounded store reorders and evicts on access.
\<close>

section \<open>Nodes\<close>

datatype trie_error =
    NodeNotFound | EmptyNode | LeafKeyMissing | FieldMissing | FieldTooLong nat | UnknownTag
  | DepthExceeded | KeyCollision | IndexPanic | StoreWriteFailed

datatype trie_node = LeafNode bytes string | InnerNode string string

definition trieLeafTag :: char where "trieLeafTag = CHR 0x00"
definition trieInnerTag :: char where "trieInnerTag = CHR 0x01"
definition trieKeyBits :: nat where "trieKeyBits = 256"

definition emptyNodeHash :: "config \<Rightarrow> string" where
  "emptyNodeHash cfg = hashBytes cfg ''dnas-trie-empty''"

definition trieKeyFor :: "config \<Rightarrow> string \<Rightarrow> bytes" where
  "trieKeyFor cfg addr =
     (if isNameKey addr then sha256 cfg (''dnas-trie-name:'' @ nameFromKey addr)
      else sha256 cfg (''dnas-trie-key:'' @ addr))"

text \<open>Bit \<open>i\<close> of a key, most significant first. Callers stay below the 256 bits a key has.\<close>

definition key_bit :: "bytes \<Rightarrow> nat \<Rightarrow> bool" where
  "key_bit k i = bit (of_char (k ! (i div 8)) :: nat) (7 - i mod 8)"

definition node_preimage :: "trie_node \<Rightarrow> bytes" where
  "node_preimage n = (case n of
      LeafNode k v \<Rightarrow> trieLeafTag # k @ v
    | InnerNode l r \<Rightarrow> trieInnerTag # l @ r)"

definition node_hash :: "config \<Rightarrow> trie_node \<Rightarrow> string" where
  "node_hash cfg n = hashBytes cfg (node_preimage n)"

definition writeLenPrefixed :: "string \<Rightarrow> bytes" where
  "writeLenPrefixed s = be32 (of_nat (length s)) @ s"

definition node_encode :: "trie_node \<Rightarrow> bytes" where
  "node_encode n = (case n of
      LeafNode k v \<Rightarrow> trieLeafTag # k @ writeLenPrefixed v
    | InnerNode l r \<Rightarrow> trieInnerTag # writeLenPrefixed l @ writeLenPrefixed r)"

text \<open>
  \<open>bytes.Reader.Read\<close> into a fresh zeroed buffer of \<open>n\<close> bytes: an error only when nothing is left, and
  zeros where the data was short.
\<close>

definition read_buf :: "nat \<Rightarrow> bytes \<Rightarrow> (bytes \<times> bytes) option" where
  "read_buf n d = (if d = [] then None
     else Some (take n d @ replicate (n - length d) (CHR 0x00), drop n d))"

definition readLenPrefixed :: "bytes \<Rightarrow> trie_error + (string \<times> bytes)" where
  "readLenPrefixed d =
     (case read_buf 4 d of
        None \<Rightarrow> Inl FieldMissing
      | Some (l, d1) \<Rightarrow>
          let n = be_val l in
          if 1024 < n then Inl (FieldTooLong n)
          else (case read_buf n d1 of
              None \<Rightarrow> if 0 < n then Inl FieldMissing else Inr ([], d1)
            | Some (buf, d2) \<Rightarrow> Inr (buf, d2)))"

definition decodeNode :: "bytes \<Rightarrow> trie_error + trie_node" where
  "decodeNode data =
     (case data of
        [] \<Rightarrow> Inl EmptyNode
      | tag # d \<Rightarrow>
          if tag = trieLeafTag then
            (case read_buf 32 d of
               None \<Rightarrow> Inl LeafKeyMissing
             | Some (k, d1) \<Rightarrow>
                 (case readLenPrefixed d1 of Inl e \<Rightarrow> Inl e | Inr (v, _) \<Rightarrow> Inr (LeafNode k v)))
          else if tag = trieInnerTag then
            (case readLenPrefixed d of
               Inl e \<Rightarrow> Inl e
             | Inr (l, d1) \<Rightarrow>
                 (case readLenPrefixed d1 of Inl e \<Rightarrow> Inl e | Inr (r, _) \<Rightarrow> Inr (InnerNode l r)))
          else Inl UnknownTag)"

section \<open>Stores\<close>

record 's node_store =
  ns_get :: "string \<Rightarrow> 's \<Rightarrow> bytes option \<times> 's"
  ns_put :: "string \<Rightarrow> bytes \<Rightarrow> 's \<Rightarrow> trie_error option \<times> 's"

type_synonym mem_nodes = "(string, bytes) fmap"

definition mem_GetNode :: "string \<Rightarrow> mem_nodes \<Rightarrow> bytes option \<times> mem_nodes" where
  "mem_GetNode h m = (fmlookup m h, m)"

definition mem_PutNode :: "string \<Rightarrow> bytes \<Rightarrow> mem_nodes \<Rightarrow> trie_error option \<times> mem_nodes" where
  "mem_PutNode h d m = (None, if fmlookup m h = None then fmupd h d m else m)"

definition memNodeStore :: "mem_nodes node_store" where
  "memNodeStore = \<lparr>ns_get = mem_GetNode, ns_put = mem_PutNode\<rparr>"

text \<open>The bounded store keeps its nodes in a list, most recently used first.\<close>

record bounded_nodes =
  bn_max :: int
  bn_order :: "(string \<times> bytes) list"

definition NewBoundedNodeStore :: "int \<Rightarrow> bounded_nodes" where
  "NewBoundedNodeStore m = \<lparr>bn_max = m, bn_order = []\<rparr>"

definition move_to_front :: "string \<Rightarrow> bytes \<Rightarrow> (string \<times> bytes) list \<Rightarrow> (string \<times> bytes) list" where
  "move_to_front h d xs = (h, d) # filter (\<lambda>p. fst p \<noteq> h) xs"

definition bounded_GetNode :: "string \<Rightarrow> bounded_nodes \<Rightarrow> bytes option \<times> bounded_nodes" where
  "bounded_GetNode h s =
     (case map_of (bn_order s) h of
        None \<Rightarrow> (None, s)
      | Some d \<Rightarrow> (Some d, s\<lparr>bn_order := move_to_front h d (bn_order s)\<rparr>))"

definition bounded_PutNode :: "string \<Rightarrow> bytes \<Rightarrow> bounded_nodes \<Rightarrow> trie_error option \<times> bounded_nodes" where
  "bounded_PutNode h d s =
     (case map_of (bn_order s) h of
        Some d' \<Rightarrow> (None, s\<lparr>bn_order := move_to_front h d' (bn_order s)\<rparr>)
      | None \<Rightarrow>
          let order = (h, d) # bn_order s
          in (None, s\<lparr>bn_order := (if 0 < bn_max s then take (nat (bn_max s)) order else order)\<rparr>))"

definition boundedNodeStore :: "bounded_nodes node_store" where
  "boundedNodeStore = \<lparr>ns_get = bounded_GetNode, ns_put = bounded_PutNode\<rparr>"

text \<open>The tee store reads from a private build store first and writes to both.\<close>

definition tee_GetNode :: "'a node_store \<Rightarrow> 'b node_store \<Rightarrow> string \<Rightarrow> 'a \<times> 'b \<Rightarrow> bytes option \<times> 'a \<times> 'b" where
  "tee_GetNode b c h s =
     (case ns_get b h (fst s) of
        (Some d, sb) \<Rightarrow> (Some d, (sb, snd s))
      | (None, sb) \<Rightarrow> (case ns_get c h (snd s) of (r, sc) \<Rightarrow> (r, (sb, sc))))"

definition tee_PutNode :: "'a node_store \<Rightarrow> 'b node_store \<Rightarrow> string \<Rightarrow> bytes \<Rightarrow> 'a \<times> 'b
    \<Rightarrow> trie_error option \<times> 'a \<times> 'b" where
  "tee_PutNode b c h d s =
     (case ns_put b h d (fst s) of
        (Some e, sb) \<Rightarrow> (Some e, (sb, snd s))
      | (None, sb) \<Rightarrow> (case ns_put c h d (snd s) of (r, sc) \<Rightarrow> (r, (sb, sc))))"

definition teeNodeStore :: "'a node_store \<Rightarrow> 'b node_store \<Rightarrow> ('a \<times> 'b) node_store" where
  "teeNodeStore b c = \<lparr>ns_get = tee_GetNode b c, ns_put = tee_PutNode b c\<rparr>"

section \<open>Operations\<close>

definition trie_load :: "'s node_store \<Rightarrow> config \<Rightarrow> string \<Rightarrow> 's \<Rightarrow> (trie_error + trie_node option) \<times> 's" where
  "trie_load ops cfg h s =
     (if h = emptyNodeHash cfg then (Inr None, s)
      else case ns_get ops h s of
        (None, s1) \<Rightarrow> (Inl NodeNotFound, s1)
      | (Some d, s1) \<Rightarrow> (case decodeNode d of Inl e \<Rightarrow> (Inl e, s1) | Inr n \<Rightarrow> (Inr (Some n), s1)))"

definition trie_save :: "'s node_store \<Rightarrow> config \<Rightarrow> trie_node \<Rightarrow> 's \<Rightarrow> (trie_error + string) \<times> 's" where
  "trie_save ops cfg n s =
     (case ns_put ops (node_hash cfg n) (node_encode n) s of
        (Some e, s1) \<Rightarrow> (Inl e, s1)
      | (None, s1) \<Rightarrow> (Inr (node_hash cfg n), s1))"

function trie_get :: "'s node_store \<Rightarrow> config \<Rightarrow> bytes \<Rightarrow> string \<Rightarrow> nat \<Rightarrow> 's
    \<Rightarrow> (trie_error + string option) \<times> 's" where
  "trie_get ops cfg key hash depth s =
     (if trieKeyBits < depth then (Inl DepthExceeded, s)
      else case trie_load ops cfg hash s of
        (Inl e, s1) \<Rightarrow> (Inl e, s1)
      | (Inr None, s1) \<Rightarrow> (Inr None, s1)
      | (Inr (Some (LeafNode k v)), s1) \<Rightarrow> (Inr (if k = key then Some v else None), s1)
      | (Inr (Some (InnerNode l r)), s1) \<Rightarrow>
          if trieKeyBits \<le> depth then (Inl IndexPanic, s1)
          else trie_get ops cfg key (if key_bit key depth then r else l) (depth + 1) s1)"
  by pat_completeness auto
termination
  by (relation "measure (\<lambda>(ops, cfg, key, hash, depth, s). Suc trieKeyBits - depth)")
    (auto simp: trieKeyBits_def)

function trie_split :: "'s node_store \<Rightarrow> config \<Rightarrow> bytes \<Rightarrow> string \<Rightarrow> bytes \<Rightarrow> string \<Rightarrow> nat \<Rightarrow> 's
    \<Rightarrow> (trie_error + string) \<times> 's" where
  "trie_split ops cfg okey ovalue key value depth s =
     (if trieKeyBits < depth then (Inl KeyCollision, s)
      else if trieKeyBits \<le> depth then (Inl IndexPanic, s)
      else if key_bit okey depth = key_bit key depth then
        (case trie_split ops cfg okey ovalue key value (depth + 1) s of
           (Inl e, s1) \<Rightarrow> (Inl e, s1)
         | (Inr child, s1) \<Rightarrow>
             trie_save ops cfg (if key_bit okey depth then InnerNode (emptyNodeHash cfg) child
                                else InnerNode child (emptyNodeHash cfg)) s1)
      else
        (case trie_save ops cfg (LeafNode okey ovalue) s of
           (Inl e, s1) \<Rightarrow> (Inl e, s1)
         | (Inr oldHash, s1) \<Rightarrow>
             (case trie_save ops cfg (LeafNode key value) s1 of
                (Inl e, s2) \<Rightarrow> (Inl e, s2)
              | (Inr newHash, s2) \<Rightarrow>
                  trie_save ops cfg (if key_bit okey depth then InnerNode newHash oldHash
                                     else InnerNode oldHash newHash) s2)))"
  by pat_completeness auto
termination
  by (relation "measure (\<lambda>(ops, cfg, okey, ovalue, key, value, depth, s). Suc trieKeyBits - depth)")
    (auto simp: trieKeyBits_def)

function trie_insert :: "'s node_store \<Rightarrow> config \<Rightarrow> string \<Rightarrow> bytes \<Rightarrow> string \<Rightarrow> nat \<Rightarrow> 's
    \<Rightarrow> (trie_error + string) \<times> 's" where
  "trie_insert ops cfg hash key value depth s =
     (if trieKeyBits < depth then (Inl DepthExceeded, s)
      else case trie_load ops cfg hash s of
        (Inl e, s1) \<Rightarrow> (Inl e, s1)
      | (Inr None, s1) \<Rightarrow> trie_save ops cfg (LeafNode key value) s1
      | (Inr (Some (LeafNode k v)), s1) \<Rightarrow>
          if k = key then trie_save ops cfg (LeafNode key value) s1
          else trie_split ops cfg k v key value depth s1
      | (Inr (Some (InnerNode l r)), s1) \<Rightarrow>
          if trieKeyBits \<le> depth then (Inl IndexPanic, s1)
          else if \<not> key_bit key depth then
            (case trie_insert ops cfg l key value (depth + 1) s1 of
               (Inl e, s2) \<Rightarrow> (Inl e, s2)
             | (Inr left, s2) \<Rightarrow> trie_save ops cfg (InnerNode left r) s2)
          else
            (case trie_insert ops cfg r key value (depth + 1) s1 of
               (Inl e, s2) \<Rightarrow> (Inl e, s2)
             | (Inr right, s2) \<Rightarrow> trie_save ops cfg (InnerNode l right) s2))"
  by pat_completeness auto
termination
  by (relation "measure (\<lambda>(ops, cfg, hash, key, value, depth, s). Suc trieKeyBits - depth)")
    (auto simp: trieKeyBits_def)

definition trie_collapse :: "'s node_store \<Rightarrow> config \<Rightarrow> string \<Rightarrow> string \<Rightarrow> 's
    \<Rightarrow> (trie_error + string) \<times> 's" where
  "trie_collapse ops cfg left right s =
     (let empty = emptyNodeHash cfg in
      if left = empty \<and> right = empty then (Inr empty, s)
      else let only = (if left \<noteq> empty \<and> right = empty then left
                       else if right \<noteq> empty \<and> left = empty then right else [])
        in if only \<noteq> [] then
             (case trie_load ops cfg only s of
                (Inl e, s1) \<Rightarrow> (Inl e, s1)
              | (Inr (Some (LeafNode _ _)), s1) \<Rightarrow> (Inr only, s1)
              | (Inr _, s1) \<Rightarrow> trie_save ops cfg (InnerNode left right) s1)
           else trie_save ops cfg (InnerNode left right) s)"

function trie_delete :: "'s node_store \<Rightarrow> config \<Rightarrow> string \<Rightarrow> bytes \<Rightarrow> nat \<Rightarrow> 's
    \<Rightarrow> (trie_error + string) \<times> 's" where
  "trie_delete ops cfg hash key depth s =
     (case trie_load ops cfg hash s of
        (Inl e, s1) \<Rightarrow> (Inl e, s1)
      | (Inr None, s1) \<Rightarrow> (Inr (emptyNodeHash cfg), s1)
      | (Inr (Some (LeafNode k v)), s1) \<Rightarrow> (Inr (if k = key then emptyNodeHash cfg else hash), s1)
      | (Inr (Some (InnerNode l r)), s1) \<Rightarrow>
          if trieKeyBits \<le> depth then (Inl IndexPanic, s1)
          else if \<not> key_bit key depth then
            (case trie_delete ops cfg l key (depth + 1) s1 of
               (Inl e, s2) \<Rightarrow> (Inl e, s2)
             | (Inr left, s2) \<Rightarrow> trie_collapse ops cfg left r s2)
          else
            (case trie_delete ops cfg r key (depth + 1) s1 of
               (Inl e, s2) \<Rightarrow> (Inl e, s2)
             | (Inr right, s2) \<Rightarrow> trie_collapse ops cfg l right s2))"
  by pat_completeness auto
termination
  by (relation "measure (\<lambda>(ops, cfg, hash, key, depth, s). Suc trieKeyBits - depth)")
    (auto simp: trieKeyBits_def)

declare trie_get.simps [simp del] trie_split.simps [simp del] trie_insert.simps [simp del]
  trie_delete.simps [simp del]

definition NewTrie_root :: "config \<Rightarrow> string \<Rightarrow> string" where
  "NewTrie_root cfg root = (if root = [] then emptyNodeHash cfg else root)"

definition trie_Get :: "'s node_store \<Rightarrow> config \<Rightarrow> string \<Rightarrow> bytes \<Rightarrow> 's
    \<Rightarrow> (trie_error + string option) \<times> 's" where
  "trie_Get ops cfg root key s = trie_get ops cfg key root 0 s"

definition trie_Update :: "'s node_store \<Rightarrow> config \<Rightarrow> string \<Rightarrow> bytes \<Rightarrow> string \<Rightarrow> 's
    \<Rightarrow> (trie_error + string) \<times> 's" where
  "trie_Update ops cfg root key value s =
     (if value = [] then trie_delete ops cfg root key 0 s
      else trie_insert ops cfg root key value 0 s)"

section \<open>Proofs\<close>

record trie_proof =
  tp_key :: string
  tp_value :: string
  tp_found :: bool
  tp_siblings :: "string list"
  tp_other_key :: string
  tp_other_value :: string

definition trie_proof_of :: "bytes \<Rightarrow> string list \<Rightarrow> trie_node option \<Rightarrow> trie_proof" where
  "trie_proof_of key sibs n =
     (case n of
        Some (LeafNode k v) \<Rightarrow>
          if k = key
          then \<lparr>tp_key = hex_encode key, tp_value = v, tp_found = True, tp_siblings = sibs,
                tp_other_key = [], tp_other_value = []\<rparr>
          else \<lparr>tp_key = hex_encode key, tp_value = [], tp_found = False, tp_siblings = sibs,
                tp_other_key = hex_encode k, tp_other_value = v\<rparr>
      | _ \<Rightarrow> \<lparr>tp_key = hex_encode key, tp_value = [], tp_found = False, tp_siblings = sibs,
              tp_other_key = [], tp_other_value = []\<rparr>)"

text \<open>The siblings are gathered root first and reversed at the end, as the code does.\<close>

function trie_prove :: "'s node_store \<Rightarrow> config \<Rightarrow> bytes \<Rightarrow> string \<Rightarrow> nat \<Rightarrow> string list \<Rightarrow> 's
    \<Rightarrow> (trie_error + trie_proof) \<times> 's" where
  "trie_prove ops cfg key hash depth sibs s =
     (if trieKeyBits < depth then (Inl DepthExceeded, s)
      else case trie_load ops cfg hash s of
        (Inl e, s1) \<Rightarrow> (Inl e, s1)
      | (Inr None, s1) \<Rightarrow> (Inr (trie_proof_of key (rev sibs) None), s1)
      | (Inr (Some (LeafNode k v)), s1) \<Rightarrow>
          (Inr (trie_proof_of key (rev sibs) (Some (LeafNode k v))), s1)
      | (Inr (Some (InnerNode l r)), s1) \<Rightarrow>
          if trieKeyBits \<le> depth then (Inl IndexPanic, s1)
          else if \<not> key_bit key depth
          then trie_prove ops cfg key l (depth + 1) (sibs @ [r]) s1
          else trie_prove ops cfg key r (depth + 1) (sibs @ [l]) s1)"
  by pat_completeness auto
termination
  by (relation "measure (\<lambda>(ops, cfg, key, hash, depth, sibs, s). Suc trieKeyBits - depth)")
    (auto simp: trieKeyBits_def)

declare trie_prove.simps [simp del]

definition trie_Prove :: "'s node_store \<Rightarrow> config \<Rightarrow> string \<Rightarrow> bytes \<Rightarrow> 's
    \<Rightarrow> (trie_error + trie_proof) \<times> 's" where
  "trie_Prove ops cfg root key s = trie_prove ops cfg key root 0 [] s"

definition sharesPrefix :: "bytes \<Rightarrow> bytes \<Rightarrow> nat \<Rightarrow> bool" where
  "sharesPrefix a b n = list_all (\<lambda>i. key_bit a i = key_bit b i) [0..<n]"

text \<open>The fold of \<open>VerifyTrieProof\<close>: the first sibling pairs with the deepest level.\<close>

fun fold_siblings :: "config \<Rightarrow> bytes \<Rightarrow> string list \<Rightarrow> string \<Rightarrow> string" where
  "fold_siblings cfg key [] cur = cur"
| "fold_siblings cfg key (sib # sibs) cur =
     fold_siblings cfg key sibs
       (if key_bit key (length sibs) then node_hash cfg (InnerNode sib cur)
        else node_hash cfg (InnerNode cur sib))"

text \<open>
  The two results \<open>(valid, present)\<close>, or \<^term>\<open>None\<close> where the code panics: with more than 256
  siblings the fold reads a bit past the end of the key.
\<close>

definition proof_end :: "config \<Rightarrow> trie_proof \<Rightarrow> bytes \<Rightarrow> string option" where
  "proof_end cfg p key =
     (if tp_found p then
        (if tp_value p = [] then None else Some (node_hash cfg (LeafNode key (tp_value p))))
      else if tp_other_key p \<noteq> [] then
        (case hex_decode (tp_other_key p) of
           None \<Rightarrow> None
         | Some other \<Rightarrow>
             if length other \<noteq> 32 \<or> other = key
                \<or> \<not> sharesPrefix key other (length (tp_siblings p)) then None
             else Some (node_hash cfg (LeafNode other (tp_other_value p))))
      else Some (emptyNodeHash cfg))"

definition VerifyTrieProof :: "config \<Rightarrow> trie_proof \<Rightarrow> string \<Rightarrow> (bool \<times> bool) option" where
  "VerifyTrieProof cfg p root =
     (case hex_decode (tp_key p) of
        None \<Rightarrow> Some (False, False)
      | Some key \<Rightarrow>
          if length key \<noteq> 32 then Some (False, False)
          else
           (case proof_end cfg p key of
              None \<Rightarrow> Some (False, False)
            | Some cur \<Rightarrow>
                if trieKeyBits < length (tp_siblings p) then None
                else if fold_siblings cfg key (tp_siblings p) cur \<noteq> root then Some (False, False)
                else Some (True, tp_found p)))"

end
