(* ===== verification/Trie_Pure.thy ===== *)
theory Trie_Pure
  imports Trie
begin

text \<open>
  The trie as a mathematical tree: what insertion and deletion do to it, the path-compression
  invariant they keep, and the fact that makes a state root meaningful, that two trees with the
  invariant and the same contents are equal. A tree's hash is the content address of its root
  node.
\<close>

section \<open>Trees and their contents\<close>

datatype ptree = PE | PL bytes string | PN ptree ptree

fun p_lookup :: "ptree \<Rightarrow> nat \<Rightarrow> bytes \<Rightarrow> string option" where
  "p_lookup PE d k = None"
| "p_lookup (PL k' v) d k = (if k' = k then Some v else None)"
| "p_lookup (PN l r) d k = p_lookup (if key_bit k d then r else l) (Suc d) k"

fun p_split :: "nat \<Rightarrow> bytes \<Rightarrow> string \<Rightarrow> bytes \<Rightarrow> string \<Rightarrow> nat \<Rightarrow> ptree" where
  "p_split 0 ok ov k v d = PE"
| "p_split (Suc n) ok ov k v d =
     (if key_bit ok d = key_bit k d then
        (let c = p_split n ok ov k v (Suc d) in if key_bit ok d then PN PE c else PN c PE)
      else if key_bit ok d then PN (PL k v) (PL ok ov) else PN (PL ok ov) (PL k v))"

fun p_insert :: "ptree \<Rightarrow> bytes \<Rightarrow> string \<Rightarrow> nat \<Rightarrow> ptree" where
  "p_insert PE k v d = PL k v"
| "p_insert (PL k' v') k v d = (if k' = k then PL k v else p_split (256 - d) k' v' k v d)"
| "p_insert (PN l r) k v d =
     (if key_bit k d then PN l (p_insert r k v (Suc d)) else PN (p_insert l k v (Suc d)) r)"

fun p_collapse :: "ptree \<Rightarrow> ptree \<Rightarrow> ptree" where
  "p_collapse PE PE = PE"
| "p_collapse (PL k v) PE = PL k v"
| "p_collapse PE (PL k v) = PL k v"
| "p_collapse l r = PN l r"

fun p_delete :: "ptree \<Rightarrow> bytes \<Rightarrow> nat \<Rightarrow> ptree" where
  "p_delete PE k d = PE"
| "p_delete (PL k' v) k d = (if k' = k then PE else PL k' v)"
| "p_delete (PN l r) k d =
     (if key_bit k d then p_collapse l (p_delete r k (Suc d)) else p_collapse (p_delete l k (Suc d)) r)"

text \<open>The keys a tree holds, and the invariant: a key sits on the side its bits name, below depth 256,
  and no inner node holds fewer than two keys.\<close>

fun p_keys :: "ptree \<Rightarrow> bytes set" where
  "p_keys PE = {}"
| "p_keys (PL k v) = {k}"
| "p_keys (PN l r) = p_keys l \<union> p_keys r"

fun p_small :: "ptree \<Rightarrow> bool" where
  "p_small (PN l r) = False"
| "p_small _ = True"

fun p_wf :: "nat \<Rightarrow> ptree \<Rightarrow> bool" where
  "p_wf d PE = True"
| "p_wf d (PL k v) = (length k = 32)"
| "p_wf d (PN l r) \<longleftrightarrow> d < 256 \<and> p_wf (Suc d) l \<and> p_wf (Suc d) r
     \<and> (\<forall>k \<in> p_keys l. \<not> key_bit k d) \<and> (\<forall>k \<in> p_keys r. key_bit k d)
     \<and> \<not> (l = PE \<and> p_small r) \<and> \<not> (r = PE \<and> p_small l)"

section \<open>Keys\<close>

lemma key_eqI:
  assumes "length a = 32" "length b = 32" "\<And>i. i < 256 \<Longrightarrow> key_bit a i = key_bit b i"
  shows "a = b"
proof (rule nth_equalityI)
  fix j assume j: "j < length a"
  have "bit (of_char (a ! j) :: nat) n = bit (of_char (b ! j) :: nat) n" for n
  proof (cases "n < 8")
    case True
    have "x < 8 \<Longrightarrow> (8 * j + x) mod 8 = x \<and> (8 * j + x) div 8 = j" for x by auto
    then have "(8 * j + (7 - n)) mod 8 = 7 - n" "(8 * j + (7 - n)) div 8 = j" by simp_all
    moreover have "8 * j + (7 - n) < 256" "7 - (7 - n) = n" using True j assms(1) by auto
    ultimately show ?thesis using assms(3) [of "8 * j + (7 - n)"] unfolding key_bit_def by metis
  next
    case False
    have "(of_char c :: nat) < 2 ^ 8" for c using of_char_lt [of c] by simp
    then have "\<not> bit (of_char c :: nat) n" for c
      using False by (metis bit_take_bit_iff take_bit_nat_eq_self)
    then show ?thesis by simp
  qed
  then have "(of_char (a ! j) :: nat) = of_char (b ! j)" by (rule bit_eqI)
  then show "a ! j = b ! j" by simp
qed (use assms in simp)

lemma lookup_keys: "p_lookup t d k = Some v \<Longrightarrow> k \<in> p_keys t"
  by (induction t d k rule: p_lookup.induct) (auto split: if_splits)

lemma keys_lookup: "p_wf d t \<Longrightarrow> k \<in> p_keys t \<longleftrightarrow> p_lookup t d k \<noteq> None"
  by (induction t arbitrary: d) (auto dest: lookup_keys split: if_splits)

lemma keys_length: "p_wf d t \<Longrightarrow> k \<in> p_keys t \<Longrightarrow> length k = 32"
  by (induction t arbitrary: d) auto

lemma wf_keys_empty: "p_wf d t \<Longrightarrow> p_keys t = {} \<longleftrightarrow> t = PE"
proof (induction t arbitrary: d)
  case (PN l r)
  have "\<not> (l = PE \<and> r = PE)" using PN.prems by auto
  with PN show ?case by auto
qed auto

lemma p_small_cases: "p_small t \<longleftrightarrow> t = PE \<or> (\<exists>k v. t = PL k v)"
  by (cases t) auto

lemma wf_keys_single: "p_wf d t \<Longrightarrow> p_keys t = {k} \<Longrightarrow> \<exists>v. t = PL k v"
proof (induction t arbitrary: d)
  case (PN l r)
  have ne: "p_keys l = {} \<longleftrightarrow> l = PE" "p_keys r = {} \<longleftrightarrow> r = PE"
    using PN.prems(1) wf_keys_empty [of "Suc d" l] wf_keys_empty [of "Suc d" r] by auto
  have disj: "p_keys l \<inter> p_keys r = {}" using PN.prems(1) by auto
  have "p_keys l = {} \<or> p_keys r = {}"
  proof (rule ccontr)
    assume "\<not> (p_keys l = {} \<or> p_keys r = {})"
    then obtain a b where "a \<in> p_keys l" "b \<in> p_keys r" by blast
    moreover from this have "a = k" "b = k" using PN.prems(2) by auto
    ultimately show False using disj by blast
  qed
  then show ?case
  proof
    assume "p_keys l = {}"
    then have "l = PE" "p_keys r = {k}" using ne PN.prems(2) by auto
    with PN show ?thesis by (auto simp: p_small_cases)
  next
    assume "p_keys r = {}"
    then have "r = PE" "p_keys l = {k}" using ne PN.prems(2) by auto
    with PN show ?thesis by (auto simp: p_small_cases)
  qed
qed auto

section \<open>Uniqueness\<close>

text \<open>Two trees with the invariant and the same contents are the same tree.\<close>

lemma p_unique:
  "p_wf d t \<Longrightarrow> p_wf d u \<Longrightarrow> (\<And>k. p_lookup t d k = p_lookup u d k) \<Longrightarrow> t = u"
proof (induction t arbitrary: d u)
  case PE
  then have "p_keys u = {}" using keys_lookup [of d u] by auto
  with PE show ?case using wf_keys_empty by blast
next
  case (PL k v)
  have "p_lookup u d x = (if k = x then Some v else None)" for x
    using PL.prems(3) [of x] by simp
  then have "p_keys u = {k}"
    using keys_lookup [OF PL.prems(2)] by (auto split: if_splits)
  then obtain v' where "u = PL k v'" using wf_keys_single [OF PL.prems(2)] by blast
  with PL.prems(3) [of k] show ?case by simp
next
  case (PN l r)
  have keys: "p_keys u = p_keys (PN l r)"
    using keys_lookup [OF PN.prems(1)] keys_lookup [OF PN.prems(2)] PN.prems(3) by (simp add: set_eq_iff)
  show ?case
  proof (cases u)
    case PE
    with keys wf_keys_empty [OF PN.prems(1)] show ?thesis by simp
  next
    case (PL k v)
    with keys have "p_keys (PN l r) = {k}" by simp
    from wf_keys_single [OF PN.prems(1) this] show ?thesis by simp
  next
    case u: (PN l' r')
    have side: "p_lookup x (Suc d) k = None" if "p_wf (Suc d) x" "\<forall>k \<in> p_keys x. key_bit k d = b" "key_bit k d \<noteq> b"
      for x k b using that keys_lookup [OF that(1), of k] by auto
    have "p_lookup l (Suc d) k = p_lookup l' (Suc d) k" for k
    proof (cases "key_bit k d")
      case True
      with PN.prems(1,2) u show ?thesis using side [of l False k] side [of l' False k] by auto
    next
      case False
      with PN.prems(3) [of k] u show ?thesis by simp
    qed
    moreover have "p_lookup r (Suc d) k = p_lookup r' (Suc d) k" for k
    proof (cases "key_bit k d")
      case True
      with PN.prems(3) [of k] u show ?thesis by simp
    next
      case False
      with PN.prems(1,2) u show ?thesis using side [of r True k] side [of r' True k] by auto
    qed
    ultimately show ?thesis
      using PN.IH(1) [of "Suc d" l'] PN.IH(2) [of "Suc d" r'] PN.prems(1,2) u by auto
  qed
qed

section \<open>Insertion and deletion\<close>

text \<open>A split separates two different keys that agree on every bit above its depth.\<close>

lemma split_wf:
  assumes "length a = 32" "length b = 32" "a \<noteq> b" "\<And>i. i < d \<Longrightarrow> key_bit a i = key_bit b i" "d \<le> 256"
  shows "p_wf d (p_split (256 - d) a x b y d) \<and> p_keys (p_split (256 - d) a x b y d) = {a, b}
    \<and> (\<forall>k. p_lookup (p_split (256 - d) a x b y d) d k
        = (if k = b then Some y else if k = a then Some x else None))"
  using assms(4,5)
proof (induction "256 - d" arbitrary: d)
  case 0
  then have "a = b" using assms(1,2) by (intro key_eqI) auto
  with assms(3) show ?case by simp
next
  case (Suc n)
  then have d: "256 - d = Suc n" "d < 256" "256 - Suc d = n" by auto
  show ?case
  proof (cases "key_bit a d = key_bit b d")
    case True
    let ?c = "p_split n a x b y (Suc d)"
    have "p_wf (Suc d) ?c \<and> p_keys ?c = {a, b} \<and> (\<forall>k. p_lookup ?c (Suc d) k
        = (if k = b then Some y else if k = a then Some x else None))"
      using Suc.hyps(1) [of "Suc d"] Suc.prems(1) True d less_Suc_eq by (metis Suc_leI)
    moreover from this have "\<not> p_small ?c"
      using assms(3) by (auto simp: p_small_cases)
    ultimately show ?thesis
      unfolding d(1) using d(2) True assms(3) by (auto simp: Let_def)
  next
    case False
    then show ?thesis
      unfolding d(1) using d(2) assms by auto
  qed
qed

text \<open>The bits above depth \<open>d\<close> that every key of a subtree shares with the path to it.\<close>

definition p_below :: "nat \<Rightarrow> bytes \<Rightarrow> ptree \<Rightarrow> bool" where
  "p_below d k t \<longleftrightarrow> (\<forall>k' \<in> p_keys t. \<forall>i < d. key_bit k' i = key_bit k i)"

lemma p_below_0 [simp]: "p_below 0 k t"
  by (simp add: p_below_def)

lemma p_below_child:
  assumes "p_wf d (PN l r)" "p_below d k (PN l r)"
  shows "key_bit k d \<Longrightarrow> p_below (Suc d) k r" "\<not> key_bit k d \<Longrightarrow> p_below (Suc d) k l"
  using assms by (auto simp: p_below_def less_Suc_eq)

lemma insert_small: "p_small (p_insert t k v d) \<Longrightarrow> p_small t"
  by (cases t) (auto split: if_splits)

lemma insert_wf:
  assumes "p_wf d t" "length k = 32" "p_below d k t" "d \<le> 256"
  shows "p_wf d (p_insert t k v d)" "p_keys (p_insert t k v d) = insert k (p_keys t)"
    "p_lookup (p_insert t k v d) d = (p_lookup t d)(k \<mapsto> v)"
proof -
  have "p_wf d (p_insert t k v d) \<and> p_keys (p_insert t k v d) = insert k (p_keys t)
      \<and> p_lookup (p_insert t k v d) d = (p_lookup t d)(k \<mapsto> v)"
    using assms
  proof (induction t arbitrary: d)
    case (PL k' v')
    show ?case
    proof (cases "k' = k")
      case False
      with PL split_wf [of k' k d v' v] show ?thesis
        by (auto simp: p_below_def fun_eq_iff)
    qed (use PL in \<open>auto simp: fun_eq_iff\<close>)
  next
    case (PN l r)
    have wf: "p_wf (Suc d) l" "p_wf (Suc d) r" "Suc d \<le> 256" using PN.prems(1) by auto
    show ?case
    proof (cases "key_bit k d")
      case True
      have "p_below (Suc d) k r" using p_below_child(1) [OF PN.prems(1,3) True] .
      with PN.IH(2) [OF wf(2) PN.prems(2) _ wf(3)] True PN.prems(1)
      show ?thesis by (auto simp: fun_eq_iff dest: insert_small)
    next
      case False
      have "p_below (Suc d) k l" using p_below_child(2) [OF PN.prems(1,3) False] .
      with PN.IH(1) [OF wf(1) PN.prems(2) _ wf(3)] False PN.prems(1)
      show ?thesis by (auto simp: fun_eq_iff dest: insert_small)
    qed
  qed (auto simp: fun_eq_iff)
  then show "p_wf d (p_insert t k v d)" "p_keys (p_insert t k v d) = insert k (p_keys t)"
    "p_lookup (p_insert t k v d) d = (p_lookup t d)(k \<mapsto> v)" by auto
qed

lemma collapse_cases:
  "p_collapse l r = (if l = PE \<and> p_small r then r else if r = PE \<and> p_small l then l else PN l r)"
  by (cases "(l, r)" rule: p_collapse.cases) auto

lemma collapse_wf:
  assumes "d < 256" "p_wf (Suc d) l" "p_wf (Suc d) r"
    "\<forall>k \<in> p_keys l. \<not> key_bit k d" "\<forall>k \<in> p_keys r. key_bit k d"
  shows "p_wf d (p_collapse l r)" "p_keys (p_collapse l r) = p_keys l \<union> p_keys r"
    "p_lookup (p_collapse l r) d k = p_lookup (PN l r) d k"
proof -
  have small: "p_wf d t" "p_lookup t d k = p_lookup t (Suc d) k" if "p_small t" "p_wf (Suc d) t" for t
    using that by (auto simp: p_small_cases)
  show "p_wf d (p_collapse l r)"
    unfolding collapse_cases using assms small(1) by auto
  show "p_keys (p_collapse l r) = p_keys l \<union> p_keys r"
    unfolding collapse_cases by auto
  have "p_lookup t (Suc d) k = None" if "p_wf (Suc d) t" "k \<notin> p_keys t" for t
    using keys_lookup [OF that(1), of k] that(2) by auto
  then show "p_lookup (p_collapse l r) d k = p_lookup (PN l r) d k"
    unfolding collapse_cases using assms small(2) by (cases "k \<in> p_keys l"; cases "k \<in> p_keys r") auto
qed

lemma delete_wf:
  assumes "p_wf d t"
  shows "p_wf d (p_delete t k d)" "p_keys (p_delete t k d) = p_keys t - {k}"
    "p_lookup (p_delete t k d) d = (p_lookup t d)(k := None)"
proof -
  have "p_wf d (p_delete t k d) \<and> p_keys (p_delete t k d) = p_keys t - {k}
      \<and> p_lookup (p_delete t k d) d = (p_lookup t d)(k := None)"
    using assms
  proof (induction t arbitrary: d)
    case (PN l r)
    have d: "d < 256" and wf: "p_wf (Suc d) l" "p_wf (Suc d) r"
      and side: "\<forall>k \<in> p_keys l. \<not> key_bit k d" "\<forall>k \<in> p_keys r. key_bit k d"
      using PN.prems by auto
    show ?case
    proof (cases "key_bit k d")
      case True
      let ?r = "p_delete r k (Suc d)"
      have ih: "p_wf (Suc d) ?r" "p_keys ?r = p_keys r - {k}"
        "p_lookup ?r (Suc d) = (p_lookup r (Suc d))(k := None)"
        using PN.IH(2) [OF wf(2)] by blast+
      have s: "\<forall>k \<in> p_keys ?r. key_bit k d" using ih(2) side(2) by auto
      have "k \<notin> p_keys l" using True side(1) by auto
      then have keys: "p_keys l \<union> p_keys ?r = p_keys (PN l r) - {k}" using ih(2) by auto
      have "p_lookup (PN l ?r) d x = ((p_lookup (PN l r) d)(k := None)) x" for x
        using True ih(3) by auto
      then show ?thesis
        using collapse_wf [OF d wf(1) ih(1) side(1) s] True keys by (simp add: fun_eq_iff)
    next
      case False
      let ?l = "p_delete l k (Suc d)"
      have ih: "p_wf (Suc d) ?l" "p_keys ?l = p_keys l - {k}"
        "p_lookup ?l (Suc d) = (p_lookup l (Suc d))(k := None)"
        using PN.IH(1) [OF wf(1)] by blast+
      have s: "\<forall>k \<in> p_keys ?l. \<not> key_bit k d" using ih(2) side(1) by auto
      have "k \<notin> p_keys r" using False side(2) by auto
      then have keys: "p_keys ?l \<union> p_keys r = p_keys (PN l r) - {k}" using ih(2) by auto
      have "p_lookup (PN ?l r) d x = ((p_lookup (PN l r) d)(k := None)) x" for x
        using False ih(3) by auto
      then show ?thesis
        using collapse_wf [OF d ih(1) wf(2) s side(2)] False keys by (simp add: fun_eq_iff)
    qed
  qed (auto simp: fun_eq_iff)
  then show "p_wf d (p_delete t k d)" "p_keys (p_delete t k d) = p_keys t - {k}"
    "p_lookup (p_delete t k d) d = (p_lookup t d)(k := None)" by auto
qed

section \<open>Whole trees\<close>

text \<open>\<open>Update\<close> on a tree: an empty value deletes the key.\<close>

definition p_update :: "ptree \<Rightarrow> bytes \<Rightarrow> string \<Rightarrow> ptree" where
  "p_update t k v = (if v = [] then p_delete t k 0 else p_insert t k v 0)"

definition p_contents :: "ptree \<Rightarrow> bytes \<Rightarrow> string option" where
  "p_contents t k = p_lookup t 0 k"

lemma update_wf:
  assumes "p_wf 0 t" "length k = 32"
  shows "p_wf 0 (p_update t k v)"
    "p_contents (p_update t k v) = (p_contents t)(k := (if v = [] then None else Some v))"
  using insert_wf [OF assms] delete_wf [OF assms(1)]
  by (auto simp: p_update_def p_contents_def fun_eq_iff)

definition p_updates :: "ptree \<Rightarrow> (bytes \<times> string) list \<Rightarrow> ptree" where
  "p_updates t kvs = fold (\<lambda>(k, v) t. p_update t k v) kvs t"

lemma updates_wf:
  assumes "p_wf 0 t" "\<forall>(k, v) \<in> set kvs. length k = 32"
  shows "p_wf 0 (p_updates t kvs)"
  using assms by (induction kvs arbitrary: t) (auto simp: p_updates_def update_wf)

lemma updates_contents:
  assumes "p_wf 0 t" "\<forall>(k, v) \<in> set kvs. length k = 32" "distinct (map fst kvs)"
  shows "p_contents (p_updates t kvs) k =
    (case map_of kvs k of None \<Rightarrow> p_contents t k | Some v \<Rightarrow> if v = [] then None else Some v)"
  using assms
proof (induction kvs arbitrary: t)
  case (Cons kv kvs)
  obtain k0 v0 where kv: "kv = (k0, v0)" by (cases kv)
  have wf: "p_wf 0 (p_update t k0 v0)" using Cons.prems kv by (intro update_wf) auto
  have "p_contents (p_updates t (kv # kvs)) k = p_contents (p_updates (p_update t k0 v0) kvs) k"
    by (simp add: p_updates_def kv)
  also have "\<dots> = (case map_of kvs k of None \<Rightarrow> p_contents (p_update t k0 v0) k
      | Some v \<Rightarrow> if v = [] then None else Some v)"
    using Cons.IH [OF wf] Cons.prems by simp
  finally have eq: "p_contents (p_updates t (kv # kvs)) k = \<dots>" .
  have "map_of kvs k0 = None" using Cons.prems(3) kv by (simp add: map_of_eq_None_iff)
  then show ?case
    using eq update_wf(2) [of t k0 v0] Cons.prems(1,2) by (cases "k = k0") (simp_all add: kv split: option.split)
qed (simp add: p_updates_def)

end
