(* ===== verification/Trie_Store.thy ===== *)
theory Trie_Store
  imports Trie_Pure
begin

text \<open>
  The stored trie implements the mathematical one. A store is described by the nodes it can
  return, and two contracts: a cache returns only what was put into it and may forget anything; a
  full store forgets nothing. Over any cache whose entries are genuine, an operation either fails
  or returns the hash of the right tree, so a cold or evicting cache never gives a wrong root. Over
  a full store that holds the tree it always succeeds. The bounded store satisfies the first
  contract and the in-memory and tee stores both.
\<close>

section \<open>Node hashes and encodings\<close>

fun p_hash :: "config \<Rightarrow> ptree \<Rightarrow> string" where
  "p_hash cfg PE = emptyNodeHash cfg"
| "p_hash cfg (PL k v) = node_hash cfg (LeafNode k v)"
| "p_hash cfg (PN l r) = node_hash cfg (InnerNode (p_hash cfg l) (p_hash cfg r))"

fun p_nodes :: "config \<Rightarrow> ptree \<Rightarrow> trie_node set" where
  "p_nodes cfg PE = {}"
| "p_nodes cfg (PL k v) = {LeafNode k v}"
| "p_nodes cfg (PN l r) = insert (InnerNode (p_hash cfg l) (p_hash cfg r)) (p_nodes cfg l \<union> p_nodes cfg r)"

fun p_top :: "config \<Rightarrow> ptree \<Rightarrow> trie_node option" where
  "p_top cfg PE = None"
| "p_top cfg (PL k v) = Some (LeafNode k v)"
| "p_top cfg (PN l r) = Some (InnerNode (p_hash cfg l) (p_hash cfg r))"

lemma p_top_hash: "p_top cfg t = Some n \<Longrightarrow> p_hash cfg t = node_hash cfg n \<and> n \<in> p_nodes cfg t"
  by (cases t) auto

fun node_ok :: "trie_node \<Rightarrow> bool" where
  "node_ok (LeafNode k v) \<longleftrightarrow> length k = 32 \<and> length v \<le> 1024"
| "node_ok (InnerNode l r) \<longleftrightarrow> length l \<le> 1024 \<and> length r \<le> 1024"

lemma read_buf_exact: "length b = n \<Longrightarrow> b @ rest \<noteq> [] \<Longrightarrow> read_buf n (b @ rest) = Some (b, rest)"
  by (auto simp: read_buf_def)

lemma be_val_be32_nat: "n < 2 ^ 32 \<Longrightarrow> be_val (be32 (of_nat n)) = n"
  by (simp add: be32_def be_val_bytes unat_of_nat)

lemma readLenPrefixed_write:
  assumes "length s \<le> 1024"
  shows "readLenPrefixed (writeLenPrefixed s @ rest) = Inr (s, rest)"
proof -
  have n: "be_val (be32 (of_nat (length s))) = length s"
    by (rule be_val_be32_nat) (use assms in simp)
  have "be32 (of_nat (length s)) \<noteq> []" by (metis length_be32 list.size(3) zero_neq_numeral)
  then have "read_buf 4 (be32 (of_nat (length s)) @ (s @ rest)) = Some (be32 (of_nat (length s)), s @ rest)"
    by (intro read_buf_exact) simp_all
  then show ?thesis
    using assms n read_buf_exact [of s "length s" rest]
    by (cases "s @ rest = []") (auto simp: readLenPrefixed_def writeLenPrefixed_def Let_def read_buf_def)
qed

lemma decode_encode: "node_ok n \<Longrightarrow> decodeNode (node_encode n) = Inr n"
proof (cases n)
  case (LeafNode k v)
  moreover assume "node_ok n"
  moreover have "read_buf 32 (k @ writeLenPrefixed v) = Some (k, writeLenPrefixed v)"
    if "length k = 32" by (rule read_buf_exact) (use that in auto)
  ultimately show ?thesis
    using readLenPrefixed_write [of v "[]"]
    by (simp add: decodeNode_def node_encode_def)
next
  case (InnerNode l r)
  moreover assume "node_ok n"
  ultimately show ?thesis
    using readLenPrefixed_write [of l "writeLenPrefixed r"] readLenPrefixed_write [of r "[]"]
    by (simp add: decodeNode_def node_encode_def trieLeafTag_def trieInnerTag_def)
qed

text \<open>
  The hypothesis on the hash: on the nodes at hand it has no collision, and none of them hashes to the
  sentinel of the empty subtree.
\<close>

definition hash_free :: "config \<Rightarrow> trie_node set \<Rightarrow> bool" where
  "hash_free cfg U \<longleftrightarrow> inj_on (node_hash cfg) U \<and> emptyNodeHash cfg \<notin> node_hash cfg ` U
     \<and> (\<forall>n \<in> U. node_ok n \<and> node_hash cfg n \<noteq> [])"

lemma hash_free_subset: "hash_free cfg U \<Longrightarrow> V \<subseteq> U \<Longrightarrow> hash_free cfg V"
  by (auto simp: hash_free_def intro: inj_on_subset)

lemma p_hash_empty_iff: "hash_free cfg U \<Longrightarrow> p_nodes cfg t \<subseteq> U \<Longrightarrow> p_hash cfg t = emptyNodeHash cfg \<longleftrightarrow> t = PE"
  by (cases t) (auto simp: hash_free_def image_iff)

lemma p_hash_nonempty: "hash_free cfg U \<Longrightarrow> p_nodes cfg t \<subseteq> U \<Longrightarrow> t \<noteq> PE \<Longrightarrow> p_hash cfg t \<noteq> []"
  by (cases t) (auto simp: hash_free_def)

text \<open>A hash names its tree.\<close>

lemma p_hash_inj:
  "hash_free cfg U \<Longrightarrow> p_nodes cfg t \<subseteq> U \<Longrightarrow> p_nodes cfg u \<subseteq> U \<Longrightarrow> p_hash cfg t = p_hash cfg u \<Longrightarrow> t = u"
proof (induction t arbitrary: u)
  case PE
  then show ?case using p_hash_empty_iff [of cfg U u] by simp
next
  case (PL k v)
  have "u \<noteq> PE" using PL p_hash_empty_iff [of cfg U "PL k v"] by auto
  then obtain n where n: "p_top cfg u = Some n" by (cases u) auto
  then have "LeafNode k v = n"
    using PL p_top_hash [OF n] by (auto simp: hash_free_def dest: inj_onD)
  with n show ?case by (cases u) auto
next
  case (PN l r)
  have "u \<noteq> PE" using PN p_hash_empty_iff [of cfg U "PN l r"] by auto
  then obtain n where n: "p_top cfg u = Some n" by (cases u) auto
  then have "InnerNode (p_hash cfg l) (p_hash cfg r) = n"
    using PN.prems p_top_hash [OF n] by (auto simp: hash_free_def dest: inj_onD)
  with n obtain l' r' where "u = PN l' r'" "p_hash cfg l = p_hash cfg l'" "p_hash cfg r = p_hash cfg r'"
    by (cases u) auto
  with PN show ?case by auto
qed

section \<open>Caches\<close>

text \<open>
  The outcome of a run that should lead to tree \<open>t\<close>: the store stays good, and if there is a result
  it is the hash of \<open>t\<close>.
\<close>

definition outcome :: "(config \<Rightarrow> trie_node set \<Rightarrow> 's \<Rightarrow> bool) \<Rightarrow> config \<Rightarrow> trie_node set \<Rightarrow> ptree
    \<Rightarrow> (trie_error + string) \<times> 's \<Rightarrow> bool" where
  "outcome good cfg U t r \<longleftrightarrow> good cfg U (snd r) \<and> (\<forall>h. fst r = Inr h \<longrightarrow> h = p_hash cfg t)"

text \<open>
  The contract of a cache: \<open>good\<close> says its entries are genuine encodings of nodes of \<open>U\<close> under their
  own hashes, and reading and writing such nodes keeps that.
\<close>

locale cache_store =
  fixes ops :: "'s node_store" and good :: "config \<Rightarrow> trie_node set \<Rightarrow> 's \<Rightarrow> bool"
  assumes good_value: "good cfg U s \<Longrightarrow> fst (ns_get ops h s) = Some d \<Longrightarrow>
      \<exists>n \<in> U. h = node_hash cfg n \<and> d = node_encode n"
    and good_get: "good cfg U s \<Longrightarrow> good cfg U (snd (ns_get ops h s))"
    and good_put: "good cfg U s \<Longrightarrow> n \<in> U \<Longrightarrow> good cfg U (snd (ns_put ops (node_hash cfg n) (node_encode n) s))"
begin

lemma load_genuine: "good cfg U s \<Longrightarrow> trie_load ops cfg h s = (r, s1) \<Longrightarrow> good cfg U s1"
  using good_get [of cfg U s h]
  by (auto simp: trie_load_def split: if_splits prod.splits option.splits sum.splits)

lemma load_tree:
  assumes "hash_free cfg U" "good cfg U s" "p_nodes cfg t \<subseteq> U"
    "trie_load ops cfg (p_hash cfg t) s = (r, s1)"
  shows "r = Inr (p_top cfg t) \<or> (\<exists>e. r = Inl e)"
    "t = PE \<or> fst (ns_get ops (p_hash cfg t) s) \<noteq> None \<Longrightarrow> r = Inr (p_top cfg t)"
proof -
  obtain x s2 where g: "ns_get ops (p_hash cfg t) s = (x, s2)" by fastforce
  have "r = Inr (p_top cfg t)" if "t = PE"
    using assms(4) that by (simp add: trie_load_def)
  moreover have "r = Inr (p_top cfg t)" if ne: "t \<noteq> PE" and vd: "x = Some d" for d
  proof -
    obtain n where top: "p_top cfg t = Some n" using ne by (cases t) auto
    then have h: "p_hash cfg t = node_hash cfg n" and n: "n \<in> U" using p_top_hash [OF top] assms(3) by auto
    obtain n' where n': "n' \<in> U" "p_hash cfg t = node_hash cfg n'" "d = node_encode n'"
      using good_value [OF assms(2), of "p_hash cfg t" d] g vd by auto
    then have "n' = n" using h n assms(1) by (auto simp: hash_free_def dest: inj_onD)
    moreover have "p_hash cfg t \<noteq> emptyNodeHash cfg" using p_hash_empty_iff [OF assms(1,3)] ne by simp
    moreover have "decodeNode d = Inr n'" unfolding n'(3) using assms(1) n'(1)
      by (intro decode_encode) (simp add: hash_free_def)
    ultimately show ?thesis using assms(4) top g vd by (simp add: trie_load_def)
  qed
  moreover have "\<exists>e. r = Inl e" if "t \<noteq> PE" "x = None"
    using that g assms(4) p_hash_empty_iff [OF assms(1,3)] by (auto simp: trie_load_def)
  ultimately show "r = Inr (p_top cfg t) \<or> (\<exists>e. r = Inl e)"
    "t = PE \<or> fst (ns_get ops (p_hash cfg t) s) \<noteq> None \<Longrightarrow> r = Inr (p_top cfg t)"
    using g by (metis not_None_eq fst_conv)+
qed

lemma save_result:
  assumes "good cfg U s" "n \<in> U" "trie_save ops cfg n s = (r, s1)"
  shows "good cfg U s1" "r = Inr (node_hash cfg n) \<or> (\<exists>e. r = Inl e)"
  using assms(3) good_put [OF assms(1,2)]
  by (auto simp: trie_save_def split: prod.splits option.splits)

lemma outcome_error: "good cfg U s \<Longrightarrow> outcome good cfg U t (Inl e, s)"
  by (simp add: outcome_def)

lemma save_outcome:
  "good cfg U s \<Longrightarrow> n \<in> U \<Longrightarrow> p_top cfg t = Some n \<Longrightarrow> outcome good cfg U t (trie_save ops cfg n s)"
  using save_result [of cfg U s n] p_top_hash [of cfg t n]
  by (cases "trie_save ops cfg n s") (fastforce simp: outcome_def)

lemma outcome_bind:
  assumes "outcome good cfg U t r" "\<And>s. good cfg U s \<Longrightarrow> outcome good cfg U u (k (p_hash cfg t) s)"
  shows "outcome good cfg U u (case r of (Inl e, s) \<Rightarrow> (Inl e, s) | (Inr h, s) \<Rightarrow> k h s)"
  using assms by (auto simp: outcome_def split: prod.split sum.split)

lemma split_outcome:
  assumes "good cfg U s" "p_nodes cfg (p_split (256 - d) ok ov k v d) \<subseteq> U" "d \<le> 256"
  shows "outcome good cfg U (p_split (256 - d) ok ov k v d) (trie_split ops cfg ok ov k v d s)"
  using assms
proof (induction "256 - d" arbitrary: d s)
  case 0
  then have "trie_split ops cfg ok ov k v d s = (Inl IndexPanic, s)"
    by (subst trie_split.simps) (simp add: trieKeyBits_def)
  with 0 show ?case by (simp add: outcome_error)
next
  case (Suc n)
  have d: "256 - d = Suc n" "256 - Suc d = n" "\<not> trieKeyBits \<le> d" "\<not> trieKeyBits < d" "Suc d \<le> 256"
    using Suc.hyps(2) by (auto simp: trieKeyBits_def)
  show ?case
  proof (cases "key_bit ok d = key_bit k d")
    case True
    let ?c = "p_split n ok ov k v (Suc d)"
    have t: "p_split (256 - d) ok ov k v d = (if key_bit ok d then PN PE ?c else PN ?c PE)"
      unfolding d(1) using True by (simp add: Let_def)
    have "outcome good cfg U ?c (trie_split ops cfg ok ov k v (Suc d) s)"
      using Suc.hyps(1) [of "Suc d" s] Suc.prems d unfolding t by (auto split: if_splits)
    then show ?thesis
      unfolding t using True d Suc.prems(2) [unfolded t]
      by (subst trie_split.simps) (auto intro!: outcome_bind save_outcome split: if_splits)
  next
    case False
    have t: "p_split (256 - d) ok ov k v d
        = (if key_bit ok d then PN (PL k v) (PL ok ov) else PN (PL ok ov) (PL k v))"
      unfolding d(1) using False by simp
    have n: "LeafNode ok ov \<in> U" "LeafNode k v \<in> U" using Suc.prems(2) unfolding t by (auto split: if_splits)
    then have sv: "good cfg U s' \<Longrightarrow> outcome good cfg U (PL ok ov) (trie_save ops cfg (LeafNode ok ov) s')"
      "good cfg U s' \<Longrightarrow> outcome good cfg U (PL k v) (trie_save ops cfg (LeafNode k v) s')" for s'
      by (auto intro: save_outcome)
    show ?thesis
      unfolding t using False d Suc.prems(2) [unfolded t] n
      by (subst trie_split.simps)
        (auto intro!: outcome_bind [OF sv(1) [OF Suc.prems(1)]] outcome_bind [OF sv(2)] save_outcome
          split: if_splits)
  qed
qed

lemma insert_outcome:
  assumes "hash_free cfg U"
  shows "good cfg U s \<Longrightarrow> p_nodes cfg t \<subseteq> U \<Longrightarrow> p_nodes cfg (p_insert t k v d) \<subseteq> U \<Longrightarrow> d \<le> 256 \<Longrightarrow>
    outcome good cfg U (p_insert t k v d) (trie_insert ops cfg (p_hash cfg t) k v d s)"
proof (induction t arbitrary: d s)
  case PE
  then show ?case
    by (subst trie_insert.simps) (auto simp: trie_load_def trieKeyBits_def intro!: save_outcome)
next
  case (PL k' v')
  obtain r s1 where ld: "trie_load ops cfg (p_hash cfg (PL k' v')) s = (r, s1)" by fastforce
  have g: "good cfg U s1" using load_genuine [OF PL.prems(1) ld] .
  have "r = Inr (Some (LeafNode k' v')) \<or> (\<exists>e. r = Inl e)"
    using load_tree(1) [OF assms PL.prems(1,2) ld] by simp
  then show ?case
    using ld PL.prems g split_outcome [of cfg U s1 d k' v' k v]
    by (subst trie_insert.simps)
      (auto simp: trieKeyBits_def outcome_error intro!: save_outcome split: if_splits)
next
  case (PN l r)
  obtain x s1 where ld: "trie_load ops cfg (p_hash cfg (PN l r)) s = (x, s1)" by fastforce
  have g: "good cfg U s1" using load_genuine [OF PN.prems(1) ld] .
  have x: "x = Inr (Some (InnerNode (p_hash cfg l) (p_hash cfg r))) \<or> (\<exists>e. x = Inl e)"
    using load_tree(1) [OF assms PN.prems(1,2) ld] by simp
  show ?case
  proof (cases "key_bit k d")
    case True
    have ih: "Suc d \<le> 256 \<Longrightarrow> outcome good cfg U (p_insert r k v (Suc d))
        (trie_insert ops cfg (p_hash cfg r) k v (Suc d) s1)"
      using PN.IH(2) [OF g] PN.prems(2,3) True by auto
    have "InnerNode (p_hash cfg l) (p_hash cfg (p_insert r k v (Suc d))) \<in> U"
      using PN.prems(3) True by simp
    then show ?thesis
      using x ld g True PN.prems(4) ih
      by (subst trie_insert.simps)
        (auto simp: trieKeyBits_def outcome_error intro!: outcome_bind save_outcome)
  next
    case False
    have ih: "Suc d \<le> 256 \<Longrightarrow> outcome good cfg U (p_insert l k v (Suc d))
        (trie_insert ops cfg (p_hash cfg l) k v (Suc d) s1)"
      using PN.IH(1) [OF g] PN.prems(2,3) False by auto
    have "InnerNode (p_hash cfg (p_insert l k v (Suc d))) (p_hash cfg r) \<in> U"
      using PN.prems(3) False by simp
    then show ?thesis
      using x ld g False PN.prems(4) ih
      by (subst trie_insert.simps)
        (auto simp: trieKeyBits_def outcome_error intro!: outcome_bind save_outcome)
  qed
qed

lemma collapse_only:
  assumes "hash_free cfg U" "good cfg U s" "p_nodes cfg t \<subseteq> U" "t \<noteq> PE"
    and "\<not> p_small t \<Longrightarrow> n \<in> U \<and> p_top cfg u = Some n" "p_small t \<Longrightarrow> p_hash cfg u = p_hash cfg t"
  shows "outcome good cfg U u
    (case trie_load ops cfg (p_hash cfg t) s of
       (Inl e, s1) \<Rightarrow> (Inl e, s1)
     | (Inr (Some (LeafNode _ _)), s1) \<Rightarrow> (Inr (p_hash cfg t), s1)
     | (Inr _, s1) \<Rightarrow> trie_save ops cfg n s1)"
proof -
  obtain r s1 where ld: "trie_load ops cfg (p_hash cfg t) s = (r, s1)" by fastforce
  have g: "good cfg U s1" using load_genuine [OF assms(2) ld] .
  have "r = Inr (p_top cfg t) \<or> (\<exists>e. r = Inl e)" using load_tree(1) [OF assms(1-3) ld] .
  then show ?thesis
    using ld g assms(4-6)
    by (cases t) (auto simp: outcome_error outcome_def [of good cfg U u "(Inr _, _)"] intro!: save_outcome)
qed

lemma collapse_outcome:
  assumes "hash_free cfg U" "good cfg U s" "p_nodes cfg l \<subseteq> U" "p_nodes cfg r \<subseteq> U"
    "p_nodes cfg (p_collapse l r) \<subseteq> U"
  shows "outcome good cfg U (p_collapse l r) (trie_collapse ops cfg (p_hash cfg l) (p_hash cfg r) s)"
proof -
  let ?n = "InnerNode (p_hash cfg l) (p_hash cfg r)"
  note e = p_hash_empty_iff [OF assms(1,3)] p_hash_empty_iff [OF assms(1,4)]
  note ne = p_hash_nonempty [OF assms(1,3)] p_hash_nonempty [OF assms(1,4)]
  consider "l = PE" "r = PE" | "l \<noteq> PE" "r = PE" | "l = PE" "r \<noteq> PE" | "l \<noteq> PE" "r \<noteq> PE" by blast
  then show ?thesis
  proof cases
    case 1
    then show ?thesis using assms(2) by (simp add: trie_collapse_def outcome_def)
  next
    case 2
    have n: "\<not> p_small l \<Longrightarrow> ?n \<in> U \<and> p_top cfg (p_collapse l r) = Some ?n"
      "p_small l \<Longrightarrow> p_hash cfg (p_collapse l r) = p_hash cfg l"
      using assms(5) 2 by (auto simp: collapse_cases split: if_splits)
    show ?thesis
      using collapse_only [OF assms(1,2,3) 2(1) n] e ne 2(1) unfolding 2(2) p_hash.simps(1)
      by (simp add: trie_collapse_def Let_def)
  next
    case 3
    have n: "\<not> p_small r \<Longrightarrow> ?n \<in> U \<and> p_top cfg (p_collapse l r) = Some ?n"
      "p_small r \<Longrightarrow> p_hash cfg (p_collapse l r) = p_hash cfg r"
      using assms(5) 3 by (auto simp: collapse_cases split: if_splits)
    show ?thesis
      using collapse_only [OF assms(1,2,4) 3(2) n] e ne 3(2) unfolding 3(1) p_hash.simps(1)
      by (simp add: trie_collapse_def Let_def)
  next
    case 4
    then have "p_collapse l r = PN l r" by (simp add: collapse_cases)
    then show ?thesis
      using assms(2,5) e 4 by (auto simp: trie_collapse_def Let_def intro!: save_outcome)
  qed
qed

lemma delete_outcome:
  assumes "hash_free cfg U"
  shows "good cfg U s \<Longrightarrow> p_nodes cfg t \<subseteq> U \<Longrightarrow> p_nodes cfg (p_delete t k d) \<subseteq> U \<Longrightarrow>
    outcome good cfg U (p_delete t k d) (trie_delete ops cfg (p_hash cfg t) k d s)"
proof (induction t arbitrary: d s)
  case PE
  then show ?case by (subst trie_delete.simps) (simp add: trie_load_def outcome_def)
next
  case (PL k' v')
  obtain r s1 where ld: "trie_load ops cfg (p_hash cfg (PL k' v')) s = (r, s1)" by fastforce
  have g: "good cfg U s1" using load_genuine [OF PL.prems(1) ld] .
  have "r = Inr (Some (LeafNode k' v')) \<or> (\<exists>e. r = Inl e)"
    using load_tree(1) [OF assms PL.prems(1,2) ld] by simp
  then show ?case
    using ld g by (subst trie_delete.simps) (auto simp: outcome_def)
next
  case (PN l r)
  obtain x s1 where ld: "trie_load ops cfg (p_hash cfg (PN l r)) s = (x, s1)" by fastforce
  have g: "good cfg U s1" using load_genuine [OF PN.prems(1) ld] .
  have x: "x = Inr (Some (InnerNode (p_hash cfg l) (p_hash cfg r))) \<or> (\<exists>e. x = Inl e)"
    using load_tree(1) [OF assms PN.prems(1,2) ld] by simp
  have sub: "p_nodes cfg l \<subseteq> U" "p_nodes cfg r \<subseteq> U" using PN.prems(2) by auto
  have col: "p_nodes cfg (p_collapse a b) \<subseteq> U \<Longrightarrow> p_nodes cfg a \<subseteq> U \<and> p_nodes cfg b \<subseteq> U" for a b
    by (auto simp: collapse_cases split: if_splits)
  show ?case
  proof (cases "key_bit k d")
    case True
    let ?r = "p_delete r k (Suc d)"
    have c: "p_nodes cfg (p_collapse l ?r) \<subseteq> U" using PN.prems(3) True by simp
    have ih: "outcome good cfg U ?r (trie_delete ops cfg (p_hash cfg r) k (Suc d) s1)"
      using PN.IH(2) [OF g sub(2)] col [OF c] by blast
    then show ?thesis
      using x ld g True collapse_outcome [OF assms _ sub(1) _ c] col [OF c]
      by (subst trie_delete.simps)
        (auto simp: outcome_error intro!: outcome_bind)
  next
    case False
    let ?l = "p_delete l k (Suc d)"
    have c: "p_nodes cfg (p_collapse ?l r) \<subseteq> U" using PN.prems(3) False by simp
    have ih: "outcome good cfg U ?l (trie_delete ops cfg (p_hash cfg l) k (Suc d) s1)"
      using PN.IH(1) [OF g sub(1)] col [OF c] by blast
    then show ?thesis
      using x ld g False collapse_outcome [OF assms _ _ sub(2) c] col [OF c]
      by (subst trie_delete.simps)
        (auto simp: outcome_error intro!: outcome_bind)
  qed
qed

lemma update_outcome:
  assumes "hash_free cfg U" "good cfg U s" "p_nodes cfg t \<subseteq> U" "p_nodes cfg (p_update t k v) \<subseteq> U"
  shows "outcome good cfg U (p_update t k v) (trie_Update ops cfg (p_hash cfg t) k v s)"
  using insert_outcome [OF assms(1-3)] delete_outcome [OF assms(1-3)] assms(4)
  by (cases "v = []") (simp_all add: trie_Update_def p_update_def)

lemma get_tree:
  assumes "hash_free cfg U"
  shows "good cfg U s \<Longrightarrow> p_nodes cfg t \<subseteq> U \<Longrightarrow> trie_get ops cfg k (p_hash cfg t) d s = (r, s1) \<Longrightarrow>
    (\<forall>x. r = Inr x \<longrightarrow> x = p_lookup t d k) \<and> good cfg U s1"
proof (induction t arbitrary: d s)
  case (PN l r')
  obtain x s2 where ld: "trie_load ops cfg (p_hash cfg (PN l r')) s = (x, s2)" by fastforce
  have g: "good cfg U s2" using load_genuine [OF PN.prems(1) ld] .
  have "x = Inr (Some (InnerNode (p_hash cfg l) (p_hash cfg r'))) \<or> (\<exists>e. x = Inl e)"
    using load_tree(1) [OF assms PN.prems(1,2) ld] by simp
  then show ?case
    using ld g PN.prems PN.IH [OF g, of "Suc d"]
    by (subst (asm) trie_get.simps) (auto split: if_splits)
next
  case PE
  then show ?case by (subst (asm) trie_get.simps) (auto simp: trie_load_def split: if_splits)
next
  case (PL k' v)
  obtain x s2 where ld: "trie_load ops cfg (p_hash cfg (PL k' v)) s = (x, s2)" by fastforce
  have g: "good cfg U s2" using load_genuine [OF PL.prems(1) ld] .
  have "x = Inr (Some (LeafNode k' v)) \<or> (\<exists>e. x = Inl e)"
    using load_tree(1) [OF assms PL.prems(1,2) ld] by simp
  then show ?case
    using ld g PL.prems by (subst (asm) trie_get.simps) (auto split: if_splits)
qed

end

section \<open>Full stores\<close>

text \<open>\<open>keep\<close> names the hashes a store is bound to keep, which may be fewer than it can return.\<close>

definition present :: "('s \<Rightarrow> string \<Rightarrow> bool) \<Rightarrow> config \<Rightarrow> 's \<Rightarrow> ptree \<Rightarrow> bool" where
  "present keep cfg s t \<longleftrightarrow> (\<forall>n \<in> p_nodes cfg t. keep s (node_hash cfg n))"

definition grows :: "('s \<Rightarrow> string \<Rightarrow> bool) \<Rightarrow> 's \<Rightarrow> 's \<Rightarrow> bool" where
  "grows keep s s' \<longleftrightarrow> (\<forall>h. keep s h \<longrightarrow> keep s' h)"

text \<open>A run that succeeds with tree \<open>t\<close>, stores it, and forgets nothing.\<close>

definition completed :: "(config \<Rightarrow> trie_node set \<Rightarrow> 's \<Rightarrow> bool) \<Rightarrow> ('s \<Rightarrow> string \<Rightarrow> bool) \<Rightarrow> config \<Rightarrow> trie_node set \<Rightarrow> 's \<Rightarrow> ptree
    \<Rightarrow> (trie_error + string) \<times> 's \<Rightarrow> bool" where
  "completed good keep cfg U s t r \<longleftrightarrow> fst r = Inr (p_hash cfg t) \<and> good cfg U (snd r)
     \<and> present keep cfg (snd r) t \<and> grows keep s (snd r)"

lemma grows_trans: "grows keep a b \<Longrightarrow> grows keep b c \<Longrightarrow> grows keep a c"
  by (simp add: grows_def)

lemma grows_present: "grows keep a b \<Longrightarrow> present keep cfg a t \<Longrightarrow> present keep cfg b t"
  by (simp add: grows_def present_def)

locale full_store = cache_store ops good
  for ops :: "'s node_store" and good :: "config \<Rightarrow> trie_node set \<Rightarrow> 's \<Rightarrow> bool" +
  fixes keep :: "'s \<Rightarrow> string \<Rightarrow> bool"
  assumes keep_view: "keep s h \<Longrightarrow> fst (ns_get ops h s) \<noteq> None"
    and get_keep: "keep (snd (ns_get ops h s)) = keep s"
    and put_ok: "fst (ns_put ops h d s) = None"
    and put_keeps: "keep s h' \<Longrightarrow> keep (snd (ns_put ops h d s)) h'"
    and put_has: "keep (snd (ns_put ops h d s)) h"
begin

lemma load_keep: "trie_load ops cfg h s = (r, s1) \<Longrightarrow> keep s1 = keep s"
  using get_keep [of h s] by (auto simp: trie_load_def split: if_splits prod.splits option.splits sum.splits)

lemma load_full:
  assumes "hash_free cfg U" "good cfg U s" "p_nodes cfg t \<subseteq> U" "present keep cfg s t"
  shows "\<exists>s1. trie_load ops cfg (p_hash cfg t) s = (Inr (p_top cfg t), s1) \<and> keep s1 = keep s \<and> good cfg U s1"
proof -
  obtain r s1 where ld: "trie_load ops cfg (p_hash cfg t) s = (r, s1)" by fastforce
  have "t = PE \<or> keep s (p_hash cfg t)"
    using assms(4) by (cases t) (auto simp: present_def)
  then have "t = PE \<or> fst (ns_get ops (p_hash cfg t) s) \<noteq> None" using keep_view by blast
  from load_tree(2) [OF assms(1-3) ld this] load_genuine [OF assms(2) ld] load_keep [OF ld] ld
  show ?thesis by simp
qed

lemma save_full:
  assumes "good cfg U s" "n \<in> U" "p_top cfg t = Some n"
    "\<forall>m \<in> p_nodes cfg t. m = n \<or> keep s (node_hash cfg m)"
  shows "completed good keep cfg U s t (trie_save ops cfg n s)"
proof -
  obtain e s1 where p: "ns_put ops (node_hash cfg n) (node_encode n) s = (e, s1)" by fastforce
  have "e = None" using put_ok [of "node_hash cfg n" "node_encode n" s] p by simp
  then have sv: "trie_save ops cfg n s = (Inr (node_hash cfg n), s1)" using p by (simp add: trie_save_def)
  have g: "grows keep s s1" and h: "keep s1 (node_hash cfg n)"
    using put_keeps [of s _ "node_hash cfg n" "node_encode n"]
      put_has [of "node_hash cfg n" "node_encode n" s] p by (simp_all add: grows_def)
  have "present keep cfg s1 t"
    using assms(4) g h unfolding present_def grows_def by metis
  then show ?thesis
    using sv g save_result [OF assms(1,2) sv] p_top_hash [OF assms(3)] by (simp add: completed_def)
qed

lemma completed_bind:
  assumes "completed good keep cfg U s t r"
    and "\<And>s'. good cfg U s' \<Longrightarrow> present keep cfg s' t \<Longrightarrow> grows keep s s' \<Longrightarrow>
      completed good keep cfg U s' u (k (p_hash cfg t) s')"
  shows "completed good keep cfg U s u (case r of (Inl e, s) \<Rightarrow> (Inl e, s) | (Inr h, s) \<Rightarrow> k h s)"
proof -
  obtain s' where r: "r = (Inr (p_hash cfg t), s')" "good cfg U s'" "present keep cfg s' t"
    "grows keep s s'" using assms(1) by (cases r) (auto simp: completed_def)
  from assms(2) [OF r(2-4)] r show ?thesis by (auto simp: completed_def intro: grows_trans)
qed

lemma completed_view: "keep s1 = keep s \<Longrightarrow> completed good keep cfg U s1 t r \<Longrightarrow> completed good keep cfg U s t r"
  by (simp add: completed_def grows_def)

lemma present_view: "keep s1 = keep s \<Longrightarrow> present keep cfg s1 t = present keep cfg s t"
  by (simp add: present_def)

lemma split_full:
  assumes "good cfg U s" "p_nodes cfg (p_split (256 - d) ok ov k v d) \<subseteq> U" "d \<le> 256"
    and "length ok = 32" "length k = 32" "ok \<noteq> k" "\<And>i. i < d \<Longrightarrow> key_bit ok i = key_bit k i"
  shows "completed good keep cfg U s (p_split (256 - d) ok ov k v d) (trie_split ops cfg ok ov k v d s)"
  using assms(1-3,7)
proof (induction "256 - d" arbitrary: d s)
  case 0
  then have "ok = k" using assms(4,5) by (intro key_eqI) auto
  with assms(6) show ?case by simp
next
  case (Suc n)
  have d: "256 - d = Suc n" "256 - Suc d = n" "\<not> trieKeyBits \<le> d" "\<not> trieKeyBits < d" "Suc d \<le> 256"
    using Suc.hyps(2) by (auto simp: trieKeyBits_def)
  show ?case
  proof (cases "key_bit ok d = key_bit k d")
    case True
    let ?c = "p_split n ok ov k v (Suc d)"
    have t: "p_split (256 - d) ok ov k v d = (if key_bit ok d then PN PE ?c else PN ?c PE)"
      unfolding d(1) using True by (simp add: Let_def)
    have "completed good keep cfg U s ?c (trie_split ops cfg ok ov k v (Suc d) s)"
      using Suc.hyps(1) [of "Suc d" s] Suc.prems True d unfolding t
      by (auto split: if_splits simp: less_Suc_eq)
    then show ?thesis
      unfolding t using True d Suc.prems(2) [unfolded t]
      by (subst trie_split.simps)
        (auto intro!: completed_bind save_full simp: present_def split: if_splits)
  next
    case False
    have t: "p_split (256 - d) ok ov k v d
        = (if key_bit ok d then PN (PL k v) (PL ok ov) else PN (PL ok ov) (PL k v))"
      unfolding d(1) using False by simp
    have n: "LeafNode ok ov \<in> U" "LeafNode k v \<in> U" using Suc.prems(2) unfolding t by (auto split: if_splits)
    then have sv: "good cfg U s' \<Longrightarrow> completed good keep cfg U s' (PL ok ov) (trie_save ops cfg (LeafNode ok ov) s')"
      "good cfg U s' \<Longrightarrow> completed good keep cfg U s' (PL k v) (trie_save ops cfg (LeafNode k v) s')" for s'
      by (auto intro: save_full)
    show ?thesis
      unfolding t using False d Suc.prems(2) [unfolded t] n
      by (subst trie_split.simps)
        (auto intro!: completed_bind [OF sv(1) [OF Suc.prems(1)]] completed_bind [OF sv(2)] save_full
          simp: present_def grows_def split: if_splits)
  qed
qed

lemma insert_full:
  assumes "hash_free cfg U" "length k = 32"
  shows "good cfg U s \<Longrightarrow> present keep cfg s t \<Longrightarrow> p_wf d t \<Longrightarrow> p_below d k t \<Longrightarrow> d \<le> 256 \<Longrightarrow>
    p_nodes cfg t \<subseteq> U \<Longrightarrow> p_nodes cfg (p_insert t k v d) \<subseteq> U \<Longrightarrow>
    completed good keep cfg U s (p_insert t k v d) (trie_insert ops cfg (p_hash cfg t) k v d s)"
proof (induction t arbitrary: d s)
  case PE
  then show ?case
    by (subst trie_insert.simps) (auto simp: trie_load_def trieKeyBits_def intro!: save_full)
next
  case (PL k' v')
  obtain s1 where ld: "trie_load ops cfg (p_hash cfg (PL k' v')) s = (Inr (Some (LeafNode k' v')), s1)"
    and v: "keep s1 = keep s" and good1: "good cfg U s1"
    using load_full [OF assms(1) PL.prems(1,6,2)] by auto
  note g = good1
  have "completed good keep cfg U s1 (p_insert (PL k' v') k v d)
      (if k' = k then trie_save ops cfg (LeafNode k v) s1 else trie_split ops cfg k' v' k v d s1)"
    using PL.prems g assms(2) split_full [of cfg U s1 d k' v' k v]
    by (auto simp: p_below_def intro!: save_full)
  then show ?case
    using ld PL.prems(5) completed_view [OF v]
    by (subst trie_insert.simps) (auto simp: trieKeyBits_def)
next
  case (PN l r)
  obtain s1 where ld: "trie_load ops cfg (p_hash cfg (PN l r)) s
      = (Inr (Some (InnerNode (p_hash cfg l) (p_hash cfg r))), s1)"
    and v: "keep s1 = keep s" and good1: "good cfg U s1"
    using load_full [OF assms(1) PN.prems(1,6,2)] by auto
  have g: "good cfg U s1" "present keep cfg s1 l" "present keep cfg s1 r"
    using good1 PN.prems(2) present_view [OF v] by (auto simp: present_def)
  have d: "\<not> trieKeyBits \<le> d" "\<not> trieKeyBits < d" "Suc d \<le> 256"
    using PN.prems(3) by (auto simp: trieKeyBits_def)
  have wf: "p_wf (Suc d) l" "p_wf (Suc d) r" using PN.prems(3) by auto
  note below = p_below_child [OF PN.prems(3,4)]
  show ?case
  proof (cases "key_bit k d")
    case True
    have "completed good keep cfg U s1 (p_insert r k v (Suc d)) (trie_insert ops cfg (p_hash cfg r) k v (Suc d) s1)"
      using PN.IH(2) [OF g(1,3) wf(2) below(1) [OF True] d(3)] PN.prems(6,7) True by auto
    then have "completed good keep cfg U s1 (p_insert (PN l r) k v d)
        (case trie_insert ops cfg (p_hash cfg r) k v (Suc d) s1 of
           (Inl e, s2) \<Rightarrow> (Inl e, s2)
         | (Inr right, s2) \<Rightarrow> trie_save ops cfg (InnerNode (p_hash cfg l) right) s2)"
      by (rule completed_bind, intro save_full)
        (use True PN.prems(7) g(2) in \<open>auto simp: present_def grows_def\<close>)
    then show ?thesis
      using ld True d completed_view [OF v] by (subst trie_insert.simps) simp
  next
    case False
    have "completed good keep cfg U s1 (p_insert l k v (Suc d)) (trie_insert ops cfg (p_hash cfg l) k v (Suc d) s1)"
      using PN.IH(1) [OF g(1,2) wf(1) below(2) [OF False] d(3)] PN.prems(6,7) False by auto
    then have "completed good keep cfg U s1 (p_insert (PN l r) k v d)
        (case trie_insert ops cfg (p_hash cfg l) k v (Suc d) s1 of
           (Inl e, s2) \<Rightarrow> (Inl e, s2)
         | (Inr left, s2) \<Rightarrow> trie_save ops cfg (InnerNode left (p_hash cfg r)) s2)"
      by (rule completed_bind, intro save_full)
        (use False PN.prems(7) g(3) in \<open>auto simp: present_def grows_def\<close>)
    then show ?thesis
      using ld False d completed_view [OF v] by (subst trie_insert.simps) simp
  qed
qed

lemma collapse_only_full:
  assumes "hash_free cfg U" "good cfg U s" "p_nodes cfg t \<subseteq> U" "present keep cfg s t" "t \<noteq> PE"
    and "\<not> p_small t \<Longrightarrow> n \<in> U \<and> p_top cfg u = Some n \<and> p_nodes cfg u = insert n (p_nodes cfg t)"
    and "p_small t \<Longrightarrow> u = t"
  shows "completed good keep cfg U s u
    (case trie_load ops cfg (p_hash cfg t) s of
       (Inl e, s1) \<Rightarrow> (Inl e, s1)
     | (Inr (Some (LeafNode _ _)), s1) \<Rightarrow> (Inr (p_hash cfg t), s1)
     | (Inr _, s1) \<Rightarrow> trie_save ops cfg n s1)"
proof -
  obtain s1 where ld: "trie_load ops cfg (p_hash cfg t) s = (Inr (p_top cfg t), s1)" and v: "keep s1 = keep s"
    and good1: "good cfg U s1"
    using load_full [OF assms(1-4)] by blast
  have g: "good cfg U s1" "present keep cfg s1 t" using good1 assms(4) present_view [OF v] by auto
  show ?thesis
  proof (cases "p_small t")
    case True
    then have "u = t" by (rule assms(7))
    with True assms(5) ld g v show ?thesis
      by (cases t) (auto simp: completed_def grows_def)
  next
    case False
    then have n: "n \<in> U" "p_top cfg u = Some n" "p_nodes cfg u = insert n (p_nodes cfg t)"
      using assms(6) by auto
    have "completed good keep cfg U s1 u (trie_save ops cfg n s1)"
      by (rule save_full [OF g(1) n(1,2)]) (use g(2) n(3) in \<open>auto simp: present_def\<close>)
    with completed_view [OF v] False ld show ?thesis by (cases t) auto
  qed
qed

lemma collapse_full:
  assumes "hash_free cfg U" "good cfg U s" "p_nodes cfg l \<subseteq> U" "p_nodes cfg r \<subseteq> U"
    "p_nodes cfg (p_collapse l r) \<subseteq> U" "present keep cfg s l" "present keep cfg s r"
  shows "completed good keep cfg U s (p_collapse l r) (trie_collapse ops cfg (p_hash cfg l) (p_hash cfg r) s)"
proof -
  let ?n = "InnerNode (p_hash cfg l) (p_hash cfg r)"
  note e = p_hash_empty_iff [OF assms(1,3)] p_hash_empty_iff [OF assms(1,4)]
  note ne = p_hash_nonempty [OF assms(1,3)] p_hash_nonempty [OF assms(1,4)]
  consider "l = PE" "r = PE" | "l \<noteq> PE" "r = PE" | "l = PE" "r \<noteq> PE" | "l \<noteq> PE" "r \<noteq> PE" by blast
  then show ?thesis
  proof cases
    case 1
    then show ?thesis
      using assms(2) by (simp add: trie_collapse_def completed_def present_def grows_def)
  next
    case 2
    have n: "\<not> p_small l \<Longrightarrow> ?n \<in> U \<and> p_top cfg (p_collapse l r) = Some ?n
        \<and> p_nodes cfg (p_collapse l r) = insert ?n (p_nodes cfg l)"
      "p_small l \<Longrightarrow> p_collapse l r = l"
      using assms(5) 2 by (auto simp: collapse_cases split: if_splits)
    show ?thesis
      using collapse_only_full [OF assms(1-3,6) 2(1) n] e ne 2(1) unfolding 2(2) p_hash.simps(1)
      by (simp add: trie_collapse_def Let_def)
  next
    case 3
    have n: "\<not> p_small r \<Longrightarrow> ?n \<in> U \<and> p_top cfg (p_collapse l r) = Some ?n
        \<and> p_nodes cfg (p_collapse l r) = insert ?n (p_nodes cfg r)"
      "p_small r \<Longrightarrow> p_collapse l r = r"
      using assms(5) 3 by (auto simp: collapse_cases split: if_splits)
    show ?thesis
      using collapse_only_full [OF assms(1,2,4,7) 3(2) n] e ne 3(2) unfolding 3(1) p_hash.simps(1)
      by (simp add: trie_collapse_def Let_def)
  next
    case 4
    then have c: "p_collapse l r = PN l r" by (simp add: collapse_cases)
    have "completed good keep cfg U s (PN l r) (trie_save ops cfg ?n s)"
      by (rule save_full) (use assms c in \<open>auto simp: present_def\<close>)
    then show ?thesis
      using c e 4 by (simp add: trie_collapse_def Let_def)
  qed
qed

lemma delete_full:
  assumes "hash_free cfg U"
  shows "good cfg U s \<Longrightarrow> present keep cfg s t \<Longrightarrow> p_wf d t \<Longrightarrow> p_nodes cfg t \<subseteq> U \<Longrightarrow>
    p_nodes cfg (p_delete t k d) \<subseteq> U \<Longrightarrow>
    completed good keep cfg U s (p_delete t k d) (trie_delete ops cfg (p_hash cfg t) k d s)"
proof (induction t arbitrary: d s)
  case PE
  then show ?case
    by (subst trie_delete.simps) (simp add: trie_load_def completed_def present_def grows_def)
next
  case (PL k' v')
  obtain s1 where ld: "trie_load ops cfg (p_hash cfg (PL k' v')) s = (Inr (Some (LeafNode k' v')), s1)"
    and v: "keep s1 = keep s" and good1: "good cfg U s1"
    using load_full [OF assms PL.prems(1,4,2)] by auto
  then show ?case
    using good1 PL.prems(2) present_view [OF v]
    by (subst trie_delete.simps) (auto simp: completed_def present_def grows_def v)
next
  case (PN l r)
  obtain s1 where ld: "trie_load ops cfg (p_hash cfg (PN l r)) s
      = (Inr (Some (InnerNode (p_hash cfg l) (p_hash cfg r))), s1)"
    and v: "keep s1 = keep s" and good1: "good cfg U s1"
    using load_full [OF assms PN.prems(1,4,2)] by auto
  have g: "good cfg U s1" "present keep cfg s1 l" "present keep cfg s1 r"
    using good1 PN.prems(2) present_view [OF v] by (auto simp: present_def)
  have d: "\<not> trieKeyBits \<le> d" and wf: "p_wf (Suc d) l" "p_wf (Suc d) r"
    using PN.prems(3) by (auto simp: trieKeyBits_def)
  have sub: "p_nodes cfg l \<subseteq> U" "p_nodes cfg r \<subseteq> U" using PN.prems(4) by auto
  have col: "p_nodes cfg (p_collapse a b) \<subseteq> U \<Longrightarrow> p_nodes cfg a \<subseteq> U \<and> p_nodes cfg b \<subseteq> U" for a b
    by (auto simp: collapse_cases split: if_splits)
  show ?case
  proof (cases "key_bit k d")
    case True
    let ?r = "p_delete r k (Suc d)"
    have c: "p_nodes cfg (p_collapse l ?r) \<subseteq> U" using PN.prems(5) True by simp
    have "completed good keep cfg U s1 ?r (trie_delete ops cfg (p_hash cfg r) k (Suc d) s1)"
      using PN.IH(2) [OF g(1,3) wf(2) sub(2)] col [OF c] by blast
    then have "completed good keep cfg U s1 (p_collapse l ?r)
        (case trie_delete ops cfg (p_hash cfg r) k (Suc d) s1 of
           (Inl e, s2) \<Rightarrow> (Inl e, s2)
         | (Inr right, s2) \<Rightarrow> trie_collapse ops cfg (p_hash cfg l) right s2)"
      by (rule completed_bind, intro collapse_full [OF assms _ sub(1) _ c])
        (use col [OF c] g(2) grows_present in auto)
    then show ?thesis
      using ld True d completed_view [OF v] by (subst trie_delete.simps) simp
  next
    case False
    let ?l = "p_delete l k (Suc d)"
    have c: "p_nodes cfg (p_collapse ?l r) \<subseteq> U" using PN.prems(5) False by simp
    have "completed good keep cfg U s1 ?l (trie_delete ops cfg (p_hash cfg l) k (Suc d) s1)"
      using PN.IH(1) [OF g(1,2) wf(1) sub(1)] col [OF c] by blast
    then have "completed good keep cfg U s1 (p_collapse ?l r)
        (case trie_delete ops cfg (p_hash cfg l) k (Suc d) s1 of
           (Inl e, s2) \<Rightarrow> (Inl e, s2)
         | (Inr left, s2) \<Rightarrow> trie_collapse ops cfg left (p_hash cfg r) s2)"
      by (rule completed_bind, intro collapse_full [OF assms _ _ sub(2) c])
        (use col [OF c] g(3) grows_present in auto)
    then show ?thesis
      using ld False d completed_view [OF v] by (subst trie_delete.simps) simp
  qed
qed

lemma update_full:
  assumes "hash_free cfg U" "length k = 32" "good cfg U s" "present keep cfg s t" "p_wf 0 t"
    "p_nodes cfg t \<subseteq> U" "p_nodes cfg (p_update t k v) \<subseteq> U"
  shows "completed good keep cfg U s (p_update t k v) (trie_Update ops cfg (p_hash cfg t) k v s)"
  using insert_full [OF assms(1-5)] delete_full [OF assms(1,3-6)] assms(6,7)
  by (cases "v = []") (simp_all add: trie_Update_def p_update_def)

lemma get_full:
  assumes "hash_free cfg U"
  shows "good cfg U s \<Longrightarrow> present keep cfg s t \<Longrightarrow> p_wf d t \<Longrightarrow> d \<le> 256 \<Longrightarrow> p_nodes cfg t \<subseteq> U \<Longrightarrow>
    fst (trie_get ops cfg k (p_hash cfg t) d s) = Inr (p_lookup t d k)"
proof (induction t arbitrary: d s)
  case PE
  then show ?case by (subst trie_get.simps) (simp add: trie_load_def trieKeyBits_def)
next
  case (PL k' v')
  obtain s1 where "trie_load ops cfg (p_hash cfg (PL k' v')) s = (Inr (Some (LeafNode k' v')), s1)"
    using load_full [OF assms PL.prems(1,5,2)] by auto
  with PL.prems(4) show ?case by (subst trie_get.simps) (simp add: trieKeyBits_def)
next
  case (PN l r)
  obtain s1 where ld: "trie_load ops cfg (p_hash cfg (PN l r)) s
      = (Inr (Some (InnerNode (p_hash cfg l) (p_hash cfg r))), s1)"
    and v: "keep s1 = keep s" and good1: "good cfg U s1"
    using load_full [OF assms PN.prems(1,5,2)] by auto
  have g: "good cfg U s1" "present keep cfg s1 l" "present keep cfg s1 r"
    using good1 PN.prems(2) present_view [OF v] by (auto simp: present_def)
  have d: "\<not> trieKeyBits \<le> d" "\<not> trieKeyBits < d" "Suc d \<le> 256"
    and wf: "p_wf (Suc d) l" "p_wf (Suc d) r" using PN.prems(3) by (auto simp: trieKeyBits_def)
  have "p_nodes cfg l \<subseteq> U" "p_nodes cfg r \<subseteq> U" using PN.prems(5) by auto
  then have "fst (trie_get ops cfg k (p_hash cfg l) (Suc d) s1) = Inr (p_lookup l (Suc d) k)"
    "fst (trie_get ops cfg k (p_hash cfg r) (Suc d) s1) = Inr (p_lookup r (Suc d) k)"
    using PN.IH(1) [OF g(1,2) wf(1) d(3)] PN.IH(2) [OF g(1,3) wf(2) d(3)] by blast+
  then show ?case
    unfolding trie_get.simps [of ops cfg k "p_hash cfg (PN l r)" d s] using ld d by simp
qed

end

section \<open>The stores of the code\<close>

definition genuine :: "('s \<Rightarrow> string \<Rightarrow> bytes option) \<Rightarrow> config \<Rightarrow> trie_node set \<Rightarrow> 's \<Rightarrow> bool" where
  "genuine view cfg U s \<longleftrightarrow>
     (\<forall>h d. view s h = Some d \<longrightarrow> (\<exists>n \<in> U. h = node_hash cfg n \<and> d = node_encode n))"

definition bounded_view :: "bounded_nodes \<Rightarrow> string \<Rightarrow> bytes option" where
  "bounded_view s = map_of (bn_order s)"

interpretation mem_store: full_store memNodeStore "genuine fmlookup" "\<lambda>m h. fmlookup m h \<noteq> None"
  by unfold_locales
    (auto simp: memNodeStore_def mem_GetNode_def mem_PutNode_def genuine_def split: if_splits)

lemma map_of_filter_ne: "h' \<noteq> h \<Longrightarrow> map_of (filter (\<lambda>p. fst p \<noteq> h) xs) h' = map_of xs h'"
  by (induction xs) auto

lemma map_of_take_Some: "map_of (take n xs) h = Some d \<Longrightarrow> map_of xs h = Some d"
  by (induction xs arbitrary: n) (auto simp: take_Cons' split: if_splits)

lemma move_to_front_view: "map_of xs h = Some d \<Longrightarrow> map_of (move_to_front h d xs) = map_of xs"
  by (rule ext) (auto simp: move_to_front_def map_of_filter_ne)

lemma bounded_get:
  "fst (bounded_GetNode h s) = bounded_view s h" "bounded_view (snd (bounded_GetNode h s)) = bounded_view s"
  by (simp_all add: bounded_GetNode_def bounded_view_def move_to_front_view split: option.split)

lemma bounded_put:
  "fst (bounded_PutNode h d s) = None"
  "bounded_view (snd (bounded_PutNode h d s)) h' = Some d' \<Longrightarrow> bounded_view s h' = Some d' \<or> (h' = h \<and> d' = d)"
  by (auto simp: bounded_PutNode_def bounded_view_def move_to_front_view Let_def
      dest!: map_of_take_Some split: option.splits if_splits)

interpretation bounded_store: cache_store boundedNodeStore "genuine bounded_view"
proof
  fix cfg U h d n and s :: bounded_nodes
  assume g: "genuine bounded_view cfg U s"
  show "\<exists>n \<in> U. h = node_hash cfg n \<and> d = node_encode n" if "fst (ns_get boundedNodeStore h s) = Some d"
    using g that by (auto simp: genuine_def boundedNodeStore_def bounded_get)
  show "genuine bounded_view cfg U (snd (ns_get boundedNodeStore h s))"
    using g by (simp add: genuine_def boundedNodeStore_def bounded_get)
  show "genuine bounded_view cfg U (snd (ns_put boundedNodeStore (node_hash cfg n) (node_encode n) s))" if "n \<in> U"
    using g that bounded_put(2) by (fastforce simp: genuine_def boundedNodeStore_def)
qed

text \<open>A tee of a full store and a cache is a full store, and keeps both sides good.\<close>

locale tee_pair = build: full_store b ga ka + cache: cache_store c gb
  for b :: "'a node_store" and ga :: "config \<Rightarrow> trie_node set \<Rightarrow> 'a \<Rightarrow> bool" and ka :: "'a \<Rightarrow> string \<Rightarrow> bool"
    and c :: "'b node_store" and gb :: "config \<Rightarrow> trie_node set \<Rightarrow> 'b \<Rightarrow> bool" +
  assumes cache_put_ok: "fst (ns_put c h d x) = None"
begin

lemma tee_put:
  "tee_PutNode b c h d s
     = (None, (snd (ns_put b h d (fst s)), snd (ns_put c h d (snd s))))"
  using build.put_ok [of h d "fst s"] cache_put_ok [of h d "snd s"]
  by (auto simp: tee_PutNode_def split: prod.splits option.splits)

end

sublocale tee_pair \<subseteq> tee: full_store "teeNodeStore b c"
  "\<lambda>cfg U s. ga cfg U (fst s) \<and> gb cfg U (snd s)" "\<lambda>s. ka (fst s)"
proof
  fix cfg U h h' d n and s :: "'a \<times> 'b"
  note ops = teeNodeStore_def tee_put tee_GetNode_def
  note bg = build.good_get [of cfg U "fst s" h] build.good_value [of cfg U "fst s" h d]
    and cg = cache.good_get [of cfg U "snd s" h] cache.good_value [of cfg U "snd s" h d]
  show "\<exists>n \<in> U. h = node_hash cfg n \<and> d = node_encode n"
    if "ga cfg U (fst s) \<and> gb cfg U (snd s)" "fst (ns_get (teeNodeStore b c) h s) = Some d"
    using that bg cg by (auto simp: ops split: prod.splits option.splits)
  show "ga cfg U (fst (snd (ns_get (teeNodeStore b c) h s))) \<and> gb cfg U (snd (snd (ns_get (teeNodeStore b c) h s)))"
    if "ga cfg U (fst s) \<and> gb cfg U (snd s)"
    using that bg cg by (auto simp: ops split: prod.splits option.splits)
  show "ga cfg U (fst (snd (ns_put (teeNodeStore b c) (node_hash cfg n) (node_encode n) s)))
      \<and> gb cfg U (snd (snd (ns_put (teeNodeStore b c) (node_hash cfg n) (node_encode n) s)))"
    if "ga cfg U (fst s) \<and> gb cfg U (snd s)" "n \<in> U"
    using that build.good_put cache.good_put by (simp add: ops)
  show "fst (ns_get (teeNodeStore b c) h s) \<noteq> None" if "ka (fst s) h"
    using build.keep_view [OF that] by (auto simp: ops split: prod.splits option.splits)
  show "ka (fst (snd (ns_get (teeNodeStore b c) h s))) = ka (fst s)"
    using build.get_keep [of h "fst s"] by (auto simp: ops split: prod.splits option.splits)
  show "fst (ns_put (teeNodeStore b c) h d s) = None" by (simp add: ops)
  show "ka (fst (snd (ns_put (teeNodeStore b c) h d s))) h'" if "ka (fst s) h'"
    using build.put_keeps [OF that] by (simp add: ops)
  show "ka (fst (snd (ns_put (teeNodeStore b c) h d s))) h"
    using build.put_has [of h d "fst s"] by (simp add: ops)
qed

interpretation warming: tee_pair memNodeStore "genuine fmlookup" "\<lambda>m h. fmlookup m h \<noteq> None"
  boundedNodeStore "genuine bounded_view"
  by unfold_locales (simp add: boundedNodeStore_def bounded_put(1))

end
