(* ===== verification/State_Proofs.thy ===== *)
theory State_Proofs
  imports State_Root
begin

text \<open>
  Proofs against a state root (\<open>core/trie.go\<close>: \<open>Prove\<close>, \<open>VerifyTrieProof\<close>; \<open>core/state.go\<close>:
  \<open>ProveAccount\<close>, \<open>VerifyAccountProof\<close>). Whatever the node cache holds, the proof a node builds for
  an address verifies and says what the ledger says; and a proof that verifies cannot lie about
  presence, absence or contents unless two different strings that were hashed collide.
\<close>

section \<open>Paths\<close>

text \<open>The siblings on the way to a key, root first, and the node the walk ends at.\<close>

fun p_sibs :: "config \<Rightarrow> ptree \<Rightarrow> nat \<Rightarrow> bytes \<Rightarrow> string list" where
  "p_sibs cfg (PN l r) d k = (if key_bit k d then p_hash cfg l # p_sibs cfg r (Suc d) k
     else p_hash cfg r # p_sibs cfg l (Suc d) k)"
| "p_sibs cfg t d k = []"

fun p_end :: "config \<Rightarrow> ptree \<Rightarrow> nat \<Rightarrow> bytes \<Rightarrow> trie_node option" where
  "p_end cfg (PN l r) d k = p_end cfg (if key_bit k d then r else l) (Suc d) k"
| "p_end cfg t d k = p_top cfg t"

definition end_hash :: "config \<Rightarrow> trie_node option \<Rightarrow> string" where
  "end_hash cfg n = (case n of None \<Rightarrow> emptyNodeHash cfg | Some m \<Rightarrow> node_hash cfg m)"

text \<open>The fold of a verifier, read from the root down.\<close>

fun climb :: "config \<Rightarrow> bytes \<Rightarrow> nat \<Rightarrow> string list \<Rightarrow> string \<Rightarrow> string" where
  "climb cfg key d [] cur = cur"
| "climb cfg key d (sib # sibs) cur =
     (let c = climb cfg key (Suc d) sibs cur
      in node_hash cfg (if key_bit key d then InnerNode sib c else InnerNode c sib))"

fun climb_nodes :: "config \<Rightarrow> bytes \<Rightarrow> nat \<Rightarrow> string list \<Rightarrow> string \<Rightarrow> trie_node list" where
  "climb_nodes cfg key d [] cur = []"
| "climb_nodes cfg key d (sib # sibs) cur =
     (let c = climb cfg key (Suc d) sibs cur
      in (if key_bit key d then InnerNode sib c else InnerNode c sib) # climb_nodes cfg key (Suc d) sibs cur)"

lemma climb_snoc:
  "climb cfg key d (sibs @ [sib]) cur = climb cfg key d sibs
     (node_hash cfg (if key_bit key (d + length sibs) then InnerNode sib cur else InnerNode cur sib))"
  by (induction sibs arbitrary: d) (simp_all add: Let_def)

lemma fold_siblings_climb: "fold_siblings cfg key sibs cur = climb cfg key 0 (rev sibs) cur"
  by (induction sibs arbitrary: cur) (simp_all add: climb_snoc)

lemma climb_path: "climb cfg key d (p_sibs cfg t d key) (end_hash cfg (p_end cfg t d key)) = p_hash cfg t"
  by (induction t arbitrary: d) (simp_all add: end_hash_def Let_def)

lemma path_length: "p_wf d t \<Longrightarrow> d \<le> 256 \<Longrightarrow> d + length (p_sibs cfg t d key) \<le> 256"
  by (induction t arbitrary: d) fastforce+

text \<open>A leaf the walk ends at holds what a lookup of the key finds, or shares the path with the key.\<close>

lemma path_end:
  assumes "p_wf d t"
  shows "case p_end cfg t d key of
      None \<Rightarrow> p_lookup t d key = None
    | Some (LeafNode k v) \<Rightarrow> k \<in> p_keys t \<and> p_lookup t d key = (if k = key then Some v else None)
        \<and> (\<forall>i. d \<le> i \<and> i < d + length (p_sibs cfg t d key) \<longrightarrow> key_bit k i = key_bit key i)
    | Some (InnerNode _ _) \<Rightarrow> False"
  using assms
proof (induction t arbitrary: d)
  case (PN l r)
  let ?c = "if key_bit key d then r else l"
  have ih: "case p_end cfg ?c (Suc d) key of
      None \<Rightarrow> p_lookup ?c (Suc d) key = None
    | Some (LeafNode k v) \<Rightarrow> k \<in> p_keys ?c \<and> p_lookup ?c (Suc d) key = (if k = key then Some v else None)
        \<and> (\<forall>i. Suc d \<le> i \<and> i < Suc d + length (p_sibs cfg ?c (Suc d) key) \<longrightarrow> key_bit k i = key_bit key i)
    | Some (InnerNode _ _) \<Rightarrow> False"
    using PN.IH(1) [of "Suc d"] PN.IH(2) [of "Suc d"] PN.prems by (cases "key_bit key d") simp_all
  have side: "k \<in> p_keys ?c \<Longrightarrow> key_bit k d = key_bit key d" for k
    using PN.prems by (auto split: if_splits)
  have range: "(\<forall>i. d \<le> i \<and> i < d + length (p_sibs cfg (PN l r) d key) \<longrightarrow> key_bit k i = key_bit key i)"
    if "k \<in> p_keys ?c"
      "\<forall>i. Suc d \<le> i \<and> i < Suc d + length (p_sibs cfg ?c (Suc d) key) \<longrightarrow> key_bit k i = key_bit key i" for k
  proof (intro allI impI)
    fix i assume i: "d \<le> i \<and> i < d + length (p_sibs cfg (PN l r) d key)"
    show "key_bit k i = key_bit key i"
      using side [OF that(1)] that(2) i by (cases "i = d") (auto split: if_splits)
  qed
  have eqs: "p_lookup (PN l r) d key = p_lookup ?c (Suc d) key"
    "p_end cfg (PN l r) d key = p_end cfg ?c (Suc d) key" "p_keys ?c \<subseteq> p_keys (PN l r)" by auto
  show ?case
  proof (cases "p_end cfg ?c (Suc d) key")
    case None
    then show ?thesis using ih unfolding eqs(1,2) None by simp
  next
    case (Some n)
    then obtain k v where n: "p_end cfg ?c (Suc d) key = Some (LeafNode k v)" using ih by (cases n) auto
    have k: "k \<in> p_keys ?c" "p_lookup ?c (Suc d) key = (if k = key then Some v else None)"
      "\<forall>i. Suc d \<le> i \<and> i < Suc d + length (p_sibs cfg ?c (Suc d) key) \<longrightarrow> key_bit k i = key_bit key i"
      using ih unfolding n by simp_all
    from k(1,2) eqs(3) range [OF k(1,3)] show ?thesis
      unfolding eqs(1,2) n option.case trie_node.case by blast
  qed
qed auto

section \<open>Building proofs\<close>

context cache_store
begin

lemma prove_outcome:
  assumes "hash_free cfg U"
  shows "good cfg U s \<Longrightarrow> p_nodes cfg t \<subseteq> U \<Longrightarrow> trie_prove ops cfg key (p_hash cfg t) d sibs s = (r, s1) \<Longrightarrow>
    good cfg U s1 \<and> (\<forall>p. r = Inr p \<longrightarrow>
      p = trie_proof_of key (rev (sibs @ p_sibs cfg t d key)) (p_end cfg t d key))"
proof (induction t arbitrary: d s sibs)
  case PE
  then show ?case by (subst (asm) trie_prove.simps) (auto simp: trie_load_def split: if_splits)
next
  case (PL k v)
  obtain x s2 where ld: "trie_load ops cfg (p_hash cfg (PL k v)) s = (x, s2)" by fastforce
  have "good cfg U s2" using load_genuine [OF PL.prems(1) ld] .
  moreover have "x = Inr (Some (LeafNode k v)) \<or> (\<exists>e. x = Inl e)"
    using load_tree(1) [OF assms PL.prems(1,2) ld] by simp
  ultimately show ?case using ld PL.prems by (subst (asm) trie_prove.simps) (auto split: if_splits)
next
  case (PN l r')
  obtain x s2 where ld: "trie_load ops cfg (p_hash cfg (PN l r')) s = (x, s2)" by fastforce
  have g: "good cfg U s2" using load_genuine [OF PN.prems(1) ld] .
  have x: "x = Inr (Some (InnerNode (p_hash cfg l) (p_hash cfg r'))) \<or> (\<exists>e. x = Inl e)"
    using load_tree(1) [OF assms PN.prems(1,2) ld] by simp
  have sub: "p_nodes cfg l \<subseteq> U" "p_nodes cfg r' \<subseteq> U" using PN.prems(2) by auto
  show ?case
    using x ld g PN.prems(1,3) PN.IH(1) [OF g sub(1), of "Suc d" "sibs @ [p_hash cfg r']"]
      PN.IH(2) [OF g sub(2), of "Suc d" "sibs @ [p_hash cfg l]"]
    by (subst (asm) trie_prove.simps) (auto split: if_splits)
qed

end

context full_store
begin

lemma prove_full:
  assumes "hash_free cfg U"
  shows "good cfg U s \<Longrightarrow> present keep cfg s t \<Longrightarrow> p_wf d t \<Longrightarrow> d \<le> 256 \<Longrightarrow> p_nodes cfg t \<subseteq> U \<Longrightarrow>
    \<exists>p s1. trie_prove ops cfg key (p_hash cfg t) d sibs s = (Inr p, s1)"
proof (induction t arbitrary: d s sibs)
  case PE
  then show ?case by (subst trie_prove.simps) (simp add: trie_load_def trieKeyBits_def)
next
  case (PL k' v')
  obtain s1 where "trie_load ops cfg (p_hash cfg (PL k' v')) s = (Inr (Some (LeafNode k' v')), s1)"
    using load_full [OF assms PL.prems(1,5,2)] by auto
  with PL.prems(4) show ?case by (subst trie_prove.simps) (simp add: trieKeyBits_def)
next
  case (PN l r)
  obtain s1 where ld: "trie_load ops cfg (p_hash cfg (PN l r)) s
      = (Inr (Some (InnerNode (p_hash cfg l) (p_hash cfg r))), s1)"
    and v: "keep s1 = keep s" and good1: "good cfg U s1"
    using load_full [OF assms PN.prems(1,5,2)] by auto
  have g: "good cfg U s1" "present keep cfg s1 l" "present keep cfg s1 r"
    using good1 PN.prems(2) present_view [OF v] by (auto simp: present_def)
  have d: "\<not> trieKeyBits \<le> d" "\<not> trieKeyBits < d" "Suc d \<le> 256"
    and wf: "p_wf (Suc d) l" "p_wf (Suc d) r" using PN.prems(3) by (auto simp: trieKeyBits_def)
  have "p_nodes cfg l \<subseteq> U" "p_nodes cfg r \<subseteq> U" using PN.prems(5) by auto
  then have "\<exists>p s2. trie_prove ops cfg key (p_hash cfg l) (Suc d) (sibs @ [p_hash cfg r]) s1 = (Inr p, s2)"
    "\<exists>p s2. trie_prove ops cfg key (p_hash cfg r) (Suc d) (sibs @ [p_hash cfg l]) s1 = (Inr p, s2)"
    using PN.IH(1) [OF g(1,2) wf(1) d(3)] PN.IH(2) [OF g(1,3) wf(2) d(3)] by blast+
  then show ?case
    unfolding trie_prove.simps [of ops cfg key "p_hash cfg (PN l r)" d sibs s] using ld d by simp
qed

end

text \<open>The proof of a tree for a key, and that it verifies.\<close>

definition proof_for :: "config \<Rightarrow> ptree \<Rightarrow> bytes \<Rightarrow> trie_proof" where
  "proof_for cfg t key = trie_proof_of key (rev (p_sibs cfg t 0 key)) (p_end cfg t 0 key)"

lemma hex_encode_Nil [simp]: "hex_encode bs = [] \<longleftrightarrow> bs = []"
  by (cases bs) auto

lemma proof_for_verifies:
  assumes "p_wf 0 t" "length key = 32" "p_contents t key \<noteq> Some []"
  shows "VerifyTrieProof cfg (proof_for cfg t key) (p_hash cfg t) = Some (True, p_contents t key \<noteq> None)"
    and "tp_key (proof_for cfg t key) = hex_encode key"
    and "p_contents t key = Some v \<Longrightarrow> tp_value (proof_for cfg t key) = v"
proof -
  let ?p = "proof_for cfg t key" and ?e = "p_end cfg t 0 key" and ?s = "p_sibs cfg t 0 key"
  note e = path_end [OF assms(1), where cfg = cfg and key = key]
  have key: "tp_key ?p = hex_encode key" and sibs: "tp_siblings ?p = rev ?s"
    by (simp_all add: proof_for_def trie_proof_of_def split: option.split trie_node.split)
  have found: "tp_found ?p \<longleftrightarrow> p_contents t key \<noteq> None"
    and val: "p_contents t key = Some v \<Longrightarrow> tp_value ?p = v"
    using e by (auto simp: proof_for_def trie_proof_of_def p_contents_def split: option.splits trie_node.splits)
  have "proof_end cfg ?p key = Some (end_hash cfg ?e)"
  proof (cases ?e)
    case None
    then show ?thesis by (simp add: proof_end_def proof_for_def trie_proof_of_def end_hash_def)
  next
    case (Some n)
    then obtain k v where n: "n = LeafNode k v" using e by (cases n) auto
    have k: "k \<in> p_keys t" "p_lookup t 0 key = (if k = key then Some v else None)"
      "\<forall>i < length ?s. key_bit k i = key_bit key i" using e Some n by auto
    have "length k = 32" using keys_length [OF assms(1) k(1)] .
    moreover from this have "k \<noteq> []" by auto
    moreover have "k = key \<Longrightarrow> v \<noteq> []" using k(2) assms(3) by (auto simp: p_contents_def)
    ultimately show ?thesis
      using Some n k(3)
      by (auto simp: proof_end_def proof_for_def trie_proof_of_def end_hash_def sharesPrefix_def list_all_iff)
  qed
  moreover have "fold_siblings cfg key (rev ?s) (end_hash cfg ?e) = p_hash cfg t"
    by (simp add: fold_siblings_climb climb_path)
  moreover have "length ?s \<le> 256" using path_length [OF assms(1), of cfg key] by simp
  ultimately show "VerifyTrieProof cfg ?p (p_hash cfg t) = Some (True, p_contents t key \<noteq> None)"
    using assms(2) found by (simp add: VerifyTrieProof_def key sibs trieKeyBits_def)
  show "tp_key ?p = hex_encode key" "p_contents t key = Some v \<Longrightarrow> tp_value ?p = v"
    using key val by auto
qed


section \<open>Proofs that verify\<close>

lemma end_hash_inject:
  assumes "no_collision cfg V" "set_option a \<subseteq> V" "set_option b \<subseteq> V" "end_hash cfg a = end_hash cfg b"
  shows "map_option node_preimage a = map_option node_preimage b"
proof -
  define z :: string where "z = ''dnas-trie-empty''"
  define pre where "pre n = (case n of None \<Rightarrow> z | Some m \<Rightarrow> node_preimage m)" for n
  have "end_hash cfg n = hex_encode (sha256 cfg (pre n))" for n
    by (cases n) (simp_all add: end_hash_def emptyNodeHash_def node_hash_def hashBytes_def pre_def z_def)
  then have "sha256 cfg (pre a) = sha256 cfg (pre b)" using assms(4) by simp
  moreover have "pre n \<in> insert z (node_preimage ` V)" if "set_option n \<subseteq> V" for n
    using that by (cases n) (auto simp: pre_def)
  moreover have "inj_on (sha256 cfg) (insert z (node_preimage ` V))"
    using assms(1) unfolding no_collision_def z_def by blast
  ultimately have eq: "pre a = pre b" using assms(2,3) by (meson inj_onD)
  have "node_preimage n \<noteq> z" for n unfolding z_def by (rule preimage_not_sentinel)
  with eq show ?thesis by (cases a; cases b) (auto simp: pre_def dest: sym)
qed

lemma end_hash_Some: "end_hash cfg (Some n) = node_hash cfg n"
  by (simp add: end_hash_def)

lemma p_hash_end: "p_hash cfg t = end_hash cfg (p_top cfg t)"
  by (cases t) (simp_all add: end_hash_def)

lemma end_hash_length: "sha256_length cfg \<Longrightarrow> length (end_hash cfg n) = 64"
  by (cases n) (simp_all add: end_hash_def node_hash_length,
      simp add: emptyNodeHash_def hashBytes_def sha256_length_def)

lemma climb_length: "sha256_length cfg \<Longrightarrow> length cur = 64 \<Longrightarrow> length (climb cfg key d sibs cur) = 64"
  by (cases sibs) (simp_all add: Let_def node_hash_length)

definition leaf_end :: "trie_node option \<Rightarrow> bool" where
  "leaf_end e \<longleftrightarrow> (case e of None \<Rightarrow> True | Some (LeafNode k v) \<Rightarrow> length k = 32 | _ \<Rightarrow> False)"

definition end_value :: "trie_node option \<Rightarrow> bytes \<Rightarrow> string option" where
  "end_value e key = (case e of Some (LeafNode k v) \<Rightarrow> if k = key then Some v else None | _ \<Rightarrow> None)"

text \<open>
  Siblings may be strings of any length, but the running hash is always 64 characters, so a node of the
  fold that hashes like an inner node of the tree splits in the same place.
\<close>

lemma climb_sound:
  assumes "no_collision cfg V" "leaf_end e" "set_option e \<subseteq> V"
  shows "p_wf d t \<Longrightarrow> p_nodes cfg t \<subseteq> V \<Longrightarrow> set (climb_nodes cfg key d sibs (end_hash cfg e)) \<subseteq> V \<Longrightarrow>
    climb cfg key d sibs (end_hash cfg e) = p_hash cfg t \<Longrightarrow> p_lookup t d key = end_value e key"
proof (induction sibs arbitrary: d t)
  have top: "set_option (p_top cfg t) \<subseteq> V" if "p_nodes cfg t \<subseteq> V" for t
    using that by (cases t) auto
  {
    case Nil
    have "map_option node_preimage e = map_option node_preimage (p_top cfg t)"
      by (rule end_hash_inject [OF assms(1,3) top]) (use Nil in \<open>simp_all add: p_hash_end\<close>)
    with assms(2) Nil.prems(1) show ?case
      by (cases t) (auto simp: leaf_end_def end_value_def node_preimage_def trieLeafTag_def trieInnerTag_def
          split: option.splits trie_node.splits)
  next
    case (Cons sib sibs)
    have len: "sha256_length cfg" using assms(1) by (simp add: no_collision_def)
    define c where "c = climb cfg key (Suc d) sibs (end_hash cfg e)"
    define n where "n = (if key_bit key d then InnerNode sib c else InnerNode c sib)"
    have c64: "length c = 64" unfolding c_def by (rule climb_length [OF len end_hash_length [OF len]])
    have "climb_nodes cfg key d (sib # sibs) (end_hash cfg e) = n # climb_nodes cfg key (Suc d) sibs (end_hash cfg e)"
      by (simp add: Let_def n_def c_def)
    with Cons.prems(3) have nV: "n \<in> V"
      and rest: "set (climb_nodes cfg key (Suc d) sibs (end_hash cfg e)) \<subseteq> V" by simp_all
    have "end_hash cfg (Some n) = end_hash cfg (p_top cfg t)"
      using Cons.prems(4) p_hash_end [of cfg t] end_hash_Some [of cfg n] by (cases "key_bit key d") (simp_all add: Let_def n_def c_def)
    from end_hash_inject [OF assms(1) _ top [OF Cons.prems(2)] this] nV
    have eq: "Some (node_preimage n) = map_option node_preimage (p_top cfg t)" by simp
    then obtain l r where t: "t = PN l r"
      by (cases t) (auto simp: n_def node_preimage_def trieLeafTag_def trieInnerTag_def split: if_splits)
    have "c = p_hash cfg (if key_bit key d then r else l)"
      using eq c64 p_hash_length [OF len, of l] p_hash_length [OF len, of r]
      by (auto simp: t n_def node_preimage_def append_eq_append_conv split: if_splits)
    moreover have "p_wf (Suc d) (if key_bit key d then r else l)"
      "p_nodes cfg (if key_bit key d then r else l) \<subseteq> V" using Cons.prems(1,2) t by auto
    ultimately show ?case using Cons.IH [OF _ _ rest] by (simp add: t c_def)
  }
qed

text \<open>The nodes a verifier hashes.\<close>

definition proof_node :: "trie_proof \<Rightarrow> bytes \<Rightarrow> trie_node option" where
  "proof_node p key =
     (if tp_found p then Some (LeafNode key (tp_value p))
      else if tp_other_key p \<noteq> [] then map_option (\<lambda>k. LeafNode k (tp_other_value p)) (hex_decode (tp_other_key p))
      else None)"

definition proof_nodes :: "config \<Rightarrow> trie_proof \<Rightarrow> trie_node list" where
  "proof_nodes cfg p = (case hex_decode (tp_key p) of None \<Rightarrow> []
     | Some key \<Rightarrow> (case proof_node p key of None \<Rightarrow> [] | Some n \<Rightarrow> [n])
         @ climb_nodes cfg key 0 (rev (tp_siblings p)) (end_hash cfg (proof_node p key)))"

lemma proof_end_node:
  assumes "proof_end cfg p key = Some cur" "length key = 32"
  shows "cur = end_hash cfg (proof_node p key) \<and> leaf_end (proof_node p key)
    \<and> end_value (proof_node p key) key = (if tp_found p then Some (tp_value p) else None)"
  using assms
  by (auto simp: proof_end_def proof_node_def end_hash_def leaf_end_def end_value_def
      split: if_splits option.splits)

lemma trie_proof_sound:
  assumes "no_collision cfg V" "p_nodes cfg t \<subseteq> V" "set (proof_nodes cfg p) \<subseteq> V" "p_wf 0 t"
    and "hex_decode (tp_key p) = Some key" "VerifyTrieProof cfg p (p_hash cfg t) = Some (True, pres)"
  shows "length key = 32 \<and> pres = tp_found p
    \<and> p_contents t key = (if tp_found p then Some (tp_value p) else None)"
proof -
  obtain cur where key: "length key = 32" and cur: "proof_end cfg p key = Some cur"
    and fold: "fold_siblings cfg key (tp_siblings p) cur = p_hash cfg t" and pres: "pres = tp_found p"
    using assms(5,6) by (auto simp: VerifyTrieProof_def split: if_splits option.splits)
  note e = proof_end_node [OF cur key]
  have "set_option (proof_node p key) \<subseteq> V"
    "set (climb_nodes cfg key 0 (rev (tp_siblings p)) (end_hash cfg (proof_node p key))) \<subseteq> V"
    using assms(3,5) by (auto simp: proof_nodes_def split: option.splits)
  then have "p_lookup t 0 key = end_value (proof_node p key) key"
    using climb_sound [OF assms(1) _ _ assms(4,2), of "proof_node p key" key "rev (tp_siblings p)"] e fold
    unfolding fold_siblings_climb by blast
  with e key pres show ?thesis by (simp add: p_contents_def)
qed

section \<open>What a leaf says\<close>

lemma digits_split:
  assumes "dec m @ x = dec n @ y" "x = [] \<or> hd x = CHR ''|''" "y = [] \<or> hd y = CHR ''|''"
  shows "m = n \<and> x = y"
proof -
  have stop: "takeWhile is_digit (dec k @ z) = dec k" if "z = [] \<or> hd z = CHR ''|''" for k z
  proof -
    have "takeWhile is_digit z = []" using that by (cases z) (auto simp: is_digit_def)
    then show ?thesis using dec_digits [of k] by (simp add: list_all_iff)
  qed
  have "dec m = dec n" using stop [OF assms(2), of m] stop [OF assms(3), of n] assms(1) by simp
  then show ?thesis using assms(1) by (metis append_same_eq dec_val_dec same_append_eq)
qed

lemma leaf_string_tail:
  "\<exists>x. leaf_string addr acc = addr @ ''|'' @ dec (unat (acc_balance acc)) @ ''|'' @ dec (unat (acc_nonce acc)) @ x
    \<and> (x = [] \<or> hd x = CHR ''|'')"
proof -
  have "asset_suffix m = [] \<or> hd (asset_suffix m) = CHR ''|''" for m
    by (cases "fmkeys m") (simp_all add: asset_suffix_def)
  then show ?thesis
    by (auto simp: leaf_string_def Let_def hd_append)
qed

lemma leaf_string_balance:
  assumes "leaf_string addr a = leaf_string addr b"
  shows "acc_balance a = acc_balance b \<and> acc_nonce a = acc_nonce b"
proof -
  obtain x where x: "leaf_string addr a = addr @ ''|'' @ dec (unat (acc_balance a)) @ ''|'' @ dec (unat (acc_nonce a)) @ x"
    "x = [] \<or> hd x = CHR ''|''" using leaf_string_tail by blast
  obtain y where y: "leaf_string addr b = addr @ ''|'' @ dec (unat (acc_balance b)) @ ''|'' @ dec (unat (acc_nonce b)) @ y"
    "y = [] \<or> hd y = CHR ''|''" using leaf_string_tail by blast
  have "dec (unat (acc_balance a)) @ ''|'' @ dec (unat (acc_nonce a)) @ x
      = dec (unat (acc_balance b)) @ ''|'' @ dec (unat (acc_nonce b)) @ y"
    using assms x(1) y(1) by simp
  from digits_split [OF this] have eq: "unat (acc_balance a) = unat (acc_balance b)"
    "''|'' @ dec (unat (acc_nonce a)) @ x = ''|'' @ dec (unat (acc_nonce b)) @ y" by simp_all
  from digits_split [of "unat (acc_nonce a)" x "unat (acc_nonce b)" y] eq(2) x(2) y(2)
  have "unat (acc_nonce a) = unat (acc_nonce b)" by simp
  with eq(1) show ?thesis by (simp add: word_unat_eq_iff)
qed


section \<open>Account proofs\<close>

lemma ProveAccount_proof:
  assumes "universe cfg U state" "genuine bounded_view cfg U nodes" "blk_state_root tip = stateRoot cfg state"
  obtains nodes' where "ProveAccount cfg state tip addr nodes
      = ((\<lparr>ap_found = state_Lookup state addr \<noteq> None, ap_address = addr, ap_account = state_Get state addr,
           ap_block_index = blk_index tip, ap_state_root = blk_state_root tip,
           ap_proof = proof_for cfg (state_tree cfg state) (trieKeyFor cfg addr)\<rparr>,
          state_Lookup state addr \<noteq> None), nodes')" "genuine bounded_view cfg U nodes'"
proof -
  let ?t = "state_tree cfg state" and ?key = "trieKeyFor cfg addr"
  note u = universe_nodes [OF assms(1)]
  have root: "NewTrie_root cfg (blk_state_root tip) = p_hash cfg ?t"
    using stateRoot_hash [OF assms(1)] assms(3) u(2) by simp
  obtain x n1 where p1: "trie_Prove boundedNodeStore cfg (p_hash cfg ?t) ?key nodes = (x, n1)" by fastforce
  have o1: "genuine bounded_view cfg U n1 \<and> (\<forall>p. x = Inr p \<longrightarrow> p = proof_for cfg ?t ?key)"
    using bounded_store.prove_outcome [OF u(1) assms(2) u(3) p1 [unfolded trie_Prove_def]]
    by (simp add: proof_for_def)
  show ?thesis
  proof (cases x)
    case (Inr p)
    with o1 p1 root show ?thesis by (intro that [of n1]) (simp_all add: ProveAccount_def Let_def)
  next
    case (Inl err)
    let ?tee = "teeNodeStore memNodeStore boundedNodeStore"
    have "genuine fmlookup cfg U fmempty" by (simp add: genuine_def)
    then obtain m n2 where w: "stateTrieWarming boundedNodeStore cfg state n1 = (p_hash cfg ?t, m, n2)"
      "genuine fmlookup cfg U m \<and> genuine bounded_view cfg U n2"
      "present (\<lambda>s h. fmlookup (fst s) h \<noteq> None) cfg (m, n2) ?t"
      using warming.tee.stateTrieInto_full [OF assms(1), of "(fmempty, n1)"] o1
      unfolding stateTrieWarming_def by auto
    obtain p s3 where p2: "trie_Prove ?tee cfg (p_hash cfg ?t) ?key (m, n2) = (Inr p, s3)"
      using warming.tee.prove_full [OF u(1) _ w(3) state_tree_wf [OF u(2)] _ u(3), of ?key "[]"] w(2)
      unfolding trie_Prove_def by auto
    have "genuine bounded_view cfg U (snd s3) \<and> p = proof_for cfg ?t ?key"
      using warming.tee.prove_outcome [OF u(1) _ u(3) p2 [unfolded trie_Prove_def]] w(2)
      by (simp add: proof_for_def)
    with Inl p1 root w(1) p2 show ?thesis
      by (intro that [of "snd s3"]) (simp_all add: ProveAccount_def Let_def split: prod.split)
  qed
qed

text \<open>
  C30. Whatever the node cache holds, as long as its entries are what was put there, the proof a node
  serves for any address verifies against the state root of its tip and states whether the address
  is in the ledger; serving it keeps the cache genuine.
\<close>

theorem account_proof_complete:
  assumes "universe cfg U state" "genuine bounded_view cfg U nodes" "blk_state_root tip = stateRoot cfg state"
    and "keys_apart cfg (insert addr (fmdom' state))"
    and "ProveAccount cfg state tip addr nodes = ((p, found), nodes')"
  shows "VerifyAccountProof cfg p (blk_state_root tip) = Some (True, found)
    \<and> found = (state_Lookup state addr \<noteq> None) \<and> ap_account p = state_Get state addr
    \<and> genuine bounded_view cfg U nodes'"
proof -
  let ?t = "state_tree cfg state" and ?key = "trieKeyFor cfg addr"
  have len: "sha256_length cfg" using universe_nodes(2) [OF assms(1)] .
  have c: "p_contents ?t ?key = map_option (stateLeaf cfg addr) (state_Lookup state addr)"
    by (rule state_tree_lookup [OF len assms(4)])
  have "stateLeaf cfg addr acc \<noteq> []" for acc using stateLeaf_length [OF len, of addr acc] by auto
  then have ne: "p_contents ?t ?key \<noteq> Some []" using c by auto
  note v = proof_for_verifies [OF state_tree_wf [OF len] trieKeyFor_length [OF len] ne]
  have acc: "state_Lookup state addr = Some acc \<Longrightarrow> state_Get state addr = acc" for acc
    by (simp add: state_Lookup_def state_Get_def fmget_def)
  show ?thesis
    by (rule ProveAccount_proof [OF assms(1-3), of addr])
      (use assms(3,5) v c acc stateRoot_hash [OF assms(1)] in \<open>auto simp: VerifyAccountProof_def\<close>)
qed

text \<open>
  C31. An account proof that verifies against the root of a ledger is right: it claims presence exactly
  for the addresses the ledger has, and the account it shows has the balance and the nonce of the
  ledger, unless two of the strings hashed collide.
\<close>

theorem account_proof_sound:
  assumes "no_collision cfg (state_nodes cfg state \<union> set (proof_nodes cfg (ap_proof p)))"
    and "keys_apart cfg (insert (ap_address p) (fmdom' state))"
    and "inj_on (sha256 cfg) {leaf_string (ap_address p) (ap_account p),
           leaf_string (ap_address p) (state_Get state (ap_address p))}"
    and "VerifyAccountProof cfg p (stateRoot cfg state) = Some (True, pres)"
  shows "pres = (state_Lookup state (ap_address p) \<noteq> None)
    \<and> (pres \<longrightarrow> acc_balance (ap_account p) = acc_balance (state_Get state (ap_address p))
         \<and> acc_nonce (ap_account p) = acc_nonce (state_Get state (ap_address p)))
    \<and> (\<not> pres \<longrightarrow> \<not> ap_found p)"
proof -
  let ?V = "state_nodes cfg state \<union> set (proof_nodes cfg (ap_proof p))" and ?a = "ap_address p"
  let ?t = "state_tree cfg state"
  have len: "sha256_length cfg" using assms(1) by (simp add: no_collision_def)
  have "no_collision cfg (state_nodes cfg state)"
    using assms(1) by (auto simp: no_collision_def intro: inj_on_subset)
  then have u: "universe cfg (state_nodes cfg state) state"
    using build_nodes_proper [OF len, of PE, OF _ _ state_entries_ok [OF len]]
    by (simp add: universe_def state_nodes_def)
  have key: "hex_decode (tp_key (ap_proof p)) = Some (trieKeyFor cfg ?a)"
    and ver: "VerifyTrieProof cfg (ap_proof p) (p_hash cfg ?t) = Some (True, pres)"
    and leaf: "pres \<Longrightarrow> tp_value (ap_proof p) = stateLeaf cfg ?a (ap_account p)" and nf: "\<not> pres \<Longrightarrow> \<not> ap_found p"
    using assms(4) stateRoot_hash [OF u] by (auto simp: VerifyAccountProof_def split: if_splits option.splits)
  have "p_nodes cfg ?t \<subseteq> ?V" using universe_nodes(3) [OF u] by blast
  from trie_proof_sound [OF assms(1) this _ state_tree_wf [OF len] key ver]
  have c: "map_option (stateLeaf cfg ?a) (state_Lookup state ?a)
      = (if pres then Some (tp_value (ap_proof p)) else None)"
    using state_tree_lookup [OF len assms(2)] by auto
  have "acc_balance (ap_account p) = acc_balance (state_Get state ?a)
      \<and> acc_nonce (ap_account p) = acc_nonce (state_Get state ?a)" if pres
  proof -
    have "stateLeaf cfg ?a (ap_account p) = stateLeaf cfg ?a (state_Get state ?a)"
      using c that leaf by (auto simp: state_Get_def state_Lookup_def fmget_def)
    then have "leaf_string ?a (ap_account p) = leaf_string ?a (state_Get state ?a)"
      using assms(3) by (auto simp: stateLeaf_def hashBytes_def dest: inj_onD)
    then show ?thesis by (rule leaf_string_balance)
  qed
  moreover have "pres = (state_Lookup state ?a \<noteq> None)" using c by (auto split: if_splits)
  ultimately show ?thesis using nf by blast
qed

text \<open>
  A proof with more than 256 siblings makes the verifier panic, whatever root it is checked
  against: the fold asks for a bit the key does not have.
\<close>

theorem long_proof_panics:
  assumes "tp_found p" "tp_value p \<noteq> []" "256 < length (tp_siblings p)"
    and "hex_decode (tp_key p) = Some key" "length key = 32"
  shows "VerifyTrieProof cfg p root = None"
  using assms by (simp add: VerifyTrieProof_def proof_end_def trieKeyBits_def)

end
