(* ===== verification/State_Samples.thy ===== *)
theory State_Samples
  imports State_Proofs
begin

text \<open>
  Instances of the theorems on state roots and account proofs: a two-account ledger under a toy hash
  that has no collision on the strings at hand.
\<close>

section \<open>Instances\<close>

lemma inj_on_list [code]: "inj_on f (set xs) = distinct (map f (remdups xs))"
  by (simp add: distinct_map)

text \<open>A hash of the two ends of a string, which separates the strings of the instances below.\<close>

definition mix_sha :: "bytes \<Rightarrow> bytes" where
  "mix_sha b = (let z = replicate 32 (CHR 0x00); r = take 11 (rev b @ z)
     in r @ take 11 (b @ z) @ rev (tl r))"

definition mix_cfg :: config where
  "mix_cfg = sample_cfg\<lparr>sha256 := mix_sha\<rparr>"

definition ledger_xy :: state where
  "ledger_xy = fmap_of_list [(''p'', zero_account\<lparr>acc_balance := 5\<rparr>), (''0'', zero_account\<lparr>acc_balance := 7\<rparr>)]"

definition ledger_x :: state where
  "ledger_x = fmap_of_list [(''p'', zero_account\<lparr>acc_balance := 5\<rparr>)]"

definition undo_y :: "undo_entry list" where
  "undo_y = [\<lparr>ue_addr = ''0'', ue_prev = zero_account, ue_existed = False\<rparr>]"

lemma mix_length: "sha256_length mix_cfg"
  by (auto simp: sha256_length_def mix_cfg_def mix_sha_def Let_def min_def)

lemma apart_xyz: "keys_apart mix_cfg {''p'', ''0'', ''z''}"
  by code_simp

lemma dom_xy: "fmdom' ledger_xy = {''p'', ''0''}" "fmdom' ledger_x = {''p''}"
  by (auto simp: ledger_xy_def ledger_x_def fmlookup_dom'_iff fmap_of_list.rep_eq split: if_splits)

definition sample_nodes :: "trie_node set" where
  "sample_nodes = state_nodes mix_cfg ledger_xy
     \<union> build_nodes mix_cfg PE (rev (state_entries mix_cfg ledger_xy)) \<union> state_nodes mix_cfg ledger_x
     \<union> build_nodes mix_cfg (state_tree mix_cfg ledger_x) (touched_entries mix_cfg ledger_xy undo_y)"

lemma sample_inj: "inj_on (sha256 mix_cfg) (insert ''dnas-trie-empty'' (node_preimage ` sample_nodes))"
  by code_simp

lemma sample_collision: "V \<subseteq> sample_nodes \<Longrightarrow> no_collision mix_cfg V"
  unfolding no_collision_def using mix_length sample_inj
  by (meson image_mono inj_on_subset insert_mono)

lemma sample_universe:
  "universe mix_cfg sample_nodes ledger_xy" "universe mix_cfg sample_nodes ledger_x"
proof -
  note e = state_entries_ok [OF mix_length] touched_entries_ok [OF mix_length]
  have r: "entries_ok (rev (state_entries mix_cfg ledger_xy))"
    using e(1) by (simp add: entries_ok_def)
  have v: "p_values_ok (p_updates PE kvs)" if "entries_ok kvs" for kvs
  proof -
    have "p_values_ok t \<Longrightarrow> p_values_ok (p_updates t kvs)" for t
      using that by (induction kvs arbitrary: t) (auto simp: update_values)
    then show ?thesis by simp
  qed
  note p = build_nodes_proper [OF mix_length]
  have "\<forall>n \<in> sample_nodes. node_proper n"
    unfolding sample_nodes_def state_nodes_def
    using p [of PE, OF _ _ e(1)] p [of PE, OF _ _ r]
      p [OF state_tree_wf [OF mix_length] _ e(2), of ledger_x] v [OF e(1), of ledger_x]
    by (auto simp: state_tree_def)
  with sample_collision [OF subset_refl]
  show "universe mix_cfg sample_nodes ledger_xy" "universe mix_cfg sample_nodes ledger_x"
    by (auto simp: universe_def sample_nodes_def)
qed

lemma sample_apart: "A \<subseteq> {''p'', ''0'', ''z''} \<Longrightarrow> keys_apart mix_cfg A"
  using apart_xyz unfolding keys_apart_def by (rule inj_on_subset)

lemma empty_cache: "genuine bounded_view cfg U (NewBoundedNodeStore m)"
  by (simp add: genuine_def bounded_view_def NewBoundedNodeStore_def)

theorem root_order_independent_witness:
  "fst (trie_build memNodeStore mix_cfg (emptyNodeHash mix_cfg) (rev (state_entries mix_cfg ledger_xy)) fmempty)
     = stateRoot mix_cfg ledger_xy"
proof (rule root_order_independent)
  show "no_collision mix_cfg (state_nodes mix_cfg ledger_xy
      \<union> build_nodes mix_cfg PE (rev (state_entries mix_cfg ledger_xy)))"
    by (rule sample_collision) (auto simp: sample_nodes_def)
  show "keys_apart mix_cfg (fmdom' ledger_xy)" by (rule sample_apart) (simp add: dom_xy)
qed simp

theorem incremental_root_witness:
  "fst (rootAfter boundedNodeStore mix_cfg ledger_xy undo_y (stateRoot mix_cfg ledger_x) (NewBoundedNodeStore 4))
     = stateRoot mix_cfg ledger_xy"
proof -
  obtain root nodes where r: "rootAfter boundedNodeStore mix_cfg ledger_xy undo_y (stateRoot mix_cfg ledger_x)
      (NewBoundedNodeStore 4) = (root, nodes)" by fastforce
  have old: "ledger_x = applyUndo ledger_xy undo_y"
    by (rule fmap_ext) (auto simp: applyUndo_def restore_def undo_y_def state_Delete_def ledger_x_def
        ledger_xy_def fmap_of_list.rep_eq)
  have "root = stateRoot mix_cfg ledger_xy \<and> genuine bounded_view mix_cfg sample_nodes nodes"
    by (rule incremental_root [OF sample_universe(2,1) _ empty_cache old _ r])
      (auto simp: sample_nodes_def dom_xy undo_y_def intro: sample_apart)
  with r show ?thesis by simp
qed

definition sample_tip :: block where
  "sample_tip = \<lparr>blk_version = 1, blk_index = 1, blk_timestamp = 0, blk_transactions = [],
     blk_prev_hash = [], blk_merkle_root = [], blk_state_root = stateRoot mix_cfg ledger_xy,
     blk_base_fee = 10, blk_bits = 0, blk_nonce = 0, blk_hash = [], blk_filter_root = [],
     blk_history_root = []\<rparr>"

definition sample_account_proof :: account_proof where
  "sample_account_proof = fst (fst (ProveAccount mix_cfg ledger_xy sample_tip ''p'' (NewBoundedNodeStore 4)))"

theorem account_proof_complete_witness:
  "VerifyAccountProof mix_cfg sample_account_proof (blk_state_root sample_tip) = Some (True, True)"
proof -
  obtain p found nodes where r: "ProveAccount mix_cfg ledger_xy sample_tip ''p'' (NewBoundedNodeStore 4)
      = ((p, found), nodes)" by (metis surj_pair)
  have "state_Lookup ledger_xy ''p'' \<noteq> None"
    by (simp add: state_Lookup_def ledger_xy_def fmap_of_list.rep_eq)
  moreover have "VerifyAccountProof mix_cfg p (blk_state_root sample_tip) = Some (True, found)
      \<and> found = (state_Lookup ledger_xy ''p'' \<noteq> None) \<and> ap_account p = state_Get ledger_xy ''p''
      \<and> genuine bounded_view mix_cfg sample_nodes nodes"
    by (rule account_proof_complete [OF sample_universe(1) empty_cache _ _ r])
      (auto simp: sample_tip_def dom_xy intro: sample_apart)
  ultimately show ?thesis using r by (simp add: sample_account_proof_def)
qed

lemma sample_proof_value:
  "sample_account_proof = \<lparr>ap_found = True, ap_address = ''p'', ap_account = state_Get ledger_xy ''p'',
     ap_block_index = 1, ap_state_root = stateRoot mix_cfg ledger_xy,
     ap_proof = proof_for mix_cfg (state_tree mix_cfg ledger_xy) (trieKeyFor mix_cfg ''p'')\<rparr>"
proof -
  have found: "state_Lookup ledger_xy ''p'' \<noteq> None"
    by (simp add: state_Lookup_def ledger_xy_def fmap_of_list.rep_eq)
  have tip: "blk_state_root sample_tip = stateRoot mix_cfg ledger_xy" "blk_index sample_tip = 1"
    by (simp_all add: sample_tip_def)
  show ?thesis
    unfolding sample_account_proof_def
    by (rule ProveAccount_proof [OF sample_universe(1) empty_cache [where m = 4] tip(1), of "''p''"])
      (simp add: found tip)
qed

lemma sample_proof_nodes:
  "set (proof_nodes mix_cfg (proof_for mix_cfg (state_tree mix_cfg ledger_xy) (trieKeyFor mix_cfg ''p'')))
     \<subseteq> state_nodes mix_cfg ledger_xy"
  by code_simp

lemma sample_proof_verifies:
  "VerifyAccountProof mix_cfg \<lparr>ap_found = True, ap_address = ''p'', ap_account = state_Get ledger_xy ''p'',
     ap_block_index = 1, ap_state_root = [],
     ap_proof = proof_for mix_cfg (state_tree mix_cfg ledger_xy) (trieKeyFor mix_cfg ''p'')\<rparr>
     (p_hash mix_cfg (state_tree mix_cfg ledger_xy)) = Some (True, True)"
  by code_simp

theorem account_proof_sound_witness:
  "acc_balance (ap_account sample_account_proof) = 5"
proof -
  let ?p = sample_account_proof
  have "state_nodes mix_cfg ledger_xy \<union> set (proof_nodes mix_cfg (ap_proof ?p)) \<subseteq> sample_nodes"
    using sample_proof_nodes by (auto simp: sample_nodes_def sample_proof_value)
  note coll = sample_collision [OF this]
  have apart: "keys_apart mix_cfg (insert (ap_address ?p) (fmdom' ledger_xy))"
    by (rule sample_apart) (simp add: sample_proof_value dom_xy)
  have "VerifyAccountProof mix_cfg ?p (stateRoot mix_cfg ledger_xy) = Some (True, True)"
    using sample_proof_verifies unfolding stateRoot_hash [OF sample_universe(1)] sample_proof_value
    by (simp only: VerifyAccountProof_def account_proof.select_convs)
  from account_proof_sound [OF coll apart _ this]
  have "acc_balance (ap_account ?p) = acc_balance (state_Get ledger_xy ''p'')"
    by (simp add: sample_proof_value)
  also have "\<dots> = 5" by (simp add: state_Get_def fmget_def ledger_xy_def fmap_of_list.rep_eq)
  finally show ?thesis .
qed

definition long_proof :: trie_proof where
  "long_proof = \<lparr>tp_key = hex_encode (replicate 32 (CHR ''k'')), tp_value = ''v'', tp_found = True,
     tp_siblings = replicate 257 [], tp_other_key = [], tp_other_value = []\<rparr>"

theorem long_proof_panics_witness: "VerifyTrieProof mix_cfg long_proof ''root'' = None"
  by (rule long_proof_panics [where key = "replicate 32 (CHR ''k'')"]) (simp_all add: long_proof_def)

end
