(* ===== verification/Header.thy ===== *)
theory Header
  imports Target Merkle
begin

text \<open>
  Block headers and mining (\<open>core/block.go\<close>): the preimage of the proof-of-work hash, the checks a
  header or a block passes on its own, and the mining loop. The loop compares raw digests with the
  target in bytes and hoists the preimage prefix; the theorems show that what it returns passes the
  check a node makes, that it returns as soon as an attempt meets the target or the caller aborts,
  and that a header hash binds every committed field.
\<close>

section \<open>Definitions\<close>

record header =
  hdr_version :: u32
  hdr_index :: u64
  hdr_timestamp :: int
  hdr_prev_hash :: string
  hdr_merkle_root :: string
  hdr_state_root :: string
  hdr_base_fee :: u64
  hdr_bits :: u32
  hdr_nonce :: u64
  hdr_hash :: string
  hdr_filter_root :: string
  hdr_history_root :: string

definition block_Header :: "block \<Rightarrow> header" where
  "block_Header b =
     \<lparr>hdr_version = blk_version b, hdr_index = blk_index b, hdr_timestamp = blk_timestamp b,
      hdr_prev_hash = blk_prev_hash b, hdr_merkle_root = blk_merkle_root b,
      hdr_state_root = blk_state_root b, hdr_base_fee = blk_base_fee b, hdr_bits = blk_bits b,
      hdr_nonce = blk_nonce b, hdr_hash = blk_hash b, hdr_filter_root = blk_filter_root b,
      hdr_history_root = blk_history_root b\<rparr>"

definition appendPreimagePrefix :: "config \<Rightarrow> header \<Rightarrow> bytes" where
  "appendPreimagePrefix cfg h =
     dec (unat (hdr_version h)) @ ''|'' @ dec (unat (hdr_index h)) @ ''|'' @ dec_int (hdr_timestamp h) @ ''|''
     @ hdr_prev_hash h @ ''|'' @ hdr_merkle_root h @ ''|'' @ hdr_state_root h @ ''|''
     @ dec (unat (hdr_base_fee h)) @ ''|'' @ dec (unat (hdr_bits h)) @ ''|''
     @ (if IsUpgradeActive cfg UpgradeFilterCommit (hdr_index h) then hdr_filter_root h @ ''|'' else [])
     @ (if IsUpgradeActive cfg UpgradeHistoryRoot (hdr_index h) then hdr_history_root h @ ''|'' else [])"

definition appendPreimage :: "config \<Rightarrow> header \<Rightarrow> bytes" where
  "appendPreimage cfg h = appendPreimagePrefix cfg h @ dec (unat (hdr_nonce h))"

definition hdr_ComputeHash :: "config \<Rightarrow> header \<Rightarrow> string" where
  "hdr_ComputeHash cfg h = hashBytes cfg (appendPreimage cfg h)"

definition hdr_HasValidPoW :: "config \<Rightarrow> header \<Rightarrow> bool" where
  "hdr_HasValidPoW cfg h \<longleftrightarrow> hdr_hash h = hdr_ComputeHash cfg h \<and> meetsTarget (hdr_hash h) (hdr_bits h)"

definition blk_ComputeHash :: "config \<Rightarrow> block \<Rightarrow> string" where
  "blk_ComputeHash cfg b = hdr_ComputeHash cfg (block_Header b)"

definition IsPlaceholder :: "block \<Rightarrow> bool" where
  "IsPlaceholder b \<longleftrightarrow> 0 < blk_index b \<and> blk_transactions b = []"

definition blk_HasValidPoW :: "config \<Rightarrow> block \<Rightarrow> bool" where
  "blk_HasValidPoW cfg b = hdr_HasValidPoW cfg (block_Header b)"

datatype self_error = InvalidPoW | MerkleMismatch | FirstNotCoinbase

definition SelfValid :: "config \<Rightarrow> block \<Rightarrow> self_error option" where
  "SelfValid cfg b =
     (if \<not> blk_HasValidPoW cfg b then Some InvalidPoW
      else if MerkleRoot cfg (blk_transactions b) \<noteq> blk_merkle_root b then Some MerkleMismatch
      else case blk_transactions b of
        [] \<Rightarrow> Some FirstNotCoinbase
      | tx # _ \<Rightarrow> if IsCoinbase tx then None else Some FirstNotCoinbase)"

text \<open>
  The mining loop. \<open>abort i\<close> is the answer of the \<open>i\<close>-th poll of the callback (never true for a
  missing callback). The loop may not end: its result is then \<^term>\<open>None\<close>.
\<close>

partial_function (option) mine_loop :: "(bytes \<Rightarrow> bytes) \<Rightarrow> bytes \<Rightarrow> bytes \<Rightarrow> (nat \<Rightarrow> bool) \<Rightarrow> nat \<Rightarrow> u64
    \<Rightarrow> (u64 \<times> bytes option) option" where
  "mine_loop digest prefix target abort i nonce =
     (if abort i then Some (nonce, None)
      else let d = digest (prefix @ dec (unat nonce))
        in if d \<le> target then Some (nonce, Some d)
           else mine_loop digest prefix target abort (Suc i) (nonce + 1))"

declare mine_loop.simps [code]

definition Mine :: "config \<Rightarrow> block \<Rightarrow> (nat \<Rightarrow> bool) \<Rightarrow> (block \<times> bool) option" where
  "Mine cfg b abort =
     (let b1 = b\<lparr>blk_merkle_root := MerkleRoot cfg (blk_transactions b)\<rparr>;
          target = targetBytes (blk_bits b1);
          prefix = appendPreimagePrefix cfg (block_Header b1)
      in case mine_loop (sha256 cfg) prefix target abort 0 (blk_nonce b1) of
           None \<Rightarrow> None
         | Some (nonce, None) \<Rightarrow> Some (b1\<lparr>blk_nonce := nonce\<rparr>, False)
         | Some (nonce, Some d) \<Rightarrow> Some (b1\<lparr>blk_nonce := nonce, blk_hash := hex_encode d\<rparr>, True))"

section \<open>Mining\<close>

lemma prefix_ignores [simp]:
  "appendPreimagePrefix cfg (block_Header (b\<lparr>blk_nonce := n\<rparr>)) = appendPreimagePrefix cfg (block_Header b)"
  "appendPreimagePrefix cfg (block_Header (b\<lparr>blk_hash := h\<rparr>)) = appendPreimagePrefix cfg (block_Header b)"
  by (simp_all add: appendPreimagePrefix_def block_Header_def)

text \<open>The attempt the loop makes at poll \<open>i\<close>.\<close>

definition attempt :: "(bytes \<Rightarrow> bytes) \<Rightarrow> bytes \<Rightarrow> u64 \<Rightarrow> nat \<Rightarrow> bytes" where
  "attempt digest prefix start i = digest (prefix @ dec (unat (start + of_nat i)))"

lemma loop_skip:
  assumes "\<And>i. i < n \<Longrightarrow> \<not> abort i \<and> \<not> attempt digest prefix start i \<le> target"
  shows "mine_loop digest prefix target abort 0 start = mine_loop digest prefix target abort n (start + of_nat n)"
  using assms
proof (induction n)
  case (Suc n)
  have "mine_loop digest prefix target abort n (start + of_nat n)
      = mine_loop digest prefix target abort (Suc n) (start + of_nat n + 1)"
    using Suc.prems [of n] by (subst mine_loop.simps) (simp add: attempt_def Let_def)
  moreover have "start + of_nat n + 1 = start + of_nat (Suc n)" by (simp add: add.commute add.left_commute)
  ultimately show ?case using Suc by (metis less_SucI)
qed simp

lemma loop_found:
  assumes "\<And>i. i < n \<Longrightarrow> \<not> abort i \<and> \<not> attempt digest prefix start i \<le> target"
    and "\<not> abort n" "attempt digest prefix start n \<le> target"
  shows "mine_loop digest prefix target abort 0 start
    = Some (start + of_nat n, Some (attempt digest prefix start n))"
  using loop_skip [OF assms(1)] mine_loop.simps [of digest prefix target abort n "start + of_nat n"] assms(2,3)
  by (simp add: attempt_def Let_def)

lemma loop_aborted:
  assumes "\<And>i. i < n \<Longrightarrow> \<not> abort i \<and> \<not> attempt digest prefix start i \<le> target" "abort n"
  shows "mine_loop digest prefix target abort 0 start = Some (start + of_nat n, None)"
  using loop_skip [OF assms(1)] mine_loop.simps [of digest prefix target abort n "start + of_nat n"] assms(2)
  by simp

text \<open>A result of the loop comes from an attempt that met the target.\<close>

lemma loop_result:
  assumes "mine_loop digest prefix target abort i nonce = Some r"
  shows "\<forall>d. snd r = Some d \<longrightarrow> d = digest (prefix @ dec (unat (fst r))) \<and> d \<le> target"
  by (rule mine_loop.raw_induct [OF _ assms, where P = "\<lambda>digest prefix target abort i nonce r.
        \<forall>d. snd r = Some d \<longrightarrow> d = digest (prefix @ dec (unat (fst r))) \<and> d \<le> target"])
    (fastforce simp: Let_def split: if_splits)

lemmas loop_sound = loop_result [where r = "(n, Some d)" for n d, simplified]

text \<open>A block as the miner sees it: its merkle root set.\<close>

definition candidate :: "config \<Rightarrow> block \<Rightarrow> block" where
  "candidate cfg b = b\<lparr>blk_merkle_root := MerkleRoot cfg (blk_transactions b)\<rparr>"

lemma Mine_eq:
  "Mine cfg b abort =
     (case mine_loop (sha256 cfg) (appendPreimagePrefix cfg (block_Header (candidate cfg b)))
             (targetBytes (blk_bits b)) abort 0 (blk_nonce b) of
        None \<Rightarrow> None
      | Some (nonce, None) \<Rightarrow> Some ((candidate cfg b)\<lparr>blk_nonce := nonce\<rparr>, False)
      | Some (nonce, Some d) \<Rightarrow> Some ((candidate cfg b)\<lparr>blk_nonce := nonce, blk_hash := hex_encode d\<rparr>, True))"
  unfolding Mine_def candidate_def Let_def by simp


text \<open>
  The mining loop ends: if the caller aborts at some poll, or some attempt in the cycle of nonces
  meets the target, \<open>Mine\<close> returns; it returns at the first such poll, with success when the caller
  has not aborted by then.
\<close>

theorem mining_returns:
  assumes "abort n \<or> sha256 cfg (appendPreimagePrefix cfg (block_Header (candidate cfg b))
      @ dec (unat (blk_nonce b + of_nat n))) \<le> targetBytes (blk_bits b)"
  shows "\<exists>b' m. m \<le> n \<and> Mine cfg b abort = Some (b', \<not> abort m) \<and> blk_nonce b' = blk_nonce b + of_nat m
    \<and> (\<forall>i < m. \<not> abort i)"
proof -
  let ?pre = "appendPreimagePrefix cfg (block_Header (candidate cfg b))"
  let ?stop = "\<lambda>i. abort i \<or> attempt (sha256 cfg) ?pre (blk_nonce b) i \<le> targetBytes (blk_bits b)"
  define m where "m = (LEAST i. ?stop i)"
  have n: "?stop n" using assms by (simp add: attempt_def)
  have m: "?stop m" "m \<le> n" unfolding m_def using LeastI [of ?stop n, OF n] Least_le [of ?stop n, OF n] by blast+
  have skip: "\<And>i. i < m \<Longrightarrow> \<not> abort i \<and> \<not> attempt (sha256 cfg) ?pre (blk_nonce b) i \<le> targetBytes (blk_bits b)"
    unfolding m_def using not_less_Least by blast
  show ?thesis
  proof (cases "abort m")
    case True
    from loop_aborted [OF skip True] have "Mine cfg b abort
        = Some ((candidate cfg b)\<lparr>blk_nonce := blk_nonce b + of_nat m\<rparr>, False)" by (simp add: Mine_eq)
    with True m(2) skip show ?thesis by (intro exI [of _ "(candidate cfg b)\<lparr>blk_nonce := blk_nonce b + of_nat m\<rparr>"] exI [of _ m]) auto
  next
    case False
    let ?d = "attempt (sha256 cfg) ?pre (blk_nonce b) m"
    let ?b = "(candidate cfg b)\<lparr>blk_nonce := blk_nonce b + of_nat m, blk_hash := hex_encode ?d\<rparr>"
    from loop_found [OF skip False] m(1) False have "Mine cfg b abort = Some (?b, True)" by (simp add: Mine_eq)
    with False m(2) skip show ?thesis by (intro exI [of _ ?b] exI [of _ m]) auto
  qed
qed


section \<open>What a header hash binds\<close>

definition bar_free :: "string \<Rightarrow> bool" where
  "bar_free s \<longleftrightarrow> CHR ''|'' \<notin> set s"

lemma bar_split:
  "bar_free a \<Longrightarrow> bar_free b \<Longrightarrow> a @ CHR ''|'' # x = b @ CHR ''|'' # y \<longleftrightarrow> a = b \<and> x = y"
  unfolding bar_free_def
proof (induction a arbitrary: b)
  case Nil
  then show ?case by (cases b) auto
next
  case (Cons c a)
  then show ?case by (cases b) auto
qed

lemma dec_bar_free [simp]: "bar_free (dec n)"
  using dec_digits [of n] by (auto simp: bar_free_def list_all_iff is_digit_def)

lemma dec_int_bar_free [simp]: "bar_free (dec_int i)"
  using dec_bar_free [of "nat (- i)"] dec_bar_free [of "nat i"] by (auto simp: dec_int_def bar_free_def)

lemma dec_int_inject [simp]: "dec_int i = dec_int j \<longleftrightarrow> i = j"
proof -
  have "CHR ''-'' # s \<noteq> dec n" for s n
  proof
    assume "CHR ''-'' # s = dec n"
    with dec_digits [of n] have "is_digit (CHR ''-'')" by (metis list_all_iff list.set_intros(1))
    then show False by (simp add: is_digit_def)
  qed
  then show ?thesis by (auto simp: dec_int_def dest: sym)
qed

text \<open>The strings a header commits are hexadecimal digests, so they hold no separator.\<close>

definition plain_header :: "header \<Rightarrow> bool" where
  "plain_header h \<longleftrightarrow> bar_free (hdr_prev_hash h) \<and> bar_free (hdr_merkle_root h) \<and> bar_free (hdr_state_root h)
     \<and> bar_free (hdr_filter_root h) \<and> bar_free (hdr_history_root h)"

text \<open>
  A header hash binds every committed field: two headers without separators in their digests that
  hash to the same value agree on everything but the stored hash and the roots whose upgrade is not
  active at their height, unless their preimages collide.
\<close>

theorem header_hash_binds:
  assumes "plain_header h" "plain_header g" "inj_on (sha256 cfg) {appendPreimage cfg h, appendPreimage cfg g}"
    and "hdr_ComputeHash cfg h = hdr_ComputeHash cfg g"
  shows "g = h\<lparr>hdr_hash := hdr_hash g,
    hdr_filter_root := (if IsUpgradeActive cfg UpgradeFilterCommit (hdr_index h) then hdr_filter_root h
                        else hdr_filter_root g),
    hdr_history_root := (if IsUpgradeActive cfg UpgradeHistoryRoot (hdr_index h) then hdr_history_root h
                         else hdr_history_root g)\<rparr>"
proof -
  have "appendPreimage cfg h = appendPreimage cfg g"
    using assms(3,4) by (auto simp: hdr_ComputeHash_def hashBytes_def dest: inj_onD)
  then show ?thesis
    using assms(1,2)
    by (cases h; cases g) (auto simp: appendPreimage_def appendPreimagePrefix_def plain_header_def bar_split
        word_unat_eq_iff [symmetric] split: if_splits)
qed


section \<open>Instances\<close>

definition zero_cfg :: config where
  "zero_cfg = sample_cfg\<lparr>sha256 := (\<lambda>_. replicate 32 (CHR 0x00))\<rparr>"

definition plain_block :: block where
  "plain_block = \<lparr>blk_version = 1, blk_index = 1, blk_timestamp = - 5, blk_transactions = [],
     blk_prev_hash = ''ab'', blk_merkle_root = [], blk_state_root = ''cd'', blk_base_fee = 10,
     blk_bits = GenesisBits, blk_nonce = 7, blk_hash = [], blk_filter_root = [], blk_history_root = []\<rparr>"

lemma plain_first_attempt:
  "sha256 zero_cfg x \<le> targetBytes (blk_bits plain_block)"
  using targetBytes_order [of "replicate 32 (CHR 0x00)" "blk_bits plain_block"] CompactToBig_nonneg
  by (simp add: zero_cfg_def be_val_replicate_0)

theorem mining_returns_witness: "\<exists>b'. Mine zero_cfg plain_block (\<lambda>i. i = 3) = Some (b', True)"
  using mining_returns [of "\<lambda>i. i = 3" 0 zero_cfg plain_block] plain_first_attempt by auto


theorem header_hash_binds_witness:
  "let h = block_Header plain_block; g = h\<lparr>hdr_hash := ''other''\<rparr> in
     hdr_ComputeHash zero_cfg h = hdr_ComputeHash zero_cfg g \<and> hdr_nonce g = hdr_nonce h"
proof -
  let ?h = "block_Header plain_block"
  let ?g = "?h\<lparr>hdr_hash := ''other''\<rparr>"
  have "plain_header ?h" "plain_header ?g"
    by (simp_all add: plain_header_def bar_free_def block_Header_def plain_block_def)
  moreover have pre: "appendPreimage zero_cfg ?h = appendPreimage zero_cfg ?g"
    by (simp add: appendPreimage_def appendPreimagePrefix_def)
  moreover have eq: "hdr_ComputeHash zero_cfg ?h = hdr_ComputeHash zero_cfg ?g"
    using pre by (simp add: hdr_ComputeHash_def)
  ultimately have "?g = ?h\<lparr>hdr_hash := hdr_hash ?g,
      hdr_filter_root := (if IsUpgradeActive zero_cfg UpgradeFilterCommit (hdr_index ?h) then hdr_filter_root ?h
                          else hdr_filter_root ?g),
      hdr_history_root := (if IsUpgradeActive zero_cfg UpgradeHistoryRoot (hdr_index ?h) then hdr_history_root ?h
                           else hdr_history_root ?g)\<rparr>"
    by (intro header_hash_binds) simp_all
  then have "hdr_nonce ?g = hdr_nonce ?h" by simp
  with eq show ?thesis by (simp add: Let_def)
qed

end
