(* ===== verification/MMR.thy ===== *)
theory MMR
  imports Header
begin

unbundle bit_operations_syntax

text \<open>
  The history accumulator (\<open>core/mmr.go\<close>): a Merkle mountain range over block hashes kept as its
  peaks, and proofs that a block hash is the leaf at a position. The theorems: the peaks kept
  incrementally are the roots of the perfect trees over the leaves, so a proof built from the leaves
  verifies against the root a header commits; and a proof that verifies names the leaf at its
  position.
\<close>

section \<open>Definitions\<close>

definition mmrLeafTag :: char where "mmrLeafTag = CHR 0x00"
definition mmrNodeTag :: char where "mmrNodeTag = CHR 0x01"
definition mmrRootTag :: char where "mmrRootTag = CHR 0x02"

record mmr =
  mmr_peaks :: "string list"
  mmr_heights :: "nat list"
  mmr_leaves :: u64

definition empty_mmr :: mmr where
  "empty_mmr = \<lparr>mmr_peaks = [], mmr_heights = [], mmr_leaves = 0\<rparr>"

definition mmrLeaf :: "config \<Rightarrow> string \<Rightarrow> string" where
  "mmrLeaf cfg h = hex_encode (sha256 cfg (mmrLeafTag # h))"

definition mmrNode :: "config \<Rightarrow> string \<Rightarrow> string \<Rightarrow> string" where
  "mmrNode cfg l r = hex_encode (sha256 cfg (mmrNodeTag # l @ r))"

definition EmptyMMRRoot :: "config \<Rightarrow> string" where
  "EmptyMMRRoot cfg = hashBytes cfg ''dnas-mmr-empty''"

text \<open>The merging of equal neighbours, on the peaks and heights listed smallest first.\<close>

fun merge_peaks :: "config \<Rightarrow> string list \<Rightarrow> nat list \<Rightarrow> string list \<times> nat list" where
  "merge_peaks cfg (p # q # ps) (h # g # hs) =
     (if h \<noteq> g then (p # q # ps, h # g # hs)
      else merge_peaks cfg (mmrNode cfg q p # ps) ((h + 1) # hs))"
| "merge_peaks cfg ps hs = (ps, hs)"

definition mmr_Append :: "config \<Rightarrow> string \<Rightarrow> mmr \<Rightarrow> mmr" where
  "mmr_Append cfg blockHash m =
     (case merge_peaks cfg (mmrLeaf cfg blockHash # rev (mmr_peaks m)) (0 # rev (mmr_heights m)) of
        (ps, hs) \<Rightarrow> \<lparr>mmr_peaks = rev ps, mmr_heights = rev hs, mmr_leaves = mmr_leaves m + 1\<rparr>)"

text \<open>The peaks are bagged from the last one down; callers pass at least one.\<close>

definition bag_peaks :: "config \<Rightarrow> string list \<Rightarrow> string" where
  "bag_peaks cfg peaks = foldr (mmrNode cfg) (butlast peaks) (last peaks)"

definition foldPeaks :: "config \<Rightarrow> string list \<Rightarrow> u64 \<Rightarrow> string" where
  "foldPeaks cfg peaks leaves = hex_encode (sha256 cfg (mmrRootTag # be64 leaves @ bag_peaks cfg peaks))"

definition mmr_Root :: "config \<Rightarrow> mmr \<Rightarrow> string" where
  "mmr_Root cfg m = (if mmr_leaves m = 0 then EmptyMMRRoot cfg else foldPeaks cfg (mmr_peaks m) (mmr_leaves m))"

definition peakSizes :: "u64 \<Rightarrow> u64 list" where
  "peakSizes n = map (\<lambda>b. push_bit b 1) (filter (bit n) (rev [0..<64]))"

text \<open>One level of a perfect tree; an odd level would index past its end.\<close>

fun mmr_level :: "config \<Rightarrow> string list \<Rightarrow> string list option" where
  "mmr_level cfg [] = Some []"
| "mmr_level cfg [a] = None"
| "mmr_level cfg (a # b # rest) = map_option ((#) (mmrNode cfg a b)) (mmr_level cfg rest)"

lemma mmr_level_length: "mmr_level cfg l = Some l' \<Longrightarrow> 2 * length l' = length l"
  by (induction cfg l arbitrary: l' rule: mmr_level.induct) auto

function subtree_up :: "config \<Rightarrow> string list \<Rightarrow> string option" where
  "subtree_up cfg level =
     (if 1 < length level then (case mmr_level cfg level of None \<Rightarrow> None | Some next \<Rightarrow> subtree_up cfg next)
      else case level of [] \<Rightarrow> None | r # _ \<Rightarrow> Some r)"
  by auto
termination
  by (relation "measure (\<lambda>(_, level). length level)") (auto dest: mmr_level_length)

definition subtreeRoot :: "config \<Rightarrow> string list \<Rightarrow> string option" where
  "subtreeRoot cfg leaves = subtree_up cfg (map (mmrLeaf cfg) leaves)"

function subtree_path_up :: "config \<Rightarrow> string list \<Rightarrow> nat \<Rightarrow> (string list \<times> bool list \<times> string) option" where
  "subtree_path_up cfg level idx =
     (if 1 < length level then
        let sibling = (if even idx then idx + 1 else idx - 1) in
        if length level \<le> sibling then None
        else (case mmr_level cfg level of
            None \<Rightarrow> None
          | Some next \<Rightarrow>
              map_option (\<lambda>(path, right, root). (level ! sibling # path, (idx < sibling) # right, root))
                (subtree_path_up cfg next (idx div 2)))
      else case level of [] \<Rightarrow> None | r # _ \<Rightarrow> Some ([], [], r))"
  by auto
termination
  by (relation "measure (\<lambda>(_, level, _). length level)") (auto dest: mmr_level_length)

declare subtree_up.simps [simp del] subtree_path_up.simps [simp del]

definition subtreePath :: "config \<Rightarrow> string list \<Rightarrow> nat \<Rightarrow> (string list \<times> bool list \<times> string) option" where
  "subtreePath cfg leaves idx = subtree_path_up cfg (map (mmrLeaf cfg) leaves) idx"

record ancestry_proof =
  anc_block_hash :: string
  anc_height :: u64
  anc_position :: u64
  anc_leaves :: u64
  anc_path :: "string list"
  anc_path_right :: "bool list"
  anc_peaks :: "string list"
  anc_peak_index :: int
  anc_root :: string

datatype ancestry_error = PastTheEnd | OutsideEveryPeak | AncestryPanic

text \<open>
  The loop of \<open>BuildAncestryProof\<close> over the peak sizes: it keeps the offset, the peaks so far, and the
  path and peak index once the leaf's own peak is met.
\<close>

fun build_peaks :: "config \<Rightarrow> string list \<Rightarrow> nat \<Rightarrow> nat list \<Rightarrow> nat \<Rightarrow> nat
    \<Rightarrow> (string list \<times> (int \<times> string list \<times> bool list) option) option" where
  "build_peaks cfg leaves position [] i offset = Some ([], None)"
| "build_peaks cfg leaves position (sz # sizes) i offset =
     (let chunk = take sz (drop offset leaves);
          rest = build_peaks cfg leaves position sizes (Suc i) (offset + sz)
      in if offset \<le> position \<and> position < offset + sz then
           (case subtreePath cfg chunk (position - offset) of
              None \<Rightarrow> None
            | Some (path, right, root) \<Rightarrow>
                map_option (\<lambda>(peaks, own). (root # peaks, case own of None \<Rightarrow> Some (int i, path, right) | Some x \<Rightarrow> Some x)) rest)
         else (case subtreeRoot cfg chunk of
              None \<Rightarrow> None
            | Some root \<Rightarrow> map_option (\<lambda>(peaks, own). (root # peaks, own)) rest))"

definition BuildAncestryProof :: "config \<Rightarrow> string list \<Rightarrow> u64 \<Rightarrow> ancestry_error + ancestry_proof" where
  "BuildAncestryProof cfg leaves position =
     (if of_nat (length leaves) \<le> position then Inl PastTheEnd
      else case build_peaks cfg leaves (unat position) (map unat (peakSizes (of_nat (length leaves)))) 0 0 of
        None \<Rightarrow> Inl AncestryPanic
      | Some (peaks, None) \<Rightarrow> Inl OutsideEveryPeak
      | Some (peaks, Some (i, path, right)) \<Rightarrow>
          Inr \<lparr>anc_block_hash = leaves ! unat position, anc_height = 0, anc_position = position,
               anc_leaves = of_nat (length leaves), anc_path = path, anc_path_right = right,
               anc_peaks = peaks, anc_peak_index = i,
               anc_root = foldPeaks cfg peaks (of_nat (length leaves))\<rparr>)"

fun climb_path :: "config \<Rightarrow> string list \<Rightarrow> bool list \<Rightarrow> u64 \<Rightarrow> string \<Rightarrow> string option" where
  "climb_path cfg (sib # path) (r # right) idx acc =
     (if r \<noteq> (idx mod 2 = 0) then None
      else climb_path cfg path right (idx div 2) (if r then mmrNode cfg acc sib else mmrNode cfg sib acc))"
| "climb_path cfg path right idx acc = Some acc"

definition VerifyAncestryProof :: "config \<Rightarrow> ancestry_proof \<Rightarrow> string \<Rightarrow> bool" where
  "VerifyAncestryProof cfg p root =
     (if root = [] \<or> anc_leaves p = 0 \<or> anc_peaks p = [] then False
      else if anc_peak_index p < 0 \<or> int (length (anc_peaks p)) \<le> anc_peak_index p then False
      else if length (anc_path p) \<noteq> length (anc_path_right p) then False
      else let sizes = peakSizes (anc_leaves p) in
        if length sizes \<noteq> length (anc_peaks p) then False
        else let i = nat (anc_peak_index p); offset = sum_list (take i sizes); sz = sizes ! i in
          if anc_position p < offset \<or> offset + sz \<le> anc_position p then False
          else if push_bit (length (anc_path p)) 1 \<noteq> sz then False
          else case climb_path cfg (anc_path p) (anc_path_right p) (anc_position p - offset)
                      (mmrLeaf cfg (anc_block_hash p)) of
            None \<Rightarrow> False
          | Some acc \<Rightarrow> acc = anc_peaks p ! i \<and> foldPeaks cfg (anc_peaks p) (anc_leaves p) = root)"


section \<open>Perfect trees\<close>

text \<open>The root of a perfect tree of height \<open>e\<close> over a level of \<open>2 ^ e\<close> hashes, from the top down.\<close>

fun tree_root :: "config \<Rightarrow> nat \<Rightarrow> string list \<Rightarrow> string" where
  "tree_root cfg 0 l = hd l"
| "tree_root cfg (Suc e) l = mmrNode cfg (tree_root cfg e (take (2 ^ e) l)) (tree_root cfg e (drop (2 ^ e) l))"

fun pair_up :: "config \<Rightarrow> string list \<Rightarrow> string list" where
  "pair_up cfg (a # b # rest) = mmrNode cfg a b # pair_up cfg rest"
| "pair_up cfg l = []"

lemma mmr_level_pair_up: "even (length l) \<Longrightarrow> mmr_level cfg l = Some (pair_up cfg l)"
  by (induction cfg l rule: mmr_level.induct) auto

lemma length_pair_up [simp]: "length (pair_up cfg l) = length l div 2"
  by (induction cfg l rule: pair_up.induct) auto

lemma pair_up_append: "even (length a) \<Longrightarrow> pair_up cfg (a @ b) = pair_up cfg a @ pair_up cfg b"
  by (induction cfg a rule: pair_up.induct) auto

lemma pair_up_nth: "i < length l div 2 \<Longrightarrow> pair_up cfg l ! i = mmrNode cfg (l ! (2 * i)) (l ! (2 * i + 1))"
proof (induction cfg l arbitrary: i rule: pair_up.induct)
  case (1 cfg a b rest)
  then show ?case by (cases i) auto
qed auto

lemma tree_root_pair_up: "length l = 2 ^ Suc e \<Longrightarrow> tree_root cfg (Suc e) l = tree_root cfg e (pair_up cfg l)"
proof (induction e arbitrary: l)
  case 0
  then obtain a b where "l = [a, b]" by (auto simp: numeral_2_eq_2 length_Suc_conv)
  then show ?case by simp
next
  case (Suc e)
  let ?a = "take (2 ^ Suc e) l" and ?b = "drop (2 ^ Suc e) l"
  have len: "length ?a = 2 ^ Suc e" "length ?b = 2 ^ Suc e" using Suc.prems by auto
  have "pair_up cfg l = pair_up cfg ?a @ pair_up cfg ?b"
    using pair_up_append [of ?a cfg ?b] len by simp
  moreover have "length (pair_up cfg ?a) = 2 ^ e" using len by simp
  ultimately have "take (2 ^ e) (pair_up cfg l) = pair_up cfg ?a" "drop (2 ^ e) (pair_up cfg l) = pair_up cfg ?b"
    by simp_all
  moreover have "tree_root cfg (Suc (Suc e)) l = mmrNode cfg (tree_root cfg (Suc e) ?a) (tree_root cfg (Suc e) ?b)"
    by simp
  ultimately show ?case using Suc.IH [OF len(1)] Suc.IH [OF len(2)] by simp
qed

lemma subtree_up_root: "length l = 2 ^ e \<Longrightarrow> subtree_up cfg l = Some (tree_root cfg e l)"
proof (induction e arbitrary: l)
  case 0
  then obtain a where "l = [a]" by (auto simp: length_Suc_conv)
  then show ?case by (simp add: subtree_up.simps)
next
  case (Suc e)
  have "even (length l)" "1 < length l" using Suc.prems one_less_power [of "2 :: nat" "Suc e"] by auto
  with Suc show ?case
    by (subst subtree_up.simps) (simp add: mmr_level_pair_up tree_root_pair_up del: tree_root.simps)
qed

lemma subtreeRoot_tree: "length xs = 2 ^ e \<Longrightarrow> subtreeRoot cfg xs = Some (tree_root cfg e (map (mmrLeaf cfg) xs))"
  by (simp add: subtreeRoot_def subtree_up_root)

section \<open>The peaks of a range\<close>

text \<open>
  The heights of the set bits of \<open>n\<close>, smallest first, and the peaks of a range of \<open>n\<close> blocks of \<open>2 ^ k\<close>
  leaves, smallest first.
\<close>

function ones :: "nat \<Rightarrow> nat \<Rightarrow> nat list" where
  "ones k n = (if n = 0 then [] else if odd n then k # ones (Suc k) (n div 2) else ones (Suc k) (n div 2))"
  by auto
termination by (relation "measure snd") auto

function range_peaks :: "config \<Rightarrow> nat \<Rightarrow> nat \<Rightarrow> string list \<Rightarrow> string list" where
  "range_peaks cfg k n l =
     (if n = 0 then []
      else if odd n then tree_root cfg k (drop ((n - 1) * 2 ^ k) l)
             # range_peaks cfg (Suc k) (n div 2) (take ((n - 1) * 2 ^ k) l)
      else range_peaks cfg (Suc k) (n div 2) l)"
  by auto
termination by (relation "measure (\<lambda>(_, _, n, _). n)") auto

declare ones.simps [simp del] range_peaks.simps [simp del]

lemma ones_0 [simp]: "ones k 0 = []" "range_peaks cfg k 0 l = []"
  by (simp_all add: ones.simps range_peaks.simps)

lemma ones_ge: "h \<in> set (ones k n) \<Longrightarrow> k \<le> h"
  by (induction k n rule: ones.induct) (subst (asm) (2) ones.simps, auto split: if_splits)

lemma length_range_peaks: "length (range_peaks cfg k n l) = length (ones k n)"
proof (induction cfg k n l rule: range_peaks.induct)
  case (1 cfg k n l)
  then show ?case by (simp add: range_peaks.simps [of cfg k n l] ones.simps [of k n])
qed

text \<open>Appending one more block of \<open>2 ^ k\<close> leaves carries like a binary counter.\<close>

lemma merge_range:
  "length l = n * 2 ^ k \<Longrightarrow> length b = 2 ^ k \<Longrightarrow>
    merge_peaks cfg (tree_root cfg k b # range_peaks cfg k n l) (k # ones k n)
      = (range_peaks cfg k (Suc n) (l @ b), ones k (Suc n))"
proof (induction n arbitrary: k l b rule: less_induct)
  case (less n)
  show ?case
  proof (cases "odd n")
    case True
    define t where "t = take ((n - 1) * 2 ^ k) l"
    define d where "d = drop ((n - 1) * 2 ^ k) l"
    have n: "0 < n" "n div 2 < n" "Suc n div 2 = Suc (n div 2)" "n - 1 = n div 2 * 2"
      using True by (auto elim!: oddE)
    have l: "l = t @ d" by (simp add: t_def d_def)
    have lt: "length t = n div 2 * 2 ^ Suc k" using less.prems(1) n(1,4) by (simp add: t_def)
    have "length l = length t + length d" using l by simp
    moreover have "n * 2 ^ k = (n - 1) * 2 ^ k + 2 ^ k" using n(1) by (simp add: algebra_simps)
    ultimately have ld: "length d = 2 ^ k" using less.prems(1) lt n(4) by simp
    have db: "length (d @ b) = 2 ^ Suc k" using ld less.prems(2) by simp
    have "merge_peaks cfg (tree_root cfg k b # range_peaks cfg k n l) (k # ones k n)
        = merge_peaks cfg (tree_root cfg (Suc k) (d @ b) # range_peaks cfg (Suc k) (n div 2) t)
            (Suc k # ones (Suc k) (n div 2))"
      unfolding range_peaks.simps [of cfg k n l] ones.simps [of k n]
      using True n(1) ld by (simp add: t_def d_def)
    also have "\<dots> = (range_peaks cfg (Suc k) (Suc (n div 2)) (t @ d @ b), ones (Suc k) (Suc (n div 2)))"
      by (rule less.IH [OF n(2) lt db])
    also have "\<dots> = (range_peaks cfg k (Suc n) (l @ b), ones k (Suc n))"
      unfolding range_peaks.simps [of cfg k "Suc n"] ones.simps [of k "Suc n"] using True n(3) l by simp
    finally show ?thesis .
  next
    case False
    have "Suc n div 2 = n div 2" using False by simp
    then have out: "range_peaks cfg k (Suc n) (l @ b) = tree_root cfg k b # range_peaks cfg (Suc k) (n div 2) l"
      "ones k (Suc n) = k # ones (Suc k) (n div 2)"
      unfolding range_peaks.simps [of cfg k "Suc n"] ones.simps [of k "Suc n"]
      using False less.prems(1) by simp_all
    have "range_peaks cfg k n l = range_peaks cfg (Suc k) (n div 2) l" "ones k n = ones (Suc k) (n div 2)"
      using False by (auto simp: range_peaks.simps [of cfg k n l] ones.simps [of k n])
    moreover have "merge_peaks cfg (x # ps) (k # hs) = (x # ps, k # hs)"
      if "length ps = length hs" "\<And>h. h \<in> set hs \<Longrightarrow> Suc k \<le> h" for x ps hs
      using that by (cases ps; cases hs) fastforce+
    ultimately show ?thesis
      using out length_range_peaks [of cfg "Suc k" "n div 2" l] ones_ge by metis
  qed
qed

text \<open>What the accumulator holds after appending block hashes one by one.\<close>

definition mmr_of :: "config \<Rightarrow> string list \<Rightarrow> mmr" where
  "mmr_of cfg xs = fold (mmr_Append cfg) xs empty_mmr"

lemma mmr_of_peaks:
  "mmr_of cfg xs = \<lparr>mmr_peaks = rev (range_peaks cfg 0 (length xs) (map (mmrLeaf cfg) xs)),
     mmr_heights = rev (ones 0 (length xs)), mmr_leaves = of_nat (length xs)\<rparr>"
proof (induction xs rule: rev_induct)
  case Nil
  show ?case by (simp add: mmr_of_def empty_mmr_def)
next
  case (snoc x xs)
  have "merge_peaks cfg (mmrLeaf cfg x # range_peaks cfg 0 (length xs) (map (mmrLeaf cfg) xs)) (0 # ones 0 (length xs))
      = (range_peaks cfg 0 (Suc (length xs)) (map (mmrLeaf cfg) xs @ [mmrLeaf cfg x]), ones 0 (Suc (length xs)))"
    using merge_range [of "map (mmrLeaf cfg) xs" "length xs" 0 "[mmrLeaf cfg x]" cfg] by simp
  moreover have "mmr_of cfg (xs @ [x]) = mmr_Append cfg x (mmr_of cfg xs)" by (simp add: mmr_of_def)
  ultimately show ?case using snoc by (simp add: mmr_Append_def add.commute)
qed


text \<open>The same peaks read from the tallest, chunk by chunk.\<close>

fun chunk_peaks :: "config \<Rightarrow> nat list \<Rightarrow> string list \<Rightarrow> string list" where
  "chunk_peaks cfg [] l = []"
| "chunk_peaks cfg (e # es) l = tree_root cfg e (take (2 ^ e) l) # chunk_peaks cfg es (drop (2 ^ e) l)"

abbreviation pow_sum :: "nat list \<Rightarrow> nat" where
  "pow_sum es \<equiv> sum_list (map ((^) 2) es)"

lemma length_chunk_peaks [simp]: "length (chunk_peaks cfg es l) = length es"
  by (induction es arbitrary: l) auto

lemma chunk_peaks_nth:
  "i < length es \<Longrightarrow> chunk_peaks cfg es l ! i = tree_root cfg (es ! i) (take (2 ^ (es ! i)) (drop (pow_sum (take i es)) l))"
proof (induction es arbitrary: i l)
  case (Cons e es)
  then show ?case by (cases i) (auto simp: add.commute)
qed simp

lemma chunk_peaks_append:
  "chunk_peaks cfg (es @ fs) l = chunk_peaks cfg es l @ chunk_peaks cfg fs (drop (pow_sum es) l)"
  by (induction es arbitrary: l) (auto simp: add.commute)

lemma chunk_peaks_take: "chunk_peaks cfg es (take (pow_sum es) l) = chunk_peaks cfg es l"
proof (induction es arbitrary: l)
  case (Cons e es)
  have "drop (2 ^ e) (take (pow_sum (e # es)) l) = take (pow_sum es) (drop (2 ^ e) l)"
    by (simp add: drop_take)
  with Cons show ?case by (simp add: min_def)
qed simp

lemma pow_sum_ones: "pow_sum (ones k n) = n * 2 ^ k"
proof (induction k n rule: ones.induct)
  case (1 k n)
  show ?case
  proof (cases "n = 0")
    case False
    have "n * 2 ^ k = n div 2 * 2 ^ Suc k + (n mod 2) * 2 ^ k"
      by (metis add_mult_distrib div_mult_mod_eq mult.assoc power_Suc)
    with 1 False show ?thesis by (cases "odd n") (simp_all add: ones.simps [of k n] odd_iff_mod_2_eq_one)
  qed simp
qed

lemma range_chunk_peaks:
  "length l = n * 2 ^ k \<Longrightarrow> rev (range_peaks cfg k n l) = chunk_peaks cfg (rev (ones k n)) l"
proof (induction cfg k n l rule: range_peaks.induct)
  case (1 cfg k n l)
  show ?case
  proof (cases "odd n")
    case True
    let ?s = "(n - 1) * 2 ^ k"
    have n: "n \<noteq> 0" "n - 1 = n div 2 * 2" using True by (auto elim!: oddE)
    have nk: "n * 2 ^ k = ?s + 2 ^ k" using n(1) by (cases n) (simp_all add: algebra_simps)
    have s: "?s = n div 2 * 2 ^ Suc k" using n(2) by simp
    have ps: "pow_sum (rev (ones (Suc k) (n div 2))) = ?s"
      using pow_sum_ones [of "Suc k" "n div 2"] s by (simp add: rev_map [symmetric])
    have "rev (range_peaks cfg (Suc k) (n div 2) (take ?s l))
        = chunk_peaks cfg (rev (ones (Suc k) (n div 2))) (take ?s l)"
      using "1.IH"(1) [OF n(1) True] "1.prems" nk s by simp
    also have "\<dots> = chunk_peaks cfg (rev (ones (Suc k) (n div 2))) l"
      using chunk_peaks_take [of cfg "rev (ones (Suc k) (n div 2))" l] unfolding ps .
    finally show ?thesis
      using True n(1) nk "1.prems"
      by (simp add: range_peaks.simps [of cfg k n l] ones.simps [of k n] chunk_peaks_append ps [simplified])
  next
    case False
    show ?thesis
    proof (cases "n = 0")
      case False
      have "n * 2 ^ k = n div 2 * 2 ^ Suc k" using \<open>\<not> odd n\<close> by simp
      with False \<open>\<not> odd n\<close> 1 show ?thesis
        by (simp add: range_peaks.simps [of cfg k n l] ones.simps [of k n])
    qed simp
  qed
qed

lemma ones_bits: "n < 2 ^ m \<Longrightarrow> ones k n = map ((+) k) (filter (bit n) [0..<m])"
proof (induction m arbitrary: k n)
  case (Suc m)
  have "n div 2 < 2 ^ m" using Suc.prems by auto
  note ih = Suc.IH [OF this, of "Suc k"]
  have "filter (bit n) [0..<Suc m] = (if odd n then [0] else []) @ map Suc (filter (bit (n div 2)) [0..<m])"
    by (simp add: upt_rec [of 0 "Suc m"] map_Suc_upt [symmetric] filter_map o_def bit_Suc bit_0 del: upt_Suc map_Suc_upt)
  then show ?case using ih by (cases "n = 0") (auto simp: ones.simps [of k n] o_def)
qed simp

lemma peakSizes_ones: "peakSizes n = map (\<lambda>e. push_bit e 1) (rev (ones 0 (unat n)))"
proof -
  have "unat n < 2 ^ 64" using unsigned_less [of n] by simp
  then have "ones 0 (unat n) = filter (bit (unat n)) [0..<64]" using ones_bits [of "unat n" 64 0] by (simp add: map_idI)
  moreover have "filter (bit n) [0..<64] = filter (bit (unat n)) [0..<64]"
    by (rule filter_cong) (simp_all add: bit_unsigned_iff)
  ultimately show ?thesis by (simp add: peakSizes_def rev_filter [symmetric])
qed

lemma ones_less: "e \<in> set (ones 0 (unat (n :: u64))) \<Longrightarrow> e < 64"
proof -
  have "unat n < 2 ^ 64" using unsigned_less [of n] by simp
  then show "e \<in> set (ones 0 (unat n)) \<Longrightarrow> e < 64" using ones_bits [of "unat n" 64 0] by auto
qed

lemma unat_pow2: "e < 64 \<Longrightarrow> unat (push_bit e 1 :: u64) = 2 ^ e"
proof -
  assume "e < 64"
  then have "(2 :: nat) ^ e < 2 ^ 64" by (rule power_strict_increasing) simp
  moreover have "unat (push_bit e 1 :: u64) = take_bit 64 (push_bit e (unat (1 :: u64)))"
    using unsigned_push_bit_eq [where ?'a = nat, of e "1 :: u64"] by simp
  ultimately show ?thesis by (simp add: take_bit_eq_mod)
qed

lemma peakSizes_nat: "map unat (peakSizes n) = map ((^) 2) (rev (ones 0 (unat n)))"
  unfolding peakSizes_ones map_map by (rule map_cong) (use unat_pow2 ones_less in \<open>auto simp del: push_bit_of_1\<close>)


section \<open>Paths\<close>

lemma u64_half: "unat (idx div 2 :: u64) = unat idx div 2" "(idx mod 2 = 0) = even (unat idx)"
proof -
  show "unat (idx div 2) = unat idx div 2" by (simp add: unat_div)
  have "unat (idx mod 2) = unat idx mod 2" by (simp add: unat_mod)
  then show "(idx mod 2 = 0) = even (unat idx)" by (metis even_iff_mod_2_eq_zero unsigned_0 unat_eq_zero)
qed

lemma path_complete:
  "length l = 2 ^ e \<Longrightarrow> unat idx < 2 ^ e \<Longrightarrow>
    \<exists>path right. subtree_path_up cfg l (unat idx) = Some (path, right, tree_root cfg e l)
      \<and> length path = e \<and> length right = e
      \<and> climb_path cfg path right idx (l ! unat idx) = Some (tree_root cfg e l)"
proof (induction e arbitrary: l idx)
  case 0
  then obtain a where "l = [a]" by (auto simp: length_Suc_conv)
  with 0 show ?case by (simp add: subtree_path_up.simps)
next
  case (Suc e)
  let ?i = "unat idx" and ?s = "if even (unat idx) then unat idx + 1 else unat idx - 1"
  have len: "length (pair_up cfg l) = 2 ^ e" "1 < length l" "even (length l)"
    using Suc.prems(1) one_less_power [of "2 :: nat" "Suc e"] by auto
  have half: "unat (idx div 2) = ?i div 2" "unat (idx div 2) < 2 ^ e" using Suc.prems(2) u64_half by auto
  obtain path right where ih: "subtree_path_up cfg (pair_up cfg l) (?i div 2) = Some (path, right, tree_root cfg e (pair_up cfg l))"
    "length path = e" "length right = e"
    "climb_path cfg path right (idx div 2) (pair_up cfg l ! (?i div 2)) = Some (tree_root cfg e (pair_up cfg l))"
    using Suc.IH [OF len(1) half(2)] unfolding half(1) by blast
  have s: "?s < length l" using Suc.prems by auto
  have "?i div 2 < length l div 2" using Suc.prems by simp
  then have step: "pair_up cfg l ! (?i div 2)
      = (if even ?i then mmrNode cfg (l ! ?i) (l ! ?s) else mmrNode cfg (l ! ?s) (l ! ?i))"
    by (subst pair_up_nth) (auto elim!: evenE oddE)
  have "subtree_path_up cfg l ?i = Some (l ! ?s # path, (?i < ?s) # right, tree_root cfg (Suc e) l)"
    using len s ih(1) tree_root_pair_up [OF Suc.prems(1)]
    by (subst subtree_path_up.simps) (simp add: Let_def mmr_level_pair_up del: tree_root.simps)
  moreover have "climb_path cfg (l ! ?s # path) ((?i < ?s) # right) idx (l ! ?i) = Some (tree_root cfg (Suc e) l)"
  proof -
    have "(?i < ?s) = even ?i" by auto
    then show ?thesis
      using ih(4) step tree_root_pair_up [OF Suc.prems(1), of cfg]
      by (simp add: u64_half(2) del: tree_root.simps)
  qed
  ultimately show ?case using ih(2,3) by (intro exI conjI) auto
qed

section \<open>Verification over natural numbers\<close>

abbreviation peak_heights :: "u64 \<Rightarrow> nat list" where
  "peak_heights n \<equiv> rev (ones 0 (unat n))"

lemma heights_less: "i < length (peak_heights n) \<Longrightarrow> peak_heights n ! i < 64"
  using ones_less [of "peak_heights n ! i" n] nth_mem [of i "peak_heights n"] by simp

lemma pow_sum_heights: "pow_sum (peak_heights n) = unat n"
  using pow_sum_ones [of 0 "unat n"] by (simp add: rev_map [symmetric])

lemma pow_sum_take: "i < length es \<Longrightarrow> pow_sum (take i es) + 2 ^ (es ! i) \<le> pow_sum es"
  by (subst (3) id_take_nth_drop [of i es]) simp_all

lemma unat_sum_sizes:
  assumes "i < length (peak_heights n)"
  shows "unat (sum_list (take i (peakSizes n))) = pow_sum (take i (peak_heights n))"
proof -
  have "sum_list (map (\<lambda>e. push_bit e 1) es) = (of_nat (pow_sum es) :: u64)" for es
    by (induction es) simp_all
  then have "sum_list (take i (peakSizes n)) = of_nat (pow_sum (take i (peak_heights n)))"
    unfolding peakSizes_ones take_map by blast
  moreover have "unat n < 2 ^ 64" using unsigned_less [of n] by simp
  ultimately show ?thesis
    using pow_sum_take [OF assms] pow_sum_heights [of n] by (simp add: unat_of_nat)
qed


lemma verify_nat:
  fixes p
  defines "es \<equiv> peak_heights (anc_leaves p)" and "i \<equiv> nat (anc_peak_index p)"
  defines "off \<equiv> pow_sum (take i es)"
  shows "VerifyAncestryProof cfg p root \<longleftrightarrow>
    root \<noteq> [] \<and> 0 \<le> anc_peak_index p \<and> i < length es \<and> length (anc_peaks p) = length es
    \<and> length (anc_path p) = es ! i \<and> length (anc_path_right p) = es ! i
    \<and> off \<le> unat (anc_position p) \<and> unat (anc_position p) < off + 2 ^ (es ! i)
    \<and> climb_path cfg (anc_path p) (anc_path_right p) (of_nat (unat (anc_position p) - off))
        (mmrLeaf cfg (anc_block_hash p)) = Some (anc_peaks p ! i)
    \<and> foldPeaks cfg (anc_peaks p) (anc_leaves p) = root" (is "?v \<longleftrightarrow> ?r")
proof (cases "0 \<le> anc_peak_index p \<and> i < length es \<and> length (anc_peaks p) = length es")
  case False
  have "length (peakSizes (anc_leaves p)) = length es" by (simp add: peakSizes_ones es_def)
  with False show ?thesis
    by (auto simp: VerifyAncestryProof_def Let_def i_def nat_less_iff split: if_splits)
next
  case True
  let ?sizes = "peakSizes (anc_leaves p)" and ?pos = "anc_position p" and ?n = "anc_leaves p"
  have len: "length ?sizes = length es" by (simp add: peakSizes_ones es_def)
  have i: "i < length es" using True by simp
  have e64: "es ! i < 64" using heights_less [of i ?n] i by (simp add: es_def)
  have sz: "?sizes ! i = push_bit (es ! i) 1" using i by (simp add: peakSizes_ones es_def)
  have off: "unat (sum_list (take i ?sizes)) = off" using unat_sum_sizes [of i ?n] i by (simp add: off_def es_def)
  have n64: "unat ?n < 2 ^ 64" using unsigned_less [of ?n] by simp
  have le: "off + 2 ^ (es ! i) \<le> unat ?n"
    using pow_sum_take [OF i] pow_sum_heights [of ?n] by (simp add: off_def es_def)
  then have sum: "unat (sum_list (take i ?sizes) + ?sizes ! i) = off + 2 ^ (es ! i)"
    using n64 off sz unat_pow2 [OF e64] by (simp add: unat_word_ariths(1) del: push_bit_of_1)
  have ne: "?n \<noteq> 0" "anc_peaks p \<noteq> []" using True i by (auto simp: es_def)
  have shift: "push_bit (length (anc_path p)) 1 = ?sizes ! i \<longleftrightarrow> length (anc_path p) = es ! i"
  proof
    assume eq: "push_bit (length (anc_path p)) 1 = ?sizes ! i"
    have "length (anc_path p) < 64"
    proof (rule ccontr)
      assume "\<not> length (anc_path p) < 64"
      then have "push_bit (length (anc_path p)) (1 :: u64) = 0"
        by (intro bit_word_eqI) (auto simp: bit_push_bit_iff bit_1_iff simp del: push_bit_of_1)
      with eq sz unat_pow2 [OF e64] show False by (simp del: push_bit_of_1)
    qed
    from unat_pow2 [OF this] eq sz unat_pow2 [OF e64]
    have "(2 :: nat) ^ length (anc_path p) = 2 ^ (es ! i)" by (simp del: push_bit_of_1)
    then show "length (anc_path p) = es ! i" by simp
  qed (simp add: sz)
  have bounds: "?pos < sum_list (take i ?sizes) \<longleftrightarrow> unat ?pos < off"
    "sum_list (take i ?sizes) + ?sizes ! i \<le> ?pos \<longleftrightarrow> off + 2 ^ (es ! i) \<le> unat ?pos"
    by (simp_all add: word_less_nat_alt word_le_nat_alt off sum)
  have diff: "?pos - sum_list (take i ?sizes) = of_nat (unat ?pos - off)" if "off \<le> unat ?pos"
    using that unfolding off [symmetric] by (simp add: of_nat_diff)
  let ?climb = "climb_path cfg (anc_path p) (anc_path_right p) (?pos - sum_list (take i ?sizes)) (mmrLeaf cfg (anc_block_hash p))"
  have "\<not> (anc_peak_index p < 0 \<or> int (length (anc_peaks p)) \<le> anc_peak_index p)"
    using True by (auto simp: i_def)
  then have "?v \<longleftrightarrow> root \<noteq> [] \<and> length (anc_path p) = length (anc_path_right p)
      \<and> \<not> (?pos < sum_list (take i ?sizes) \<or> sum_list (take i ?sizes) + ?sizes ! i \<le> ?pos)
      \<and> push_bit (length (anc_path p)) 1 = ?sizes ! i \<and> ?climb = Some (anc_peaks p ! i)
      \<and> foldPeaks cfg (anc_peaks p) (anc_leaves p) = root"
    using True len ne unfolding VerifyAncestryProof_def Let_def i_def [symmetric]
    by (auto split: option.splits)
  then have "?v \<longleftrightarrow> root \<noteq> [] \<and> length (anc_path p) = length (anc_path_right p)
      \<and> off \<le> unat ?pos \<and> unat ?pos < off + 2 ^ (es ! i) \<and> length (anc_path p) = es ! i
      \<and> ?climb = Some (anc_peaks p ! i) \<and> foldPeaks cfg (anc_peaks p) (anc_leaves p) = root"
    unfolding bounds shift by auto
  with diff True show ?thesis by auto
qed

section \<open>Proofs built from the leaves\<close>

lemma build_peaks_passed:
  "position < offset \<Longrightarrow> offset + pow_sum es \<le> length leaves \<Longrightarrow>
    build_peaks cfg leaves position (map ((^) 2) es) i offset
      = Some (chunk_peaks cfg es (map (mmrLeaf cfg) (drop offset leaves)), None)"
proof (induction es arbitrary: i offset)
  case (Cons e es)
  have "length (take (2 ^ e) (drop offset leaves)) = 2 ^ e" using Cons.prems by simp
  from subtreeRoot_tree [OF this, of cfg] Cons show ?case
    by (simp add: Let_def take_map drop_map add.commute)
qed simp

lemma build_peaks_own:
  "offset \<le> position \<Longrightarrow> position < offset + pow_sum es \<Longrightarrow> offset + pow_sum es \<le> length leaves \<Longrightarrow>
    position < 2 ^ 64 \<Longrightarrow>
    \<exists>j path right. j < length es
      \<and> build_peaks cfg leaves position (map ((^) 2) es) i offset
          = Some (chunk_peaks cfg es (map (mmrLeaf cfg) (drop offset leaves)), Some (int (i + j), path, right))
      \<and> offset + pow_sum (take j es) \<le> position \<and> position < offset + pow_sum (take j es) + 2 ^ (es ! j)
      \<and> length path = es ! j \<and> length right = es ! j
      \<and> climb_path cfg path right (of_nat (position - (offset + pow_sum (take j es)))) (mmrLeaf cfg (leaves ! position))
          = Some (chunk_peaks cfg es (map (mmrLeaf cfg) (drop offset leaves)) ! j)"
proof (induction es arbitrary: i offset)
  case (Cons e es)
  let ?chunk = "take (2 ^ e) (drop offset leaves)"
  have len: "length ?chunk = 2 ^ e" using Cons.prems by simp
  show ?case
  proof (cases "position < offset + 2 ^ e")
    case True
    let ?idx = "of_nat (position - offset) :: u64"
    have "unat (of_nat m :: u64) = m" if "m < 2 ^ 64" for m using that by (simp add: unat_of_nat)
    from this [of "position - offset"] have idx: "unat ?idx = position - offset" using Cons.prems(4) by linarith
    then have "unat ?idx < 2 ^ e" using True Cons.prems(1) by simp
    from path_complete [of "map (mmrLeaf cfg) ?chunk", OF _ this, of cfg] len idx obtain path right
      where path: "subtreePath cfg ?chunk (position - offset) = Some (path, right, tree_root cfg e (map (mmrLeaf cfg) ?chunk))"
        "length path = e" "length right = e"
        "climb_path cfg path right ?idx (map (mmrLeaf cfg) ?chunk ! (position - offset)) = Some (tree_root cfg e (map (mmrLeaf cfg) ?chunk))"
      by (auto simp: subtreePath_def)
    have rest: "build_peaks cfg leaves position (map ((^) 2) es) (Suc i) (offset + 2 ^ e)
        = Some (chunk_peaks cfg es (map (mmrLeaf cfg) (drop (offset + 2 ^ e) leaves)), None)"
      using build_peaks_passed [OF True] Cons.prems(3) by simp
    have nth: "map (mmrLeaf cfg) ?chunk ! (position - offset) = mmrLeaf cfg (leaves ! position)"
      using True Cons.prems by simp
    show ?thesis
      by (rule exI [of _ 0], rule exI [of _ path], rule exI [of _ right])
        (use True Cons.prems path rest nth in \<open>simp add: Let_def take_map drop_map add.commute\<close>)
  next
    case False
    obtain j path right where ih: "j < length es"
      "build_peaks cfg leaves position (map ((^) 2) es) (Suc i) (offset + 2 ^ e)
        = Some (chunk_peaks cfg es (map (mmrLeaf cfg) (drop (offset + 2 ^ e) leaves)), Some (int (Suc i + j), path, right))"
      "offset + 2 ^ e + pow_sum (take j es) \<le> position" "position < offset + 2 ^ e + pow_sum (take j es) + 2 ^ (es ! j)"
      "length path = es ! j" "length right = es ! j"
      "climb_path cfg path right (of_nat (position - (offset + 2 ^ e + pow_sum (take j es)))) (mmrLeaf cfg (leaves ! position))
        = Some (chunk_peaks cfg es (map (mmrLeaf cfg) (drop (offset + 2 ^ e) leaves)) ! j)"
      using Cons.IH [of "offset + 2 ^ e" "Suc i"] Cons.prems False by auto
    show ?thesis
      by (rule exI [of _ "Suc j"], rule exI [of _ path], rule exI [of _ right])
        (use False Cons.prems ih subtreeRoot_tree [OF len, of cfg] in
          \<open>simp add: Let_def take_map drop_map ac_simps\<close>)
  qed
qed simp

lemma mmr_of_root:
  assumes "xs \<noteq> []" "length xs < 2 ^ 64"
  shows "mmr_Root cfg (mmr_of cfg xs)
    = foldPeaks cfg (chunk_peaks cfg (peak_heights (of_nat (length xs))) (map (mmrLeaf cfg) xs)) (of_nat (length xs))"
proof -
  have u: "unat (of_nat (length xs) :: u64) = length xs" using assms(2) by (simp add: unat_of_nat)
  then have "of_nat (length xs) \<noteq> (0 :: u64)" using assms(1) by (metis length_0_conv unsigned_0)
  then show ?thesis
    using range_chunk_peaks [of "map (mmrLeaf cfg) xs" "length xs" 0 cfg] u
    by (simp add: mmr_Root_def mmr_of_peaks)
qed

lemma build_proof:
  assumes "unat position < length xs" "length xs < 2 ^ 64" "sha256_length cfg"
  obtains p where "BuildAncestryProof cfg xs position = Inr p" "VerifyAncestryProof cfg p (mmr_Root cfg (mmr_of cfg xs))"
    "anc_root p = mmr_Root cfg (mmr_of cfg xs)" "anc_block_hash p = xs ! unat position" "anc_position p = position"
proof -
  let ?n = "of_nat (length xs) :: u64"
  let ?es = "peak_heights ?n"
  have u: "unat ?n = length xs" using assms(2) by (simp add: unat_of_nat)
  have ps: "pow_sum ?es = length xs" using pow_sum_heights [of ?n] u by simp
  have pos: "unat position < 2 ^ 64" using unsigned_less [of position] by simp
  obtain j path right where b: "j < length ?es"
    "build_peaks cfg xs (unat position) (map ((^) 2) ?es) 0 0
       = Some (chunk_peaks cfg ?es (map (mmrLeaf cfg) xs), Some (int j, path, right))"
    "pow_sum (take j ?es) \<le> unat position" "unat position < pow_sum (take j ?es) + 2 ^ (?es ! j)"
    "length path = ?es ! j" "length right = ?es ! j"
    "climb_path cfg path right (of_nat (unat position - pow_sum (take j ?es))) (mmrLeaf cfg (xs ! unat position))
       = Some (chunk_peaks cfg ?es (map (mmrLeaf cfg) xs) ! j)"
    using build_peaks_own [of 0 "unat position" ?es xs cfg 0] assms(1) ps pos by auto
  let ?p = "\<lparr>anc_block_hash = xs ! unat position, anc_height = 0, anc_position = position, anc_leaves = ?n,
      anc_path = path, anc_path_right = right, anc_peaks = chunk_peaks cfg ?es (map (mmrLeaf cfg) xs),
      anc_peak_index = int j, anc_root = foldPeaks cfg (chunk_peaks cfg ?es (map (mmrLeaf cfg) xs)) ?n\<rparr>"
  have "\<not> ?n \<le> position" using assms(1) u by (simp add: word_le_nat_alt not_le)
  then have build: "BuildAncestryProof cfg xs position = Inr ?p"
    by (simp add: BuildAncestryProof_def peakSizes_nat b(2) [unfolded u] u)
  have ne: "xs \<noteq> []" using assms(1) by auto
  have root: "mmr_Root cfg (mmr_of cfg xs) = anc_root ?p" using mmr_of_root [OF ne assms(2), of cfg] by simp
  have "foldPeaks cfg peaks n \<noteq> []" for peaks n
  proof -
    have "length (foldPeaks cfg peaks n) = 64" using assms(3) by (simp add: foldPeaks_def sha256_length_def)
    then show ?thesis by auto
  qed
  then have "VerifyAncestryProof cfg ?p (mmr_Root cfg (mmr_of cfg xs))"
    unfolding verify_nat root using b by simp
  with build root show ?thesis by (intro that [of ?p]) simp_all
qed


text \<open>
  C33. The accumulator kept block by block is the one over all the leaves: for every position of a range
  the node can build a proof, the proof verifies against the root of the accumulator and names the
  leaf at that position.
\<close>

theorem ancestry_proof_complete:
  assumes "sha256_length cfg" "length xs < 2 ^ 64" "unat position < length xs"
  shows "\<exists>p. BuildAncestryProof cfg xs position = Inr p \<and> anc_block_hash p = xs ! unat position
    \<and> anc_position p = position \<and> anc_root p = mmr_Root cfg (mmr_of cfg xs)
    \<and> VerifyAncestryProof cfg p (mmr_Root cfg (mmr_of cfg xs))"
  by (rule build_proof [OF assms(3,2,1)]) blast

section \<open>Proofs that verify\<close>

text \<open>The strings hashed on the way, for the range and for a proof.\<close>

definition node_string :: "string \<Rightarrow> string \<Rightarrow> bytes" where
  "node_string l r = mmrNodeTag # l @ r"

fun pair_strings :: "string list \<Rightarrow> bytes list" where
  "pair_strings (a # b # rest) = node_string a b # pair_strings rest"
| "pair_strings l = []"

fun tree_strings :: "config \<Rightarrow> nat \<Rightarrow> string list \<Rightarrow> bytes list" where
  "tree_strings cfg 0 l = []"
| "tree_strings cfg (Suc e) l = pair_strings l @ tree_strings cfg e (pair_up cfg l)"

fun chunk_strings :: "config \<Rightarrow> nat list \<Rightarrow> string list \<Rightarrow> bytes list" where
  "chunk_strings cfg [] l = []"
| "chunk_strings cfg (e # es) l = tree_strings cfg e (take (2 ^ e) l) @ chunk_strings cfg es (drop (2 ^ e) l)"

fun climb_strings :: "config \<Rightarrow> string list \<Rightarrow> bool list \<Rightarrow> string \<Rightarrow> bytes list" where
  "climb_strings cfg (sib # path) (r # right) acc =
     (if r then node_string acc sib else node_string sib acc)
     # climb_strings cfg path right (if r then mmrNode cfg acc sib else mmrNode cfg sib acc)"
| "climb_strings cfg path right acc = []"

fun bag_strings :: "config \<Rightarrow> string list \<Rightarrow> bytes list" where
  "bag_strings cfg (x # y # ps) = node_string x (bag_peaks cfg (y # ps)) # bag_strings cfg (y # ps)"
| "bag_strings cfg ps = []"

definition root_string :: "config \<Rightarrow> string list \<Rightarrow> u64 \<Rightarrow> bytes" where
  "root_string cfg peaks leaves = mmrRootTag # be64 leaves @ bag_peaks cfg peaks"

definition mmr_strings :: "config \<Rightarrow> string list \<Rightarrow> bytes list" where
  "mmr_strings cfg xs =
     (let n = of_nat (length xs); l = map (mmrLeaf cfg) xs; peaks = chunk_peaks cfg (peak_heights n) l
      in ''dnas-mmr-empty'' # root_string cfg peaks n # map ((#) mmrLeafTag) xs
         @ chunk_strings cfg (peak_heights n) l @ bag_strings cfg peaks)"

definition ancestry_strings :: "config \<Rightarrow> ancestry_proof \<Rightarrow> bytes list" where
  "ancestry_strings cfg p =
     root_string cfg (anc_peaks p) (anc_leaves p) # (mmrLeafTag # anc_block_hash p)
     # climb_strings cfg (anc_path p) (anc_path_right p) (mmrLeaf cfg (anc_block_hash p))
     @ bag_strings cfg (anc_peaks p)"

lemma mmrNode_string: "mmrNode cfg l r = hex_encode (sha256 cfg (node_string l r))"
  by (simp add: mmrNode_def node_string_def)

lemma mmr_lengths:
  assumes "sha256_length cfg"
  shows "length (mmrLeaf cfg x) = 64" "length (mmrNode cfg l r) = 64"
  using assms by (simp_all add: mmrLeaf_def mmrNode_def sha256_length_def)

lemma node_inject:
  assumes "inj_on (sha256 cfg) S" "node_string a b \<in> S" "node_string c d \<in> S" "mmrNode cfg a b = mmrNode cfg c d"
  shows "a @ b = c @ d"
  using inj_onD [OF assms(1) _ assms(2,3)] assms(4) by (simp add: mmrNode_string) (simp add: node_string_def)

lemma pair_strings_nth: "i < length l div 2 \<Longrightarrow> node_string (l ! (2 * i)) (l ! (2 * i + 1)) \<in> set (pair_strings l)"
proof (induction l arbitrary: i rule: pair_strings.induct)
  case (1 a b rest)
  then show ?case by (cases i) auto
qed auto

lemma climb_path_sound:
  assumes "inj_on (sha256 cfg) S" "sha256_length cfg"
  shows "length l = 2 ^ e \<Longrightarrow> \<forall>x \<in> set l. length x = 64 \<Longrightarrow> length acc = 64 \<Longrightarrow> length path = e \<Longrightarrow>
    length right = e \<Longrightarrow> unat idx < 2 ^ e \<Longrightarrow> set (tree_strings cfg e l) \<subseteq> S \<Longrightarrow>
    set (climb_strings cfg path right acc) \<subseteq> S \<Longrightarrow>
    climb_path cfg path right idx acc = Some (tree_root cfg e l) \<Longrightarrow> acc = l ! unat idx"
proof (induction e arbitrary: l acc path right idx)
  case 0
  then obtain a where "l = [a]" by (auto simp: length_Suc_conv)
  with 0 show ?case by simp
next
  case (Suc e)
  obtain sib path' where path: "path = sib # path'" "length path' = e" using Suc.prems(4) by (cases path) auto
  obtain r right' where right: "right = r # right'" "length right' = e" using Suc.prems(5) by (cases right) auto
  let ?acc = "if r then mmrNode cfg acc sib else mmrNode cfg sib acc" and ?i = "unat idx"
  have r: "r = even ?i" and run: "climb_path cfg path' right' (idx div 2) ?acc = Some (tree_root cfg e (pair_up cfg l))"
    using Suc.prems(9) path right tree_root_pair_up [OF Suc.prems(1)]
    by (auto simp: u64_half split: if_splits simp del: tree_root.simps)
  have half: "unat (idx div 2) = ?i div 2" "?i div 2 < length l div 2" using u64_half Suc.prems(1,6) by auto
  have "\<forall>x \<in> set (pair_up cfg l). length x = 64"
    using pair_up_nth mmr_lengths(2) [OF assms(2)] by (metis in_set_conv_nth length_pair_up)
  moreover have "length ?acc = 64" using mmr_lengths(2) [OF assms(2)] by simp
  ultimately have "?acc = pair_up cfg l ! (?i div 2)"
    using Suc.IH [of "pair_up cfg l" ?acc path' right' "idx div 2"] run path right half Suc.prems(1,7,8) by auto
  then have eq: "?acc = mmrNode cfg (l ! (2 * (?i div 2))) (l ! (2 * (?i div 2) + 1))"
    using pair_up_nth [OF half(2)] by simp
  have in1: "node_string (l ! (2 * (?i div 2))) (l ! (2 * (?i div 2) + 1)) \<in> S"
    using pair_strings_nth [OF half(2)] Suc.prems(7) by auto
  have "2 * (?i div 2) + 1 < length l" using half(2) by linarith
  then have len: "length (l ! (2 * (?i div 2))) = 64" "length (l ! (2 * (?i div 2) + 1)) = 64"
    using Suc.prems(2) by auto
  show ?case
  proof (cases r)
    case True
    then have "acc @ sib = l ! (2 * (?i div 2)) @ l ! (2 * (?i div 2) + 1)"
      using node_inject [OF assms(1) _ in1] eq Suc.prems(8) path right by auto
    with len Suc.prems(3) True r show ?thesis by simp
  next
    case False
    then have "sib @ acc = l ! (2 * (?i div 2)) @ l ! (2 * (?i div 2) + 1)"
      using node_inject [OF assms(1) _ in1] eq Suc.prems(8) path right by auto
    with len Suc.prems(3) have "acc = l ! (2 * (?i div 2) + 1)" by (metis append_eq_append_conv)
    then show ?thesis using False r by simp
  qed
qed

lemma bag_Cons: "bag_peaks cfg (x # y # ps) = mmrNode cfg x (bag_peaks cfg (y # ps))"
  by (simp add: bag_peaks_def)

lemma bag_one: "bag_peaks cfg [x] = x"
  by (simp add: bag_peaks_def)

text \<open>
  The peaks of a proof may be strings of any length; the one its path leads to is a digest, and that is
  enough to line the fold up with the one of the range.
\<close>

lemma bag_sound:
  assumes "inj_on (sha256 cfg) S" "sha256_length cfg"
  shows "length qs = length ps \<Longrightarrow> i < length ps \<Longrightarrow> \<forall>x \<in> set ps. length x = 64 \<Longrightarrow> length (qs ! i) = 64 \<Longrightarrow>
    set (bag_strings cfg ps) \<subseteq> S \<Longrightarrow> set (bag_strings cfg qs) \<subseteq> S \<Longrightarrow>
    bag_peaks cfg qs = bag_peaks cfg ps \<Longrightarrow> qs ! i = ps ! i"
proof (induction ps arbitrary: qs i)
  case (Cons x ps)
  obtain y qs' where qs: "qs = y # qs'" "length qs' = length ps" using Cons.prems(1) by (cases qs) auto
  show ?case
  proof (cases ps)
    case Nil
    with Cons.prems qs show ?thesis by (simp add: bag_one)
  next
    case (Cons x' ps')
    obtain y' qs'' where qs': "qs' = y' # qs''" using qs(2) Cons by (cases qs') auto
    have cat: "y @ bag_peaks cfg qs' = x @ bag_peaks cfg ps"
      using node_inject [OF assms(1), of y "bag_peaks cfg qs'" x "bag_peaks cfg ps"] Cons.prems(5-7) Cons qs(1) qs'
      by (auto simp: bag_Cons)
    have bp: "length (bag_peaks cfg ps) = 64"
      using Cons.prems(3) Cons mmr_lengths(2) [OF assms(2)] by (cases ps') (auto simp: bag_Cons bag_one)
    show ?thesis
    proof (cases i)
      case 0
      with cat Cons.prems(3,4) qs show ?thesis by simp
    next
      case (Suc j)
      have "length (bag_peaks cfg qs') = 64"
        using Cons.prems(2,4) Cons Suc qs qs' mmr_lengths(2) [OF assms(2)]
        by (cases qs'') (auto simp: bag_Cons bag_one)
      then have "bag_peaks cfg qs' = bag_peaks cfg ps" using cat bp by (metis append_eq_append_conv)
      moreover have "set (bag_strings cfg ps) \<subseteq> S" "set (bag_strings cfg qs') \<subseteq> S"
        using Cons.prems(5,6) Cons qs(1) qs' by auto
      ultimately show ?thesis
        using Cons.IH [of qs' j] Cons.prems(2-4) Suc qs by simp
    qed
  qed
qed simp

lemma chunk_strings_nth:
  "i < length es \<Longrightarrow> set (tree_strings cfg (es ! i) (take (2 ^ (es ! i)) (drop (pow_sum (take i es)) l)))
     \<subseteq> set (chunk_strings cfg es l)"
proof (induction es arbitrary: i l)
  case (Cons e es)
  show ?case
  proof (cases i)
    case (Suc j)
    with Cons.IH [of j "drop (2 ^ e) l"] Cons.prems show ?thesis by (auto simp: add.commute)
  qed simp
qed simp

lemma climb_path_length:
  "sha256_length cfg \<Longrightarrow> length acc = 64 \<Longrightarrow> climb_path cfg path right idx acc = Some r \<Longrightarrow> length r = 64"
  by (induction cfg path right idx acc rule: climb_path.induct) (auto simp: mmr_lengths split: if_splits)

lemma tree_root_length:
  "sha256_length cfg \<Longrightarrow> length l = 2 ^ e \<Longrightarrow> \<forall>x \<in> set l. length x = 64 \<Longrightarrow> length (tree_root cfg e l) = 64"
  by (cases e; cases l) (auto simp: mmr_lengths)

lemma chunk_peaks_length:
  assumes "sha256_length cfg" "pow_sum es \<le> length xs" "x \<in> set (chunk_peaks cfg es (map (mmrLeaf cfg) xs))"
  shows "length x = 64"
proof -
  obtain i where i: "i < length es" "x = chunk_peaks cfg es (map (mmrLeaf cfg) xs) ! i"
    using assms(3) by (metis in_set_conv_nth length_chunk_peaks)
  have "pow_sum (take i es) + 2 ^ (es ! i) \<le> length xs" using pow_sum_take [OF i(1)] assms(2) by linarith
  then have "length (take (2 ^ (es ! i)) (drop (pow_sum (take i es)) (map (mmrLeaf cfg) xs))) = 2 ^ (es ! i)"
    by simp
  moreover have "\<forall>y \<in> set (take (2 ^ (es ! i)) (drop (pow_sum (take i es)) (map (mmrLeaf cfg) xs))). length y = 64"
    using mmr_lengths(1) [OF assms(1)] by (auto dest!: in_set_takeD in_set_dropD)
  ultimately show ?thesis using tree_root_length [OF assms(1)] chunk_peaks_nth [OF i(1)] i(2) by simp
qed

text \<open>Equal roots have equal leaf counts and equal bagged peaks.\<close>

lemma root_match:
  assumes "length xs < 2 ^ 64" "inj_on (sha256 cfg) (set (mmr_strings cfg xs) \<union> set (ancestry_strings cfg p))"
    and "foldPeaks cfg (anc_peaks p) (anc_leaves p) = mmr_Root cfg (mmr_of cfg xs)"
  shows "anc_leaves p = of_nat (length xs)"
    "bag_peaks cfg (anc_peaks p)
       = bag_peaks cfg (chunk_peaks cfg (peak_heights (of_nat (length xs))) (map (mmrLeaf cfg) xs))"
proof -
  let ?S = "set (mmr_strings cfg xs) \<union> set (ancestry_strings cfg p)"
  let ?n = "of_nat (length xs) :: u64"
  let ?ps = "chunk_peaks cfg (peak_heights ?n) (map (mmrLeaf cfg) xs)"
  have root: "hex_encode (sha256 cfg (root_string cfg (anc_peaks p) (anc_leaves p))) = mmr_Root cfg (mmr_of cfg xs)"
    using assms(3) by (simp add: foldPeaks_def root_string_def)
  have rp: "root_string cfg (anc_peaks p) (anc_leaves p) \<in> ?S" "root_string cfg ?ps ?n \<in> ?S" "''dnas-mmr-empty'' \<in> ?S"
    by (simp_all add: ancestry_strings_def mmr_strings_def Let_def)
  have ne: "xs \<noteq> []"
  proof
    assume "xs = []"
    then have "sha256 cfg (root_string cfg (anc_peaks p) (anc_leaves p)) = sha256 cfg ''dnas-mmr-empty''"
      using root by (simp add: mmr_of_peaks mmr_Root_def EmptyMMRRoot_def hashBytes_def)
    from inj_onD [OF assms(2) this rp(1,3)] show False by (simp add: root_string_def mmrRootTag_def)
  qed
  have "sha256 cfg (root_string cfg (anc_peaks p) (anc_leaves p)) = sha256 cfg (root_string cfg ?ps ?n)"
    using root mmr_of_root [OF ne assms(1), of cfg] by (simp add: foldPeaks_def root_string_def)
  from inj_onD [OF assms(2) this rp(1,2)]
  show "anc_leaves p = ?n" "bag_peaks cfg (anc_peaks p) = bag_peaks cfg ?ps"
    by (simp_all add: root_string_def append_eq_append_conv)
qed

text \<open>
  C34. An ancestry proof that verifies against the root of the accumulator over \<open>xs\<close> is right: it states
  the number of leaves, its position is one of them, and its block hash is the leaf there, unless two
  of the strings hashed collide.
\<close>

theorem ancestry_proof_sound:
  assumes "sha256_length cfg" "length xs < 2 ^ 64"
    and "inj_on (sha256 cfg) (set (mmr_strings cfg xs) \<union> set (ancestry_strings cfg p))"
    and "VerifyAncestryProof cfg p (mmr_Root cfg (mmr_of cfg xs))"
  shows "unat (anc_leaves p) = length xs \<and> unat (anc_position p) < length xs
    \<and> anc_block_hash p = xs ! unat (anc_position p)"
proof -
  let ?S = "set (mmr_strings cfg xs) \<union> set (ancestry_strings cfg p)"
  let ?n = "of_nat (length xs) :: u64" and ?l = "map (mmrLeaf cfg) xs" and ?i = "nat (anc_peak_index p)"
  let ?es = "peak_heights ?n" and ?pos = "unat (anc_position p)" and ?leaf = "mmrLeaf cfg (anc_block_hash p)"
  let ?ps = "chunk_peaks cfg ?es ?l" and ?e = "?es ! ?i" and ?off = "pow_sum (take ?i ?es)"
  let ?level = "take (2 ^ ?e) (drop ?off ?l)"
  have u: "unat ?n = length xs" using assms(2) by (simp add: unat_of_nat)
  note v = assms(4) [unfolded verify_nat]
  have "foldPeaks cfg (anc_peaks p) (anc_leaves p) = mmr_Root cfg (mmr_of cfg xs)" using v by simp
  note match = root_match [OF assms(2,3) this]
  have i: "?i < length ?es" and len: "length (anc_peaks p) = length ?ps"
    and pos: "?off \<le> ?pos" "?pos < ?off + 2 ^ ?e"
    and path: "length (anc_path p) = ?e" "length (anc_path_right p) = ?e"
    and run: "climb_path cfg (anc_path p) (anc_path_right p) (of_nat (?pos - ?off)) ?leaf = Some (anc_peaks p ! ?i)"
    using v unfolding match(1) length_chunk_peaks by blast+
  have fit: "?off + 2 ^ ?e \<le> length xs" and all: "pow_sum ?es \<le> length xs"
    using pow_sum_take [OF i] pow_sum_heights [of ?n] u by simp_all
  have level: "length ?level = 2 ^ ?e" "\<forall>x \<in> set ?level. length x = 64"
    using fit mmr_lengths(1) [OF assms(1)] by (auto dest!: in_set_takeD in_set_dropD)
  have strings: "set (bag_strings cfg ?ps) \<subseteq> ?S" "set (bag_strings cfg (anc_peaks p)) \<subseteq> ?S"
    "set (climb_strings cfg (anc_path p) (anc_path_right p) ?leaf) \<subseteq> ?S" "set (tree_strings cfg ?e ?level) \<subseteq> ?S"
    using chunk_strings_nth [OF i, of cfg ?l] by (auto simp: mmr_strings_def ancestry_strings_def Let_def)
  have "anc_peaks p ! ?i = ?ps ! ?i"
    using bag_sound [OF assms(3,1) len _ _ _ strings(1,2) match(2)] i chunk_peaks_length [OF assms(1) all]
      climb_path_length [OF assms(1) mmr_lengths(1) [OF assms(1)] run] by simp
  then have run': "climb_path cfg (anc_path p) (anc_path_right p) (of_nat (?pos - ?off)) ?leaf = Some (tree_root cfg ?e ?level)"
    using run chunk_peaks_nth [OF i, of cfg ?l] by simp
  have "unat (of_nat m :: u64) = m" if "m < 2 ^ 64" for m using that by (simp add: unat_of_nat)
  from this [of "?pos - ?off"] have idx: "unat (of_nat (?pos - ?off) :: u64) = ?pos - ?off"
    using pos fit assms(2) by linarith
  have "?leaf = ?level ! (?pos - ?off)"
    using climb_path_sound [OF assms(3,1) level mmr_lengths(1) [OF assms(1)] path _ strings(4,3) run'] idx pos by simp
  then have "?leaf = mmrLeaf cfg (xs ! ?pos)" using pos fit by simp
  moreover have "mmrLeafTag # anc_block_hash p \<in> ?S" "mmrLeafTag # xs ! ?pos \<in> ?S"
    using pos fit by (auto simp: mmr_strings_def ancestry_strings_def Let_def)
  ultimately have "anc_block_hash p = xs ! ?pos" using inj_onD [OF assms(3)] by (auto simp: mmrLeaf_def)
  with u match(1) pos fit show ?thesis by auto
qed

end
