(* ===== verification/History_Samples.thy ===== *)
theory History_Samples
  imports MMR State_Samples
begin

text \<open>Instances of the theorems on the history accumulator: a range of three block hashes.\<close>

definition three :: "string list" where
  "three = [''a'', ''b'', ''c'']"

theorem ancestry_proof_complete_witness:
  "\<exists>p. BuildAncestryProof mix_cfg three 1 = Inr p \<and> anc_block_hash p = ''b''
    \<and> VerifyAncestryProof mix_cfg p (mmr_Root mix_cfg (mmr_of mix_cfg three))"
  using ancestry_proof_complete [OF mix_length, of three 1] by (auto simp: three_def)

definition check_b :: "ancestry_error + ancestry_proof \<Rightarrow> bool" where
  "check_b r = (case r of Inl _ \<Rightarrow> False
     | Inr p \<Rightarrow> inj_on (sha256 mix_cfg) (set (mmr_strings mix_cfg three) \<union> set (ancestry_strings mix_cfg p)))"

lemma check_b: "check_b (BuildAncestryProof mix_cfg three 1)"
  by code_simp

theorem ancestry_proof_sound_witness:
  "\<exists>p. BuildAncestryProof mix_cfg three 1 = Inr p \<and> unat (anc_leaves p) = 3 \<and> anc_block_hash p = three ! 1"
proof -
  obtain p where p: "BuildAncestryProof mix_cfg three 1 = Inr p" "anc_position p = 1"
    "VerifyAncestryProof mix_cfg p (mmr_Root mix_cfg (mmr_of mix_cfg three))"
    by (rule build_proof [of 1 three mix_cfg]) (simp_all add: three_def mix_length)
  have "inj_on (sha256 mix_cfg) (set (mmr_strings mix_cfg three) \<union> set (ancestry_strings mix_cfg p))"
    using check_b p(1) by (simp add: check_b_def)
  from ancestry_proof_sound [OF mix_length _ this p(3)] p(1,2) show ?thesis by (auto simp: three_def)
qed

end
