(* ===== verification/Version_Bits.thy ===== *)
theory Version_Bits
  imports Header
begin

unbundle bit_operations_syntax

text \<open>
  Miner votes on rule changes (\<open>core/versionbits.go\<close>): the terms of a deployment and their
  validation, the vote a header version carries, the walk over the counting windows, and the
  installation of the resulting heights in the upgrade table. The walk is a loop over machine
  integers with no bound of its own, so it is a partial function whose value \<open>None\<close> stands for not
  returning; the theorems show that it returns for every accepted deployment, that its result is the
  one of the windowed state machine over unbounded numbers, that a lock-in is final and that no rule
  is installed without a window that voted for it.
\<close>

section \<open>Deployments\<close>

definition VersionTopMask :: u32 where "VersionTopMask = 0xE0000000"
definition VersionTopBits :: u32 where "VersionTopBits = 0x20000000"
definition MaxDeploymentBit :: "8 word" where "MaxDeploymentBit = 28"

definition knownUpgrades :: "string list" where
  "knownUpgrades = [UpgradeDustLimit, UpgradeMultiOutput, UpgradeVault, UpgradeFeeSponsor, UpgradeCheckedAddresses,
     UpgradeUniqueCoinbase, UpgradeAssetOps, UpgradeFilterCommit, UpgradeHistoryRoot, UpgradeNonFungible,
     UpgradeNameService, UpgradeScript]"

definition KnownUpgrade :: "string \<Rightarrow> bool" where
  "KnownUpgrade name = list_ex (\<lambda>u. u = name) knownUpgrades"

datatype deployment_state =
  DeploymentDefined | DeploymentStarted | DeploymentLockedIn | DeploymentActive | DeploymentFailed

record deployment =
  dep_name :: string
  dep_bit :: "8 word"
  dep_start :: u64
  dep_timeout :: u64
  dep_window :: u64
  dep_threshold :: u64

datatype deployment_error =
  NoDeploymentName | UnknownUpgrade string | BitOutOfRange "8 word" | ZeroWindow
| BadThreshold u64 u64 | TimeoutTooEarly u64 u64 | BitClaimed "8 word"

definition dep_Validate :: "deployment \<Rightarrow> deployment_error option" where
  "dep_Validate d =
     (if dep_name d = [] then Some NoDeploymentName
      else if \<not> KnownUpgrade (dep_name d) then Some (UnknownUpgrade (dep_name d))
      else if MaxDeploymentBit < dep_bit d then Some (BitOutOfRange (dep_bit d))
      else if dep_window d = 0 then Some ZeroWindow
      else if dep_threshold d = 0 \<or> dep_window d < dep_threshold d
        then Some (BadThreshold (dep_threshold d) (dep_window d))
      else if dep_timeout d < dep_start d + dep_window d
        then Some (TimeoutTooEarly (dep_timeout d) (dep_start d + dep_window d))
      else None)"

definition Signals :: "header \<Rightarrow> 8 word \<Rightarrow> bool" where
  "Signals h b =
     (if MaxDeploymentBit < b then False
      else hdr_version h AND VersionTopMask = VersionTopBits \<and> hdr_version h AND push_bit (unat b) 1 \<noteq> 0)"

definition SignalVersion :: "8 word list \<Rightarrow> u32" where
  "SignalVersion bits =
     foldl (\<lambda>v b. if b \<le> MaxDeploymentBit then v OR push_bit (unat b) 1 else v) VersionTopBits bits"

type_synonym deployment_table = "(string, deployment) fmap"

definition Deployments :: "deployment_table \<Rightarrow> deployment list" where
  "Deployments table = map (\<lambda>n. the (fmlookup table n)) (fmkeys table)"

definition RegisterDeployment :: "deployment \<Rightarrow> deployment_table \<Rightarrow> deployment_error + deployment_table" where
  "RegisterDeployment d table =
     (case dep_Validate d of Some e \<Rightarrow> Inl e
      | None \<Rightarrow>
          if list_ex (\<lambda>other. dep_name other \<noteq> dep_name d \<and> dep_bit other = dep_bit d) (Deployments table)
          then Inl (BitClaimed (dep_bit d))
          else Inr (fmupd (dep_name d) d table))"

section \<open>Evaluation\<close>

record deployment_status =
  ds_deployment :: deployment
  ds_state :: deployment_state
  ds_since :: u64
  ds_activation :: u64
  ds_window_start :: u64
  ds_signals :: u64
  ds_elapsed :: u64

text \<open>
  \<open>headers[h]\<close> is guarded by \<open>int(h) < len(headers)\<close>: a height from \<open>2 ^ 63\<close> on reads as negative,
  passes the guard and the access panics.
\<close>

datatype go_panic = IndexOutOfRange

fun count_signals :: "header list \<Rightarrow> 8 word \<Rightarrow> nat list \<Rightarrow> go_panic + u64" where
  "count_signals headers b [] = Inr 0"
| "count_signals headers b (h # hs) =
     (if sint (of_nat h :: u64) < int (length headers) \<and> length headers \<le> h then Inl IndexOutOfRange
      else case count_signals headers b hs of Inl p \<Rightarrow> Inl p
        | Inr n \<Rightarrow> Inr (if h < length headers \<and> Signals (headers ! h) b then n + 1 else n))"

definition signalsIn :: "header list \<Rightarrow> deployment \<Rightarrow> u64 \<Rightarrow> go_panic + u64" where
  "signalsIn headers d from = count_signals headers (dep_bit d) [unat from..<unat (from + dep_window d)]"

definition window_step :: "header list \<Rightarrow> deployment \<Rightarrow> u64 \<Rightarrow> u64 \<Rightarrow> deployment_status
    \<Rightarrow> go_panic + deployment_status" where
  "window_step headers d k winStart st0 =
     (let st = st0\<lparr>ds_window_start := winStart\<rparr> in
      if k = 0 then Inr (st\<lparr>ds_state := DeploymentStarted, ds_since := winStart\<rparr>)
      else let prevStart = winStart - dep_window d in
        case ds_state st of
          DeploymentStarted \<Rightarrow>
            (case signalsIn headers d prevStart of Inl p \<Rightarrow> Inl p
             | Inr n \<Rightarrow>
                 if dep_threshold d \<le> n
                 then Inr (st\<lparr>ds_state := DeploymentLockedIn, ds_since := winStart,
                   ds_activation := winStart + dep_window d\<rparr>)
                 else if dep_timeout d < winStart
                 then Inr (st\<lparr>ds_state := DeploymentFailed, ds_since := winStart\<rparr>)
                 else Inr st)
        | DeploymentLockedIn \<Rightarrow>
            Inr (st\<lparr>ds_state := DeploymentActive, ds_since := winStart, ds_activation := winStart\<rparr>)
        | _ \<Rightarrow> Inr st)"

partial_function (option) deployment_windows :: "header list \<Rightarrow> deployment \<Rightarrow> u64 \<Rightarrow> u64 \<Rightarrow> deployment_status
    \<Rightarrow> (go_panic + deployment_status) option" where
  "deployment_windows headers d tip k st =
     (let winStart = dep_start d + k * dep_window d in
      if tip < winStart then Some (Inr st)
      else case window_step headers d k winStart st of
          Inl p \<Rightarrow> Some (Inl p)
        | Inr st' \<Rightarrow> deployment_windows headers d tip (k + 1) st')"

declare deployment_windows.simps [code]

definition initial_status :: "deployment \<Rightarrow> deployment_status" where
  "initial_status d = \<lparr>ds_deployment = d, ds_state = DeploymentDefined, ds_since = 0, ds_activation = 0,
     ds_window_start = 0, ds_signals = 0, ds_elapsed = 0\<rparr>"

definition evaluateDeployment :: "header list \<Rightarrow> deployment \<Rightarrow> (go_panic + deployment_status) option" where
  "evaluateDeployment headers d =
     (if length headers = 0 then Some (Inr (initial_status d))
      else let tip = hdr_index (last headers) in
        case deployment_windows headers d tip 0 (initial_status d) of
          None \<Rightarrow> None
        | Some (Inl p) \<Rightarrow> Some (Inl p)
        | Some (Inr st) \<Rightarrow>
            if ds_state st \<noteq> DeploymentDefined
            then (case signalsIn headers d (ds_window_start st) of
                Inl p \<Rightarrow> Some (Inl p)
              | Inr n \<Rightarrow> Some (Inr (st\<lparr>ds_elapsed := tip - ds_window_start st + 1, ds_signals := n\<rparr>)))
            else Some (Inr st))"

text \<open>
  \<open>refreshDeploymentsLocked\<close> evaluates every registered deployment on the headers of the chain, in
  the order of their names, and installs or withdraws each height.
\<close>

fun deploymentStatuses :: "header list \<Rightarrow> deployment list \<Rightarrow> (go_panic + deployment_status list) option" where
  "deploymentStatuses headers [] = Some (Inr [])"
| "deploymentStatuses headers (d # ds) =
     (case evaluateDeployment headers d of None \<Rightarrow> None | Some (Inl p) \<Rightarrow> Some (Inl p)
      | Some (Inr st) \<Rightarrow>
          (case deploymentStatuses headers ds of None \<Rightarrow> None | Some (Inl p) \<Rightarrow> Some (Inl p)
           | Some (Inr sts) \<Rightarrow> Some (Inr (st # sts))))"

definition install_status :: "deployment_status \<Rightarrow> config \<Rightarrow> config" where
  "install_status st cfg =
     (if ds_state st \<in> {DeploymentLockedIn, DeploymentActive}
      then SetUpgradeHeight (dep_name (ds_deployment st)) (ds_activation st) cfg
      else ClearUpgradeHeight (dep_name (ds_deployment st)) cfg)"

definition refreshDeployments :: "deployment_table \<Rightarrow> header list \<Rightarrow> config \<Rightarrow> (go_panic + config) option" where
  "refreshDeployments table headers cfg =
     (case deploymentStatuses headers (Deployments table) of None \<Rightarrow> None | Some (Inl p) \<Rightarrow> Some (Inl p)
      | Some (Inr sts) \<Rightarrow> Some (Inr (fold install_status sts cfg)))"

section \<open>The windowed state machine\<close>

text \<open>The same vote over unbounded numbers: window \<open>k\<close> starts at \<open>win_start d k\<close>.\<close>

definition win_start :: "deployment \<Rightarrow> nat \<Rightarrow> nat" where
  "win_start d k = unat (dep_start d) + k * unat (dep_window d)"

definition votes :: "header list \<Rightarrow> deployment \<Rightarrow> nat \<Rightarrow> nat" where
  "votes hs d k =
     length (filter (\<lambda>h. h < length hs \<and> Signals (hs ! h) (dep_bit d)) [win_start d k..<win_start d (Suc k)])"

fun bip9 :: "header list \<Rightarrow> deployment \<Rightarrow> nat \<Rightarrow> deployment_state" where
  "bip9 hs d 0 = DeploymentStarted"
| "bip9 hs d (Suc k) =
     (case bip9 hs d k of
        DeploymentStarted \<Rightarrow>
          if unat (dep_threshold d) \<le> votes hs d k then DeploymentLockedIn
          else if unat (dep_timeout d) < win_start d (Suc k) then DeploymentFailed else DeploymentStarted
      | DeploymentLockedIn \<Rightarrow> DeploymentActive
      | s \<Rightarrow> s)"

text \<open>The window at which a deployment in state \<open>bip9 hs d k\<close> locked in, if it did.\<close>

definition locked_at :: "header list \<Rightarrow> deployment \<Rightarrow> nat \<Rightarrow> nat \<Rightarrow> bool" where
  "locked_at hs d k j \<longleftrightarrow> j \<le> k \<and> bip9 hs d j = DeploymentLockedIn"

lemma bip9_defined: "bip9 hs d k \<noteq> DeploymentDefined"
  by (induction k) (auto split: deployment_state.splits)

lemma bip9_after_lock:
  assumes "bip9 hs d j = DeploymentLockedIn" "j < k"
  shows "bip9 hs d k = DeploymentActive"
  using assms(2)
proof (induction k)
  case (Suc k)
  then show ?case using assms(1) by (cases "j = k") auto
qed simp

lemma lock_unique: "locked_at hs d k j \<Longrightarrow> locked_at hs d k i \<Longrightarrow> i = j"
  using bip9_after_lock [of hs d i j] bip9_after_lock [of hs d j i] by (cases i j rule: linorder_cases) (auto simp: locked_at_def)

lemma active_was_locked:
  "bip9 hs d k \<in> {DeploymentLockedIn, DeploymentActive} \<Longrightarrow> \<exists>j. locked_at hs d k j"
proof (induction k)
  case (Suc k)
  then show ?case
    by (cases "bip9 hs d k") (auto simp: locked_at_def split: if_splits intro: le_SucI)
qed simp

lemma lock_has_votes:
  assumes "bip9 hs d j = DeploymentLockedIn"
  obtains i where "j = Suc i" "unat (dep_threshold d) \<le> votes hs d i"
  using assms by (cases j) (auto split: deployment_state.splits if_splits)

lemma locked_state:
  "locked_at hs d k j \<Longrightarrow> bip9 hs d k = (if j = k then DeploymentLockedIn else DeploymentActive)"
  using bip9_after_lock [of hs d j k] by (auto simp: locked_at_def)

text \<open>Blocks after the end of a window do not change its votes, nor any state before them.\<close>

lemma votes_extend:
  assumes "win_start d (Suc k) \<le> length hs"
  shows "votes (hs @ hs') d k = votes hs d k"
  unfolding votes_def using assms by (auto simp: nth_append intro!: arg_cong [where f = length] filter_cong)

lemma bip9_extend:
  assumes "win_start d k \<le> length hs"
  shows "bip9 (hs @ hs') d k = bip9 hs d k"
  using assms
proof (induction k)
  case (Suc k)
  moreover have "win_start d k \<le> win_start d (Suc k)" by (simp add: win_start_def)
  ultimately show ?case by (simp add: votes_extend split: deployment_state.split)
qed simp


section \<open>The loop computes the state machine\<close>

lemma sint_small: "h < 2 ^ 63 \<Longrightarrow> sint (of_nat h :: u64) = int h"
  by (simp add: signed_of_nat signed_take_bit_int_eq_self)

lemma count_signals_value:
  "\<forall>h \<in> set hs. h < 2 ^ 63 \<Longrightarrow>
   count_signals headers b hs = Inr (of_nat (length (filter (\<lambda>h. h < length headers \<and> Signals (headers ! h) b) hs)))"
  by (induction hs) (auto simp: sint_small)

lemma win_start_word:
  assumes "win_start d k < 2 ^ 64"
  shows "dep_start d + of_nat k * dep_window d = of_nat (win_start d k)"
    "unat (dep_start d + of_nat k * dep_window d) = win_start d k"
proof -
  show "dep_start d + of_nat k * dep_window d = of_nat (win_start d k)" by (simp add: win_start_def)
  with assms show "unat (dep_start d + of_nat k * dep_window d) = win_start d k"
    by (simp add: unat_of_nat)
qed

lemma win_start_Suc: "win_start d (Suc k) = win_start d k + unat (dep_window d)"
  by (simp add: win_start_def)

lemma win_start_mono: "k \<le> n \<Longrightarrow> win_start d k \<le> win_start d n"
  by (simp add: win_start_def)

lemma signalsIn_votes:
  assumes "win_start d (Suc k) < 2 ^ 63"
  shows "signalsIn hs d (of_nat (win_start d k)) = Inr (of_nat (votes hs d k))"
proof -
  have "unat (of_nat (win_start d k) :: u64) = win_start d k"
    "unat (of_nat (win_start d k) + dep_window d) = win_start d (Suc k)"
    using assms by (simp_all add: win_start_Suc unat_word_ariths unat_of_nat)
  then show ?thesis using assms
    by (simp add: signalsIn_def votes_def count_signals_value)
qed

lemma votes_le: "votes hs d k \<le> unat (dep_window d)"
proof -
  have "votes hs d k \<le> length [win_start d k..<win_start d (Suc k)]" unfolding votes_def by (rule length_filter_le)
  then show ?thesis by (simp add: win_start_Suc)
qed

lemma unat_of_nat_small: "n < 2 ^ 64 \<Longrightarrow> unat (of_nat n :: u64) = n"
  by (simp add: unat_of_nat)

lemma unat_lt64: "unat (x :: u64) < 2 ^ 64"
  using unsigned_less [of x] by simp

lemma threshold_votes: "dep_threshold d \<le> of_nat (votes hs d k) \<longleftrightarrow> unat (dep_threshold d) \<le> votes hs d k"
proof -
  have "votes hs d k < 2 ^ 64" using votes_le [of hs d k] unat_lt64 [of "dep_window d"] by linarith
  then show ?thesis by (simp add: word_le_nat_alt unat_of_nat)
qed

text \<open>The status the loop holds after window \<open>k\<close>.\<close>

definition status_at :: "header list \<Rightarrow> deployment \<Rightarrow> nat \<Rightarrow> deployment_status \<Rightarrow> bool" where
  "status_at hs d k st \<longleftrightarrow> ds_deployment st = d \<and> ds_state st = bip9 hs d k
     \<and> ds_window_start st = of_nat (win_start d k)
     \<and> (\<forall>j. locked_at hs d k j \<longrightarrow> ds_activation st = of_nat (win_start d (Suc j)))"

lemma first_window:
  "\<exists>st. window_step hs d 0 (of_nat (win_start d 0)) (initial_status d) = Inr st \<and> status_at hs d 0 st"
  by (simp add: window_step_def status_at_def initial_status_def locked_at_def)

lemma locked_at_Suc:
  "locked_at hs d (Suc k) j \<longleftrightarrow> locked_at hs d k j \<or> j = Suc k \<and> bip9 hs d (Suc k) = DeploymentLockedIn"
  by (auto simp: locked_at_def le_Suc_eq simp del: bip9.simps)

lemma window_index_small:
  assumes "dep_window d \<noteq> 0" "win_start d k < 2 ^ 63"
  shows "k < 2 ^ 63"
proof -
  have "1 \<le> unat (dep_window d)" using assms(1) by (simp add: unat_gt_0 Suc_le_eq)
  then have "k * 1 \<le> k * unat (dep_window d)" by (rule mult_le_mono2)
  then show ?thesis using assms(2) unfolding win_start_def by linarith
qed

lemma next_window:
  assumes "status_at hs d k st" "win_start d (Suc k) < 2 ^ 63" "dep_window d \<noteq> 0"
  shows "\<exists>st'. window_step hs d (of_nat (Suc k)) (of_nat (win_start d (Suc k))) st = Inr st' \<and> status_at hs d (Suc k) st'"
proof -
  have "Suc k < 2 ^ 63" using assms(2,3) by (rule window_index_small [rotated])
  then have "unat (of_nat (Suc k) :: u64) = Suc k" by (simp add: unat_of_nat del: of_nat_Suc)
  then have k: "of_nat (Suc k) \<noteq> (0 :: u64)" by (metis nat.distinct(1) unsigned_0)
  have prev: "of_nat (win_start d (Suc k)) - dep_window d = of_nat (win_start d k)"
    by (simp add: win_start_Suc)
  have late: "dep_timeout d < of_nat (win_start d (Suc k)) \<longleftrightarrow> unat (dep_timeout d) < win_start d (Suc k)"
    using assms(2) by (simp add: word_less_nat_alt unat_of_nat)
  have locked: "locked_at hs d k j \<Longrightarrow> bip9 hs d k \<in> {DeploymentLockedIn, DeploymentActive}" for j
    using locked_state [of hs d k j] by auto
  have activation: "of_nat (win_start d (Suc k)) + dep_window d = (of_nat (win_start d (Suc (Suc k))) :: u64)"
    by (simp add: win_start_Suc)
  note facts = assms(1) k prev late activation signalsIn_votes [OF assms(2), of hs] threshold_votes [of d hs k]
  show ?thesis
  proof (cases "bip9 hs d k")
    case DeploymentStarted
    then have "\<not> locked_at hs d k j" for j using locked [of j] by auto
    then show ?thesis using facts DeploymentStarted
      by (auto simp: window_step_def status_at_def locked_at_Suc Let_def simp del: of_nat_Suc)
  next
    case DeploymentLockedIn
    then have "locked_at hs d k j \<longleftrightarrow> j = k" for j using locked_state [of hs d k j] by (auto simp: locked_at_def split: if_splits)
    then show ?thesis using facts DeploymentLockedIn
      by (auto simp: window_step_def status_at_def locked_at_Suc Let_def simp del: of_nat_Suc)
  qed (use facts bip9_defined [of hs d k] in \<open>auto simp: window_step_def status_at_def locked_at_Suc Let_def simp del: of_nat_Suc\<close>)
qed

lemma windows_return:
  assumes "dep_window d \<noteq> 0" "tip + unat (dep_window d) < 2 ^ 63" "win_start d n \<le> tip" "tip < win_start d (Suc n)"
    and "status_at hs d k st" "k \<le> n"
  shows "\<exists>st'. deployment_windows hs d (of_nat tip) (of_nat (Suc k)) st = Some (Inr st') \<and> status_at hs d n st'"
  using assms(5,6)
proof (induction "n - k" arbitrary: k st)
  case 0
  have small: "win_start d (Suc n) < 2 ^ 63" using assms(2,3) by (simp add: win_start_Suc)
  then have "(of_nat tip :: u64) < of_nat (win_start d (Suc n))"
    using assms(2,4) by (simp add: word_less_nat_alt unat_of_nat)
  then show ?case using 0 small
    by (subst deployment_windows.simps) (simp add: win_start_word(1) Let_def del: of_nat_Suc)
next
  case (Suc m)
  have "Suc k \<le> n" using Suc(2) by linarith
  then have small: "win_start d (Suc k) < 2 ^ 63" "win_start d (Suc k) \<le> tip"
    using assms(2,3) win_start_mono [of "Suc k" n d] by linarith+
  obtain st' where st': "window_step hs d (of_nat (Suc k)) (of_nat (win_start d (Suc k))) st = Inr st'"
    "status_at hs d (Suc k) st'"
    using next_window [OF Suc(3) small(1) assms(1)] by blast
  have "\<not> (of_nat tip :: u64) < of_nat (win_start d (Suc k))"
    using small assms(2) by (simp add: word_less_nat_alt unat_of_nat)
  then have "deployment_windows hs d (of_nat tip) (of_nat (Suc k)) st
      = deployment_windows hs d (of_nat tip) (of_nat (Suc (Suc k))) st'"
    using small st'(1)
    by (subst deployment_windows.simps) (simp add: win_start_word(1) Let_def of_nat_Suc [of "Suc k"] add.commute del: of_nat_Suc)
  then show ?case using Suc.hyps(1) [OF _ st'(2)] Suc(2) by auto
qed


section \<open>Theorems\<close>

text \<open>The number of the window the tip of a chain of \<open>n\<close> headers is in.\<close>

definition tip_window :: "header list \<Rightarrow> deployment \<Rightarrow> nat" where
  "tip_window hs d = (length hs - 1 - unat (dep_start d)) div unat (dep_window d)"

text \<open>Headers as a chain holds them: numbered, and few enough that no window reaches \<open>2 ^ 63\<close>.\<close>

definition numbered :: "header list \<Rightarrow> deployment \<Rightarrow> bool" where
  "numbered hs d \<longleftrightarrow> hs \<noteq> [] \<and> hdr_index (last hs) = of_nat (length hs - 1) \<and> length hs + unat (dep_window d) < 2 ^ 63"

lemma valid_window: "dep_Validate d = None \<Longrightarrow> dep_window d \<noteq> 0"
  by (auto simp: dep_Validate_def split: if_splits)

lemma tip_window_bounds:
  assumes "dep_window d \<noteq> 0" "unat (dep_start d) < length hs"
  shows "win_start d (tip_window hs d) < length hs" "length hs - 1 < win_start d (Suc (tip_window hs d))"
proof -
  let ?s = "unat (dep_start d)" and ?w = "unat (dep_window d)" and ?t = "length hs - 1"
  have w: "0 < ?w" using assms(1) by (simp add: unat_gt_0)
  have "(?t - ?s) div ?w * ?w \<le> ?t - ?s" "?t - ?s < (?t - ?s) div ?w * ?w + ?w"
    using div_times_less_eq_dividend [of "?t - ?s" ?w] dividend_less_div_times [OF w, of "?t - ?s"] by linarith+
  then show "win_start d (tip_window hs d) < length hs" "length hs - 1 < win_start d (Suc (tip_window hs d))"
    using assms(2) unfolding win_start_def tip_window_def mult_Suc by linarith+
qed

lemma evaluate_started:
  assumes "dep_window d \<noteq> 0" "numbered hs d" "unat (dep_start d) < length hs"
  shows "\<exists>st. evaluateDeployment hs d = Some (Inr st) \<and> status_at hs d (tip_window hs d) st"
proof -
  let ?n = "tip_window hs d" and ?tip = "length hs - 1"
  have hs: "hs \<noteq> []" "hdr_index (last hs) = of_nat ?tip" "?tip + unat (dep_window d) < 2 ^ 63"
    using assms(2) by (auto simp: numbered_def)
  have b: "win_start d ?n \<le> ?tip" "?tip < win_start d (Suc ?n)"
    using tip_window_bounds [OF assms(1,3)] by simp_all
  have small: "win_start d (Suc ?n) < 2 ^ 63" using hs(3) b(1) by (simp add: win_start_Suc)
  obtain st0 where st0: "window_step hs d 0 (of_nat (win_start d 0)) (initial_status d) = Inr st0" "status_at hs d 0 st0"
    using first_window by blast
  obtain st where st: "deployment_windows hs d (of_nat ?tip) (of_nat (Suc 0)) st0 = Some (Inr st)" "status_at hs d ?n st"
    using windows_return [OF assms(1) hs(3) b st0(2)] by blast
  have "\<not> (of_nat ?tip :: u64) < dep_start d"
    using assms(3) hs(3) unat_of_nat_small [of ?tip] by (simp add: word_less_nat_alt del: of_nat_diff)
  then have run: "deployment_windows hs d (of_nat ?tip) 0 (initial_status d) = Some (Inr st)"
    using st0(1) st(1) by (subst deployment_windows.simps) (simp add: win_start_def)
  have "ds_state st \<noteq> DeploymentDefined" "signalsIn hs d (ds_window_start st) = Inr (of_nat (votes hs d ?n))"
    using st(2) bip9_defined [of hs d ?n] signalsIn_votes [OF small] by (simp_all add: status_at_def)
  then show ?thesis using hs(1,2) run st(2)
    by (simp add: evaluateDeployment_def status_at_def Let_def)
qed

lemma evaluate_early:
  assumes "numbered hs d" "length hs \<le> unat (dep_start d)"
  shows "evaluateDeployment hs d = Some (Inr (initial_status d))"
proof -
  have hs: "hs \<noteq> []" "hdr_index (last hs) = of_nat (length hs - 1)" "length hs - 1 < 2 ^ 64"
    using assms(1) by (auto simp: numbered_def)
  have "length hs - 1 < unat (dep_start d)" using hs(1) assms(2) by (cases hs) auto
  with hs(3) have "(of_nat (length hs - 1) :: u64) < dep_start d"
    using unat_of_nat_small [of "length hs - 1"] by (simp add: word_less_nat_alt del: of_nat_diff)
  then have "deployment_windows hs d (of_nat (length hs - 1)) 0 (initial_status d) = Some (Inr (initial_status d))"
    by (subst deployment_windows.simps) simp
  then show ?thesis using hs(1,2) by (simp add: evaluateDeployment_def Let_def initial_status_def)
qed



text \<open>
  C38. A lock-in is final: once a chain has locked a deployment in, every longer chain that extends it
  has it locked in or active with the same activation height, and it is active exactly from that
  height on. Miners who change their vote afterwards do not matter.
\<close>

theorem lock_in_final:
  assumes "dep_Validate d = None" "numbered hs d" "numbered (hs @ hs') d"
    and "evaluateDeployment hs d = Some (Inr st)" "ds_state st \<in> {DeploymentLockedIn, DeploymentActive}"
  shows "\<exists>st'. evaluateDeployment (hs @ hs') d = Some (Inr st') \<and> ds_activation st' = ds_activation st
    \<and> ds_state st' = (if unat (ds_activation st) < length (hs @ hs') then DeploymentActive else DeploymentLockedIn)"
proof -
  let ?n = "tip_window hs d" and ?m = "tip_window (hs @ hs') d"
  have w: "dep_window d \<noteq> 0" using assms(1) by (rule valid_window)
  have started: "unat (dep_start d) < length hs"
    using evaluate_early [OF assms(2)] assms(4,5) by (cases "length hs \<le> unat (dep_start d)") (auto simp: initial_status_def)
  then have st: "status_at hs d ?n st" using evaluate_started [OF w assms(2)] assms(4) by auto
  with assms(5) obtain j where j: "locked_at hs d ?n j" using active_was_locked [of hs d ?n] by (auto simp: status_at_def)
  obtain st' where st': "evaluateDeployment (hs @ hs') d = Some (Inr st')" "status_at (hs @ hs') d ?m st'"
    using evaluate_started [OF w assms(3)] started by auto
  have "?n \<le> ?m" unfolding tip_window_def by (intro div_le_mono) simp
  moreover have "win_start d j \<le> win_start d ?n" using j by (intro win_start_mono) (simp add: locked_at_def)
  with tip_window_bounds [OF w started] have "win_start d j \<le> length hs" by simp
  ultimately have j': "locked_at (hs @ hs') d ?m j" using j bip9_extend [of d j hs hs'] by (simp add: locked_at_def)
  have act: "ds_activation st = of_nat (win_start d (Suc j))" "ds_activation st' = of_nat (win_start d (Suc j))"
    using st st'(2) j j' by (simp_all add: status_at_def)
  have "win_start d (Suc j) < 2 ^ 64" using \<open>win_start d j \<le> length hs\<close> assms(2) by (simp add: win_start_Suc numbered_def)
  then have u: "unat (ds_activation st) = win_start d (Suc j)" by (simp add: act(1) unat_of_nat)
  have b: "win_start d ?m < length (hs @ hs')" "length (hs @ hs') - 1 < win_start d (Suc ?m)"
    using tip_window_bounds [OF w, of "hs @ hs'"] started by simp_all
  have "win_start d (Suc j) < length (hs @ hs') \<longleftrightarrow> j \<noteq> ?m"
  proof
    show "win_start d (Suc j) < length (hs @ hs') \<Longrightarrow> j \<noteq> ?m" using b(2) by auto
    assume "j \<noteq> ?m"
    then have "Suc j \<le> ?m" using j' by (simp add: locked_at_def)
    then show "win_start d (Suc j) < length (hs @ hs')" using b(1) win_start_mono [of "Suc j" ?m d] by linarith
  qed
  then show ?thesis using st' act u locked_state [OF j'] by (auto simp: status_at_def)
qed

lemma install_lookup:
  "fmlookup (upgrades (install_status st cfg)) n =
     (if n = dep_name (ds_deployment st)
      then (if ds_state st \<in> {DeploymentLockedIn, DeploymentActive} then Some (ds_activation st) else None)
      else fmlookup (upgrades cfg) n)"
  by (simp add: install_status_def SetUpgradeHeight_def ClearUpgradeHeight_def)

lemma window_step_deployment: "window_step hs d k w st = Inr st' \<Longrightarrow> ds_deployment st' = ds_deployment st"
  by (auto simp: window_step_def Let_def split: if_splits sum.splits deployment_state.splits)

lemma windows_deployment:
  assumes "deployment_windows hs d tip k st = Some (Inr st')"
  shows "ds_deployment st' = ds_deployment st"
proof -
  have "r = Inr st' \<longrightarrow> ds_deployment st' = ds_deployment st" if "deployment_windows hs d tip k st = Some r" for r
    using that
  proof (rule deployment_windows.raw_induct [rotated, where P = "\<lambda>hs d tip k st r. r = Inr st' \<longrightarrow> ds_deployment st' = ds_deployment st"])
    fix f hs d tip k st r
    assume ih: "\<And>hs d tip k st r. f hs d tip k st = Some r \<Longrightarrow> r = Inr st' \<longrightarrow> ds_deployment st' = ds_deployment st"
      and run: "(let winStart = dep_start d + k * dep_window d in
          if tip < winStart then Some (Inr st)
          else case window_step hs d k winStart st of Inl p \<Rightarrow> Some (Inl p) | Inr st' \<Rightarrow> f hs d tip (k + 1) st') = Some r"
    show "r = Inr st' \<longrightarrow> ds_deployment st' = ds_deployment st"
      using run by (auto simp: Let_def split: if_splits sum.splits dest!: ih window_step_deployment)
  qed
  with assms show ?thesis by simp
qed

lemma evaluate_deployment: "evaluateDeployment hs d = Some (Inr st) \<Longrightarrow> ds_deployment st = d"
  by (auto simp: evaluateDeployment_def Let_def initial_status_def
      split: if_splits option.splits sum.splits dest!: windows_deployment)

lemma statuses_deployments: "deploymentStatuses hs ds = Some (Inr sts) \<Longrightarrow> map ds_deployment sts = ds"
  by (induction ds arbitrary: sts) (auto split: option.splits sum.splits dest: evaluate_deployment)

lemma fold_install_other:
  "n \<notin> set (map (dep_name \<circ> ds_deployment) sts) \<Longrightarrow>
   fmlookup (upgrades (fold install_status sts c)) n = fmlookup (upgrades c) n"
  by (induction sts arbitrary: c) (simp_all add: install_lookup)

lemma refresh_lookup:
  assumes "deploymentStatuses hs ds = Some (Inr sts)" "d \<in> set ds" "distinct (map dep_name ds)"
  shows "\<exists>st. evaluateDeployment hs d = Some (Inr st)
    \<and> fmlookup (upgrades (fold install_status sts cfg)) (dep_name d)
      = (if ds_state st \<in> {DeploymentLockedIn, DeploymentActive} then Some (ds_activation st) else None)"
  using assms
proof (induction ds arbitrary: sts cfg)
  case (Cons e es)
  from Cons.prems(1) obtain st sts' where st: "evaluateDeployment hs e = Some (Inr st)"
    "deploymentStatuses hs es = Some (Inr sts')" "sts = st # sts'"
    by (auto split: option.splits sum.splits)
  show ?case
  proof (cases "d = e")
    case True
    have "map (dep_name \<circ> ds_deployment) sts' = map dep_name es"
      using statuses_deployments [OF st(2)] by (metis map_map)
    with Cons.prems(3) True have "dep_name d \<notin> set (map (dep_name \<circ> ds_deployment) sts')" by simp
    then show ?thesis using st True evaluate_deployment [OF st(1)] by (simp add: fold_install_other install_lookup)
  qed (use Cons st in auto)
qed simp

text \<open>What \<open>RegisterDeployment\<close> keeps of the table: names, accepted terms, and one deployment per bit.\<close>

definition table_ok :: "deployment_table \<Rightarrow> bool" where
  "table_ok table \<longleftrightarrow>
     (\<forall>n d. fmlookup table n = Some d \<longrightarrow> dep_name d = n \<and> dep_Validate d = None)
     \<and> (\<forall>n d n' d'. fmlookup table n = Some d \<longrightarrow> fmlookup table n' = Some d' \<longrightarrow> dep_bit d = dep_bit d' \<longrightarrow> n = n')"

lemma set_Deployments: "d \<in> set (Deployments table) \<longleftrightarrow> (\<exists>n. fmlookup table n = Some d)"
  by (auto simp: Deployments_def fmlookup_dom'_iff image_iff Bex_def)

lemma Deployments_names: "table_ok table \<Longrightarrow> map dep_name (Deployments table) = fmkeys table"
  by (auto simp: Deployments_def table_ok_def fmlookup_dom'_iff intro!: map_idI)

lemma register_keeps_table:
  assumes "table_ok table" "RegisterDeployment d table = Inr table'"
  shows "table_ok table'"
proof -
  have d: "dep_Validate d = None" "table' = fmupd (dep_name d) d table"
    and free: "\<And>other. other \<in> set (Deployments table) \<Longrightarrow> dep_bit other = dep_bit d \<Longrightarrow> dep_name other = dep_name d"
    using assms(2) by (auto simp: RegisterDeployment_def list_ex_iff split: option.splits if_splits)
  have "n = dep_name d" if "fmlookup table n = Some other" "dep_bit other = dep_bit d" for n other
    using that assms(1) free [of other] by (auto simp: set_Deployments table_ok_def)
  then show ?thesis using assms(1) d by (auto simp: table_ok_def split: if_splits)
qed

text \<open>
  No rule without a vote: when the refreshed upgrade table has a voted rule in force at a height,
  the headers contain a complete window in which at least the threshold of blocks signalled, and the
  height is at least one whole window after the end of it.
\<close>

theorem rule_needs_votes:
  assumes "table_ok table" "fmlookup table n = Some d" "numbered hs d"
    and "refreshDeployments table hs cfg = Some (Inr cfg')" "IsUpgradeActive cfg' n h"
  shows "\<exists>j. win_start d (Suc j) < length hs \<and> unat (dep_threshold d) \<le> votes hs d j \<and> win_start d (Suc (Suc j)) \<le> unat h"
proof -
  have d: "dep_name d = n" "dep_Validate d = None" using assms(1,2) by (auto simp: table_ok_def)
  have "d \<in> set (Deployments table)" "distinct (map dep_name (Deployments table))"
    using assms(1,2) by (auto simp: set_Deployments Deployments_names)
  moreover obtain sts where "deploymentStatuses hs (Deployments table) = Some (Inr sts)" "cfg' = fold install_status sts cfg"
    using assms(4) by (auto simp: refreshDeployments_def split: option.splits sum.splits)
  ultimately obtain st where st: "evaluateDeployment hs d = Some (Inr st)"
    "ds_state st \<in> {DeploymentLockedIn, DeploymentActive}" "ds_activation st \<le> h"
    using refresh_lookup [of hs _ _ d cfg] assms(5) d(1)
    by (fastforce simp: IsUpgradeActive_def split: option.splits if_splits)
  have w: "dep_window d \<noteq> 0" using d(2) by (rule valid_window)
  have started: "unat (dep_start d) < length hs"
    using evaluate_early [OF assms(3)] st(1,2) by (cases "length hs \<le> unat (dep_start d)") (auto simp: initial_status_def)
  then have at: "status_at hs d (tip_window hs d) st" using evaluate_started [OF w assms(3)] st(1) by auto
  with st(2) obtain j where j: "locked_at hs d (tip_window hs d) j"
    using active_was_locked [of hs d "tip_window hs d"] by (auto simp: status_at_def)
  then obtain i where i: "j = Suc i" "unat (dep_threshold d) \<le> votes hs d i"
    using lock_has_votes [of hs d j] by (auto simp: locked_at_def)
  have le: "win_start d j < length hs"
    using j tip_window_bounds(1) [OF w started] win_start_mono [of j "tip_window hs d" d] by (simp add: locked_at_def)
  then have "win_start d (Suc j) < 2 ^ 64" using assms(3) by (simp add: win_start_Suc numbered_def)
  moreover have "ds_activation st = of_nat (win_start d (Suc j))" using at j by (simp add: status_at_def)
  ultimately have "win_start d (Suc j) \<le> unat h" using st(3) by (simp add: word_le_nat_alt unat_of_nat)
  then show ?thesis using i le by blast
qed

section \<open>Instances\<close>

text \<open>A vote on bit 1 in windows of two blocks, of which one must signal, from height 1 on.\<close>

definition sample_vote :: deployment where
  "sample_vote = \<lparr>dep_name = ''vault'', dep_bit = 1, dep_start = 1, dep_timeout = 9, dep_window = 2, dep_threshold = 1\<rparr>"

definition signal_header :: "u64 \<Rightarrow> header" where
  "signal_header i = (block_Header plain_block)\<lparr>hdr_index := i, hdr_version := SignalVersion [1]\<rparr>"

definition sample_headers :: "header list" where
  "sample_headers = map signal_header [0, 1, 2, 3]"

lemma sample_vote_valid: "dep_Validate sample_vote = None"
  by (simp add: dep_Validate_def sample_vote_def KnownUpgrade_def knownUpgrades_def UpgradeVault_def MaxDeploymentBit_def)

lemma sample_numbered: "numbered sample_headers sample_vote"
  by (simp add: numbered_def sample_headers_def signal_header_def sample_vote_def)


lemma signal_header_signals: "Signals (signal_header i) 1"
proof -
  have "SignalVersion [1] = 0x20000002"
    by (simp add: SignalVersion_def VersionTopBits_def MaxDeploymentBit_def push_bit_eq_mult)
  then show ?thesis by (simp add: Signals_def signal_header_def VersionTopMask_def VersionTopBits_def MaxDeploymentBit_def push_bit_eq_mult)
qed

lemma sample_locked: "locked_at sample_headers sample_vote 1 1"
proof -
  have "[1..<3] = [1, 2 :: nat]" by (simp add: upt_rec)
  then have "votes sample_headers sample_vote 0 = 2"
    by (simp add: votes_def win_start_def sample_vote_def sample_headers_def signal_header_signals)
  then show ?thesis by (simp add: locked_at_def) (simp add: sample_vote_def)
qed

lemma sample_evaluated:
  obtains st where "evaluateDeployment sample_headers sample_vote = Some (Inr st)"
    "ds_state st = DeploymentLockedIn" "ds_activation st = 5" "ds_deployment st = sample_vote"
proof -
  have "tip_window sample_headers sample_vote = 1"
    by (simp add: tip_window_def sample_headers_def sample_vote_def)
  moreover have "dep_window sample_vote \<noteq> 0" "unat (dep_start sample_vote) < length sample_headers"
    by (simp_all add: sample_vote_def sample_headers_def)
  ultimately obtain st where st: "evaluateDeployment sample_headers sample_vote = Some (Inr st)"
    "status_at sample_headers sample_vote 1 st"
    using evaluate_started [OF _ sample_numbered] by auto
  moreover have "ds_activation st = 5" "ds_state st = DeploymentLockedIn"
  proof -
    have "ds_activation st = of_nat (win_start sample_vote (Suc 1))" using st(2) sample_locked unfolding status_at_def by blast
    then show "ds_activation st = 5" by (simp add: win_start_def sample_vote_def)
    show "ds_state st = DeploymentLockedIn" using st(2) sample_locked unfolding status_at_def locked_at_def by simp
  qed
  ultimately show ?thesis using that by (simp add: status_at_def)
qed

theorem lock_in_final_witness:
  "\<exists>st. evaluateDeployment (sample_headers @ map (\<lambda>i. (block_Header plain_block)\<lparr>hdr_index := i\<rparr>) [4, 5]) sample_vote
      = Some (Inr st) \<and> ds_state st = DeploymentActive"
proof -
  have "numbered (sample_headers @ map (\<lambda>i. (block_Header plain_block)\<lparr>hdr_index := i\<rparr>) [4, 5]) sample_vote"
    by (simp add: numbered_def sample_headers_def sample_vote_def)
  moreover obtain st where "evaluateDeployment sample_headers sample_vote = Some (Inr st)"
    "ds_state st = DeploymentLockedIn" "ds_activation st = 5" by (rule sample_evaluated)
  ultimately show ?thesis using lock_in_final [OF sample_vote_valid sample_numbered, of _ st]
    by (fastforce simp: sample_headers_def)
qed

definition sample_table :: deployment_table where
  "sample_table = fmap_of_list [(''vault'', sample_vote)]"

theorem rule_needs_votes_witness:
  "\<exists>j. win_start sample_vote (Suc j) < 4 \<and> unat (dep_threshold sample_vote) \<le> votes sample_headers sample_vote j
    \<and> win_start sample_vote (Suc (Suc j)) \<le> 5"
proof -
  have ok: "table_ok sample_table" "fmlookup sample_table ''vault'' = Some sample_vote"
    using sample_vote_valid by (auto simp: table_ok_def sample_table_def sample_vote_def split: if_splits)
  obtain st where "evaluateDeployment sample_headers sample_vote = Some (Inr st)"
    "ds_state st = DeploymentLockedIn" "ds_activation st = 5" "ds_deployment st = sample_vote" by (rule sample_evaluated)
  moreover have "fmkeys sample_table = [''vault'']"
    by (simp add: fmkeys_def sample_table_def sorted_list_of_fset.rep_eq)
  then have "Deployments sample_table = [sample_vote]" using ok(2) by (simp add: Deployments_def)
  ultimately have "refreshDeployments sample_table sample_headers zero_cfg
      = Some (Inr (SetUpgradeHeight ''vault'' 5 zero_cfg))"
    by (simp add: refreshDeployments_def install_status_def) (simp add: sample_vote_def)
  moreover have "IsUpgradeActive (SetUpgradeHeight ''vault'' 5 zero_cfg) ''vault'' 5"
    by (simp add: IsUpgradeActive_def SetUpgradeHeight_def)
  ultimately have "\<exists>j. win_start sample_vote (Suc j) < length sample_headers
    \<and> unat (dep_threshold sample_vote) \<le> votes sample_headers sample_vote j
    \<and> win_start sample_vote (Suc (Suc j)) \<le> unat (5 :: u64)"
    by (rule rule_needs_votes [OF ok sample_numbered])
  moreover have "length sample_headers = 4" "unat (5 :: u64) = 5" by (simp_all add: sample_headers_def)
  ultimately show ?thesis by metis
qed

end
