(* ===== verification/Store_Codec.thy ===== *)
theory Store_Codec
  imports Params
begin

text \<open>
  The record format of the block store (\<open>core/storecodec.go\<close>): the buffer a record is appended to,
  the reader with its sticky error, the encoding and decoding of transactions and blocks in the
  record versions 2 to 5, and the dispatch on the leading byte (\<open>core/store.go\<close>). The theorem
  characterises the round trip: a record reads back without the three parts of a transaction that no
  version writes, the name operation, the script authorization and the metadata of an issue.
\<close>

section \<open>Writing\<close>

definition storeRecordV2 :: nat where "storeRecordV2 = 2"
definition storeRecordV3 :: nat where "storeRecordV3 = 3"
definition storeRecordV4 :: nat where "storeRecordV4 = 4"
definition storeRecordV5 :: nat where "storeRecordV5 = 5"

definition fieldText :: char where "fieldText = CHR 0x00"
definition fieldHex :: char where "fieldHex = CHR 0x01"

definition maxStoredBlockBytes :: nat where "maxStoredBlockBytes = 64 * 2 ^ 20"
definition MaxMultisigKeysGuess :: nat where "MaxMultisigKeysGuess = 64"

text \<open>Lowercase hexadecimal only: a byte that is no digit of it reads as \<open>-1\<close> in \<open>hexVal\<close>.\<close>

definition hexVal :: "char \<Rightarrow> nat option" where
  "hexVal c = (let n = of_char c in
     if 48 \<le> n \<and> n \<le> 57 then Some (n - 48) else if 97 \<le> n \<and> n \<le> 102 then Some (n - 97 + 10) else None)"

fun hex_pairs :: "string \<Rightarrow> bytes option" where
  "hex_pairs (a # b # cs) =
     (case (hexVal a, hexVal b) of
        (Some hi, Some lo) \<Rightarrow> map_option ((#) (char_of (16 * hi + lo))) (hex_pairs cs)
      | _ \<Rightarrow> None)"
| "hex_pairs cs = Some []"

definition decodeHexLower :: "string \<Rightarrow> bytes option" where
  "decodeHexLower s = (if length s = 0 \<or> length s mod 2 \<noteq> 0 then None else hex_pairs s)"

definition encodeHexLower :: "bytes \<Rightarrow> string" where
  "encodeHexLower raw = hex_encode raw"

definition sb_u64 :: "u64 \<Rightarrow> bytes" where "sb_u64 v = be64 v"
definition sb_u32 :: "u32 \<Rightarrow> bytes" where "sb_u32 v = be32 v"
definition sb_i64 :: "int \<Rightarrow> bytes" where "sb_i64 v = sb_u64 (word_of_int v)"

definition sb_len :: "nat \<Rightarrow> bytes" where "sb_len n = sb_u32 (of_nat n)"

definition sb_str :: "string \<Rightarrow> bytes" where
  "sb_str v =
     (case decodeHexLower v of
        Some raw \<Rightarrow> [fieldHex] @ sb_len (length raw) @ raw
      | None \<Rightarrow> [fieldText] @ sb_len (length v) @ v)"

definition sb_strs :: "string list \<Rightarrow> bytes" where
  "sb_strs vs = sb_len (length vs) @ concat (map sb_str vs)"

definition boolByte :: "bool \<Rightarrow> char" where
  "boolByte b = (if b then CHR 0x01 else CHR 0x00)"

definition sb_optional :: "('a \<Rightarrow> bytes) \<Rightarrow> 'a option \<Rightarrow> bytes" where
  "sb_optional f x = boolByte (x \<noteq> None) # (case x of None \<Rightarrow> [] | Some a \<Rightarrow> f a)"

definition sb_output :: "tx_output \<Rightarrow> bytes" where
  "sb_output o' = sb_str (out_to o') @ sb_u64 (out_amount o')"

definition sb_issue :: "asset_issue \<Rightarrow> bytes" where
  "sb_issue i = sb_str (iss_ticker i) @ sb_u64 (iss_supply i)"

definition sb_asset_op :: "asset_op \<Rightarrow> bytes" where
  "sb_asset_op a = sb_str (aop_op a) @ sb_u64 (aop_amount a) @ sb_str (aop_ticker a) @ sb_u64 (aop_issue_nonce a)"

definition sb_multisig :: "multisig_script \<Rightarrow> bytes" where
  "sb_multisig m = sb_u32 (word_of_int (ms_threshold m)) @ sb_strs (ms_pubkeys m)"

definition sb_htlc :: "htlc_script \<Rightarrow> bytes" where
  "sb_htlc h = sb_str (htlc_hash h) @ sb_str (htlc_recipient h) @ sb_str (htlc_sender h) @ sb_u64 (htlc_timeout h)"

definition sb_vault :: "vault_script \<Rightarrow> bytes" where
  "sb_vault v = sb_str (vault_hot v) @ sb_str (vault_cold v) @ sb_u64 (vault_unlock v)"

definition encodeTxV2 :: "nat \<Rightarrow> transaction \<Rightarrow> bytes" where
  "encodeTxV2 version t =
     sb_str (tx_from t) @ sb_str (tx_to t) @ sb_u64 (tx_amount t) @ sb_u64 (tx_fee t) @ sb_u64 (tx_nonce t)
     @ sb_u64 (tx_expiry t) @ sb_u64 (tx_lock_until t) @ sb_str (tx_memo t)
     @ (sb_len (length (tx_outputs t)) @ concat (map sb_output (tx_outputs t)))
     @ sb_str (tx_asset_id t)
     @ sb_optional sb_issue (tx_issue t)
     @ (if storeRecordV4 \<le> version then sb_optional sb_asset_op (tx_asset_op t) else [])
     @ sb_str (tx_pubkey t) @ sb_str (tx_signature t)
     @ sb_optional sb_multisig (tx_multisig t)
     @ sb_strs (tx_signatures t)
     @ sb_optional sb_htlc (tx_htlc t)
     @ sb_str (tx_preimage t)
     @ sb_optional sb_vault (tx_vault t)
     @ sb_str (tx_fee_payer t) @ sb_str (tx_fee_payer_pubkey t) @ sb_str (tx_fee_payer_sig t)"

definition encodeBlockBody :: "nat \<Rightarrow> block \<Rightarrow> bytes" where
  "encodeBlockBody version b =
     sb_u64 (blk_index b) @ sb_i64 (blk_timestamp b) @ sb_str (blk_prev_hash b) @ sb_str (blk_merkle_root b)
     @ sb_str (blk_state_root b) @ sb_u64 (blk_base_fee b) @ sb_u32 (blk_bits b) @ sb_u64 (blk_nonce b)
     @ sb_str (blk_hash b)
     @ (if storeRecordV5 \<le> version then sb_str (blk_filter_root b) else [])
     @ (if storeRecordV5 \<le> version then sb_str (blk_history_root b) else [])
     @ (sb_len (length (blk_transactions b)) @ concat (map (encodeTxV2 version) (blk_transactions b)))"

definition encodeBlockV2 :: "block \<Rightarrow> bytes" where
  "encodeBlockV2 b = char_of storeRecordV2 # encodeBlockBody storeRecordV2 b"

definition encodeBlockV3 :: "block \<Rightarrow> bytes" where
  "encodeBlockV3 b = char_of storeRecordV3 # sb_u32 (blk_version b) @ encodeBlockBody storeRecordV3 b"

definition encodeBlockV4 :: "block \<Rightarrow> bytes" where
  "encodeBlockV4 b = char_of storeRecordV4 # sb_u32 (blk_version b) @ encodeBlockBody storeRecordV4 b"

definition encodeBlockV5 :: "block \<Rightarrow> bytes" where
  "encodeBlockV5 b = char_of storeRecordV5 # sb_u32 (blk_version b) @ encodeBlockBody storeRecordV5 b"

definition encodeStoredBlock :: "block \<Rightarrow> bytes" where
  "encodeStoredBlock b = encodeBlockV5 b"

section \<open>Reading\<close>

text \<open>The unread rest of the record stands for the buffer and the position; the first error sticks.\<close>

datatype store_error =
    RecordTruncated nat | FieldTooLong nat | UnknownFieldKind char | TooManyStrings nat
  | TooManyOutputs nat | TooManyTxs nat | InTransaction nat store_error | TrailingBytes nat
  | WrongTag char | EmptyRecord | UnrecognizedRecord char | BadJSON

record srdr =
  rd_rest :: bytes
  rd_err :: "store_error option"

type_synonym 'a rd = "srdr \<Rightarrow> 'a \<times> srdr"

definition rd_return :: "'a \<Rightarrow> 'a rd" where
  "rd_return a r = (a, r)"

definition rd_bind :: "'a rd \<Rightarrow> ('a \<Rightarrow> 'b rd) \<Rightarrow> 'b rd" where
  "rd_bind m f r = (case m r of (a, r') \<Rightarrow> f a r')"

definition rd_fail :: "store_error \<Rightarrow> unit rd" where
  "rd_fail e r = ((), if rd_err r = None then r\<lparr>rd_err := Some e\<rparr> else r)"

definition rd_take :: "nat \<Rightarrow> bytes option rd" where
  "rd_take n r =
     (if rd_err r \<noteq> None then (None, r)
      else if length (rd_rest r) < n then (None, snd (rd_fail (RecordTruncated n) r))
      else (Some (take n (rd_rest r)), r\<lparr>rd_rest := drop n (rd_rest r)\<rparr>))"

definition rd_byte :: "char rd" where
  "rd_byte = rd_bind (rd_take 1) (\<lambda>b. rd_return (case b of None \<Rightarrow> CHR 0x00 | Some bs \<Rightarrow> hd bs))"

definition rd_u64 :: "u64 rd" where
  "rd_u64 = rd_bind (rd_take 8) (\<lambda>b. rd_return (case b of None \<Rightarrow> 0 | Some bs \<Rightarrow> of_nat (be_val bs)))"

definition rd_u32 :: "u32 rd" where
  "rd_u32 = rd_bind (rd_take 4) (\<lambda>b. rd_return (case b of None \<Rightarrow> 0 | Some bs \<Rightarrow> of_nat (be_val bs)))"

definition rd_i64 :: "int rd" where
  "rd_i64 = rd_bind rd_u64 (\<lambda>v. rd_return (sint v))"

definition rd_str :: "string rd" where
  "rd_str = rd_bind rd_byte (\<lambda>kind. rd_bind rd_u32 (\<lambda>w. let n = unat w in
     if maxStoredBlockBytes < n then rd_bind (rd_fail (FieldTooLong n)) (\<lambda>_. rd_return [])
     else rd_bind (rd_take n) (\<lambda>raw. case raw of None \<Rightarrow> rd_return []
       | Some bs \<Rightarrow>
           if kind = fieldHex then rd_return (encodeHexLower bs)
           else if kind = fieldText then rd_return bs
           else rd_bind (rd_fail (UnknownFieldKind kind)) (\<lambda>_. rd_return []))))"

text \<open>A counted loop that gives up with \<open>nil\<close> as soon as the reader has failed.\<close>

fun rd_many :: "'a rd \<Rightarrow> nat \<Rightarrow> 'a list \<Rightarrow> 'a list option rd" where
  "rd_many m 0 acc r = (Some (rev acc), r)"
| "rd_many m (Suc n) acc r =
     (case m r of (a, r') \<Rightarrow> if rd_err r' \<noteq> None then (None, r') else rd_many m n (a # acc) r')"

definition rd_strs :: "string list rd" where
  "rd_strs = rd_bind rd_u32 (\<lambda>w. let n = unat w in
     if MaxBlockTxs * MaxMultisigKeysGuess < n then rd_bind (rd_fail (TooManyStrings n)) (\<lambda>_. rd_return [])
     else if n = 0 then rd_return []
     else rd_bind (rd_many rd_str n []) (\<lambda>out. rd_return (case out of None \<Rightarrow> [] | Some vs \<Rightarrow> vs)))"

definition rd_optional :: "'a rd \<Rightarrow> 'a option rd" where
  "rd_optional m = rd_bind rd_byte (\<lambda>b. if b = CHR 0x01 then rd_bind m (\<lambda>a. rd_return (Some a)) else rd_return None)"

definition rd_output :: "tx_output rd" where
  "rd_output = rd_bind rd_str (\<lambda>to. rd_bind rd_u64 (\<lambda>amt. rd_return \<lparr>out_to = to, out_amount = amt\<rparr>))"

text \<open>
  On a corrupt count the source leaves the transaction as it stands and returns. Here the reading goes
  on with no outputs: the reader has failed, so it reads nothing more and its error is what counts.
\<close>

definition rd_outputs :: "tx_output list rd" where
  "rd_outputs = rd_bind rd_u32 (\<lambda>w. let n = unat w in
     if 0 < n then
       (if MaxTxOutputs * 2 < n then rd_bind (rd_fail (TooManyOutputs n)) (\<lambda>_. rd_return [])
        else rd_bind (rd_many rd_output n []) (\<lambda>out. rd_return (case out of None \<Rightarrow> [] | Some vs \<Rightarrow> vs)))
     else rd_return [])"

definition rd_issue :: "asset_issue rd" where
  "rd_issue = rd_bind rd_str (\<lambda>t. rd_bind rd_u64 (\<lambda>s.
     rd_return \<lparr>iss_ticker = t, iss_supply = s, iss_metadata = []\<rparr>))"

definition rd_asset_op :: "asset_op rd" where
  "rd_asset_op = rd_bind rd_str (\<lambda>op. rd_bind rd_u64 (\<lambda>a. rd_bind rd_str (\<lambda>t. rd_bind rd_u64 (\<lambda>n.
     rd_return \<lparr>aop_op = op, aop_amount = a, aop_ticker = t, aop_issue_nonce = n\<rparr>))))"

definition rd_multisig :: "multisig_script rd" where
  "rd_multisig = rd_bind rd_u32 (\<lambda>th. rd_bind rd_strs (\<lambda>ks.
     rd_return \<lparr>ms_threshold = int (unat th), ms_pubkeys = ks\<rparr>))"

definition rd_htlc :: "htlc_script rd" where
  "rd_htlc = rd_bind rd_str (\<lambda>h. rd_bind rd_str (\<lambda>rc. rd_bind rd_str (\<lambda>s. rd_bind rd_u64 (\<lambda>t.
     rd_return \<lparr>htlc_hash = h, htlc_recipient = rc, htlc_sender = s, htlc_timeout = t\<rparr>))))"

definition rd_vault :: "vault_script rd" where
  "rd_vault = rd_bind rd_str (\<lambda>h. rd_bind rd_str (\<lambda>c. rd_bind rd_u64 (\<lambda>u.
     rd_return \<lparr>vault_hot = h, vault_cold = c, vault_unlock = u\<rparr>)))"

definition decodeTxV2 :: "nat \<Rightarrow> transaction rd" where
  "decodeTxV2 version =
     rd_bind rd_str (\<lambda>fr. rd_bind rd_str (\<lambda>to. rd_bind rd_u64 (\<lambda>amount. rd_bind rd_u64 (\<lambda>fee.
     rd_bind rd_u64 (\<lambda>nonce. rd_bind rd_u64 (\<lambda>expiry. rd_bind rd_u64 (\<lambda>lock. rd_bind rd_str (\<lambda>memo.
     rd_bind rd_outputs (\<lambda>outs. rd_bind rd_str (\<lambda>asset. rd_bind (rd_optional rd_issue) (\<lambda>issue.
     rd_bind (if storeRecordV4 \<le> version then rd_optional rd_asset_op else rd_return None) (\<lambda>aop.
     rd_bind rd_str (\<lambda>pk. rd_bind rd_str (\<lambda>sg. rd_bind (rd_optional rd_multisig) (\<lambda>ms.
     rd_bind rd_strs (\<lambda>sigs. rd_bind (rd_optional rd_htlc) (\<lambda>htlc. rd_bind rd_str (\<lambda>pre.
     rd_bind (rd_optional rd_vault) (\<lambda>vault. rd_bind rd_str (\<lambda>fp. rd_bind rd_str (\<lambda>fpk. rd_bind rd_str (\<lambda>fps.
     rd_return \<lparr>tx_from = fr, tx_to = to, tx_amount = amount, tx_fee = fee, tx_nonce = nonce, tx_expiry = expiry,
       tx_lock_until = lock, tx_memo = memo, tx_outputs = outs, tx_asset_id = asset, tx_issue = issue,
       tx_asset_op = aop, tx_name = None, tx_pubkey = pk, tx_signature = sg, tx_multisig = ms,
       tx_signatures = sigs, tx_script = None, tx_htlc = htlc, tx_preimage = pre, tx_vault = vault,
       tx_fee_payer = fp, tx_fee_payer_pubkey = fpk, tx_fee_payer_sig = fps\<rparr>))))))))))))))))))))))"

fun rd_txs :: "nat \<Rightarrow> nat \<Rightarrow> nat \<Rightarrow> srdr \<Rightarrow> store_error + (transaction list \<times> srdr)" where
  "rd_txs version i 0 r = Inr ([], r)"
| "rd_txs version i (Suc n) r =
     (case decodeTxV2 version r of (tx, r') \<Rightarrow>
        (case rd_err r' of Some e \<Rightarrow> Inl (InTransaction i e)
         | None \<Rightarrow> (case rd_txs version (Suc i) n r' of Inl e \<Rightarrow> Inl e | Inr (txs, r'') \<Rightarrow> Inr (tx # txs, r''))))"

definition rd_header :: "nat \<Rightarrow> u32 \<Rightarrow> block rd" where
  "rd_header version ver =
     rd_bind rd_u64 (\<lambda>i. rd_bind rd_i64 (\<lambda>t. rd_bind rd_str (\<lambda>p. rd_bind rd_str (\<lambda>m. rd_bind rd_str (\<lambda>s.
     rd_bind rd_u64 (\<lambda>bf. rd_bind rd_u32 (\<lambda>bits. rd_bind rd_u64 (\<lambda>n. rd_bind rd_str (\<lambda>h.
     rd_bind (if storeRecordV5 \<le> version then rd_str else rd_return []) (\<lambda>f.
     rd_bind (if storeRecordV5 \<le> version then rd_str else rd_return []) (\<lambda>hr.
     rd_return \<lparr>blk_version = ver, blk_index = i, blk_timestamp = t, blk_transactions = [], blk_prev_hash = p,
       blk_merkle_root = m, blk_state_root = s, blk_base_fee = bf, blk_bits = bits, blk_nonce = n, blk_hash = h,
       blk_filter_root = f, blk_history_root = hr\<rparr>)))))))))))"

definition decodeBlockBody :: "nat \<Rightarrow> u32 \<Rightarrow> srdr \<Rightarrow> store_error + block" where
  "decodeBlockBody version ver r0 =
     (case rd_bind (rd_header version ver) (\<lambda>b. rd_bind rd_u32 (\<lambda>w. rd_return (b, unat w))) r0 of ((b, n), r) \<Rightarrow>
      (case rd_err r of Some e \<Rightarrow> Inl e
       | None \<Rightarrow>
           if MaxBlockTxs + 1 < n then Inl (TooManyTxs n)
           else case rd_txs version 0 n r of Inl e \<Rightarrow> Inl e
             | Inr (txs, r') \<Rightarrow>
                 (case rd_err r' of Some e \<Rightarrow> Inl e
                  | None \<Rightarrow> if rd_rest r' \<noteq> [] then Inl (TrailingBytes (length (rd_rest r')))
                      else Inr (b\<lparr>blk_transactions := txs\<rparr>))))"

definition decode_tagged :: "nat \<Rightarrow> bytes \<Rightarrow> store_error + block" where
  "decode_tagged version data =
     (case rd_byte \<lparr>rd_rest = data, rd_err = None\<rparr> of (tag, r) \<Rightarrow>
        if tag \<noteq> char_of version then Inl (WrongTag tag)
        else if version = storeRecordV2 then decodeBlockBody version 0 r
        else (case rd_u32 r of (ver, r') \<Rightarrow> decodeBlockBody version ver r'))"

definition decodeBlockV2 :: "bytes \<Rightarrow> store_error + block" where "decodeBlockV2 = decode_tagged storeRecordV2"
definition decodeBlockV3 :: "bytes \<Rightarrow> store_error + block" where "decodeBlockV3 = decode_tagged storeRecordV3"
definition decodeBlockV4 :: "bytes \<Rightarrow> store_error + block" where "decodeBlockV4 = decode_tagged storeRecordV4"
definition decodeBlockV5 :: "bytes \<Rightarrow> store_error + block" where "decodeBlockV5 = decode_tagged storeRecordV5"

text \<open>Records of the oldest stores are JSON, read by \<open>encoding/json\<close>: a parameter here.\<close>

definition decodeStoredBlock :: "(bytes \<Rightarrow> block option) \<Rightarrow> bytes \<Rightarrow> store_error + block" where
  "decodeStoredBlock json data =
     (if length data = 0 then Inl EmptyRecord
      else let c = hd data in
        if c = char_of storeRecordV5 then decodeBlockV5 data
        else if c = char_of storeRecordV4 then decodeBlockV4 data
        else if c = char_of storeRecordV3 then decodeBlockV3 data
        else if c = char_of storeRecordV2 then decodeBlockV2 data
        else if c = CHR ''{'' then (case json data of None \<Rightarrow> Inl BadJSON | Some b \<Rightarrow> Inr b)
        else Inl (UnrecognizedRecord c))"


section \<open>What a reader makes of a written field\<close>

definition reads :: "'a rd \<Rightarrow> bytes \<Rightarrow> 'a \<Rightarrow> bool" where
  "reads m bs v \<longleftrightarrow> (\<forall>rest. m \<lparr>rd_rest = bs @ rest, rd_err = None\<rparr> = (v, \<lparr>rd_rest = rest, rd_err = None\<rparr>))"

named_theorems reads_intros \<open>a reader returns the value its writer wrote\<close>

lemma reads_run: "reads m bs v \<Longrightarrow> m \<lparr>rd_rest = bs @ rest, rd_err = None\<rparr> = (v, \<lparr>rd_rest = rest, rd_err = None\<rparr>)"
  by (simp add: reads_def)

lemma reads_return: "reads (rd_return v) [] v"
  by (simp add: reads_def rd_return_def)

lemma reads_bind: "reads m xs a \<Longrightarrow> reads (f a) ys b \<Longrightarrow> reads (rd_bind m f) (xs @ ys) b"
  by (simp add: reads_def rd_bind_def)

lemma reads_last: "reads m xs a \<Longrightarrow> f a = rd_return b \<Longrightarrow> reads (rd_bind m f) xs b"
  by (simp add: reads_def rd_bind_def rd_return_def)

lemma reads_take: "length bs = n \<Longrightarrow> reads (rd_take n) bs (Some bs)"
  by (auto simp: reads_def rd_take_def)

lemma reads_byte: "reads rd_byte [c] c"
  unfolding rd_byte_def by (rule reads_last [OF reads_take]) simp_all

lemma be64_val: "of_nat (be_val (be64 v)) = v"
proof -
  have "unat v < 2 ^ 64" using unsigned_less [of v] by simp
  then show ?thesis by (simp add: be64_def be_val_bytes)
qed

lemma be32_val: "of_nat (be_val (be32 v)) = v"
proof -
  have "unat v < 2 ^ 32" using unsigned_less [of v] by simp
  then show ?thesis by (simp add: be32_def be_val_bytes)
qed

lemma reads_u64 [reads_intros]: "reads rd_u64 (sb_u64 v) v"
  unfolding rd_u64_def sb_u64_def by (rule reads_last [OF reads_take]) (simp_all add: be64_val)

lemma reads_u32 [reads_intros]: "reads rd_u32 (sb_u32 v) v"
  unfolding rd_u32_def sb_u32_def by (rule reads_last [OF reads_take]) (simp_all add: be32_val)

definition in_i64 :: "int \<Rightarrow> bool" where
  "in_i64 v \<longleftrightarrow> - (2 ^ 63) \<le> v \<and> v < 2 ^ 63"

lemma reads_i64 [reads_intros]: "in_i64 v \<Longrightarrow> reads rd_i64 (sb_i64 v) v"
  unfolding rd_i64_def sb_i64_def
  by (rule reads_last [OF reads_u64]) (simp add: in_i64_def signed_of_int signed_take_bit_int_eq_self)

lemma unat_len: "n < 2 ^ 32 \<Longrightarrow> unat (of_nat n :: u32) = n"
  by (simp add: unat_of_nat)

text \<open>Reading lowercase hexadecimal back gives the same text.\<close>

lemma hexVal_digit: "hexVal c = Some n \<Longrightarrow> n < 16 \<and> hex_digit n = c"
proof -
  let ?d = "\<lambda>n. if n < 58 then n - 48 else n - 97 + 10"
  have digits: "list_all (\<lambda>m. ?d m < 16 \<and> hex_digit (?d m) = char_of m) ([48..<58] @ [97..<103])" by code_simp
  have "?d m < 16 \<and> hex_digit (?d m) = char_of m" if "48 \<le> m \<and> m \<le> 57 \<or> 97 \<le> m \<and> m \<le> 102" for m :: nat
  proof -
    have "m \<in> set ([48..<58] @ [97..<103])" using that by (simp only: set_append set_upt) auto
    then show ?thesis using digits by (simp only: list_all_iff)
  qed
  from this [of "of_char c"] show "hexVal c = Some n \<Longrightarrow> n < 16 \<and> hex_digit n = c"
    by (auto simp: hexVal_def Let_def split: if_splits)
qed

lemma hex_pairs_encode: "hex_pairs s = Some raw \<Longrightarrow> even (length s) \<Longrightarrow> hex_encode raw = s"
proof (induction s arbitrary: raw rule: hex_pairs.induct)
  case (1 a b cs)
  then obtain hi lo raw' where p: "hexVal a = Some hi" "hexVal b = Some lo" "hex_pairs cs = Some raw'"
    "raw = char_of (16 * hi + lo) # raw'"
    by (auto split: option.splits)
  then have d: "hi < 16" "lo < 16" "hex_digit hi = a" "hex_digit lo = b" using hexVal_digit by blast+
  then have "of_char (char_of (16 * hi + lo) :: char) = 16 * hi + lo" by (simp add: of_char_of)
  moreover have "hex_encode raw' = cs" using 1(1) [OF refl p(1,2,3)] 1(3) by simp
  ultimately show ?case using p(4) d by simp
qed auto

lemma decodeHexLower_encode: "decodeHexLower s = Some raw \<Longrightarrow> encodeHexLower raw = s \<and> 2 * length raw = length s"
  using hex_pairs_encode [of s raw] length_hex_encode [of raw]
  by (auto simp: decodeHexLower_def encodeHexLower_def even_iff_mod_2_eq_zero split: if_splits)

definition fits :: "string \<Rightarrow> bool" where
  "fits v \<longleftrightarrow> length v \<le> maxStoredBlockBytes"

lemma max_lt: "n \<le> maxStoredBlockBytes \<Longrightarrow> n < 2 ^ 32"
  by (simp add: maxStoredBlockBytes_def)

lemma reads_str_aux:
  assumes "length raw \<le> maxStoredBlockBytes" "k = fieldHex \<and> v = encodeHexLower raw \<or> k = fieldText \<and> v = raw"
  shows "reads rd_str ([k] @ sb_len (length raw) @ raw) v"
  unfolding rd_str_def sb_len_def
proof (rule reads_bind [OF reads_byte], rule reads_bind [OF reads_u32])
  let ?w = "of_nat (length raw) :: u32"
  have w: "unat ?w = length raw" using assms(1) by (intro unat_len max_lt)
  have "fieldHex \<noteq> fieldText" by (simp add: fieldHex_def fieldText_def)
  then show "reads (let n = unat ?w in
     if maxStoredBlockBytes < n then rd_bind (rd_fail (FieldTooLong n)) (\<lambda>_. rd_return [])
     else rd_bind (rd_take n) (\<lambda>raw. case raw of None \<Rightarrow> rd_return []
       | Some bs \<Rightarrow>
           if k = fieldHex then rd_return (encodeHexLower bs)
           else if k = fieldText then rd_return bs
           else rd_bind (rd_fail (UnknownFieldKind k)) (\<lambda>_. rd_return []))) raw v"
    using assms by (auto simp: w intro!: reads_last [OF reads_take])
qed

lemma reads_str [reads_intros]: "fits v \<Longrightarrow> reads rd_str (sb_str v) v"
  unfolding sb_str_def fits_def
  using reads_str_aux [of v fieldText v] reads_str_aux [of _ fieldHex v] decodeHexLower_encode [of v]
  by (auto split: option.split)

lemma reads_many:
  assumes "\<And>v. v \<in> set vs \<Longrightarrow> reads m (w v) (g v)"
  shows "reads (rd_many m (length vs) acc) (concat (map w vs)) (Some (rev acc @ map g vs))"
  using assms
proof (induction vs arbitrary: acc)
  case (Cons v vs)
  from Cons.IH [of "g v # acc"] Cons.prems show ?case by (simp add: reads_def)
qed (simp add: reads_def)

lemma reads_strs [reads_intros]:
  assumes "length vs \<le> MaxBlockTxs * MaxMultisigKeysGuess" "list_all fits vs"
  shows "reads rd_strs (sb_strs vs) vs"
  unfolding rd_strs_def sb_strs_def sb_len_def
proof (rule reads_bind [OF reads_u32])
  have "length vs < 2 ^ 32" using assms(1) by (simp add: MaxBlockTxs_def MaxMultisigKeysGuess_def)
  then have w: "unat (of_nat (length vs) :: u32) = length vs" by (rule unat_len)
  have "reads (rd_many rd_str (length vs) []) (concat (map sb_str vs)) (Some vs)"
    using reads_many [where w = sb_str and g = "\<lambda>v. v" and m = rd_str and acc = "[]"] reads_str assms(2) by (auto simp: list_all_iff)
  then show "reads (let n = unat (of_nat (length vs) :: u32) in
     if MaxBlockTxs * MaxMultisigKeysGuess < n then rd_bind (rd_fail (TooManyStrings n)) (\<lambda>_. rd_return [])
     else if n = 0 then rd_return []
     else rd_bind (rd_many rd_str n []) (\<lambda>out. rd_return (case out of None \<Rightarrow> [] | Some vs \<Rightarrow> vs)))
     (concat (map sb_str vs)) vs"
    using assms(1) by (auto simp: w reads_return intro!: reads_last)
qed

lemma reads_optional:
  assumes "\<And>a. x = Some a \<Longrightarrow> reads m (f a) (g a)"
  shows "reads (rd_optional m) (sb_optional f x) (map_option g x)"
proof (cases x)
  case None
  then show ?thesis unfolding rd_optional_def sb_optional_def
    using None by (auto simp: boolByte_def intro!: reads_last [OF reads_byte])
next
  case (Some a)
  have "reads (rd_bind m (\<lambda>a. rd_return (Some a))) (f a) (Some (g a))"
    by (rule reads_last [OF assms [OF Some]]) simp
  then show ?thesis unfolding rd_optional_def sb_optional_def
    using reads_bind [OF reads_byte, of "\<lambda>b. if b = CHR 0x01 then rd_bind m (\<lambda>a. rd_return (Some a)) else rd_return None"
      "CHR 0x01" "f a"] by (simp add: Some boolByte_def)
qed


section \<open>Round trip\<close>

lemma rd_return_cong: "a = b \<Longrightarrow> rd_return a = rd_return b"
  by simp

lemma reads_output: "fits (out_to x) \<Longrightarrow> reads rd_output (sb_output x) x"
  unfolding rd_output_def sb_output_def by (rule reads_bind reads_last reads_intros rd_return_cong tx_output.equality | simp)+

lemma reads_outputs:
  assumes "length vs \<le> MaxTxOutputs * 2" "list_all (\<lambda>x. fits (out_to x)) vs"
  shows "reads rd_outputs (sb_len (length vs) @ concat (map sb_output vs)) vs"
  unfolding rd_outputs_def sb_len_def
proof (rule reads_bind [OF reads_u32])
  have "length vs < 2 ^ 32" using assms(1) by (simp add: MaxTxOutputs_def)
  then have w: "unat (of_nat (length vs) :: u32) = length vs" by (rule unat_len)
  have "reads (rd_many rd_output (length vs) []) (concat (map sb_output vs)) (Some vs)"
    using reads_many [where w = sb_output and g = "\<lambda>v. v" and m = rd_output and acc = "[]"] reads_output assms(2)
    by (auto simp: list_all_iff)
  then show "reads (let n = unat (of_nat (length vs) :: u32) in
     if 0 < n then
       (if MaxTxOutputs * 2 < n then rd_bind (rd_fail (TooManyOutputs n)) (\<lambda>_. rd_return [])
        else rd_bind (rd_many rd_output n []) (\<lambda>out. rd_return (case out of None \<Rightarrow> [] | Some vs \<Rightarrow> vs)))
     else rd_return []) (concat (map sb_output vs)) vs"
    using assms(1) by (auto simp: w Let_def reads_return intro!: reads_last)
qed

text \<open>The size limits of the format, all beyond what a valid block holds.\<close>

definition multisig_fits :: "multisig_script \<Rightarrow> bool" where
  "multisig_fits m \<longleftrightarrow> 0 \<le> ms_threshold m \<and> ms_threshold m < 2 ^ 32
     \<and> length (ms_pubkeys m) \<le> MaxBlockTxs * MaxMultisigKeysGuess \<and> list_all fits (ms_pubkeys m)"

definition storable_tx :: "transaction \<Rightarrow> bool" where
  "storable_tx t \<longleftrightarrow>
     list_all fits [tx_from t, tx_to t, tx_memo t, tx_asset_id t, tx_pubkey t, tx_signature t, tx_preimage t,
       tx_fee_payer t, tx_fee_payer_pubkey t, tx_fee_payer_sig t]
     \<and> length (tx_outputs t) \<le> MaxTxOutputs * 2 \<and> list_all (\<lambda>x. fits (out_to x)) (tx_outputs t)
     \<and> pred_option (\<lambda>i. fits (iss_ticker i)) (tx_issue t)
     \<and> pred_option (\<lambda>a. fits (aop_op a) \<and> fits (aop_ticker a)) (tx_asset_op t)
     \<and> pred_option multisig_fits (tx_multisig t)
     \<and> length (tx_signatures t) \<le> MaxBlockTxs * MaxMultisigKeysGuess \<and> list_all fits (tx_signatures t)
     \<and> pred_option (\<lambda>h. fits (htlc_hash h) \<and> fits (htlc_recipient h) \<and> fits (htlc_sender h)) (tx_htlc t)
     \<and> pred_option (\<lambda>v. fits (vault_hot v) \<and> fits (vault_cold v)) (tx_vault t)"

definition storable :: "block \<Rightarrow> bool" where
  "storable b \<longleftrightarrow> in_i64 (blk_timestamp b)
     \<and> list_all fits [blk_prev_hash b, blk_merkle_root b, blk_state_root b, blk_hash b, blk_filter_root b, blk_history_root b]
     \<and> length (blk_transactions b) \<le> MaxBlockTxs + 1 \<and> list_all storable_tx (blk_transactions b)"

text \<open>What a record of the given version keeps of a transaction and of a block.\<close>

definition kept_tx :: "nat \<Rightarrow> transaction \<Rightarrow> transaction" where
  "kept_tx version t = t\<lparr>tx_issue := map_option (\<lambda>i. i\<lparr>iss_metadata := []\<rparr>) (tx_issue t),
     tx_asset_op := (if storeRecordV4 \<le> version then tx_asset_op t else None), tx_name := None, tx_script := None\<rparr>"

definition kept_block :: "nat \<Rightarrow> block \<Rightarrow> block" where
  "kept_block version b = b\<lparr>blk_version := (if storeRecordV3 \<le> version then blk_version b else 0),
     blk_filter_root := (if storeRecordV5 \<le> version then blk_filter_root b else []),
     blk_history_root := (if storeRecordV5 \<le> version then blk_history_root b else []),
     blk_transactions := map (kept_tx version) (blk_transactions b)\<rparr>"

lemma reads_issue: "fits (iss_ticker i) \<Longrightarrow> reads rd_issue (sb_issue i) (i\<lparr>iss_metadata := []\<rparr>)"
  unfolding rd_issue_def sb_issue_def by (rule reads_bind reads_last reads_intros rd_return_cong asset_issue.equality | simp)+

lemma reads_asset_op: "fits (aop_op a) \<Longrightarrow> fits (aop_ticker a) \<Longrightarrow> reads rd_asset_op (sb_asset_op a) a"
  unfolding rd_asset_op_def sb_asset_op_def by (rule reads_bind reads_last reads_intros rd_return_cong asset_op.equality | simp)+

lemma reads_multisig: "multisig_fits m \<Longrightarrow> reads rd_multisig (sb_multisig m) m"
  unfolding rd_multisig_def sb_multisig_def
  by (rule reads_bind reads_last reads_intros rd_return_cong multisig_script.equality | simp add: multisig_fits_def unsigned_of_int take_bit_int_eq_self)+

lemma reads_htlc:
  "fits (htlc_hash h) \<Longrightarrow> fits (htlc_recipient h) \<Longrightarrow> fits (htlc_sender h) \<Longrightarrow> reads rd_htlc (sb_htlc h) h"
  unfolding rd_htlc_def sb_htlc_def by (rule reads_bind reads_last reads_intros rd_return_cong htlc_script.equality | simp)+

lemma reads_vault: "fits (vault_hot v) \<Longrightarrow> fits (vault_cold v) \<Longrightarrow> reads rd_vault (sb_vault v) v"
  unfolding rd_vault_def sb_vault_def by (rule reads_bind reads_last reads_intros rd_return_cong vault_script.equality | simp)+

lemma reads_optional_id:
  "(\<And>a. x = Some a \<Longrightarrow> reads m (f a) a) \<Longrightarrow> reads (rd_optional m) (sb_optional f x) x"
  using reads_optional [of x m f "\<lambda>a. a"] by (simp add: option.map_ident)

lemma reads_tx:
  assumes "storable_tx t"
  shows "reads (decodeTxV2 version) (encodeTxV2 version t) (kept_tx version t)"
proof -
  have aop: "reads (if storeRecordV4 \<le> version then rd_optional rd_asset_op else rd_return None)
      (if storeRecordV4 \<le> version then sb_optional sb_asset_op (tx_asset_op t) else [])
      (if storeRecordV4 \<le> version then tx_asset_op t else None)"
    using assms by (auto simp: storable_tx_def reads_return intro!: reads_optional_id reads_asset_op)
  have opts: "reads (rd_optional rd_issue) (sb_optional sb_issue (tx_issue t))
      (map_option (\<lambda>i. i\<lparr>iss_metadata := []\<rparr>) (tx_issue t))"
    "reads (rd_optional rd_multisig) (sb_optional sb_multisig (tx_multisig t)) (tx_multisig t)"
    "reads (rd_optional rd_htlc) (sb_optional sb_htlc (tx_htlc t)) (tx_htlc t)"
    "reads (rd_optional rd_vault) (sb_optional sb_vault (tx_vault t)) (tx_vault t)"
    using assms
    by (auto simp: storable_tx_def intro!: reads_optional reads_optional_id reads_issue reads_multisig reads_htlc reads_vault)
  have out: "reads rd_outputs (sb_len (length (tx_outputs t)) @ concat (map sb_output (tx_outputs t))) (tx_outputs t)"
    using assms by (intro reads_outputs) (simp_all add: storable_tx_def)
  have sizes: "fits (tx_from t)" "fits (tx_to t)" "fits (tx_memo t)" "fits (tx_asset_id t)" "fits (tx_pubkey t)"
    "fits (tx_signature t)" "fits (tx_preimage t)" "fits (tx_fee_payer t)" "fits (tx_fee_payer_pubkey t)"
    "fits (tx_fee_payer_sig t)" "length (tx_signatures t) \<le> MaxBlockTxs * MaxMultisigKeysGuess"
    "list_all fits (tx_signatures t)"
    using assms by (simp_all add: storable_tx_def)
  show ?thesis
    unfolding decodeTxV2_def encodeTxV2_def
    by (rule reads_bind reads_intros aop opts out reads_last sizes rd_return_cong transaction.equality)+
      (simp_all add: kept_tx_def)
qed


lemma reads_header:
  assumes "storable b"
  shows "reads (rd_header version ver)
    (sb_u64 (blk_index b) @ sb_i64 (blk_timestamp b) @ sb_str (blk_prev_hash b) @ sb_str (blk_merkle_root b)
     @ sb_str (blk_state_root b) @ sb_u64 (blk_base_fee b) @ sb_u32 (blk_bits b) @ sb_u64 (blk_nonce b)
     @ sb_str (blk_hash b)
     @ (if storeRecordV5 \<le> version then sb_str (blk_filter_root b) else [])
     @ (if storeRecordV5 \<le> version then sb_str (blk_history_root b) else []))
    ((kept_block version b)\<lparr>blk_version := ver, blk_transactions := []\<rparr>)"
proof -
  have sizes: "in_i64 (blk_timestamp b)" "fits (blk_prev_hash b)" "fits (blk_merkle_root b)" "fits (blk_state_root b)"
    "fits (blk_hash b)" "fits (blk_filter_root b)" "fits (blk_history_root b)"
    using assms by (simp_all add: storable_def)
  have root: "reads (if storeRecordV5 \<le> version then rd_str else rd_return [])
      (if storeRecordV5 \<le> version then sb_str v else []) (if storeRecordV5 \<le> version then v else [])" if "fits v" for v
    using that by (simp add: reads_str reads_return)
  show ?thesis unfolding rd_header_def
    by (rule reads_bind reads_intros root reads_last sizes rd_return_cong block.equality)+
      (simp_all add: kept_block_def)
qed

lemma rd_txs_reads:
  assumes "list_all storable_tx txs"
  shows "rd_txs version i (length txs) \<lparr>rd_rest = concat (map (encodeTxV2 version) txs) @ rest, rd_err = None\<rparr>
    = Inr (map (kept_tx version) txs, \<lparr>rd_rest = rest, rd_err = None\<rparr>)"
  using assms
proof (induction txs arbitrary: i)
  case (Cons t txs)
  then show ?case using reads_run [OF reads_tx, of t version "concat (map (encodeTxV2 version) txs) @ rest"] by simp
qed simp

lemma decodeBlockBody_encode:
  assumes "storable b"
  shows "decodeBlockBody version ver \<lparr>rd_rest = encodeBlockBody version b, rd_err = None\<rparr>
    = Inr ((kept_block version b)\<lparr>blk_version := ver\<rparr>)"
proof -
  let ?n = "length (blk_transactions b)" and ?b = "(kept_block version b)\<lparr>blk_version := ver, blk_transactions := []\<rparr>"
  let ?txs = "concat (map (encodeTxV2 version) (blk_transactions b))"
  have n: "?n \<le> MaxBlockTxs + 1" "list_all storable_tx (blk_transactions b)" using assms by (simp_all add: storable_def)
  then have w: "unat (of_nat ?n :: u32) = ?n" by (intro unat_len) (simp add: MaxBlockTxs_def)
  have "reads (rd_bind (rd_header version ver) (\<lambda>b. rd_bind rd_u32 (\<lambda>w. rd_return (b, unat w))))
    ((sb_u64 (blk_index b) @ sb_i64 (blk_timestamp b) @ sb_str (blk_prev_hash b) @ sb_str (blk_merkle_root b)
     @ sb_str (blk_state_root b) @ sb_u64 (blk_base_fee b) @ sb_u32 (blk_bits b) @ sb_u64 (blk_nonce b)
     @ sb_str (blk_hash b)
     @ (if storeRecordV5 \<le> version then sb_str (blk_filter_root b) else [])
     @ (if storeRecordV5 \<le> version then sb_str (blk_history_root b) else [])) @ sb_u32 (of_nat ?n)) (?b, ?n)"
    by (rule reads_bind [OF reads_header [OF assms]], rule reads_last [OF reads_u32]) (simp only: w)
  from reads_run [OF this, of ?txs]
  have "rd_bind (rd_header version ver) (\<lambda>b. rd_bind rd_u32 (\<lambda>w. rd_return (b, unat w)))
      \<lparr>rd_rest = encodeBlockBody version b, rd_err = None\<rparr> = ((?b, ?n), \<lparr>rd_rest = ?txs, rd_err = None\<rparr>)"
    by (simp only: encodeBlockBody_def sb_len_def append_assoc)
  moreover have "rd_txs version 0 ?n \<lparr>rd_rest = ?txs, rd_err = None\<rparr>
      = Inr (map (kept_tx version) (blk_transactions b), \<lparr>rd_rest = [], rd_err = None\<rparr>)"
    using rd_txs_reads [OF n(2), of version 0 "[]"] by simp
  ultimately show ?thesis using n(1) by (simp add: decodeBlockBody_def) (simp add: kept_block_def)
qed

lemma decode_encode_version:
  assumes "storable b" "version \<in> {storeRecordV2, storeRecordV3, storeRecordV4, storeRecordV5}"
  shows "decode_tagged version (char_of version # (if version = storeRecordV2 then [] else sb_u32 (blk_version b))
      @ encodeBlockBody version b) = Inr (kept_block version b)"
proof -
  have "rd_byte \<lparr>rd_rest = char_of version # xs, rd_err = None\<rparr> = (char_of version, \<lparr>rd_rest = xs, rd_err = None\<rparr>)" for xs
    using reads_run [OF reads_byte, of "char_of version" xs] by simp
  moreover have "rd_u32 \<lparr>rd_rest = sb_u32 (blk_version b) @ xs, rd_err = None\<rparr>
      = (blk_version b, \<lparr>rd_rest = xs, rd_err = None\<rparr>)" for xs by (rule reads_run [OF reads_u32])
  moreover have "(kept_block version b)\<lparr>blk_version := (if version = storeRecordV2 then 0 else blk_version b)\<rparr> = kept_block version b"
    using assms(2) by (auto simp: kept_block_def storeRecordV2_def storeRecordV3_def storeRecordV4_def storeRecordV5_def)
  ultimately show ?thesis by (auto simp: decode_tagged_def decodeBlockBody_encode [OF assms(1)])
qed

lemma map_fixed: "map f xs = xs \<longleftrightarrow> list_all (\<lambda>x. f x = x) xs"
  by (induction xs) auto

lemma no_metadata: "i\<lparr>iss_metadata := []\<rparr> = i \<longleftrightarrow> iss_metadata i = []"
  by (cases i) auto

text \<open>
  C39. Round trip of the block store, for every record version: what is read back is the block without
  the fields that version does not write. In the version written today that is the block itself
  exactly when none of its transactions has a name operation, a script or issue metadata; with one of
  them the record reads back as a different block.
\<close>

theorem store_roundtrip:
  assumes "storable b"
  shows "decodeStoredBlock json (encodeBlockV2 b) = Inr (kept_block 2 b)
    \<and> decodeStoredBlock json (encodeBlockV3 b) = Inr (kept_block 3 b)
    \<and> decodeStoredBlock json (encodeBlockV4 b) = Inr (kept_block 4 b)
    \<and> decodeStoredBlock json (encodeStoredBlock b) = Inr (kept_block 5 b)
    \<and> (decodeStoredBlock json (encodeStoredBlock b) = Inr b \<longleftrightarrow>
        list_all (\<lambda>t. tx_name t = None \<and> tx_script t = None \<and> pred_option (\<lambda>i. iss_metadata i = []) (tx_issue t))
          (blk_transactions b))"
proof -
  note tags = storeRecordV2_def storeRecordV3_def storeRecordV4_def storeRecordV5_def
  have five: "decodeStoredBlock json (encodeStoredBlock b) = Inr (kept_block 5 b)"
    using decode_encode_version [OF assms, of 5]
    by (simp add: decodeStoredBlock_def encodeStoredBlock_def encodeBlockV5_def decodeBlockV5_def tags)
  have kept: "kept_tx 5 t = t \<longleftrightarrow> tx_name t = None \<and> tx_script t = None \<and> pred_option (\<lambda>i. iss_metadata i = []) (tx_issue t)" for t
    by (cases t; cases "tx_issue t") (auto simp: kept_tx_def tags no_metadata)
  have "kept_block 5 b = b \<longleftrightarrow> map (kept_tx 5) (blk_transactions b) = blk_transactions b"
    by (cases b) (simp add: kept_block_def tags)
  also have "\<dots> \<longleftrightarrow> list_all (\<lambda>t. kept_tx 5 t = t) (blk_transactions b)"
    by (rule map_fixed)
  finally have whole: "kept_block 5 b = b \<longleftrightarrow> list_all (\<lambda>t. kept_tx 5 t = t) (blk_transactions b)" .
  have "decodeStoredBlock json (encodeBlockV2 b) = Inr (kept_block 2 b)"
    "decodeStoredBlock json (encodeBlockV3 b) = Inr (kept_block 3 b)"
    "decodeStoredBlock json (encodeBlockV4 b) = Inr (kept_block 4 b)"
    using decode_encode_version [OF assms, of 2] decode_encode_version [OF assms, of 3] decode_encode_version [OF assms, of 4]
    by (simp_all add: decodeStoredBlock_def encodeBlockV2_def decodeBlockV2_def encodeBlockV3_def decodeBlockV3_def
        encodeBlockV4_def decodeBlockV4_def tags)
  then show ?thesis using five whole by (simp add: kept)
qed


section \<open>Instances\<close>

text \<open>A block whose only transaction registers a name.\<close>

definition naming_block :: block where
  "naming_block = \<lparr>blk_version = 1, blk_index = 7, blk_timestamp = - 5,
     blk_transactions = [zero_tx\<lparr>tx_from := ''alice'',
       tx_name := Some \<lparr>nop_op = ''register'', nop_name = ''shop'', nop_target = ''alice'', nop_periods = 1\<rparr>\<rparr>],
     blk_prev_hash = ''ab'', blk_merkle_root = [], blk_state_root = ''cd'', blk_base_fee = 10,
     blk_bits = 5, blk_nonce = 7, blk_hash = [], blk_filter_root = [], blk_history_root = []\<rparr>"

theorem store_roundtrip_witness:
  "decodeStoredBlock (\<lambda>_. None) (encodeStoredBlock naming_block) = Inr (kept_block 5 naming_block)
    \<and> decodeStoredBlock (\<lambda>_. None) (encodeStoredBlock naming_block) \<noteq> Inr naming_block"
proof -
  have "storable naming_block"
    by (simp add: storable_def naming_block_def storable_tx_def zero_tx_def fits_def in_i64_def maxStoredBlockBytes_def)
  note trip = store_roundtrip [OF this, of "\<lambda>_. None"]
  have "\<not> list_all (\<lambda>t. tx_name t = None \<and> tx_script t = None \<and> pred_option (\<lambda>i. iss_metadata i = []) (tx_issue t))
      (blk_transactions naming_block)" by (simp add: naming_block_def)
  with trip show ?thesis by blast
qed

end
