(* ===== verification/Block_Store.thy ===== *)
theory Block_Store
  imports Store_Codec
begin

text \<open>
  The append-only log of blocks (\<open>core/store.go\<close>): length-framed records in one file, their offsets,
  appending, truncation at a reorganisation, the poison flag, and the scan that opens a log. The file
  is its contents; every I/O call takes its outcome from a given list, \<open>None\<close> for success and
  \<open>Some k\<close> for a failure that had \<open>k\<close> bytes written, so every partial failure is a run of the model.
  The theorems: opening a log cut off at any byte recovers exactly the blocks whose records are
  complete; an append that reports success has its block in the log, and one that reports an error
  may have it too, when only the final sync failed.
\<close>

section \<open>Files\<close>

record block_store =
  bs_file :: bytes
  bs_offsets :: "nat list"
  bs_size :: nat
  bs_poisoned :: bool
  bs_io :: "nat option list"

datatype io_error = IOFailed | StorePoisoned | NotABlockStore

definition write_bytes :: "bytes \<Rightarrow> nat \<Rightarrow> bytes \<Rightarrow> bytes" where
  "write_bytes file off data =
     take off file @ replicate (off - length file) (CHR 0x00) @ data @ drop (off + length data) file"

definition next_io :: "block_store \<Rightarrow> nat option \<times> block_store" where
  "next_io s = (case bs_io s of [] \<Rightarrow> (None, s) | x # xs \<Rightarrow> (x, s\<lparr>bs_io := xs\<rparr>))"

definition file_WriteAt :: "bytes \<Rightarrow> nat \<Rightarrow> block_store \<Rightarrow> io_error option \<times> block_store" where
  "file_WriteAt data off s =
     (case next_io s of
        (None, s1) \<Rightarrow> (None, s1\<lparr>bs_file := write_bytes (bs_file s1) off data\<rparr>)
      | (Some k, s1) \<Rightarrow> (Some IOFailed, s1\<lparr>bs_file := write_bytes (bs_file s1) off (take k data)\<rparr>))"

definition file_Truncate :: "nat \<Rightarrow> block_store \<Rightarrow> io_error option \<times> block_store" where
  "file_Truncate n s =
     (case next_io s of
        (None, s1) \<Rightarrow> (None, s1\<lparr>bs_file := take n (bs_file s1) @ replicate (n - length (bs_file s1)) (CHR 0x00)\<rparr>)
      | (Some _, s1) \<Rightarrow> (Some IOFailed, s1))"

definition file_Sync :: "block_store \<Rightarrow> io_error option \<times> block_store" where
  "file_Sync s = (case next_io s of (None, s1) \<Rightarrow> (None, s1) | (Some _, s1) \<Rightarrow> (Some IOFailed, s1))"

section \<open>The log\<close>

definition store_poison :: "block_store \<Rightarrow> block_store" where
  "store_poison s = s\<lparr>bs_poisoned := True\<rparr>"

definition store_append :: "block \<Rightarrow> block_store \<Rightarrow> io_error option \<times> block_store" where
  "store_append b s =
     (let data = encodeStoredBlock b in
      if bs_poisoned s then (Some StorePoisoned, s)
      else case file_WriteAt (be32 (of_nat (length data))) (bs_size s) s of
          (Some e, s1) \<Rightarrow> (Some e, s1)
        | (None, s1) \<Rightarrow>
            (case file_WriteAt data (bs_size s1 + 4) s1 of
               (Some e, s2) \<Rightarrow> (Some e, s2)
             | (None, s2) \<Rightarrow>
                 file_Sync (s2\<lparr>bs_offsets := bs_offsets s2 @ [bs_size s2],
                   bs_size := bs_size s2 + 4 + length data\<rparr>)))"

definition store_truncateAfter :: "nat \<Rightarrow> block_store \<Rightarrow> io_error option \<times> block_store" where
  "store_truncateAfter height s =
     (if bs_poisoned s then (Some StorePoisoned, s)
      else let keep = height + 1 in
        if length (bs_offsets s) \<le> keep then (None, s)
        else let newSize = bs_offsets s ! keep in
          case file_Truncate newSize s of
            (Some e, s1) \<Rightarrow> (Some e, s1)
          | (None, s1) \<Rightarrow> file_Sync (s1\<lparr>bs_offsets := take keep (bs_offsets s1), bs_size := newSize\<rparr>))"

text \<open>
  The scan shared by \<open>readStore\<close> and \<open>openStore\<close>: complete, decodable records from the front; the
  result has the blocks, their offsets and the end of the last record.
\<close>

function read_records :: "(bytes \<Rightarrow> block option) \<Rightarrow> nat \<Rightarrow> bytes \<Rightarrow> block list \<times> nat list \<times> nat" where
  "read_records json off rest =
     (if length rest < 4 then ([], [], off)
      else let n = be_val (take 4 rest); body = drop 4 rest in
        if n = 0 \<or> maxStoredBlockBytes < n then ([], [], off)
        else if length body < n then ([], [], off)
        else case decodeStoredBlock json (take n body) of
            Inl _ \<Rightarrow> ([], [], off)
          | Inr b \<Rightarrow> (case read_records json (off + 4 + n) (drop n body) of (bs, os, fin) \<Rightarrow> (b # bs, off # os, fin)))"
  by pat_completeness auto
termination
  by (relation "measure (\<lambda>(_, _, rest). length rest)") auto

declare read_records.simps [simp del]

definition readStore :: "(bytes \<Rightarrow> block option) \<Rightarrow> bytes \<Rightarrow> io_error + (block list \<times> nat \<times> nat)" where
  "readStore json file =
     (case read_records json 0 file of (bs, os, off) \<Rightarrow>
        if length bs = 0 \<and> 0 < length file then Inl NotABlockStore else Inr (bs, off, length file))"

definition openStore :: "(bytes \<Rightarrow> block option) \<Rightarrow> nat option list \<Rightarrow> bytes \<Rightarrow> io_error + (block_store \<times> block list)" where
  "openStore json io file =
     (case read_records json 0 file of (bs, os, off) \<Rightarrow>
        if off \<noteq> length file \<and> length bs = 0 \<and> 0 < length file then Inl NotABlockStore
        else let s = \<lparr>bs_file = file, bs_offsets = os, bs_size = 0, bs_poisoned = False, bs_io = io\<rparr> in
          if off \<noteq> length file
          then (case file_Truncate off s of (Some e, _) \<Rightarrow> Inl e | (None, s1) \<Rightarrow> Inr (s1\<lparr>bs_size := off\<rparr>, bs))
          else Inr (s\<lparr>bs_size := off\<rparr>, bs))"

section \<open>What a log holds\<close>

definition framed :: "block \<Rightarrow> bytes" where
  "framed b = be32 (of_nat (length (encodeStoredBlock b))) @ encodeStoredBlock b"

definition log_bytes :: "block list \<Rightarrow> bytes" where
  "log_bytes bs = concat (map framed bs)"

definition log_offsets :: "block list \<Rightarrow> nat list" where
  "log_offsets bs = map (\<lambda>i. length (log_bytes (take i bs))) [0..<length bs]"

text \<open>The store stands for these blocks: their records, then bytes past its size that do not count.\<close>

definition holds_blocks :: "block_store \<Rightarrow> block list \<Rightarrow> bool" where
  "holds_blocks s bs \<longleftrightarrow> (\<exists>tail. bs_file s = log_bytes bs @ tail)
     \<and> bs_size s = length (log_bytes bs) \<and> bs_offsets s = log_offsets bs"

lemma log_bytes_snoc: "log_bytes (bs @ [b]) = log_bytes bs @ framed b"
  by (simp add: log_bytes_def)

lemma log_bytes_append: "log_bytes (bs @ cs) = log_bytes bs @ log_bytes cs"
  by (simp add: log_bytes_def)

lemma log_offsets_snoc: "log_offsets (bs @ [b]) = log_offsets bs @ [length (log_bytes bs)]"
  by (simp add: log_offsets_def)

lemma length_log_offsets [simp]: "length (log_offsets bs) = length bs"
  by (simp add: log_offsets_def)

lemma take_log_offsets: "take n (log_offsets bs) = log_offsets (take n bs)"
  by (auto simp: log_offsets_def take_map min_def intro!: nth_equalityI)

lemma next_io_fields [simp]:
  "next_io s = (x, s1) \<Longrightarrow> bs_file s1 = bs_file s \<and> bs_offsets s1 = bs_offsets s \<and> bs_size s1 = bs_size s
    \<and> bs_poisoned s1 = bs_poisoned s"
  by (auto simp: next_io_def split: list.splits)

lemma write_at_end:
  assumes "file = p @ tail"
  shows "\<exists>tail'. write_bytes file (length p) data = p @ data @ tail'"
  using assms by (auto simp: write_bytes_def)

lemma WriteAt_fields:
  "file_WriteAt data off s = (r, s1) \<Longrightarrow> bs_offsets s1 = bs_offsets s \<and> bs_size s1 = bs_size s \<and> bs_poisoned s1 = bs_poisoned s"
  by (auto simp: file_WriteAt_def split: prod.splits option.splits)

lemma WriteAt_end:
  assumes "file_WriteAt data (length p) s = (r, s1)" "bs_file s = p @ tail"
  shows "\<exists>tail'. bs_file s1 = p @ (if r = None then data else []) @ tail'"
proof -
  have "\<exists>tail'. write_bytes (bs_file s) (length p) d = p @ d @ tail'" for d
    using assms(2) by (rule write_at_end)
  then show ?thesis using assms(1)
    by (auto simp: file_WriteAt_def split: prod.splits option.splits) (metis append.assoc)
qed

lemma Sync_fields:
  "file_Sync s = (r, s1) \<Longrightarrow> bs_file s1 = bs_file s \<and> bs_offsets s1 = bs_offsets s \<and> bs_size s1 = bs_size s
    \<and> bs_poisoned s1 = bs_poisoned s"
  by (auto simp: file_Sync_def split: prod.splits option.splits)


lemma append_outcome:
  assumes "holds_blocks s bs" "\<not> bs_poisoned s" "store_append b s = (r, s')"
  shows "(if r = None then holds_blocks s' (bs @ [b]) else holds_blocks s' bs \<or> holds_blocks s' (bs @ [b]))
    \<and> \<not> bs_poisoned s'"
proof -
  let ?p = "log_bytes bs" and ?data = "encodeStoredBlock b"
  let ?len = "be32 (of_nat (length ?data))"
  obtain tail where s: "bs_file s = ?p @ tail" "bs_size s = length ?p" "bs_offsets s = log_offsets bs"
    using assms(1) by (auto simp: holds_blocks_def)
  obtain r1 s1 where w1: "file_WriteAt ?len (length ?p) s = (r1, s1)" by fastforce
  obtain t1 where f1: "bs_file s1 = ?p @ (if r1 = None then ?len else []) @ t1" using WriteAt_end [OF w1 s(1)] by blast
  note a1 = WriteAt_fields [OF w1]
  show ?thesis
  proof (cases r1)
    case (Some e)
    then have "r = Some e" "s' = s1" using assms(2,3) w1 s(2) by (auto simp: store_append_def Let_def)
    then show ?thesis using Some f1 a1 s assms(2) by (auto simp: holds_blocks_def)
  next
    case None
    obtain r2 s2 where w2: "file_WriteAt ?data (length (?p @ ?len)) s1 = (r2, s2)" by fastforce
    have "bs_file s1 = (?p @ ?len) @ t1" using f1 None by simp
    from WriteAt_end [OF w2 this] obtain t2
      where f2: "bs_file s2 = (?p @ ?len) @ (if r2 = None then ?data else []) @ t2" by blast
    note a2 = WriteAt_fields [OF w2]
    have run: "store_append b s = (case r2 of Some e \<Rightarrow> (Some e, s2)
        | None \<Rightarrow> file_Sync (s2\<lparr>bs_offsets := bs_offsets s2 @ [bs_size s2], bs_size := bs_size s2 + 4 + length ?data\<rparr>))"
      using assms(2) w1 w2 s(2) None a1 by (simp add: store_append_def Let_def split: option.split)
    show ?thesis
    proof (cases r2)
      case (Some e)
      then show ?thesis using run assms(2,3) f2 a1 a2 s by (auto simp: holds_blocks_def)
    next
      case None
      let ?s3 = "s2\<lparr>bs_offsets := bs_offsets s2 @ [bs_size s2], bs_size := bs_size s2 + 4 + length ?data\<rparr>"
      have "file_Sync ?s3 = (r, s')" using run assms(3) None by simp
      note a3 = Sync_fields [OF this]
      have "holds_blocks s' (bs @ [b])"
        using a1 a2 a3 f2 None s by (simp add: holds_blocks_def log_bytes_snoc log_offsets_snoc framed_def)
      then show ?thesis using a1 a2 a3 assms(2) by simp
    qed
  qed
qed

lemma truncate_outcome:
  assumes "holds_blocks s bs" "\<not> bs_poisoned s" "store_truncateAfter h s = (r, s')"
  shows "(if r = None then holds_blocks s' (take (h + 1) bs) else holds_blocks s' bs \<or> holds_blocks s' (take (h + 1) bs))
    \<and> \<not> bs_poisoned s'"
proof (cases "length bs \<le> h + 1")
  case True
  then show ?thesis using assms by (auto simp: store_truncateAfter_def holds_blocks_def)
next
  case False
  obtain tail where s: "bs_file s = log_bytes bs @ tail" "bs_size s = length (log_bytes bs)" "bs_offsets s = log_offsets bs"
    using assms(1) by (auto simp: holds_blocks_def)
  let ?n = "length (log_bytes (take (h + 1) bs))"
  have n: "bs_offsets s ! (h + 1) = ?n" using False s(3) by (simp add: log_offsets_def del: upt_Suc)
  have split: "log_bytes bs = log_bytes (take (h + 1) bs) @ log_bytes (drop (h + 1) bs)"
    by (metis append_take_drop_id log_bytes_append)
  obtain r1 s1 where t1: "file_Truncate ?n s = (r1, s1)" by fastforce
  have a1: "bs_offsets s1 = bs_offsets s" "bs_size s1 = bs_size s" "bs_poisoned s1 = bs_poisoned s"
    "bs_file s1 = (if r1 = None then log_bytes (take (h + 1) bs) else bs_file s)"
    using t1 s(1) split by (auto simp: file_Truncate_def split: prod.splits option.splits)
  have run: "store_truncateAfter h s = (case r1 of Some e \<Rightarrow> (Some e, s1)
      | None \<Rightarrow> file_Sync (s1\<lparr>bs_offsets := take (h + 1) (bs_offsets s1), bs_size := ?n\<rparr>))"
    using assms(2) False s(3) t1 n by (simp add: store_truncateAfter_def Let_def split: option.split)
  show ?thesis
  proof (cases r1)
    case (Some e)
    then show ?thesis using run assms(2,3) a1 s by (auto simp: holds_blocks_def)
  next
    case None
    let ?s2 = "s1\<lparr>bs_offsets := take (h + 1) (bs_offsets s1), bs_size := ?n\<rparr>"
    have "file_Sync ?s2 = (r, s')" using run assms(3) None by simp
    note a2 = Sync_fields [OF this]
    have "holds_blocks s' (take (h + 1) bs)"
      using a1 a2 None s by (simp add: holds_blocks_def take_log_offsets)
    then show ?thesis using a1 a2 assms(2) by simp
  qed
qed

section \<open>Opening a log\<close>

definition loggable :: "block \<Rightarrow> bool" where
  "loggable b \<longleftrightarrow> storable b \<and> length (encodeStoredBlock b) \<le> maxStoredBlockBytes"

lemma frame_length:
  assumes "loggable b"
  shows "be_val (take 4 (framed b @ rest)) = length (encodeStoredBlock b)"
    "drop 4 (framed b @ rest) = encodeStoredBlock b @ rest" "length (framed b) = 4 + length (encodeStoredBlock b)"
    "0 < length (encodeStoredBlock b)"
proof -
  have "length (encodeStoredBlock b) < 2 ^ 32" using assms by (intro max_lt) (simp add: loggable_def)
  then show "be_val (take 4 (framed b @ rest)) = length (encodeStoredBlock b)"
    by (simp add: framed_def be32_def be_val_bytes unat_of_nat)
qed (simp_all add: framed_def encodeStoredBlock_def encodeBlockV5_def)

lemma stored_block_decodes:
  assumes "loggable b"
  shows "decodeStoredBlock json (encodeStoredBlock b) = Inr (kept_block 5 b)"
  using decode_encode_version [of b 5] assms
  by (simp add: loggable_def decodeStoredBlock_def encodeStoredBlock_def encodeBlockV5_def decodeBlockV5_def
      storeRecordV2_def storeRecordV3_def storeRecordV4_def storeRecordV5_def)

lemma read_torn:
  assumes "loggable b" "k < length (framed b)"
  shows "read_records json off (take k (framed b @ rest)) = ([], [], off)"
proof (cases "k < 4")
  case True
  then show ?thesis using frame_length(3) [OF assms(1)] by (subst read_records.simps) simp
next
  case False
  have "take 4 (take k (framed b @ rest)) = take 4 (framed b @ rest)" using False by (simp only: take_take min_def) simp
  moreover have "length (drop 4 (take k (framed b @ rest))) < length (encodeStoredBlock b)"
    using assms frame_length(3,4) [OF assms(1)] False by simp
  ultimately show ?thesis using frame_length(1) [OF assms(1), of rest]
    by (subst read_records.simps) (simp add: Let_def)
qed

lemma read_whole:
  assumes "loggable b" "length (framed b) \<le> k"
  shows "read_records json off (take k (framed b @ rest)) =
    (case read_records json (off + length (framed b)) (take (k - length (framed b)) rest) of
       (bs, os, fin) \<Rightarrow> (kept_block 5 b # bs, off # os, fin))"
proof -
  let ?d = "encodeStoredBlock b" and ?r = "take (k - length (framed b)) rest"
  have "take k (framed b @ rest) = framed b @ ?r" using assms(2) by simp
  moreover have "length ?d \<le> maxStoredBlockBytes" using assms(1) by (simp add: loggable_def)
  ultimately show ?thesis using frame_length [OF assms(1)] stored_block_decodes [OF assms(1), of json]
    by (subst read_records.simps) (simp add: Let_def add.assoc split: prod.split)
qed

text \<open>The number of records that end within the first \<open>k\<close> bytes of a log.\<close>

fun whole_records :: "nat \<Rightarrow> block list \<Rightarrow> nat" where
  "whole_records k [] = 0"
| "whole_records k (b # bs) = (if length (framed b) \<le> k then Suc (whole_records (k - length (framed b)) bs) else 0)"

lemma read_log:
  assumes "list_all loggable bs"
  shows "read_records json off (take k (log_bytes bs)) =
    (map (kept_block 5) (take (whole_records k bs) bs),
     map ((+) off) (log_offsets (take (whole_records k bs) bs)), off + length (log_bytes (take (whole_records k bs) bs)))"
  using assms
proof (induction bs arbitrary: k off)
  case Nil
  then show ?case by (subst read_records.simps) (simp add: log_bytes_def log_offsets_def)
next
  case (Cons b bs)
  have b: "loggable b" "list_all loggable bs" using Cons.prems by simp_all
  have cons: "log_bytes (b # cs) = framed b @ log_bytes cs"
    "log_offsets (b # cs) = 0 # map ((+) (length (framed b))) (log_offsets cs)" for cs
    by (simp_all add: log_bytes_def log_offsets_def upt_conv_Cons map_Suc_upt [symmetric] del: upt_Suc)
  show ?case
  proof (cases "length (framed b) \<le> k")
    case True
    then show ?thesis using Cons.IH [OF b(2)] read_whole [OF b(1) True]
      by (simp add: cons add.assoc o_def)
  next
    case False
    then show ?thesis using read_torn [OF b(1), of k] by (simp add: cons log_bytes_def log_offsets_def)
  qed
qed

lemma whole_records_fit:
  "length (log_bytes (take (whole_records k bs) bs)) \<le> k \<and> whole_records k bs \<le> length bs
   \<and> (whole_records k bs < length bs \<longrightarrow> k < length (log_bytes (take (Suc (whole_records k bs)) bs)))"
proof (induction bs arbitrary: k)
  case (Cons b bs)
  from Cons [of "k - length (framed b)"] show ?case by (auto simp: log_bytes_def)
qed (simp add: log_bytes_def)


section \<open>Theorems\<close>

text \<open>
  C40. Crash recovery: a log cut off after any number of bytes, past its first record, opens, and the
  blocks recovered are the longest run of complete records, as the record format keeps them. The
  opened store is truncated to exactly these records.
\<close>

theorem reopen_after_crash:
  assumes "list_all loggable (b # bs)" "length (framed b) \<le> k" "k \<le> length (log_bytes (b # bs))"
  shows "\<exists>s m. openStore json [] (take k (log_bytes (b # bs))) = Inr (s, map (kept_block 5) (take m (b # bs)))
    \<and> 0 < m \<and> holds_blocks s (take m (b # bs)) \<and> bs_file s = log_bytes (take m (b # bs))
    \<and> bs_size s \<le> k \<and> (m < length (b # bs) \<longrightarrow> k < length (log_bytes (take (Suc m) (b # bs))))"
proof -
  let ?bs = "b # bs" and ?file = "take k (log_bytes (b # bs))"
  define m where "m = whole_records k ?bs"
  have m: "0 < m" "length (log_bytes (take m ?bs)) \<le> k" "m \<le> length ?bs"
    "m < length ?bs \<Longrightarrow> k < length (log_bytes (take (Suc m) ?bs))"
    using whole_records_fit [of k ?bs] assms(2) by (auto simp: m_def simp del: take_Suc_Cons)
  have "log_bytes ?bs = log_bytes (take m ?bs) @ log_bytes (drop m ?bs)"
    by (metis append_take_drop_id log_bytes_append)
  then have pre: "take (length (log_bytes (take m ?bs))) ?file = log_bytes (take m ?bs)" using m(2) by (simp add: take_take min_def)
  have scan: "read_records json 0 ?file
      = (map (kept_block 5) (take m ?bs), log_offsets (take m ?bs), length (log_bytes (take m ?bs)))"
    using read_log [OF assms(1), of json 0 k] by (simp add: m_def map_idI)
  have ne: "take m ?bs \<noteq> []" using m(1) by (cases m) auto
  have len: "length ?file = k" using assms(3) by simp
  show ?thesis
  proof (cases "length (log_bytes (take m ?bs)) = k")
    case True
    then have "?file = log_bytes (take m ?bs)" using pre len by (metis order_refl take_all)
    then show ?thesis using scan True len m ne
      by (intro exI [of _ "\<lparr>bs_file = ?file, bs_offsets = log_offsets (take m ?bs), bs_size = k, bs_poisoned = False, bs_io = []\<rparr>"]
          exI [of _ m]) (simp add: openStore_def holds_blocks_def del: take_Suc_Cons)
  next
    case False
    let ?s = "\<lparr>bs_file = log_bytes (take m ?bs), bs_offsets = log_offsets (take m ?bs),
      bs_size = length (log_bytes (take m ?bs)), bs_poisoned = False, bs_io = []\<rparr>"
    have "openStore json [] ?file = Inr (?s, map (kept_block 5) (take m ?bs))"
      using scan False len ne pre m(2) by (simp add: openStore_def file_Truncate_def next_io_def)
    moreover have "holds_blocks ?s (take m ?bs)" by (simp add: holds_blocks_def)
    ultimately show ?thesis using m by (intro exI [of _ ?s] exI [of _ m]) auto
  qed
qed

text \<open>
  Appending and truncating, whatever the outcomes of the I/O calls: a healthy store stands for the
  new blocks when the call reports success, and for the old or the new blocks when it reports an
  error; it never holds anything else, and neither call poisons it.
\<close>

theorem store_calls_atomic:
  assumes "holds_blocks s bs" "\<not> bs_poisoned s"
  shows "(case store_append b s of (r, s') \<Rightarrow> \<not> bs_poisoned s' \<and>
      (if r = None then holds_blocks s' (bs @ [b]) else holds_blocks s' bs \<or> holds_blocks s' (bs @ [b])))
    \<and> (case store_truncateAfter h s of (r, s') \<Rightarrow> \<not> bs_poisoned s' \<and>
      (if r = None then holds_blocks s' (take (h + 1) bs) else holds_blocks s' bs \<or> holds_blocks s' (take (h + 1) bs)))"
proof -
  obtain r s1 where a: "store_append b s = (r, s1)" by fastforce
  obtain q s2 where c: "store_truncateAfter h s = (q, s2)" by fastforce
  show ?thesis using append_outcome [OF assms a] truncate_outcome [OF assms c] unfolding a c prod.case by blast
qed

text \<open>
  A failed sync leaves its block in the log: the append reports an error, and the block is the last
  record all the same. A caller that drops the block from its memory on the error has one block less
  than its log.
\<close>

theorem failed_sync_keeps_block:
  assumes "holds_blocks s bs" "\<not> bs_poisoned s" "bs_io s = [None, None, Some k]"
  shows "\<exists>s'. store_append b s = (Some IOFailed, s') \<and> holds_blocks s' (bs @ [b])"
proof -
  obtain r s' where run: "store_append b s = (r, s')" by fastforce
  have "r = Some IOFailed \<and> bs_size s' = bs_size s + 4 + length (encodeStoredBlock b)"
    using run assms(2,3) by (auto simp: store_append_def file_WriteAt_def file_Sync_def next_io_def Let_def)
  moreover have "bs_size s = length (log_bytes bs)" using assms(1) by (simp add: holds_blocks_def)
  ultimately have "\<not> holds_blocks s' bs" by (auto simp: holds_blocks_def)
  then show ?thesis using append_outcome [OF assms(1,2) run] run \<open>r = Some IOFailed \<and> _\<close> by simp
qed

section \<open>Instances\<close>

definition empty_store :: "nat option list \<Rightarrow> block_store" where
  "empty_store io = \<lparr>bs_file = [], bs_offsets = [], bs_size = 0, bs_poisoned = False, bs_io = io\<rparr>"

lemma empty_store_holds: "holds_blocks (empty_store io) []" "\<not> bs_poisoned (empty_store io)"
  by (simp_all add: holds_blocks_def empty_store_def log_bytes_def log_offsets_def)

theorem store_calls_atomic_witness:
  "\<exists>s. store_append naming_block (empty_store [Some 2]) = (Some IOFailed, s)
     \<and> (holds_blocks s [] \<or> holds_blocks s [naming_block])"
  using store_calls_atomic [OF empty_store_holds, of naming_block "[Some 2]" 0]
  by (simp add: store_append_def Let_def file_WriteAt_def next_io_def empty_store_def)

theorem failed_sync_keeps_block_witness:
  "\<exists>s. store_append naming_block (empty_store [None, None, Some 0]) = (Some IOFailed, s) \<and> holds_blocks s [naming_block]"
  using failed_sync_keeps_block [OF empty_store_holds, of "[None, None, Some 0]" 0 naming_block]
  by (simp add: empty_store_def)


lemma naming_block_loggable: "loggable naming_block"
proof -
  have "storable naming_block"
    by (simp add: storable_def naming_block_def storable_tx_def zero_tx_def fits_def in_i64_def maxStoredBlockBytes_def)
  moreover have "length (encodeStoredBlock naming_block) \<le> 1000"
    by (simp add: encodeStoredBlock_def encodeBlockV5_def encodeBlockBody_def encodeTxV2_def naming_block_def zero_tx_def
        sb_u32_def sb_u64_def sb_i64_def sb_len_def sb_str_def sb_strs_def sb_optional_def decodeHexLower_def hexVal_def Let_def)
  ultimately show ?thesis by (simp add: loggable_def maxStoredBlockBytes_def)
qed

theorem reopen_after_crash_witness:
  "\<exists>s m. openStore (\<lambda>_. None) [] (take (length (framed naming_block) + 2) (log_bytes [naming_block, naming_block]))
     = Inr (s, map (kept_block 5) (take m [naming_block, naming_block])) \<and> m = 1"
proof -
  let ?k = "length (framed naming_block) + 2"
  have ok: "list_all loggable (naming_block # [naming_block])" using naming_block_loggable by simp
  have "2 \<le> length (framed naming_block)" by (simp add: framed_def)
  then have len: "?k \<le> length (log_bytes (naming_block # [naming_block]))" by (simp add: log_bytes_def)
  obtain s m where "openStore (\<lambda>_. None) [] (take ?k (log_bytes [naming_block, naming_block]))
      = Inr (s, map (kept_block 5) (take m [naming_block, naming_block]))"
    "0 < m" "holds_blocks s (take m [naming_block, naming_block])" "bs_size s \<le> ?k"
    using reopen_after_crash [OF ok _ len, of "\<lambda>_. None"] by auto
  moreover from this have "length (log_bytes (take m [naming_block, naming_block])) \<le> ?k" by (simp add: holds_blocks_def)
  then have "m < 2" using \<open>2 \<le> length (framed naming_block)\<close> by (cases "m < 2") (auto simp: log_bytes_def framed_def)
  ultimately have "m = 1" by linarith
  then show ?thesis using \<open>openStore _ _ _ = _\<close> by blast
qed

end
