(* ===== verification/Chain_Rules.thy ===== *)
theory Chain_Rules
  imports Block_Apply Block_Filter MMR State_Root
begin

text \<open>
  The rules a block must meet as the successor of a chain (\<open>core/blockchain.go\<close>: \<open>GenesisBlock\<close>,
  \<open>validateBlockStructure\<close>, \<open>validateCoinbaseShape\<close>, \<open>checkCommitments\<close>, \<open>applyBlock\<close>;
  \<open>core/checkpoint.go\<close>; \<open>core/network.go\<close>: \<open>genesisPrevHash\<close>) and the context of incremental
  commitments they are checked against (\<open>core/statetrie.go\<close>: \<open>commitCtx\<close>). The lemmas give what an
  accepted block satisfies and that a refused one leaves the ledger as it was.
\<close>

section \<open>Genesis and checkpoints\<close>

definition genesisPrevHash :: "config \<Rightarrow> string" where
  "genesisPrevHash cfg = (if network_id cfg \<noteq> [] then GenesisPrevHash @ '':'' @ network_id cfg else GenesisPrevHash)"

definition GenesisBlock :: "config \<Rightarrow> block" where
  "GenesisBlock cfg =
     (let b = \<lparr>blk_version = 0, blk_index = 0, blk_timestamp = GenesisTimestamp, blk_transactions = [],
            blk_prev_hash = genesisPrevHash cfg, blk_merkle_root = MerkleRoot cfg [],
            blk_state_root = stateRoot cfg fmempty, blk_base_fee = InitialBaseFee, blk_bits = GenesisBits,
            blk_nonce = 0, blk_hash = [], blk_filter_root = [], blk_history_root = []\<rparr>
      in b\<lparr>blk_hash := blk_ComputeHash cfg b\<rparr>)"

definition AddCheckpoint :: "u64 \<Rightarrow> string \<Rightarrow> config \<Rightarrow> config" where
  "AddCheckpoint height hash cfg = cfg\<lparr>checkpoints := fmupd height hash (checkpoints cfg)\<rparr>"

definition checkpointAt :: "config \<Rightarrow> u64 \<Rightarrow> string option" where
  "checkpointAt cfg height =
     (if height = 0 then Some (blk_hash (GenesisBlock cfg)) else fmlookup (checkpoints cfg) height)"

definition highestCheckpoint :: "config \<Rightarrow> u64" where
  "highestCheckpoint cfg = fold (\<lambda>h m. if m < h then h else m) (fmkeys (checkpoints cfg)) 0"

section \<open>The commitment context\<close>

text \<open>
  A \<open>*commitCtx\<close>: the account trie's cursor over the shared node cache, and a private copy of the
  history accumulator; \<open>None\<close> for a nil pointer, of the context or of either part.
\<close>

record commit_ctx =
  cc_root :: "string option"
  cc_nodes :: bounded_nodes
  cc_history :: "mmr option"

definition commitStateRoot :: "config \<Rightarrow> state \<Rightarrow> undo_entry list \<Rightarrow> commit_ctx option \<Rightarrow> string \<times> commit_ctx option" where
  "commitStateRoot cfg state undo cc =
     (case cc of None \<Rightarrow> (stateRoot cfg state, None)
      | Some c \<Rightarrow>
          (case cc_root c of None \<Rightarrow> (stateRoot cfg state, Some c)
           | Some root \<Rightarrow>
               (case rootAfter boundedNodeStore cfg state undo root (cc_nodes c) of
                  (root', nodes) \<Rightarrow> (root', Some (c\<lparr>cc_root := Some root', cc_nodes := nodes\<rparr>)))))"

definition expectedHistoryRoot :: "config \<Rightarrow> commit_ctx option \<Rightarrow> string" where
  "expectedHistoryRoot cfg cc =
     (case cc of None \<Rightarrow> [] | Some c \<Rightarrow> (case cc_history c of None \<Rightarrow> [] | Some h \<Rightarrow> mmr_Root cfg h))"

definition inHistory :: "config \<Rightarrow> u64 \<Rightarrow> bool" where
  "inHistory cfg height \<longleftrightarrow> 0 < height \<and> IsUpgradeActive cfg UpgradeHistoryRoot height"

definition cc_advance :: "config \<Rightarrow> block \<Rightarrow> commit_ctx option \<Rightarrow> commit_ctx option" where
  "cc_advance cfg b cc =
     (case cc of None \<Rightarrow> None
      | Some c \<Rightarrow>
          (case cc_history c of None \<Rightarrow> Some c
           | Some h \<Rightarrow> if inHistory cfg (blk_index b)
               then Some (c\<lparr>cc_history := Some (mmr_Append cfg (blk_hash b) h)\<rparr>) else Some c))"

section \<open>Block rules\<close>

datatype block_error =
    BadIndex u64 u64 | PrevHashMismatch | NotAfterMedian | TooFarInFuture | ViolatesCheckpoint u64
  | WrongBits u32 u32 | WrongBaseFee u64 u64 | FilterRootUncomputable | WrongFilterRoot string string
  | FilterRootTooEarly | WrongHistoryRoot string string | HistoryRootTooEarly
  | BlockInvalidPoW | BlockMerkleMismatch | NoCoinbase | TooManyTransactions | BlockTooLarge nat
  | TooExpensive nat | NotCoinbase | NoRecipient
  | CoinbaseTooLarge nat | RecipientTooLong nat | CoinbaseFee | CoinbaseNonce u64 u64 | CoinbaseNonceSet
  | CoinbaseAsset | CoinbaseSignature | CoinbaseScript | CoinbaseSponsor | CoinbaseMemo nat
  | ApplyErr apply_block_error | StateRootMismatch string string

definition validateCoinbaseShape :: "config \<Rightarrow> transaction \<Rightarrow> u64 \<Rightarrow> block_error option" where
  "validateCoinbaseShape cfg cb height =
     (if MaxCoinbaseBytes < tx_size cfg cb then Some (CoinbaseTooLarge (tx_size cfg cb))
      else if MaxAddressBytes < length (tx_to cb) then Some (RecipientTooLong (length (tx_to cb)))
      else if tx_fee cb \<noteq> 0 \<or> tx_expiry cb \<noteq> 0 \<or> tx_lock_until cb \<noteq> 0 then Some CoinbaseFee
      else if IsUpgradeActive cfg UpgradeUniqueCoinbase height \<and> tx_nonce cb \<noteq> height
        then Some (CoinbaseNonce (tx_nonce cb) height)
      else if \<not> IsUpgradeActive cfg UpgradeUniqueCoinbase height \<and> tx_nonce cb \<noteq> 0 then Some CoinbaseNonceSet
      else if tx_asset_id cb \<noteq> [] \<or> tx_issue cb \<noteq> None \<or> tx_asset_op cb \<noteq> None then Some CoinbaseAsset
      else if tx_pubkey cb \<noteq> [] \<or> tx_signature cb \<noteq> [] \<or> 0 < length (tx_signatures cb) then Some CoinbaseSignature
      else if tx_multisig cb \<noteq> None \<or> tx_htlc cb \<noteq> None \<or> tx_vault cb \<noteq> None \<or> tx_preimage cb \<noteq> []
        then Some CoinbaseScript
      else if tx_fee_payer cb \<noteq> [] \<or> tx_fee_payer_pubkey cb \<noteq> [] \<or> tx_fee_payer_sig cb \<noteq> [] then Some CoinbaseSponsor
      else if MaxMemoBytes < length (tx_memo cb) then Some (CoinbaseMemo (length (tx_memo cb)))
      else None)"

definition checkCommitments :: "config \<Rightarrow> block \<Rightarrow> block \<Rightarrow> commit_ctx option \<Rightarrow> block_error option" where
  "checkCommitments cfg prev b cc =
     err_then
       (if IsUpgradeActive cfg UpgradeFilterCommit (blk_index b)
        then (case BlockFilterRoot cfg (blk_filter_root prev) b of None \<Rightarrow> Some FilterRootUncomputable
              | Some want \<Rightarrow> if blk_filter_root b \<noteq> want then Some (WrongFilterRoot (blk_filter_root b) want) else None)
        else if blk_filter_root b \<noteq> [] then Some FilterRootTooEarly else None)
       (if IsUpgradeActive cfg UpgradeHistoryRoot (blk_index b)
        then let want = expectedHistoryRoot cfg cc in
          if want \<noteq> [] \<and> blk_history_root b \<noteq> want then Some (WrongHistoryRoot (blk_history_root b) want) else None
        else if blk_history_root b \<noteq> [] then Some HistoryRootTooEarly else None)"

definition blockWeight :: "config \<Rightarrow> block \<Rightarrow> nat" where
  "blockWeight cfg b = sum_list (map (tx_size cfg) (drop 1 (blk_transactions b)))"

text \<open>\<open>now\<close> is \<open>NetworkTime()\<close>, the clock as corrected by the peers.\<close>

definition validateBlockStructure :: "config \<Rightarrow> int \<Rightarrow> block list \<Rightarrow> block \<Rightarrow> commit_ctx option \<Rightarrow> block_error option" where
  "validateBlockStructure cfg now blocks b cc =
     (let prev = last blocks in
      if blk_index b \<noteq> blk_index prev + 1 then Some (BadIndex (blk_index b) (blk_index prev))
      else if blk_prev_hash b \<noteq> blk_hash prev then Some PrevHashMismatch
      else if blk_timestamp b \<le> medianTimePast blocks then Some NotAfterMedian
      else if now + MaxFutureDrift < blk_timestamp b then Some TooFarInFuture
      else if (case checkpointAt cfg (blk_index b) of None \<Rightarrow> False | Some cp \<Rightarrow> blk_hash b \<noteq> cp)
        then Some (ViolatesCheckpoint (blk_index b))
      else if blk_bits b \<noteq> expectedBits cfg blocks (blk_index b)
        then Some (WrongBits (blk_bits b) (expectedBits cfg blocks (blk_index b)))
      else if blk_base_fee b \<noteq> expectedBaseFee blocks (blk_index b)
        then Some (WrongBaseFee (blk_base_fee b) (expectedBaseFee blocks (blk_index b)))
      else err_then (checkCommitments cfg prev b cc)
       (if \<not> blk_HasValidPoW cfg b then Some BlockInvalidPoW
        else if MerkleRoot cfg (blk_transactions b) \<noteq> blk_merkle_root b then Some BlockMerkleMismatch
        else if length (blk_transactions b) = 0 then Some NoCoinbase
        else if MaxBlockTxs + 1 < length (blk_transactions b) then Some TooManyTransactions
        else if MaxBlockBytes < blockWeight cfg b then Some (BlockTooLarge (blockWeight cfg b))
        else if MaxBlockVerifyOps < BlockVerifyOps (blk_transactions b)
          then Some (TooExpensive (BlockVerifyOps (blk_transactions b)))
        else let coinbase = hd (blk_transactions b) in
          if \<not> IsCoinbase coinbase then Some NotCoinbase
          else if tx_to coinbase = [] then Some NoRecipient
          else validateCoinbaseShape cfg coinbase (blk_index b)))"

text \<open>What a block meets besides the chain: the corrected clock, and the pool that warms the cache.\<close>

record env =
  env_now :: int
  env_cores :: int
  env_order :: "transaction list \<Rightarrow> transaction list"

definition applyBlock :: "config \<Rightarrow> env \<Rightarrow> state \<Rightarrow> block list \<Rightarrow> block \<Rightarrow> vcache option \<Rightarrow> commit_ctx option
    \<Rightarrow> (block_error + undo_entry list) \<times> state \<times> vcache option \<times> commit_ctx option" where
  "applyBlock cfg env state blocks b cache cc =
     (case validateBlockStructure cfg (env_now env) blocks b cc of
        Some e \<Rightarrow> (Inl e, state, cache, cc)
      | None \<Rightarrow>
          let cache1 = verifyAllAuthorized cfg (env_cores env) (env_order env) (blk_transactions b) cache in
          (case applyTxsAndCoinbase cfg state blocks b cache1 of
             (Inl e, state1, cache2) \<Rightarrow> (Inl (ApplyErr e), state1, cache2, cc)
           | (Inr undo, state1, cache2) \<Rightarrow>
               (case commitStateRoot cfg state1 undo cc of (root, cc1) \<Rightarrow>
                  if blk_state_root b \<noteq> root
                  then (Inl (StateRootMismatch (blk_state_root b) root), applyUndo state1 undo, cache2, cc1)
                  else (Inr undo, state1, cache2, cc_advance cfg b cc1))))"

section \<open>Accepted and refused blocks\<close>

lemma applyBlock_refused:
  assumes "applyBlock cfg env state blocks b cache cc = (Inl e, state', cache', cc')"
  shows "state' = state"
  using assms applyTxsAndCoinbase_undo [where cfg = cfg and s = state and blocks = blocks and blk = b
      and cache = "verifyAllAuthorized cfg (env_cores env) (env_order env) (blk_transactions b) cache"]
  by (auto simp: applyBlock_def Let_def split: option.splits prod.splits sum.splits if_splits)

lemma applyBlock_acceptedE:
  assumes "applyBlock cfg env state blocks b cache cc = (Inr undo, state', cache', cc')"
  obtains cache1 root cc1 where "validateBlockStructure cfg (env_now env) blocks b cc = None"
    "applyTxsAndCoinbase cfg state blocks b cache1 = (Inr undo, state', cache')"
    "commitStateRoot cfg state' undo cc = (blk_state_root b, cc1)" "cc' = cc_advance cfg b cc1"
  using assms by (auto simp: applyBlock_def Let_def split: option.splits prod.splits sum.splits if_splits)

lemma accepted_undo:
  assumes "applyBlock cfg env state blocks b cache cc = (Inr undo, state', cache', cc')"
  shows "applyUndo state' undo = state"
  using assms
proof (rule applyBlock_acceptedE)
  fix cache1 assume "applyTxsAndCoinbase cfg state blocks b cache1 = (Inr undo, state', cache')"
  then show ?thesis using applyTxsAndCoinbase_undo [where cfg = cfg and s = state and blocks = blocks and blk = b
      and cache = cache1] by simp
qed

lemma accepted_coin:
  assumes "applyBlock cfg env state blocks b cache cc = (Inr undo, state', cache', cc')"
    and "coin_supply state + unat (BlockReward (blk_index b)) < 2 ^ 64"
  shows "coin_supply state' + unat (blockBurned cfg b) = coin_supply state + unat (BlockReward (blk_index b))"
  using assms(1)
proof (rule applyBlock_acceptedE)
  fix cache1 assume "applyTxsAndCoinbase cfg state blocks b cache1 = (Inr undo, state', cache')"
  then show ?thesis using assms(2) by (rule block_coin_exact)
qed

text \<open>What an accepted block has in common with every chain.\<close>

lemma accepted_structure:
  assumes "applyBlock cfg env state blocks b cache cc = (Inr undo, state', cache', cc')"
  shows "blk_index b = blk_index (last blocks) + 1" "blk_prev_hash b = blk_hash (last blocks)"
    "checkpointAt cfg (blk_index b) \<in> {None, Some (blk_hash b)}"
    "blk_bits b = expectedBits cfg blocks (blk_index b)" "blk_HasValidPoW cfg b"
    "blk_merkle_root b = MerkleRoot cfg (blk_transactions b)" "blk_transactions b \<noteq> []"
    "IsCoinbase (hd (blk_transactions b))"
proof -
  have v: "validateBlockStructure cfg (env_now env) blocks b cc = None"
    using assms by (rule applyBlock_acceptedE)
  show "blk_index b = blk_index (last blocks) + 1" "blk_prev_hash b = blk_hash (last blocks)"
    "checkpointAt cfg (blk_index b) \<in> {None, Some (blk_hash b)}"
    "blk_bits b = expectedBits cfg blocks (blk_index b)" "blk_HasValidPoW cfg b"
    "blk_merkle_root b = MerkleRoot cfg (blk_transactions b)" "blk_transactions b \<noteq> []"
    "IsCoinbase (hd (blk_transactions b))"
    using v by (auto simp: validateBlockStructure_def Let_def err_then_def split: if_splits option.splits)
qed

end
