(* ===== verification/Chain_Index.thy ===== *)
theory Chain_Index
  imports Chain_Rules
begin

text \<open>
  The indexes a chain keeps beside its blocks: where a transaction is confirmed
  (\<open>core/txindex.go\<close>), which transactions touch an address (\<open>core/addrindex.go\<close>) and the registry of
  assets (\<open>core/assetindex.go\<close>). Connecting a block indexes it and a reorganisation unindexes it; the
  lemmas show that unindexing undoes indexing for the first two, and the theorem that it does not for
  the third.
\<close>

section \<open>Transactions\<close>

record tx_loc =
  loc_height :: u64
  loc_index :: nat

definition index_tx :: "config \<Rightarrow> u64 \<Rightarrow> nat \<times> transaction \<Rightarrow> (string, tx_loc) fmap \<Rightarrow> (string, tx_loc) fmap" where
  "index_tx cfg height = (\<lambda>(i, tx) idx.
     let h = tx_hash cfg tx in
     if fmlookup idx h \<noteq> None then idx else fmupd h \<lparr>loc_height = height, loc_index = i\<rparr> idx)"

definition index_block_txs :: "config \<Rightarrow> block \<Rightarrow> (string, tx_loc) fmap \<Rightarrow> (string, tx_loc) fmap" where
  "index_block_txs cfg b idx = fold (index_tx cfg (blk_index b)) (enumerate 0 (blk_transactions b)) idx"

definition unindex_tx :: "config \<Rightarrow> u64 \<Rightarrow> transaction \<Rightarrow> (string, tx_loc) fmap \<Rightarrow> (string, tx_loc) fmap" where
  "unindex_tx cfg height tx idx =
     (let h = tx_hash cfg tx in
      case fmlookup idx h of None \<Rightarrow> idx | Some loc \<Rightarrow> if loc_height loc = height then fmdrop h idx else idx)"

definition unindex_block_txs :: "config \<Rightarrow> block \<Rightarrow> (string, tx_loc) fmap \<Rightarrow> (string, tx_loc) fmap" where
  "unindex_block_txs cfg b idx = fold (unindex_tx cfg (blk_index b)) (blk_transactions b) idx"

definition buildTxIndex :: "config \<Rightarrow> block list \<Rightarrow> (string, tx_loc) fmap" where
  "buildTxIndex cfg blocks = fold (index_block_txs cfg) blocks fmempty"

definition findTx :: "(string, tx_loc) fmap \<Rightarrow> block list \<Rightarrow> string \<Rightarrow> (transaction \<times> tx_loc) option" where
  "findTx idx blocks hash =
     (case fmlookup idx hash of None \<Rightarrow> None
      | Some loc \<Rightarrow>
          if of_nat (length blocks) \<le> loc_height loc then None
          else let b = blocks ! unat (loc_height loc) in
            if length (blk_transactions b) \<le> loc_index loc then None
            else Some (blk_transactions b ! loc_index loc, loc))"

section \<open>Addresses\<close>

definition txAddresses :: "transaction \<Rightarrow> string list" where
  "txAddresses tx = sort_strings (remdups
     ((if \<not> IsCoinbase tx \<and> tx_from tx \<noteq> [] then [tx_from tx] else [])
      @ (if tx_to tx \<noteq> [] then [tx_to tx] else [])
      @ filter (\<lambda>a. a \<noteq> []) (map out_to (tx_outputs tx))
      @ (if tx_fee_payer tx \<noteq> [] then [tx_fee_payer tx] else [])))"

type_synonym addr_index = "(string, tx_loc list) fmap"

definition index_address :: "tx_loc \<Rightarrow> string \<Rightarrow> addr_index \<Rightarrow> addr_index" where
  "index_address loc addr idx = fmupd addr (fmget [] idx addr @ [loc]) idx"

definition index_block_addresses :: "block \<Rightarrow> addr_index \<Rightarrow> addr_index" where
  "index_block_addresses b idx =
     fold (\<lambda>(i, tx). fold (index_address \<lparr>loc_height = blk_index b, loc_index = i\<rparr>) (txAddresses tx))
       (enumerate 0 (blk_transactions b)) idx"

definition unindex_address :: "u64 \<Rightarrow> string \<Rightarrow> addr_index \<Rightarrow> addr_index" where
  "unindex_address height addr idx =
     (let kept = filter (\<lambda>loc. loc_height loc \<noteq> height) (fmget [] idx addr)
      in if kept = [] then fmdrop addr idx else fmupd addr kept idx)"

definition unindex_block_addresses :: "block \<Rightarrow> addr_index \<Rightarrow> addr_index" where
  "unindex_block_addresses b idx =
     fold (\<lambda>tx. fold (unindex_address (blk_index b)) (txAddresses tx)) (blk_transactions b) idx"

section \<open>Assets\<close>

record asset_info =
  ai_id :: string
  ai_ticker :: string
  ai_issuer :: string
  ai_supply :: u64
  ai_issued :: u64
  ai_height :: u64
  ai_tx_hash :: string
  ai_metadata :: string
  ai_non_fungible :: bool

type_synonym asset_index = "(string, asset_info) fmap"

definition index_issue :: "config \<Rightarrow> u64 \<Rightarrow> transaction \<Rightarrow> asset_index \<Rightarrow> asset_index" where
  "index_issue cfg height tx idx =
     (case tx_issue tx of None \<Rightarrow> idx
      | Some iss \<Rightarrow>
          let i = IssuedAssetID cfg (tx_from tx) (tx_nonce tx) iss in
          if fmlookup idx i \<noteq> None then idx
          else fmupd i \<lparr>ai_id = i, ai_ticker = iss_ticker iss, ai_issuer = tx_from tx, ai_supply = iss_supply iss,
                 ai_issued = iss_supply iss, ai_height = height, ai_tx_hash = tx_hash cfg tx,
                 ai_metadata = iss_metadata iss, ai_non_fungible = IsNonFungible (Some iss)\<rparr> idx)"

definition applyAssetOpToIndex :: "bool \<Rightarrow> transaction \<Rightarrow> asset_index \<Rightarrow> asset_index" where
  "applyAssetOpToIndex reverse tx idx =
     (case tx_asset_op tx of None \<Rightarrow> idx
      | Some op \<Rightarrow>
          (case fmlookup idx (tx_asset_id tx) of None \<Rightarrow> idx
           | Some info \<Rightarrow>
               let mint = ((aop_op op = AssetOpMint) \<noteq> reverse);
                   info' = (if mint then info\<lparr>ai_supply := ai_supply info + aop_amount op\<rparr>
                     else if aop_amount op \<le> ai_supply info then info\<lparr>ai_supply := ai_supply info - aop_amount op\<rparr>
                     else info)
               in fmupd (tx_asset_id tx) info' idx))"

definition index_block_assets :: "config \<Rightarrow> block \<Rightarrow> asset_index \<Rightarrow> asset_index" where
  "index_block_assets cfg b idx =
     fold (applyAssetOpToIndex False) (blk_transactions b) (fold (index_issue cfg (blk_index b)) (blk_transactions b) idx)"

definition unindex_issue :: "config \<Rightarrow> u64 \<Rightarrow> transaction \<Rightarrow> asset_index \<Rightarrow> asset_index" where
  "unindex_issue cfg height tx idx =
     (case tx_issue tx of None \<Rightarrow> idx
      | Some iss \<Rightarrow>
          let i = IssuedAssetID cfg (tx_from tx) (tx_nonce tx) iss in
          (case fmlookup idx i of None \<Rightarrow> idx
           | Some info \<Rightarrow> if ai_height info = height then fmdrop i idx else idx))"

definition unindex_block_assets :: "config \<Rightarrow> block \<Rightarrow> asset_index \<Rightarrow> asset_index" where
  "unindex_block_assets cfg b idx =
     fold (unindex_issue cfg (blk_index b)) (blk_transactions b) (fold (applyAssetOpToIndex True) (blk_transactions b) idx)"

definition buildAssetIndex :: "config \<Rightarrow> block list \<Rightarrow> asset_index" where
  "buildAssetIndex cfg blocks = fold (index_block_assets cfg) blocks fmempty"


section \<open>Unindexing undoes indexing\<close>

lemma index_txs_lookup:
  "fmlookup (fold (index_tx cfg H) ps idx) h =
     (case fmlookup idx h of Some l \<Rightarrow> Some l
      | None \<Rightarrow> (case find (\<lambda>p. tx_hash cfg (snd p) = h) ps of None \<Rightarrow> None
          | Some p \<Rightarrow> Some \<lparr>loc_height = H, loc_index = fst p\<rparr>))"
proof (induction ps arbitrary: idx)
  case (Cons p ps)
  obtain i tx where p: "p = (i, tx)" by fastforce
  have "fmlookup (index_tx cfg H p idx) h = (case fmlookup idx h of Some l \<Rightarrow> Some l
      | None \<Rightarrow> if tx_hash cfg tx = h then Some \<lparr>loc_height = H, loc_index = i\<rparr> else None)"
    by (auto simp: index_tx_def p Let_def split: option.split)
  then show ?case by (simp add: Cons p split: option.split)
qed (simp split: option.split)

lemma unindex_txs_lookup:
  "fmlookup (fold (unindex_tx cfg H) txs idx) h =
     (case fmlookup idx h of None \<Rightarrow> None
      | Some l \<Rightarrow> if loc_height l = H \<and> h \<in> tx_hash cfg ` set txs then None else Some l)"
proof (induction txs arbitrary: idx)
  case (Cons tx txs)
  have "fmlookup (unindex_tx cfg H tx idx) h = (case fmlookup idx h of None \<Rightarrow> None
      | Some l \<Rightarrow> if loc_height l = H \<and> tx_hash cfg tx = h then None else Some l)"
    by (auto simp: unindex_tx_def Let_def split: option.split)
  then show ?case by (auto simp: Cons split: option.split)
qed (simp split: option.split)

text \<open>No entry of the index points at the given height.\<close>

definition no_height :: "u64 \<Rightarrow> (string, tx_loc) fmap \<Rightarrow> bool" where
  "no_height H idx \<longleftrightarrow> (\<forall>h l. fmlookup idx h = Some l \<longrightarrow> loc_height l \<noteq> H)"

lemma unindex_index_txs:
  assumes "no_height (blk_index b) idx"
  shows "unindex_block_txs cfg b (index_block_txs cfg b idx) = idx"
proof (rule fmap_ext)
  fix h
  have "h \<in> tx_hash cfg ` set (blk_transactions b)"
    if "find (\<lambda>p. tx_hash cfg (snd p) = h) (enumerate 0 (blk_transactions b)) = Some p" for p
    using that by (auto simp: find_Some_iff nth_enumerate_eq)
  then show "fmlookup (unindex_block_txs cfg b (index_block_txs cfg b idx)) h = fmlookup idx h"
    using assms by (auto simp: unindex_block_txs_def index_block_txs_def unindex_txs_lookup index_txs_lookup no_height_def
        split: option.splits)
qed

lemma index_block_height:
  "no_height H idx \<Longrightarrow> blk_index b \<noteq> H \<Longrightarrow> no_height H (index_block_txs cfg b idx)"
  by (auto simp: no_height_def index_block_txs_def index_txs_lookup split: option.splits)

lemma buildTxIndex_snoc: "buildTxIndex cfg (bs @ [b]) = index_block_txs cfg b (buildTxIndex cfg bs)"
  by (simp add: buildTxIndex_def)

lemma buildTxIndex_height: "H \<notin> blk_index ` set bs \<Longrightarrow> no_height H (buildTxIndex cfg bs)"
  by (induction bs rule: rev_induct)
    (auto simp: buildTxIndex_snoc intro!: index_block_height, simp add: buildTxIndex_def no_height_def)

text \<open>An entry of a rebuilt index names a transaction with the hash looked up.\<close>

lemma buildTxIndex_right:
  assumes "fmlookup (buildTxIndex cfg bs) h = Some l" "\<And>i. i < length bs \<Longrightarrow> blk_index (bs ! i) = of_nat i" "length bs < 2 ^ 64"
  shows "\<exists>tx. findTx (buildTxIndex cfg bs) bs h = Some (tx, l) \<and> tx_hash cfg tx = h"
proof -
  have "\<exists>i < length bs. loc_height l = of_nat i \<and> loc_index l < length (blk_transactions (bs ! i))
      \<and> tx_hash cfg (blk_transactions (bs ! i) ! loc_index l) = h"
    using assms(1,2)
  proof (induction bs rule: rev_induct)
    case (snoc b bs)
    let ?ps = "enumerate 0 (blk_transactions b)"
    show ?case
    proof (cases "fmlookup (buildTxIndex cfg bs) h")
      case None
      with snoc.prems(1) obtain p where p: "find (\<lambda>p. tx_hash cfg (snd p) = h) ?ps = Some p"
        "l = \<lparr>loc_height = blk_index b, loc_index = fst p\<rparr>"
        by (auto simp: buildTxIndex_snoc index_block_txs_def index_txs_lookup split: option.splits)
      then obtain j where j: "j < length (blk_transactions b)" "p = (j, blk_transactions b ! j)"
        "tx_hash cfg (snd p) = h" by (auto simp: find_Some_iff nth_enumerate_eq)
      moreover have "blk_index b = of_nat (length bs)" using snoc.prems(2) [of "length bs"] by simp
      ultimately show ?thesis using p(2) by (intro exI [of _ "length bs"]) simp
    next
      case (Some l')
      then have "l' = l" using snoc.prems(1) by (simp add: buildTxIndex_snoc index_block_txs_def index_txs_lookup)
      moreover have "blk_index (bs ! i) = of_nat i" if "i < length bs" for i
        using snoc.prems(2) [of i] that by (simp add: nth_append)
      ultimately show ?thesis using snoc.IH Some by (metis butlast_snoc length_append_singleton less_SucI nth_butlast)
    qed
  qed (simp add: buildTxIndex_def)
  then obtain i where i: "i < length bs" "loc_height l = of_nat i" "loc_index l < length (blk_transactions (bs ! i))"
    "tx_hash cfg (blk_transactions (bs ! i) ! loc_index l) = h" by blast
  moreover have "unat (of_nat i :: u64) = i" "\<not> (of_nat (length bs) :: u64) \<le> of_nat i"
    using i(1) assms(3) by (simp_all add: word_le_nat_alt unat_of_nat)
  ultimately show ?thesis using assms(1) by (simp add: findTx_def Let_def)
qed

lemma distinct_txAddresses: "distinct (txAddresses tx)"
  by (simp add: txAddresses_def sort_strings_def)

definition addr_index_ok :: "addr_index \<Rightarrow> bool" where
  "addr_index_ok idx \<longleftrightarrow> (\<forall>a ls. fmlookup idx a = Some ls \<longrightarrow> ls \<noteq> [])"

lemma addr_index_eqI:
  assumes "addr_index_ok x" "addr_index_ok y" "\<And>a. fmget [] x a = fmget [] y a"
  shows "x = y"
proof (rule fmap_ext)
  fix a show "fmlookup x a = fmlookup y a"
    using assms(1,2) assms(3) [of a] by (auto simp: addr_index_ok_def fmget_def split: option.splits)
qed

lemma index_addresses_get:
  "distinct as \<Longrightarrow> fmget [] (fold (index_address loc) as idx) a = fmget [] idx a @ (if a \<in> set as then [loc] else [])"
  by (induction as arbitrary: idx) (auto simp: index_address_def)

lemma index_addresses_ok: "addr_index_ok idx \<Longrightarrow> addr_index_ok (fold (index_address loc) as idx)"
proof (induction as arbitrary: idx)
  case (Cons a as)
  have "addr_index_ok (index_address loc a idx)" using Cons.prems by (auto simp: index_address_def addr_index_ok_def)
  then show ?case by (simp add: Cons.IH)
qed simp

lemma unindex_addresses_get:
  "fmget [] (fold (unindex_address H) as idx) a =
     (if a \<in> set as then filter (\<lambda>loc. loc_height loc \<noteq> H) (fmget [] idx a) else fmget [] idx a)"
  by (induction as arbitrary: idx) (auto simp: unindex_address_def Let_def fmget_def split: option.split)

lemma unindex_addresses_ok: "addr_index_ok idx \<Longrightarrow> addr_index_ok (fold (unindex_address H) as idx)"
proof (induction as arbitrary: idx)
  case (Cons a as)
  have "addr_index_ok (unindex_address H a idx)" using Cons.prems by (auto simp: unindex_address_def addr_index_ok_def Let_def)
  then show ?case by (simp add: Cons.IH)
qed simp

lemma index_block_addresses_get:
  "\<exists>ls. fmget [] (fold (\<lambda>(i, tx). fold (index_address \<lparr>loc_height = H, loc_index = i\<rparr>) (txAddresses tx)) ps idx) a
      = fmget [] idx a @ ls \<and> (\<forall>l \<in> set ls. loc_height l = H)
      \<and> (a \<notin> (\<Union>p \<in> set ps. set (txAddresses (snd p))) \<longrightarrow> ls = [])"
proof (induction ps arbitrary: idx)
  case (Cons p ps)
  obtain i tx where p: "p = (i, tx)" by fastforce
  let ?idx = "fold (index_address \<lparr>loc_height = H, loc_index = i\<rparr>) (txAddresses tx) idx"
  from Cons [of ?idx] show ?case
    by (auto simp: p index_addresses_get [OF distinct_txAddresses]) (metis snd_conv)
qed simp

lemma unindex_block_addresses_get:
  "fmget [] (fold (\<lambda>tx. fold (unindex_address H) (txAddresses tx)) txs idx) a =
     (if a \<in> (\<Union>tx \<in> set txs. set (txAddresses tx)) then filter (\<lambda>loc. loc_height loc \<noteq> H) (fmget [] idx a) else fmget [] idx a)"
  by (induction txs arbitrary: idx) (auto simp: unindex_addresses_get)

lemma unindex_index_addresses:
  assumes "addr_index_ok idx" "\<And>a l. l \<in> set (fmget [] idx a) \<Longrightarrow> loc_height l \<noteq> blk_index b"
  shows "unindex_block_addresses b (index_block_addresses b idx) = idx"
proof (rule addr_index_eqI)
  have "addr_index_ok (fold (\<lambda>(i, tx). fold (index_address \<lparr>loc_height = blk_index b, loc_index = i\<rparr>) (txAddresses tx)) ps idx)"
    for ps :: "(nat \<times> transaction) list"
    using assms(1) by (induction ps arbitrary: idx) (auto simp: index_addresses_ok)
  then have ok: "addr_index_ok (index_block_addresses b idx)" by (simp add: index_block_addresses_def)
  have "addr_index_ok (fold (\<lambda>tx. fold (unindex_address (blk_index b)) (txAddresses tx)) txs x)" if "addr_index_ok x" for txs x
    using that by (induction txs arbitrary: x) (auto simp: unindex_addresses_ok)
  with ok show "addr_index_ok (unindex_block_addresses b (index_block_addresses b idx))"
    by (simp add: unindex_block_addresses_def)
next
  fix a
  let ?A = "\<Union>tx \<in> set (blk_transactions b). set (txAddresses tx)"
  obtain ls where ls: "fmget [] (index_block_addresses b idx) a = fmget [] idx a @ ls"
    "\<forall>l \<in> set ls. loc_height l = blk_index b"
    "a \<notin> (\<Union>p \<in> set (enumerate 0 (blk_transactions b)). set (txAddresses (snd p))) \<longrightarrow> ls = []"
    using index_block_addresses_get [of "blk_index b" "enumerate 0 (blk_transactions b)" idx a]
    unfolding index_block_addresses_def by blast
  have "(\<Union>p \<in> set (enumerate 0 (blk_transactions b)). set (txAddresses (snd p))) = ?A"
  proof -
    have "?A = (\<Union>tx \<in> set (map snd (enumerate 0 (blk_transactions b))). set (txAddresses tx))" by simp
    then show ?thesis by (simp only: set_map image_image)
  qed
  then have none: "a \<notin> ?A \<Longrightarrow> ls = []" using ls(3) by simp
  have "filter (\<lambda>loc. loc_height loc \<noteq> blk_index b) (fmget [] idx a @ ls) = fmget [] idx a"
    using ls(2) assms(2) [of _ a] by (simp add: filter_empty_conv filter_id_conv)
  then show "fmget [] (unindex_block_addresses b (index_block_addresses b idx)) a = fmget [] idx a"
    using none ls(1) by (simp add: unindex_block_addresses_def unindex_block_addresses_get)
qed (rule assms(1))


section \<open>Theorems\<close>

text \<open>
  The asset registry drifts across a reorganisation: take an asset whose recorded supply is zero and
  a block that mints \<open>k\<close> units of it and burns them again. Connecting the block leaves the recorded
  supply at zero; disconnecting it undoes the operations in the order they were made, cannot take the
  mint back from zero, gives the burn back, and leaves \<open>k\<close>.
\<close>

theorem asset_registry_drifts:
  assumes "fmlookup idx i = Some info" "ai_supply info = 0" "k \<noteq> 0"
    and "blk_transactions b = [cb, mint, burn]" "list_all (\<lambda>t. tx_issue t = None) [cb, mint, burn]"
    and "tx_asset_op cb = None" "tx_asset_id mint = i" "tx_asset_id burn = i"
    and "tx_asset_op mint = Some op" "aop_op op = AssetOpMint" "aop_amount op = k"
    and "tx_asset_op burn = Some op'" "aop_op op' \<noteq> AssetOpMint" "aop_amount op' = k"
  shows "fmlookup (index_block_assets cfg b idx) i = Some info
    \<and> fmlookup (unindex_block_assets cfg b (index_block_assets cfg b idx)) i = Some (info\<lparr>ai_supply := k\<rparr>)"
proof -
  have same: "info\<lparr>ai_supply := 0\<rparr> = info" using assms(2) by (cases info) simp
  have "\<not> k \<le> 0" using assms(3) by simp
  have "index_block_assets cfg b idx = fmupd i info (fmupd i (info\<lparr>ai_supply := k\<rparr>) idx)"
    using assms by (simp add: index_block_assets_def index_issue_def applyAssetOpToIndex_def Let_def same)
  then show ?thesis using assms \<open>\<not> k \<le> 0\<close>
    by (simp add: unindex_block_assets_def unindex_issue_def applyAssetOpToIndex_def Let_def)
qed

theorem asset_registry_drifts_witness:
  "\<exists>cfg b idx. fmlookup (index_block_assets cfg b idx) ''gold'' = fmlookup idx ''gold''
     \<and> fmlookup (unindex_block_assets cfg b (index_block_assets cfg b idx)) ''gold'' \<noteq> fmlookup idx ''gold''"
proof -
  let ?info = "\<lparr>ai_id = ''gold'', ai_ticker = ''AU'', ai_issuer = ''alice'', ai_supply = 0, ai_issued = 5, ai_height = 1,
    ai_tx_hash = [], ai_metadata = [], ai_non_fungible = False\<rparr>"
  let ?op = "\<lambda>o'. \<lparr>aop_op = o', aop_amount = 5, aop_ticker = ''AU'', aop_issue_nonce = 0\<rparr>"
  let ?tx = "\<lambda>o'. zero_tx\<lparr>tx_asset_id := ''gold'', tx_asset_op := Some (?op o')\<rparr>"
  let ?b = "plain_block\<lparr>blk_transactions := [zero_tx, ?tx AssetOpMint, ?tx AssetOpBurn]\<rparr>"
  have zero: "tx_issue zero_tx = None" "tx_asset_op zero_tx = None" by (simp_all add: zero_tx_def)
  have "fmlookup (index_block_assets sample_cfg ?b (fmupd ''gold'' ?info fmempty)) ''gold'' = Some ?info
    \<and> fmlookup (unindex_block_assets sample_cfg ?b (index_block_assets sample_cfg ?b (fmupd ''gold'' ?info fmempty))) ''gold''
      = Some (?info\<lparr>ai_supply := 5\<rparr>)"
    by (rule asset_registry_drifts [where k = 5 and op = "?op AssetOpMint" and op' = "?op AssetOpBurn"
          and cb = zero_tx and mint = "?tx AssetOpMint" and burn = "?tx AssetOpBurn"])
      (simp_all add: zero AssetOpMint_def AssetOpBurn_def)
  then show ?thesis
    by (intro exI [of _ sample_cfg] exI [of _ ?b] exI [of _ "fmupd ''gold'' ?info fmempty"]) simp
qed

end
