(* ===== verification/Chain.thy ===== *)
theory Chain
  imports Chain_Index Block_Store Version_Bits
begin

text \<open>
  The chain (\<open>core/blockchain.go\<close>): its state, connecting a block, reorganisation with its finality
  guards and fork choice, replacement, filter headers (\<open>core/cfilter.go\<close>) and pruning
  (\<open>core/prune.go\<close>). Operations take the
  chain and return the changed chain; the option around a result is \<open>None\<close> when the refresh of the
  voted upgrades would not return. The tables a process keeps outside a chain, the configuration and
  the registered deployments, are fields of it here, one chain per process.
\<close>

section \<open>State\<close>

record chain =
  bc_cfg :: config
  bc_table :: deployment_table
  bc_blocks :: "block list"
  bc_state :: state
  bc_work :: int
  bc_undos :: "undo_entry list list"
  bc_store :: "block_store option"
  bc_store_compacted_to :: u64
  bc_compaction_due :: bool
  bc_tx_index :: "(string, tx_loc) fmap"
  bc_addr_index :: "addr_index option"
  bc_assets :: asset_index
  bc_burned :: u64
  bc_prune_keep :: u64
  bc_pruned :: u64
  bc_filter_headers :: "string list"
  bc_filter_base :: u64
  bc_sig_cache :: "vcache option"
  bc_nodes :: bounded_nodes
  bc_history :: "mmr option"

definition DefaultTrieCacheNodes :: int where "DefaultTrieCacheNodes = 250000"

definition refreshDeploymentsLocked :: "chain \<Rightarrow> chain option" where
  "refreshDeploymentsLocked bc =
     (case refreshDeployments (bc_table bc) (map block_Header (bc_blocks bc)) (bc_cfg bc) of
        Some (Inr cfg) \<Rightarrow> Some (bc\<lparr>bc_cfg := cfg\<rparr>)
      | _ \<Rightarrow> None)"

definition genesis_chain :: "config \<Rightarrow> deployment_table \<Rightarrow> chain" where
  "genesis_chain cfg table =
     \<lparr>bc_cfg = cfg, bc_table = table, bc_blocks = [GenesisBlock cfg], bc_state = fmempty,
      bc_work = BlockWork (blk_bits (GenesisBlock cfg)), bc_undos = [[]], bc_store = None,
      bc_store_compacted_to = 0, bc_compaction_due = False, bc_tx_index = fmempty, bc_addr_index = None,
      bc_assets = fmempty, bc_burned = 0, bc_prune_keep = 0, bc_pruned = 0,
      bc_filter_headers = FilterHeaderChain cfg [BuildBlockFilter cfg (GenesisBlock cfg)], bc_filter_base = 0,
      bc_sig_cache = Some (NewValidationCache DefaultValidationCacheSize),
      bc_nodes = NewBoundedNodeStore DefaultTrieCacheNodes, bc_history = Some empty_mmr\<rparr>"

definition NewBlockchain :: "config \<Rightarrow> deployment_table \<Rightarrow> chain option" where
  "NewBlockchain cfg table = refreshDeploymentsLocked (genesis_chain cfg table)"

definition bc_tip :: "chain \<Rightarrow> block" where
  "bc_tip bc = last (bc_blocks bc)"

section \<open>The commitment context\<close>

definition rebuildHistoryTo :: "nat \<Rightarrow> chain \<Rightarrow> mmr" where
  "rebuildHistoryTo at bc =
     fold (\<lambda>b m. if inHistory (bc_cfg bc) (blk_index b) then mmr_Append (bc_cfg bc) (blk_hash b) m else m)
       (take (at + 1) (bc_blocks bc)) empty_mmr"

definition historyUpTo :: "nat \<Rightarrow> chain \<Rightarrow> mmr" where
  "historyUpTo at bc =
     (case bc_history bc of
        Some m \<Rightarrow> if at = length (bc_blocks bc) - 1 then m else rebuildHistoryTo at bc
      | None \<Rightarrow> rebuildHistoryTo at bc)"

definition commitCtxAt :: "nat \<Rightarrow> chain \<Rightarrow> commit_ctx" where
  "commitCtxAt at bc = \<lparr>cc_root = Some (blk_state_root (bc_blocks bc ! at)), cc_nodes = bc_nodes bc,
     cc_history = Some (historyUpTo at bc)\<rparr>"

section \<open>Indexes, filter headers and pruning\<close>

definition indexBlock :: "block \<Rightarrow> chain \<Rightarrow> chain" where
  "indexBlock b bc = bc\<lparr>bc_tx_index := index_block_txs (bc_cfg bc) b (bc_tx_index bc),
     bc_addr_index := map_option (index_block_addresses b) (bc_addr_index bc),
     bc_assets := index_block_assets (bc_cfg bc) b (bc_assets bc)\<rparr>"

definition unindexBlock :: "block \<Rightarrow> chain \<Rightarrow> chain" where
  "unindexBlock b bc = bc\<lparr>bc_tx_index := unindex_block_txs (bc_cfg bc) b (bc_tx_index bc),
     bc_addr_index := map_option (unindex_block_addresses b) (bc_addr_index bc),
     bc_assets := unindex_block_assets (bc_cfg bc) b (bc_assets bc)\<rparr>"

definition EnableAddressIndex :: "chain \<Rightarrow> chain" where
  "EnableAddressIndex bc = bc\<lparr>bc_addr_index := Some (fold index_block_addresses (bc_blocks bc) fmempty)\<rparr>"

definition extendFilterHeaders :: "block \<Rightarrow> chain \<Rightarrow> chain" where
  "extendFilterHeaders b bc =
     (if IsPlaceholder b then bc
      else let prev = (if bc_filter_headers bc = [] then [] else last (bc_filter_headers bc)) in
        case FoldFilterHeaders (bc_cfg bc) prev [BuildBlockFilter (bc_cfg bc) b] of
          None \<Rightarrow> bc
        | Some xs \<Rightarrow> if length xs \<noteq> 1 then bc else bc\<lparr>bc_filter_headers := bc_filter_headers bc @ [xs ! 0]\<rparr>)"

definition truncateFilterHeaders :: "u64 \<Rightarrow> chain \<Rightarrow> chain" where
  "truncateFilterHeaders fork bc =
     (if fork + 1 < bc_filter_base bc then bc
      else bc\<lparr>bc_filter_headers := take (unat (fork + 1 - bc_filter_base bc)) (bc_filter_headers bc)\<rparr>)"

definition BlockFromHeader :: "header \<Rightarrow> block" where
  "BlockFromHeader h =
     \<lparr>blk_version = hdr_version h, blk_index = hdr_index h, blk_timestamp = hdr_timestamp h, blk_transactions = [],
      blk_prev_hash = hdr_prev_hash h, blk_merkle_root = hdr_merkle_root h, blk_state_root = hdr_state_root h,
      blk_base_fee = hdr_base_fee h, blk_bits = hdr_bits h, blk_nonce = hdr_nonce h, blk_hash = hdr_hash h,
      blk_filter_root = hdr_filter_root h, blk_history_root = hdr_history_root h\<rparr>"

definition MinPruneKeep :: u64 where "MinPruneKeep = of_nat MaxReorgDepth + 32"
definition storeCompactInterval :: u64 where "storeCompactInterval = 128"

definition forgetBody :: "block \<Rightarrow> chain \<Rightarrow> chain" where
  "forgetBody b bc = bc\<lparr>bc_tx_index := unindex_block_txs (bc_cfg bc) b (bc_tx_index bc),
     bc_addr_index := map_option (unindex_block_addresses b) (bc_addr_index bc)\<rparr>"

definition maybeCompactStore :: "u64 \<Rightarrow> chain \<Rightarrow> chain" where
  "maybeCompactStore cutoff bc =
     (if bc_store bc = None then bc
      else if cutoff < bc_store_compacted_to bc + storeCompactInterval then bc
      else bc\<lparr>bc_compaction_due := True\<rparr>)"

definition prune_at :: "nat \<Rightarrow> chain \<Rightarrow> chain" where
  "prune_at i bc =
     (let b = bc_blocks bc ! i in
      if IsPlaceholder b then bc
      else let bc1 = forgetBody b bc in
        bc1\<lparr>bc_blocks := (bc_blocks bc1)[i := BlockFromHeader (block_Header b)],
            bc_undos := (bc_undos bc1)[i := []], bc_pruned := bc_pruned bc1 + 1\<rparr>)"

definition pruneLocked :: "chain \<Rightarrow> chain" where
  "pruneLocked bc =
     (if bc_prune_keep bc = 0 then bc
      else let tip = blk_index (bc_tip bc) in
        if tip < bc_prune_keep bc then bc
        else let cutoff = tip - bc_prune_keep bc in
          maybeCompactStore cutoff (fold prune_at [0..<min (unat cutoff) (length (bc_blocks bc))] bc))"

definition EnablePruning :: "u64 \<Rightarrow> chain \<Rightarrow> u64 \<times> chain" where
  "EnablePruning keep bc =
     (let k = (if keep < MinPruneKeep then MinPruneKeep else keep) in (k, pruneLocked (bc\<lparr>bc_prune_keep := k\<rparr>)))"

section \<open>Connecting a block\<close>

datatype chain_error =
    BlockRejected block_error | PersistFailed io_error
  | BelowCheckpoint nat nat u64 | TooDeep nat nat | SuffixRejected nat block_error | PersistReorgFailed io_error
  | EmptyChain | GenesisMismatch | ForkBeyondTip

text \<open>What both connecting and adopting a block do once the chain holds it.\<close>

definition connect_derived :: "block \<Rightarrow> chain \<Rightarrow> chain" where
  "connect_derived b bc =
     (let bc1 = indexBlock b bc in
      extendFilterHeaders b (bc1\<lparr>bc_burned := bc_burned bc1 + blockBurned (bc_cfg bc1) b\<rparr>))"

definition disconnect_derived :: "block \<Rightarrow> chain \<Rightarrow> chain" where
  "disconnect_derived b bc =
     (let bc1 = unindexBlock b bc in bc1\<lparr>bc_burned := bc_burned bc1 - blockBurned (bc_cfg bc1) b\<rparr>)"

definition connect_block :: "block \<Rightarrow> undo_entry list \<Rightarrow> mmr option \<Rightarrow> chain \<Rightarrow> chain option" where
  "connect_block b undo history bc =
     (case refreshDeploymentsLocked (bc\<lparr>bc_blocks := bc_blocks bc @ [b], bc_undos := bc_undos bc @ [undo],
             bc_history := history\<rparr>) of
        None \<Rightarrow> None
      | Some bc1 \<Rightarrow> Some (pruneLocked (connect_derived b (bc1\<lparr>bc_work := bc_work bc1 + BlockWork (blk_bits b)\<rparr>))))"

definition AddBlock :: "env \<Rightarrow> block \<Rightarrow> chain \<Rightarrow> (chain_error option \<times> chain) option" where
  "AddBlock env b bc =
     (case applyBlock (bc_cfg bc) env (bc_state bc) (bc_blocks bc) b (bc_sig_cache bc)
             (Some (commitCtxAt (length (bc_blocks bc) - 1) bc)) of
        (r, state, cache, cc) \<Rightarrow>
          let bc1 = bc\<lparr>bc_state := state, bc_sig_cache := cache, bc_nodes := cc_nodes (the cc)\<rparr> in
          (case r of
             Inl e \<Rightarrow> Some (Some (BlockRejected e), bc1)
           | Inr undo \<Rightarrow>
               (case (case bc_store bc1 of None \<Rightarrow> (None, None)
                      | Some st \<Rightarrow> (case store_append b st of (e, st') \<Rightarrow> (e, Some st'))) of
                  (Some e, store) \<Rightarrow>
                    Some (Some (PersistFailed e), bc1\<lparr>bc_store := store, bc_state := applyUndo (bc_state bc1) undo\<rparr>)
                | (None, store) \<Rightarrow>
                    map_option (\<lambda>bc'. (None, bc')) (connect_block b undo (cc_history (the cc)) (bc1\<lparr>bc_store := store\<rparr>)))))"

section \<open>Reorganisation\<close>

fun apply_suffix :: "config \<Rightarrow> env \<Rightarrow> nat \<Rightarrow> state \<Rightarrow> block list \<Rightarrow> undo_entry list list \<Rightarrow> vcache option
    \<Rightarrow> commit_ctx option \<Rightarrow> block list
    \<Rightarrow> (nat \<times> block_error) option \<times> state \<times> block list \<times> undo_entry list list \<times> vcache option \<times> commit_ctx option" where
  "apply_suffix cfg env i state blocks undos cache cc [] = (None, state, blocks, undos, cache, cc)"
| "apply_suffix cfg env i state blocks undos cache cc (b # bs) =
     (case applyBlock cfg env state blocks b cache cc of
        (Inl e, state1, cache1, cc1) \<Rightarrow> (Some (i, e), state1, blocks, undos, cache1, cc1)
      | (Inr undo, state1, cache1, cc1) \<Rightarrow>
          apply_suffix cfg env (Suc i) state1 (blocks @ [b]) (undos @ [undo]) cache1 cc1 bs)"

fun store_append_all :: "block list \<Rightarrow> block_store \<Rightarrow> io_error option \<times> block_store" where
  "store_append_all [] s = (None, s)"
| "store_append_all (b # bs) s =
     (case store_append b s of (Some e, s1) \<Rightarrow> (Some e, s1) | (None, s1) \<Rightarrow> store_append_all bs s1)"

definition persist_reorg :: "nat \<Rightarrow> block list \<Rightarrow> block_store option \<Rightarrow> io_error option \<times> block_store option" where
  "persist_reorg fork suffix store =
     (case store of None \<Rightarrow> (None, None)
      | Some s \<Rightarrow>
          (case store_truncateAfter fork s of
             (Some e, s1) \<Rightarrow> (Some e, Some (store_poison s1))
           | (None, s1) \<Rightarrow>
               (case store_append_all suffix s1 of
                  (Some e, s2) \<Rightarrow> (Some e, Some (store_poison s2))
                | (None, s2) \<Rightarrow> (None, Some s2))))"

definition undo_to :: "nat \<Rightarrow> undo_entry list list \<Rightarrow> state \<Rightarrow> state" where
  "undo_to fork undos state = fold (\<lambda>u s. applyUndo s u) (rev (drop (fork + 1) undos)) state"

definition commit_reorg :: "nat \<Rightarrow> block list \<Rightarrow> state \<Rightarrow> undo_entry list list \<Rightarrow> int \<Rightarrow> mmr option
    \<Rightarrow> chain \<Rightarrow> chain option" where
  "commit_reorg fork suffix state undos work history bc =
     (let bc1 = fold disconnect_derived (rev (drop (fork + 1) (bc_blocks bc))) bc;
          bc2 = bc1\<lparr>bc_blocks := take (fork + 1) (bc_blocks bc) @ suffix\<rparr> in
      case refreshDeploymentsLocked bc2 of None \<Rightarrow> None
      | Some bc3 \<Rightarrow>
          let bc4 = truncateFilterHeaders (of_nat fork)
                (bc3\<lparr>bc_state := state, bc_undos := undos, bc_work := work, bc_history := history\<rparr>)
          in Some (pruneLocked (fold connect_derived suffix bc4)))"

definition candidate_wins :: "nat \<Rightarrow> block list \<Rightarrow> chain \<Rightarrow> bool" where
  "candidate_wins fork suffix bc =
     (let candWork = ChainWork (take (fork + 1) (bc_blocks bc)) + ChainWork suffix;
          candTip = (if suffix = [] then blk_hash (bc_blocks bc ! fork) else blk_hash (last suffix))
      in \<not> candWork < bc_work bc \<and> (candWork = bc_work bc \<longrightarrow> candTip < blk_hash (bc_tip bc)))"

definition reorgLocked :: "env \<Rightarrow> nat \<Rightarrow> block list \<Rightarrow> chain \<Rightarrow> ((chain_error + bool \<times> block list) \<times> chain) option" where
  "reorgLocked env fork suffix bc =
     (let cfg = bc_cfg bc; removed = length (bc_blocks bc) - 1 - fork in
      if of_nat fork < highestCheckpoint cfg
        then Some (Inl (BelowCheckpoint removed fork (highestCheckpoint cfg)), bc)
      else if MaxReorgDepth < removed then Some (Inl (TooDeep removed fork), bc)
      else if \<not> candidate_wins fork suffix bc then Some (Inr (False, []), bc)
      else case apply_suffix cfg env 0 (undo_to fork (bc_undos bc) (bc_state bc)) (take (fork + 1) (bc_blocks bc))
                  (take (fork + 1) (bc_undos bc)) (bc_sig_cache bc) (Some (commitCtxAt fork bc)) suffix of
        (r, state, blocks, undos, cache, cc) \<Rightarrow>
          let bc1 = bc\<lparr>bc_sig_cache := cache, bc_nodes := cc_nodes (the cc)\<rparr> in
          (case r of
             Some (i, e) \<Rightarrow> Some (Inl (SuffixRejected (fork + 1 + i) e), bc1)
           | None \<Rightarrow>
               (case persist_reorg fork suffix (bc_store bc1) of
                  (Some e, store) \<Rightarrow> Some (Inl (PersistReorgFailed e), bc1\<lparr>bc_store := store\<rparr>)
                | (None, store) \<Rightarrow>
                    map_option (\<lambda>bc'. (Inr (True, drop (fork + 1) (bc_blocks bc)), bc'))
                      (commit_reorg fork suffix state undos
                         (ChainWork (take (fork + 1) (bc_blocks bc)) + ChainWork suffix)
                         (cc_history (the cc)) (bc1\<lparr>bc_store := store\<rparr>)))))"

fun commonPrefix :: "block list \<Rightarrow> block list \<Rightarrow> nat" where
  "commonPrefix (a # as) (b # bs) = (if blk_hash a = blk_hash b then Suc (commonPrefix as bs) else 0)"
| "commonPrefix _ _ = 0"

definition ReplaceChain :: "env \<Rightarrow> block list \<Rightarrow> chain \<Rightarrow> ((chain_error + bool \<times> block list) \<times> chain) option" where
  "ReplaceChain env incoming bc =
     (if length incoming = 0 then Some (Inl EmptyChain, bc)
      else if blk_hash (incoming ! 0) \<noteq> blk_hash (GenesisBlock (bc_cfg bc)) then Some (Inl GenesisMismatch, bc)
      else let fork = commonPrefix (bc_blocks bc) incoming - 1
        in reorgLocked env fork (drop (fork + 1) incoming) bc)"

definition ReorgFrom :: "env \<Rightarrow> u64 \<Rightarrow> block list \<Rightarrow> chain \<Rightarrow> ((chain_error + bool \<times> block list) \<times> chain) option" where
  "ReorgFrom env forkHeight suffix bc =
     (if length suffix = 0 then Some (Inr (False, []), bc)
      else if of_nat (length (bc_blocks bc)) \<le> forkHeight then Some (Inl ForkBeyondTip, bc)
      else reorgLocked env (unat forkHeight) suffix bc)"

end
