(* ===== verification/Chain_Invariant.thy ===== *)
theory Chain_Invariant
  imports Chain
begin

text \<open>
  What every chain satisfies that was built from genesis by connecting blocks and by reorganising: its
  blocks are numbered and linked, its undo logs lead back to the empty ledger, the coin in accounts is
  what was minted less what was burned, the work is the work of its blocks, and its indexes are those
  of a rebuild. The ledger part is an inductive predicate on blocks, undo logs and state; a
  reorganisation cuts it at the fork and extends it again.
\<close>

section \<open>What the voted upgrades do not change\<close>

lemma voted_upgrades [simp]:
  "tx_hash (cfg\<lparr>upgrades := u\<rparr>) = tx_hash cfg" "tx_size (cfg\<lparr>upgrades := u\<rparr>) = tx_size cfg"
  "BaseFeeFor (cfg\<lparr>upgrades := u\<rparr>) = BaseFeeFor cfg" "hashBytes (cfg\<lparr>upgrades := u\<rparr>) = hashBytes cfg"
  by (simp_all add: fun_eq_iff tx_hash_def tx_size_def BaseFeeFor_def canonicalBytes_def signedFields_def signed_network_def hashBytes_def)

lemma merkle_next_upgrades [simp]: "merkle_next (cfg\<lparr>upgrades := u\<rparr>) xs = merkle_next cfg xs"
  by (induction xs rule: merkle_next.induct) simp_all

lemma merkle_up_upgrades [simp]: "merkle_up (cfg\<lparr>upgrades := u\<rparr>) xs = merkle_up cfg xs"
  by (induction cfg xs rule: merkle_up.induct) (subst (1 2) merkle_up.simps, simp)

lemma MerkleRoot_upgrades [simp]: "MerkleRoot (cfg\<lparr>upgrades := u\<rparr>) = MerkleRoot cfg"
  by (simp add: fun_eq_iff MerkleRoot_def merkleRootOf_def txHashes_def)

lemma voted_upgrades_tx [simp]:
  "index_tx (cfg\<lparr>upgrades := u\<rparr>) = index_tx cfg" "unindex_tx (cfg\<lparr>upgrades := u\<rparr>) = unindex_tx cfg"
  "blockBurned (cfg\<lparr>upgrades := u\<rparr>) = blockBurned cfg"
  by (simp_all add: fun_eq_iff blockBurned_def index_tx_def unindex_tx_def)

lemma voted_upgrades_block [simp]:
  "index_block_txs (cfg\<lparr>upgrades := u\<rparr>) = index_block_txs cfg"
  "unindex_block_txs (cfg\<lparr>upgrades := u\<rparr>) = unindex_block_txs cfg"
  by (simp_all add: fun_eq_iff index_block_txs_def unindex_block_txs_def)

lemma voted_upgrades_build [simp]: "buildTxIndex (cfg\<lparr>upgrades := u\<rparr>) = buildTxIndex cfg"
  by (simp add: fun_eq_iff buildTxIndex_def)

lemma fold_install_upgrades: "\<exists>u. fold install_status sts cfg = cfg\<lparr>upgrades := u\<rparr>"
proof (induction sts arbitrary: cfg)
  case Nil
  then show ?case by (intro exI [of _ "upgrades cfg"]) simp
next
  case (Cons st sts)
  obtain u where "install_status st cfg = cfg\<lparr>upgrades := u\<rparr>"
    unfolding install_status_def SetUpgradeHeight_def ClearUpgradeHeight_def by metis
  moreover obtain v where "fold install_status sts (cfg\<lparr>upgrades := u\<rparr>) = cfg\<lparr>upgrades := u\<rparr>\<lparr>upgrades := v\<rparr>"
    using Cons by blast
  ultimately show ?case by (intro exI [of _ v]) simp
qed

lemma refreshed:
  assumes "refreshDeploymentsLocked bc = Some bc'"
  obtains u where "bc' = bc\<lparr>bc_cfg := (bc_cfg bc)\<lparr>upgrades := u\<rparr>\<rparr>"
  using assms fold_install_upgrades [of _ "bc_cfg bc"]
  by (auto simp: refreshDeploymentsLocked_def refreshDeployments_def split: option.splits sum.splits) metis

section \<open>Immature coin\<close>

text \<open>The coin an address cannot spend yet in the next block, as a number, and that accounts cover it.\<close>

definition coinbase_to :: "string \<Rightarrow> block \<Rightarrow> nat" where
  "coinbase_to k b = (case blk_transactions b of [] \<Rightarrow> 0 | cb # _ \<Rightarrow> if IsCoinbase cb \<and> tx_to cb = k then unat (tx_amount cb) else 0)"

definition immature_from :: "nat \<Rightarrow> nat" where
  "immature_from n = (if 3 < n then n - 2 else 1)"

definition immature_nat :: "block list \<Rightarrow> string \<Rightarrow> nat" where
  "immature_nat bs k = sum_list (map (\<lambda>i. coinbase_to k (bs ! i)) [immature_from (length bs)..<length bs])"

lemma immature_word:
  assumes "length bs < 2 ^ 64"
  shows "immatureCoinbase bs (of_nat (length bs)) k = of_nat (immature_nat bs k)"
proof -
  let ?h = "of_nat (length bs) :: u64"
  have h: "unat ?h = length bs" using assms by (simp add: unat_of_nat)
  have start: "unat (if CoinbaseMaturity < ?h then ?h - CoinbaseMaturity + 1 else 1) = immature_from (length bs)"
  proof (cases "3 < length bs")
    case True
    then have e: "?h - CoinbaseMaturity + 1 = of_nat (length bs - 2)" by (simp add: CoinbaseMaturity_def of_nat_diff)
    have "CoinbaseMaturity < ?h" using True h by (simp add: CoinbaseMaturity_def word_less_nat_alt)
    moreover have "unat (?h - CoinbaseMaturity + 1) = length bs - 2" unfolding e unat_of_nat using assms by simp
    ultimately show ?thesis using True by (simp add: immature_from_def)
  next
    case False
    then have "\<not> CoinbaseMaturity < ?h" using h by (simp add: CoinbaseMaturity_def word_less_nat_alt)
    then show ?thesis using False by (simp add: immature_from_def)
  qed
  have "(case blk_transactions b of [] \<Rightarrow> 0 | cb # _ \<Rightarrow> if IsCoinbase cb \<and> tx_to cb = k then tx_amount cb else 0)
      = (of_nat (coinbase_to k b) :: u64)" for b
    by (simp add: coinbase_to_def split: list.split)
  moreover have sum: "of_nat (sum_list (map f xs)) = sum_list (map (\<lambda>i. of_nat (f i) :: u64) xs)" for f :: "nat \<Rightarrow> nat" and xs
    by (induction xs) simp_all
  ultimately show ?thesis unfolding immatureCoinbase_def Let_def start h immature_nat_def
    by (simp add: sum)
qed

lemma immature_step:
  assumes "bs \<noteq> []"
  shows "immature_nat (bs @ [b]) k \<le> immature_nat bs k + coinbase_to k b"
proof -
  let ?n = "length bs" and ?f = "\<lambda>i. coinbase_to k (bs ! i)"
  have le: "immature_from ?n \<le> immature_from (Suc ?n)" "immature_from (Suc ?n) \<le> ?n"
    using assms by (auto simp: immature_from_def Suc_le_eq)
  then have "[immature_from (Suc ?n)..<Suc ?n] = [immature_from (Suc ?n)..<?n] @ [?n]" by (simp add: upt_Suc_append)
  moreover have "map (\<lambda>i. coinbase_to k ((bs @ [b]) ! i)) [immature_from (Suc ?n)..<?n] = map ?f [immature_from (Suc ?n)..<?n]"
    by (simp add: nth_append)
  ultimately have "immature_nat (bs @ [b]) k = sum_list (map ?f [immature_from (Suc ?n)..<?n]) + coinbase_to k b"
    unfolding immature_nat_def by (simp only: length_append list.size add_Suc_right add_0_right map_append sum_list.append) simp
  moreover have "[immature_from ?n..<?n] = [immature_from ?n..<immature_from (Suc ?n)] @ [immature_from (Suc ?n)..<?n]"
    using le upt_add_eq_append [of "immature_from ?n" "immature_from (Suc ?n)" "?n - immature_from (Suc ?n)"] by simp
  then have "immature_nat bs k = sum_list (map ?f [immature_from ?n..<immature_from (Suc ?n)]) + sum_list (map ?f [immature_from (Suc ?n)..<?n])"
    by (simp add: immature_nat_def)
  ultimately show ?thesis by simp
qed

definition covered :: "block list \<Rightarrow> state \<Rightarrow> bool" where
  "covered bs s \<longleftrightarrow> (\<forall>k. \<not> isNameKey k \<longrightarrow> immature_nat bs k \<le> unat (acc_balance (state_Get s k)))"

definition keeps_covered :: "block list \<Rightarrow> block \<Rightarrow> state \<Rightarrow> state \<Rightarrow> bool" where
  "keeps_covered bs b s s' \<longleftrightarrow> (covered bs s \<longrightarrow> covered (bs @ [b]) s')"

lemma accepted_covered:
  assumes "applyTxsAndCoinbase cfg s bs b cache = (Inr undo, s', cache')" "blk_index b = of_nat (length bs)"
    and "length bs < 2 ^ 64" "bs \<noteq> []"
  shows "keeps_covered bs b s s'"
  using assms(1)
proof (rule applyTxsAndCoinbase_okE)
  fix cb :: transaction and txs tips burned a
  let ?a0 = "\<lparr>app_state = s, app_undo = [], app_cache = cache\<rparr>"
  assume txs: "blk_transactions b = cb # txs"
    and run: "apply_txs cfg bs (blk_index b) (blk_base_fee b) 1 txs [] 0 0 ?a0 = (None, tips, burned, a)"
    and nw: "\<not> acc_balance (get_acc a (tx_to cb)) + tx_amount cb < acc_balance (get_acc a (tx_to cb))"
    and s': "s' = app_state (pay_coinbase cb a)"
  have "immature_nat (bs @ [b]) k \<le> unat (acc_balance (state_Get s' k))" if cov: "covered bs s" and k: "\<not> isNameKey k" for k
  proof -
    have imm: "unat (immatureCoinbase bs (blk_index b) k) = immature_nat bs k" if "immature_nat bs k < 2 ^ 64"
      unfolding assms(2) immature_word [OF assms(3)] using that by (simp add: unat_of_nat)
    have le: "immature_nat bs k \<le> unat (acc_balance (get_acc ?a0 k))" using cov k by (simp add: covered_def)
    then have imm: "unat (immatureCoinbase bs (blk_index b) k) = immature_nat bs k"
      using imm order_le_less_trans [OF _ unat_u64] by blast
    then have "immatureCoinbase bs (blk_index b) k \<le> acc_balance (get_acc a k)"
      using apply_txs_mature [OF run k] le by (simp add: word_le_nat_alt)
    then have "immature_nat bs k \<le> unat (acc_balance (get_acc a k))" using imm by (simp add: word_le_nat_alt)
    moreover have "unat (acc_balance (get_acc a k)) + coinbase_to k b \<le> unat (acc_balance (state_Get s' k))"
      using no_wrap_le [OF nw] unfolding s' by (simp add: coinbase_to_def txs)
    ultimately show ?thesis using immature_step [OF assms(4), of b k] by linarith
  qed
  then show ?thesis by (simp add: keeps_covered_def covered_def)
qed

section \<open>The ledger of a chain\<close>

inductive ledger_chain :: "config \<Rightarrow> block list \<Rightarrow> undo_entry list list \<Rightarrow> state \<Rightarrow> bool" for cfg where
  genesis: "blk_index g = 0 \<Longrightarrow> blk_transactions g = [] \<Longrightarrow> blk_merkle_root g = MerkleRoot cfg [] \<Longrightarrow> ledger_chain cfg [g] [u] fmempty"
| connect: "ledger_chain cfg bs us s \<Longrightarrow> applyUndo s' u = s \<Longrightarrow> blk_index b = blk_index (last bs) + 1
    \<Longrightarrow> blk_prev_hash b = blk_hash (last bs) \<Longrightarrow> blk_merkle_root b = MerkleRoot cfg (blk_transactions b)
    \<Longrightarrow> coin_supply s' + unat (blockBurned cfg b) = coin_supply s + unat (BlockReward (blk_index b))
    \<Longrightarrow> keeps_covered bs b s s' \<Longrightarrow> ledger_chain cfg (bs @ [b]) (us @ [u]) s'"

inductive_cases ledger_chain_snocE: "ledger_chain cfg (bs @ [b]) us s"

lemma ledger_chain_upgrades: "ledger_chain (cfg\<lparr>upgrades := u\<rparr>) bs us s \<longleftrightarrow> ledger_chain cfg bs us s"
proof
  show "ledger_chain (cfg\<lparr>upgrades := u\<rparr>) bs us s \<Longrightarrow> ledger_chain cfg bs us s"
    by (induction rule: ledger_chain.induct) (auto intro: ledger_chain.intros)
  show "ledger_chain cfg bs us s \<Longrightarrow> ledger_chain (cfg\<lparr>upgrades := u\<rparr>) bs us s"
    by (induction rule: ledger_chain.induct) (auto intro: ledger_chain.intros)
qed

lemma ledger_lengths: "ledger_chain cfg bs us s \<Longrightarrow> bs \<noteq> [] \<and> length us = length bs"
  by (induction rule: ledger_chain.induct) auto

lemma ledger_numbered:
  "ledger_chain cfg bs us s \<Longrightarrow> i < length bs \<Longrightarrow> blk_index (bs ! i) = of_nat i"
proof (induction arbitrary: i rule: ledger_chain.induct)
  case (connect bs us s s' u b)
  have "bs \<noteq> []" using ledger_lengths [OF connect.hyps(1)] by simp
  then have "blk_index (last bs) = of_nat (length bs - 1)" using connect.IH [of "length bs - 1"] by (simp add: last_conv_nth)
  then have "blk_index b = of_nat (length bs)"
    using connect.hyps(3) \<open>bs \<noteq> []\<close> by (metis Suc_pred' length_greater_0_conv of_nat_Suc add.commute)
  then show ?case using connect.IH [of i] connect.prems by (cases "i < length bs") (auto simp: nth_append less_Suc_eq)
qed simp

lemma ledger_linked:
  "ledger_chain cfg bs us s \<Longrightarrow> Suc i < length bs \<Longrightarrow> blk_prev_hash (bs ! Suc i) = blk_hash (bs ! i)"
proof (induction arbitrary: i rule: ledger_chain.induct)
  case (connect bs us s s' u b)
  have "bs \<noteq> []" using ledger_lengths [OF connect.hyps(1)] by simp
  then show ?case using connect.IH [of i] connect.hyps(4) connect.prems
    by (cases "Suc i = length bs") (auto simp: nth_append last_conv_nth less_Suc_eq dest: sym [of "Suc i"])
qed simp

lemma ledger_merkle:
  "ledger_chain cfg bs us s \<Longrightarrow> b \<in> set bs \<Longrightarrow> blk_merkle_root b = MerkleRoot cfg (blk_transactions b)"
  by (induction rule: ledger_chain.induct) auto

text \<open>The sum of what the blocks of a chain burned.\<close>

definition burned_by :: "config \<Rightarrow> block list \<Rightarrow> nat" where
  "burned_by cfg bs = sum_list (map (\<lambda>b. unat (blockBurned cfg b)) bs)"

lemma burned_by_append: "burned_by cfg (bs @ cs) = burned_by cfg bs + burned_by cfg cs"
  by (simp add: burned_by_def)

lemma ledger_coin:
  assumes "ledger_chain cfg bs us s" "length bs \<le> 2 ^ 64"
  shows "coin_supply s + burned_by cfg bs = minted_upto (length bs - 1)"
  using assms
proof (induction rule: ledger_chain.induct)
  case (genesis g u)
  then show ?case by (simp add: burned_by_def blockBurned_def coin_supply_def ledger_sum_def)
next
  case (connect bs us s s' u b)
  have ne: "bs \<noteq> []" using ledger_lengths [OF connect.hyps(1)] by simp
  have "blk_index b = of_nat (length bs)"
    using ledger_numbered [OF ledger_chain.connect [OF connect.hyps(1-7)], of "length bs"] by simp
  then have "unat (BlockReward (blk_index b)) = reward_at (length bs)"
    using connect.prems by (simp add: unat_BlockReward unat_of_nat)
  moreover have "minted_upto (length bs) = minted_upto (length bs - 1) + reward_at (length bs)"
    using ne minted_upto_Suc [of "length bs - 1"] by simp
  ultimately show ?case using connect by (simp add: burned_by_append) (simp add: burned_by_def)
qed

lemma ledger_covered: "ledger_chain cfg bs us s \<Longrightarrow> covered bs s"
  by (induction rule: ledger_chain.induct) (simp_all add: keeps_covered_def, simp add: covered_def immature_nat_def immature_from_def)

text \<open>Rolling back to a fork: the undo logs lead to the ledger of the shared prefix.\<close>

lemma undo_to_snoc:
  "length us > fork \<Longrightarrow> undo_to fork (us @ [u]) s = undo_to fork us (applyUndo s u)"
  by (simp add: undo_to_def)

lemma undo_to_tip: "length us \<le> fork + 1 \<Longrightarrow> undo_to fork us s = s"
  by (simp add: undo_to_def)

lemma ledger_rollback:
  assumes "ledger_chain cfg bs us s" "fork < length bs"
  shows "ledger_chain cfg (take (fork + 1) bs) (take (fork + 1) us) (undo_to fork us s)"
  using assms
proof (induction rule: ledger_chain.induct)
  case (genesis g u)
  then show ?case using ledger_chain.genesis [of g cfg u] by (simp add: undo_to_tip)
next
  case (connect bs us s s' u b)
  have len: "length us = length bs" using ledger_lengths [OF connect.hyps(1)] by simp
  show ?case
  proof (cases "fork < length bs")
    case True
    then show ?thesis using connect.IH connect.hyps(2) len by (simp add: undo_to_snoc)
  next
    case False
    then have "fork = length bs" using connect.prems by simp
    then show ?thesis using ledger_chain.connect [OF connect.hyps(1-7)] len by (simp add: undo_to_tip)
  qed
qed

text \<open>An accepted block extends the ledger of a chain.\<close>

lemma ledger_accept:
  assumes "ledger_chain cfg bs us s" "applyBlock cfg env s bs b cache cc = (Inr undo, s', cache', cc')"
    and "length bs < 2 ^ 64"
  shows "ledger_chain cfg (bs @ [b]) (us @ [undo]) s'"
proof -
  have "coin_supply s \<le> 2100000000000000"
    using ledger_coin [OF assms(1)] assms(3) minted_upto_bound [of "length bs - 1"] by simp
  moreover have "reward_at 0 = 5000000000" by (simp add: reward_at_def)
  then have "reward_at n \<le> 2100000000000000" for n
    using reward_at_antimono [of 0 n] by simp
  then have "unat (BlockReward (blk_index b)) \<le> 2100000000000000" by (simp add: unat_BlockReward)
  ultimately have "coin_supply s + unat (BlockReward (blk_index b)) < 2 ^ 64" by simp
  note coin = accepted_coin [OF assms(2) this]
  have ne: "bs \<noteq> []" using ledger_lengths [OF assms(1)] by simp
  have "blk_index (last bs) = of_nat (length bs - 1)"
    using ledger_numbered [OF assms(1), of "length bs - 1"] ne by (simp add: last_conv_nth)
  then have idx: "blk_index b = of_nat (length bs)"
    using accepted_structure(1) [OF assms(2)] ne by (simp add: of_nat_diff Suc_leI)
  from assms(2) have "keeps_covered bs b s s'"
    by (rule applyBlock_acceptedE) (rule accepted_covered [OF _ idx assms(3) ne])
  from ledger_chain.connect [OF assms(1) accepted_undo [OF assms(2)] accepted_structure(1,2,6) [OF assms(2)] coin this]
  show ?thesis .
qed


lemma suffix_accept:
  assumes "apply_suffix cfg env i s bs us cache cc suffix = (None, s', bs', us', cache', cc')"
    and "ledger_chain cfg bs us s" "length bs + length suffix \<le> 2 ^ 64"
  shows "bs' = bs @ suffix \<and> ledger_chain cfg bs' us' s'"
  using assms
proof (induction suffix arbitrary: i s bs us cache cc)
  case (Cons b suffix)
  obtain undo s1 cache1 cc1 where step: "applyBlock cfg env s bs b cache cc = (Inr undo, s1, cache1, cc1)"
    and rest: "apply_suffix cfg env (Suc i) s1 (bs @ [b]) (us @ [undo]) cache1 cc1 suffix = (None, s', bs', us', cache', cc')"
    using Cons.prems(1) by (auto split: prod.splits sum.splits)
  have "ledger_chain cfg (bs @ [b]) (us @ [undo]) s1"
    using ledger_accept [OF Cons.prems(2) step] Cons.prems(3) by simp
  from Cons.IH [OF rest this] Cons.prems(3) show ?case by auto
qed simp

section \<open>The derived parts\<close>

lemma connect_derived_fields [simp]:
  "bc_cfg (connect_derived b bc) = bc_cfg bc" "bc_blocks (connect_derived b bc) = bc_blocks bc"
  "bc_state (connect_derived b bc) = bc_state bc" "bc_work (connect_derived b bc) = bc_work bc"
  "bc_undos (connect_derived b bc) = bc_undos bc" "bc_prune_keep (connect_derived b bc) = bc_prune_keep bc"
  "bc_store (connect_derived b bc) = bc_store bc" "bc_table (connect_derived b bc) = bc_table bc"
  "bc_tx_index (connect_derived b bc) = index_block_txs (bc_cfg bc) b (bc_tx_index bc)"
  "bc_burned (connect_derived b bc) = bc_burned bc + blockBurned (bc_cfg bc) b"
  "bc_addr_index (connect_derived b bc) = map_option (index_block_addresses b) (bc_addr_index bc)"
  by (simp_all add: connect_derived_def indexBlock_def extendFilterHeaders_def Let_def split: option.split)

lemma disconnect_derived_fields [simp]:
  "bc_cfg (disconnect_derived b bc) = bc_cfg bc" "bc_blocks (disconnect_derived b bc) = bc_blocks bc"
  "bc_state (disconnect_derived b bc) = bc_state bc" "bc_work (disconnect_derived b bc) = bc_work bc"
  "bc_undos (disconnect_derived b bc) = bc_undos bc" "bc_prune_keep (disconnect_derived b bc) = bc_prune_keep bc"
  "bc_store (disconnect_derived b bc) = bc_store bc" "bc_table (disconnect_derived b bc) = bc_table bc"
  "bc_tx_index (disconnect_derived b bc) = unindex_block_txs (bc_cfg bc) b (bc_tx_index bc)"
  "bc_burned (disconnect_derived b bc) = bc_burned bc - blockBurned (bc_cfg bc) b"
  "bc_addr_index (disconnect_derived b bc) = map_option (unindex_block_addresses b) (bc_addr_index bc)"
  by (simp_all add: disconnect_derived_def unindexBlock_def Let_def)

lemma fold_connect_fields [simp]:
  "bc_cfg (fold connect_derived bs bc) = bc_cfg bc" "bc_blocks (fold connect_derived bs bc) = bc_blocks bc"
  "bc_state (fold connect_derived bs bc) = bc_state bc" "bc_work (fold connect_derived bs bc) = bc_work bc"
  "bc_undos (fold connect_derived bs bc) = bc_undos bc" "bc_prune_keep (fold connect_derived bs bc) = bc_prune_keep bc"
  "bc_store (fold connect_derived bs bc) = bc_store bc" "bc_table (fold connect_derived bs bc) = bc_table bc"
  "bc_tx_index (fold connect_derived bs bc) = fold (index_block_txs (bc_cfg bc)) bs (bc_tx_index bc)"
  "bc_burned (fold connect_derived bs bc) = bc_burned bc + of_nat (burned_by (bc_cfg bc) bs)"
  "bc_addr_index (fold connect_derived bs bc) = map_option (fold index_block_addresses bs) (bc_addr_index bc)"
  by (induction bs arbitrary: bc) (simp_all add: burned_by_def option.map_comp o_def option.map_id)

lemma fold_disconnect_fields [simp]:
  "bc_cfg (fold disconnect_derived bs bc) = bc_cfg bc" "bc_blocks (fold disconnect_derived bs bc) = bc_blocks bc"
  "bc_state (fold disconnect_derived bs bc) = bc_state bc" "bc_work (fold disconnect_derived bs bc) = bc_work bc"
  "bc_undos (fold disconnect_derived bs bc) = bc_undos bc" "bc_prune_keep (fold disconnect_derived bs bc) = bc_prune_keep bc"
  "bc_store (fold disconnect_derived bs bc) = bc_store bc" "bc_table (fold disconnect_derived bs bc) = bc_table bc"
  "bc_tx_index (fold disconnect_derived bs bc) = fold (unindex_block_txs (bc_cfg bc)) bs (bc_tx_index bc)"
  "bc_burned (fold disconnect_derived bs bc) = bc_burned bc - of_nat (burned_by (bc_cfg bc) bs)"
  "bc_addr_index (fold disconnect_derived bs bc) = map_option (fold unindex_block_addresses bs) (bc_addr_index bc)"
  by (induction bs arbitrary: bc) (simp_all add: burned_by_def option.map_comp o_def option.map_id)

text \<open>Unindexing blocks from the tip down gives the index of what is left.\<close>

lemma unindex_suffix:
  assumes "distinct (map blk_index (bs @ suf))"
  shows "fold (unindex_block_txs cfg) (rev suf) (buildTxIndex cfg (bs @ suf)) = buildTxIndex cfg bs"
  using assms
proof (induction suf rule: rev_induct)
  case (snoc b suf)
  have "no_height (blk_index b) (buildTxIndex cfg (bs @ suf))"
    using snoc.prems by (intro buildTxIndex_height) auto
  then have "unindex_block_txs cfg b (buildTxIndex cfg ((bs @ suf) @ [b])) = buildTxIndex cfg (bs @ suf)"
    unfolding buildTxIndex_snoc by (rule unindex_index_txs)
  then show ?case using snoc by simp
qed simp

definition buildAddrIndex :: "block list \<Rightarrow> addr_index" where
  "buildAddrIndex bs = fold index_block_addresses bs fmempty"

lemma buildAddrIndex_ok:
  "addr_index_ok (buildAddrIndex bs) \<and> (\<forall>a. \<forall>l \<in> set (fmget [] (buildAddrIndex bs) a). loc_height l \<in> blk_index ` set bs)"
proof (induction bs rule: rev_induct)
  case Nil
  then show ?case by (simp add: buildAddrIndex_def addr_index_ok_def fmget_def)
next
  case (snoc b bs)
  let ?ps = "enumerate 0 (blk_transactions b)"
  have "addr_index_ok (fold (\<lambda>(i, tx). fold (index_address \<lparr>loc_height = H, loc_index = i\<rparr>) (txAddresses tx)) ps idx)"
    if "addr_index_ok idx" for H ps idx
    using that by (induction ps arbitrary: idx) (auto simp: index_addresses_ok)
  from this [of "buildAddrIndex bs"] snoc have ok: "addr_index_ok (index_block_addresses b (buildAddrIndex bs))"
    by (simp add: index_block_addresses_def)
  have "loc_height l \<in> blk_index ` set (bs @ [b])" if "l \<in> set (fmget [] (index_block_addresses b (buildAddrIndex bs)) a)" for a l
  proof -
    obtain ls where "fmget [] (index_block_addresses b (buildAddrIndex bs)) a = fmget [] (buildAddrIndex bs) a @ ls"
      "\<forall>l \<in> set ls. loc_height l = blk_index b"
      using index_block_addresses_get [of "blk_index b" ?ps "buildAddrIndex bs" a] unfolding index_block_addresses_def by blast
    with that snoc show ?thesis by auto
  qed
  moreover have "buildAddrIndex (bs @ [b]) = index_block_addresses b (buildAddrIndex bs)" by (simp add: buildAddrIndex_def)
  ultimately show ?case using ok by simp
qed

lemma unindex_addr_suffix:
  assumes "distinct (map blk_index (bs @ suf))"
  shows "fold unindex_block_addresses (rev suf) (buildAddrIndex (bs @ suf)) = buildAddrIndex bs"
  using assms
proof (induction suf rule: rev_induct)
  case (snoc b suf)
  have "buildAddrIndex ((bs @ suf) @ [b]) = index_block_addresses b (buildAddrIndex (bs @ suf))" by (simp add: buildAddrIndex_def)
  moreover have "unindex_block_addresses b (index_block_addresses b (buildAddrIndex (bs @ suf))) = buildAddrIndex (bs @ suf)"
  proof (rule unindex_index_addresses)
    show "addr_index_ok (buildAddrIndex (bs @ suf))" using buildAddrIndex_ok by blast
    fix a l assume "l \<in> set (fmget [] (buildAddrIndex (bs @ suf)) a)"
    then have "loc_height l \<in> blk_index ` set (bs @ suf)" using buildAddrIndex_ok by blast
    then show "loc_height l \<noteq> blk_index b" using snoc.prems by auto
  qed
  ultimately show ?case using snoc by simp
qed simp


section \<open>The invariant\<close>

definition chain_ok :: "chain \<Rightarrow> bool" where
  "chain_ok bc \<longleftrightarrow> ledger_chain (bc_cfg bc) (bc_blocks bc) (bc_undos bc) (bc_state bc)
     \<and> bc_work bc = ChainWork (bc_blocks bc)
     \<and> bc_burned bc = of_nat (burned_by (bc_cfg bc) (bc_blocks bc))
     \<and> bc_tx_index bc = buildTxIndex (bc_cfg bc) (bc_blocks bc)
     \<and> (\<forall>idx. bc_addr_index bc = Some idx \<longrightarrow> idx = buildAddrIndex (bc_blocks bc))
     \<and> bc_prune_keep bc = 0"

lemma prune_off [simp]: "bc_prune_keep bc = 0 \<Longrightarrow> pruneLocked bc = bc"
  by (simp add: pruneLocked_def)

lemma chain_ok_more: "chain_ok (bc\<lparr>bc_sig_cache := c, bc_nodes := n\<rparr>) = chain_ok bc" "chain_ok (bc\<lparr>bc_store := st\<rparr>) = chain_ok bc"
  by (simp_all add: chain_ok_def)

lemma burned_by_upgrades [simp]: "burned_by (cfg\<lparr>upgrades := u\<rparr>) = burned_by cfg"
  by (simp add: fun_eq_iff burned_by_def)

lemma chain_ok_upgrades: "chain_ok (bc\<lparr>bc_cfg := (bc_cfg bc)\<lparr>upgrades := u\<rparr>\<rparr>) = chain_ok bc"
  by (simp add: chain_ok_def ledger_chain_upgrades)

lemma new_chain_ok:
  assumes "NewBlockchain cfg table = Some bc"
  shows "chain_ok bc"
proof -
  have "chain_ok (genesis_chain cfg table)"
    by (auto simp: chain_ok_def genesis_chain_def GenesisBlock_def Let_def ChainWork_def burned_by_def blockBurned_def
        buildTxIndex_def index_block_txs_def intro: ledger_chain.genesis)
  moreover obtain u where "bc = (genesis_chain cfg table)\<lparr>bc_cfg := (bc_cfg (genesis_chain cfg table))\<lparr>upgrades := u\<rparr>\<rparr>"
    using assms unfolding NewBlockchain_def by (rule refreshed)
  ultimately show ?thesis using chain_ok_upgrades by simp
qed

text \<open>A refused block changes nothing but the caches and, when the log failed, the log.\<close>

lemma AddBlock_refused:
  assumes "AddBlock env b bc = Some (Some e, bc')"
  shows "\<exists>c n st. bc' = bc\<lparr>bc_sig_cache := c, bc_nodes := n, bc_store := st\<rparr>"
proof -
  obtain r state cache cc where ap: "applyBlock (bc_cfg bc) env (bc_state bc) (bc_blocks bc) b (bc_sig_cache bc)
      (Some (commitCtxAt (length (bc_blocks bc) - 1) bc)) = (r, state, cache, cc)" by (metis prod_cases4)
  show ?thesis
  proof (cases r)
    case (Inl e')
    then have "state = bc_state bc" using ap applyBlock_refused by blast
    moreover have "bc' = bc\<lparr>bc_state := state, bc_sig_cache := cache, bc_nodes := cc_nodes (the cc)\<rparr>"
      using assms ap Inl by (simp add: AddBlock_def Let_def)
    ultimately show ?thesis
      by (intro exI [of _ cache] exI [of _ "cc_nodes (the cc)"] exI [of _ "bc_store bc"]) simp
  next
    case (Inr undo)
    then have "applyUndo state undo = bc_state bc" using ap accepted_undo by blast
    moreover obtain st where "bc' = bc\<lparr>bc_sig_cache := cache, bc_nodes := cc_nodes (the cc), bc_store := st, bc_state := applyUndo state undo\<rparr>"
      using assms ap Inr by (auto simp: AddBlock_def Let_def split: option.splits prod.splits)
    ultimately show ?thesis by (intro exI [of _ cache] exI [of _ "cc_nodes (the cc)"] exI [of _ st]) simp
  qed
qed

lemma AddBlock_acceptedE:
  assumes "AddBlock env b bc = Some (None, bc')" "bc_prune_keep bc = 0"
  obtains undo state cache cc u st where
    "applyBlock (bc_cfg bc) env (bc_state bc) (bc_blocks bc) b (bc_sig_cache bc)
       (Some (commitCtxAt (length (bc_blocks bc) - 1) bc)) = (Inr undo, state, cache, cc)"
    "bc' = connect_derived b (bc\<lparr>bc_state := state, bc_sig_cache := cache, bc_nodes := cc_nodes (the cc), bc_store := st,
       bc_blocks := bc_blocks bc @ [b], bc_undos := bc_undos bc @ [undo], bc_history := cc_history (the cc),
       bc_cfg := (bc_cfg bc)\<lparr>upgrades := u\<rparr>, bc_work := bc_work bc + BlockWork (blk_bits b)\<rparr>)"
    "(case bc_store bc of None \<Rightarrow> st = None | Some s \<Rightarrow> \<exists>s'. store_append b s = (None, s') \<and> st = Some s')"
proof -
  obtain r state cache cc where ap: "applyBlock (bc_cfg bc) env (bc_state bc) (bc_blocks bc) b (bc_sig_cache bc)
      (Some (commitCtxAt (length (bc_blocks bc) - 1) bc)) = (r, state, cache, cc)" by (metis prod_cases4)
  then obtain undo where r: "r = Inr undo" using assms(1) by (cases r) (simp_all add: AddBlock_def Let_def)
  let ?bc1 = "bc\<lparr>bc_state := state, bc_sig_cache := cache, bc_nodes := cc_nodes (the cc)\<rparr>"
  obtain st where st: "connect_block b undo (cc_history (the cc)) (?bc1\<lparr>bc_store := st\<rparr>) = Some bc'"
    "case bc_store bc of None \<Rightarrow> st = None | Some s \<Rightarrow> \<exists>s'. store_append b s = (None, s') \<and> st = Some s'"
    using assms(1) ap r by (auto simp: AddBlock_def Let_def split: option.splits prod.splits)
  let ?bc2 = "?bc1\<lparr>bc_store := st, bc_blocks := bc_blocks bc @ [b], bc_undos := bc_undos bc @ [undo],
    bc_history := cc_history (the cc)\<rparr>"
  obtain bc3 where bc3: "refreshDeploymentsLocked ?bc2 = Some bc3"
    "bc' = pruneLocked (connect_derived b (bc3\<lparr>bc_work := bc_work bc3 + BlockWork (blk_bits b)\<rparr>))"
    using st(1) by (auto simp: connect_block_def split: option.splits)
  from bc3(1) obtain u where "bc3 = ?bc2\<lparr>bc_cfg := (bc_cfg ?bc2)\<lparr>upgrades := u\<rparr>\<rparr>" by (rule refreshed)
  then show ?thesis using that [of undo state cache cc u st] ap r bc3(2) st(2) assms(2) by simp
qed

lemma AddBlock_ok:
  assumes "chain_ok bc" "AddBlock env b bc = Some (e, bc')" "length (bc_blocks bc) < 2 ^ 64"
  shows "chain_ok bc'"
proof (cases e)
  case (Some x)
  then obtain c n st where "bc' = bc\<lparr>bc_sig_cache := c, bc_nodes := n, bc_store := st\<rparr>"
    using AddBlock_refused assms(2) by blast
  then show ?thesis using assms(1) by (simp add: chain_ok_def)
next
  case None
  have ok: "ledger_chain (bc_cfg bc) (bc_blocks bc) (bc_undos bc) (bc_state bc)" "bc_prune_keep bc = 0"
    using assms(1) by (simp_all add: chain_ok_def)
  from assms(2) [unfolded None] ok(2) show ?thesis
  proof (rule AddBlock_acceptedE)
    fix undo state cache cc u st
    assume "applyBlock (bc_cfg bc) env (bc_state bc) (bc_blocks bc) b (bc_sig_cache bc)
      (Some (commitCtxAt (length (bc_blocks bc) - 1) bc)) = (Inr undo, state, cache, cc)"
    from ledger_accept [OF ok(1) this assms(3)]
    have "ledger_chain (bc_cfg bc) (bc_blocks bc @ [b]) (bc_undos bc @ [undo]) state" .
    moreover assume "bc' = connect_derived b (bc\<lparr>bc_state := state, bc_sig_cache := cache, bc_nodes := cc_nodes (the cc), bc_store := st,
       bc_blocks := bc_blocks bc @ [b], bc_undos := bc_undos bc @ [undo], bc_history := cc_history (the cc),
       bc_cfg := (bc_cfg bc)\<lparr>upgrades := u\<rparr>, bc_work := bc_work bc + BlockWork (blk_bits b)\<rparr>)"
    ultimately show ?thesis using assms(1)
      by (auto simp: chain_ok_def ledger_chain_upgrades ChainWork_append buildTxIndex_snoc burned_by_append)
        (simp_all add: ChainWork_def burned_by_def buildAddrIndex_def)
  qed
qed


lemma truncate_fields [simp]:
  "bc_cfg (truncateFilterHeaders f bc) = bc_cfg bc" "bc_blocks (truncateFilterHeaders f bc) = bc_blocks bc"
  "bc_state (truncateFilterHeaders f bc) = bc_state bc" "bc_work (truncateFilterHeaders f bc) = bc_work bc"
  "bc_undos (truncateFilterHeaders f bc) = bc_undos bc" "bc_prune_keep (truncateFilterHeaders f bc) = bc_prune_keep bc"
  "bc_store (truncateFilterHeaders f bc) = bc_store bc" "bc_tx_index (truncateFilterHeaders f bc) = bc_tx_index bc"
  "bc_burned (truncateFilterHeaders f bc) = bc_burned bc" "bc_addr_index (truncateFilterHeaders f bc) = bc_addr_index bc"
  "bc_table (truncateFilterHeaders f bc) = bc_table bc"
  by (simp_all add: truncateFilterHeaders_def)

text \<open>What adopting a suffix does to each part of the chain.\<close>

definition reorged :: "nat \<Rightarrow> block list \<Rightarrow> chain \<Rightarrow> state \<Rightarrow> undo_entry list list \<Rightarrow> chain \<Rightarrow> bool" where
  "reorged fork suffix bc state undos bc' \<longleftrightarrow>
     bc_blocks bc' = take (fork + 1) (bc_blocks bc) @ suffix \<and> bc_state bc' = state \<and> bc_undos bc' = undos
     \<and> bc_work bc' = ChainWork (take (fork + 1) (bc_blocks bc)) + ChainWork suffix
     \<and> bc_burned bc' = bc_burned bc - of_nat (burned_by (bc_cfg bc) (drop (fork + 1) (bc_blocks bc)))
         + of_nat (burned_by (bc_cfg bc) suffix)
     \<and> bc_tx_index bc' = fold (index_block_txs (bc_cfg bc)) suffix
         (fold (unindex_block_txs (bc_cfg bc)) (rev (drop (fork + 1) (bc_blocks bc))) (bc_tx_index bc))
     \<and> bc_addr_index bc' = map_option (fold index_block_addresses suffix)
         (map_option (fold unindex_block_addresses (rev (drop (fork + 1) (bc_blocks bc)))) (bc_addr_index bc))
     \<and> bc_prune_keep bc' = 0 \<and> bc_table bc' = bc_table bc \<and> (\<exists>u. bc_cfg bc' = (bc_cfg bc)\<lparr>upgrades := u\<rparr>)"

lemma burned_by_rev [simp]: "burned_by cfg (rev bs) = burned_by cfg bs"
  unfolding burned_by_def by (simp add: rev_map [symmetric])

lemma commit_reorg_fields:
  assumes "commit_reorg fork suffix state undos (ChainWork (take (fork + 1) (bc_blocks bc)) + ChainWork suffix) history bc = Some bc'"
    and "bc_prune_keep bc = 0"
  shows "reorged fork suffix bc state undos bc' \<and> bc_store bc' = bc_store bc"
proof -
  let ?bc1 = "fold disconnect_derived (rev (drop (fork + 1) (bc_blocks bc))) bc"
  let ?bc2 = "?bc1\<lparr>bc_blocks := take (fork + 1) (bc_blocks bc) @ suffix\<rparr>"
  obtain bc3 where r: "refreshDeploymentsLocked ?bc2 = Some bc3"
    using assms(1) by (auto simp: commit_reorg_def Let_def split: option.splits)
  from r obtain u where bc3: "bc3 = ?bc2\<lparr>bc_cfg := (bc_cfg ?bc2)\<lparr>upgrades := u\<rparr>\<rparr>" by (rule refreshed)
  let ?bc4 = "truncateFilterHeaders (of_nat fork) (bc3\<lparr>bc_state := state, bc_undos := undos,
    bc_work := ChainWork (take (fork + 1) (bc_blocks bc)) + ChainWork suffix, bc_history := history\<rparr>)"
  have "bc_prune_keep (fold connect_derived suffix ?bc4) = 0" using bc3 assms(2) by simp
  then have "bc' = fold connect_derived suffix ?bc4"
    using assms(1) r by (simp add: commit_reorg_def Let_def)
  then show ?thesis using bc3 assms(2) by (auto simp: reorged_def)
qed

lemma reorg_refused:
  assumes "reorgLocked env fork suffix bc = Some (r, bc')" "\<forall>bs. r \<noteq> Inr (True, bs)"
  shows "\<exists>c n st. bc' = bc\<lparr>bc_sig_cache := c, bc_nodes := n, bc_store := st\<rparr>
    \<and> (st \<noteq> bc_store bc \<longrightarrow> (\<exists>e s. r = Inl (PersistReorgFailed e) \<and> st = Some s \<and> bs_poisoned s))"
proof -
  let ?stop = "of_nat fork < highestCheckpoint (bc_cfg bc) \<or> MaxReorgDepth < length (bc_blocks bc) - 1 - fork
    \<or> \<not> candidate_wins fork suffix bc"
  show ?thesis
  proof (cases ?stop)
    case True
    then have "bc' = bc" using assms(1) by (auto simp: reorgLocked_def Let_def split: if_splits)
    then have "bc' = bc\<lparr>bc_sig_cache := bc_sig_cache bc, bc_nodes := bc_nodes bc, bc_store := bc_store bc\<rparr>" by simp
    then show ?thesis by blast
  next
    case False
    obtain q state blocks undos cache cc where
      ap: "apply_suffix (bc_cfg bc) env 0 (undo_to fork (bc_undos bc) (bc_state bc)) (take (fork + 1) (bc_blocks bc))
         (take (fork + 1) (bc_undos bc)) (bc_sig_cache bc) (Some (commitCtxAt fork bc)) suffix
         = (q, state, blocks, undos, cache, cc)" by (metis prod_cases6)
    let ?bc1 = "bc\<lparr>bc_sig_cache := cache, bc_nodes := cc_nodes (the cc)\<rparr>"
    obtain e st where p: "persist_reorg fork suffix (bc_store bc) = (e, st)" by fastforce
    have run: "(case q of Some (i, e) \<Rightarrow> Some (Inl (SuffixRejected (fork + 1 + i) e), ?bc1)
      | None \<Rightarrow> (case e of Some e \<Rightarrow> Some (Inl (PersistReorgFailed e), ?bc1\<lparr>bc_store := st\<rparr>)
          | None \<Rightarrow> map_option (\<lambda>bc'. (Inr (True, drop (fork + 1) (bc_blocks bc)), bc'))
              (commit_reorg fork suffix state undos (ChainWork (take (fork + 1) (bc_blocks bc)) + ChainWork suffix)
                 (cc_history (the cc)) (?bc1\<lparr>bc_store := st\<rparr>)))) = Some (r, bc')"
      using assms(1) False ap p by (cases q; cases e) (auto simp: reorgLocked_def Let_def)
    show ?thesis
    proof (cases q)
      case (Some ie)
      then have "bc' = ?bc1" using run by (cases ie) simp
      then have "bc' = bc\<lparr>bc_sig_cache := cache, bc_nodes := cc_nodes (the cc), bc_store := bc_store bc\<rparr>" by simp
      then show ?thesis by blast
    next
      case None
      then have "e \<noteq> None" using run assms(2) by (cases e) auto
      then obtain x where e: "e = Some x" by blast
      then have "bc' = ?bc1\<lparr>bc_store := st\<rparr>" "r = Inl (PersistReorgFailed x)" using run None by simp_all
      moreover have "\<exists>s. st = Some s \<and> bs_poisoned s"
        using p e by (auto simp: persist_reorg_def store_poison_def split: option.splits prod.splits)
      ultimately show ?thesis by blast
    qed
  qed
qed

lemma reorg_acceptedE:
  assumes "reorgLocked env fork suffix bc = Some (Inr (True, discarded), bc')" "bc_prune_keep bc = 0"
  obtains state blocks undos cache cc where
    "\<not> of_nat fork < highestCheckpoint (bc_cfg bc)" "length (bc_blocks bc) - 1 - fork \<le> MaxReorgDepth"
    "candidate_wins fork suffix bc" "discarded = drop (fork + 1) (bc_blocks bc)"
    "apply_suffix (bc_cfg bc) env 0 (undo_to fork (bc_undos bc) (bc_state bc)) (take (fork + 1) (bc_blocks bc))
       (take (fork + 1) (bc_undos bc)) (bc_sig_cache bc) (Some (commitCtxAt fork bc)) suffix
       = (None, state, blocks, undos, cache, cc)"
    "reorged fork suffix bc state undos bc'" "persist_reorg fork suffix (bc_store bc) = (None, bc_store bc')"
proof -
  obtain r state blocks undos cache cc where
    ap: "apply_suffix (bc_cfg bc) env 0 (undo_to fork (bc_undos bc) (bc_state bc)) (take (fork + 1) (bc_blocks bc))
       (take (fork + 1) (bc_undos bc)) (bc_sig_cache bc) (Some (commitCtxAt fork bc)) suffix
       = (r, state, blocks, undos, cache, cc)" by (metis prod_cases6)
  have guards: "\<not> of_nat fork < highestCheckpoint (bc_cfg bc)" "length (bc_blocks bc) - 1 - fork \<le> MaxReorgDepth"
    "candidate_wins fork suffix bc"
    using assms(1) by (auto simp: reorgLocked_def Let_def split: if_splits)
  let ?bc1 = "bc\<lparr>bc_sig_cache := cache, bc_nodes := cc_nodes (the cc)\<rparr>"
  obtain e st where p: "persist_reorg fork suffix (bc_store ?bc1) = (e, st)" by fastforce
  have none: "r = None" "e = None" "discarded = drop (fork + 1) (bc_blocks bc)"
    "commit_reorg fork suffix state undos (ChainWork (take (fork + 1) (bc_blocks bc)) + ChainWork suffix)
      (cc_history (the cc)) (?bc1\<lparr>bc_store := st\<rparr>) = Some bc'"
    using assms(1) guards ap p by (auto simp: reorgLocked_def Let_def split: if_splits option.splits)
  have "reorged fork suffix (?bc1\<lparr>bc_store := st\<rparr>) state undos bc' \<and> bc_store bc' = st"
    using commit_reorg_fields [of fork suffix state undos "?bc1\<lparr>bc_store := st\<rparr>" "cc_history (the cc)" bc'] none(4) assms(2)
    by simp
  then have "reorged fork suffix bc state undos bc'" "bc_store bc' = st" by (simp_all add: reorged_def)
  then show ?thesis using that [OF guards none(3)] ap p none(1,2) by simp
qed

lemma ledger_indices_distinct:
  assumes "ledger_chain cfg bs us s" "length bs \<le> 2 ^ 64"
  shows "distinct (map blk_index bs)"
proof -
  have "map blk_index bs = map of_nat [0..<length bs]"
    using ledger_numbered [OF assms(1)] by (intro nth_equalityI) simp_all
  moreover have "inj_on (of_nat :: nat \<Rightarrow> u64) {0..<2 ^ 64}"
    by (rule inj_onI) (auto intro: of_nat_eq_small)
  then have "inj_on (of_nat :: nat \<Rightarrow> u64) (set [0..<length bs])"
    by (rule inj_on_subset) (use assms(2) in auto)
  ultimately show ?thesis by (simp only: distinct_map distinct_upt)
qed

lemma reorg_ok:
  assumes "chain_ok bc" "reorgLocked env fork suffix bc = Some (r, bc')" "fork < length (bc_blocks bc)"
    and "length (bc_blocks bc) \<le> 2 ^ 64" "length (bc_blocks bc') \<le> 2 ^ 64"
  shows "chain_ok bc'"
proof (cases "\<exists>bs. r = Inr (True, bs)")
  case False
  then show ?thesis using reorg_refused [OF assms(2)] assms(1) by (auto simp: chain_ok_def)
next
  case True
  let ?bs = "take (fork + 1) (bc_blocks bc)" and ?cut = "drop (fork + 1) (bc_blocks bc)"
  have ok: "ledger_chain (bc_cfg bc) (bc_blocks bc) (bc_undos bc) (bc_state bc)" "bc_prune_keep bc = 0"
    "bc_burned bc = of_nat (burned_by (bc_cfg bc) (bc_blocks bc))" "bc_tx_index bc = buildTxIndex (bc_cfg bc) (bc_blocks bc)"
    "\<And>idx. bc_addr_index bc = Some idx \<Longrightarrow> idx = buildAddrIndex (bc_blocks bc)"
    using assms(1) by (auto simp: chain_ok_def)
  from True assms(2) obtain bs where "reorgLocked env fork suffix bc = Some (Inr (True, bs), bc')" by blast
  from this ok(2) show ?thesis
  proof (rule reorg_acceptedE)
    fix state blocks undos cache cc
    assume ap: "apply_suffix (bc_cfg bc) env 0 (undo_to fork (bc_undos bc) (bc_state bc)) ?bs
       (take (fork + 1) (bc_undos bc)) (bc_sig_cache bc) (Some (commitCtxAt fork bc)) suffix
       = (None, state, blocks, undos, cache, cc)" and re: "reorged fork suffix bc state undos bc'"
    have len: "length ?bs + length suffix \<le> 2 ^ 64" using assms(5) re by (simp add: reorged_def)
    from suffix_accept [OF ap ledger_rollback [OF ok(1) assms(3)] len]
    have ledger: "ledger_chain (bc_cfg bc) (?bs @ suffix) undos state" by blast
    have split: "?bs @ ?cut = bc_blocks bc" by simp
    have dist: "distinct (map blk_index (?bs @ ?cut))" unfolding split by (rule ledger_indices_distinct [OF ok(1) assms(4)])
    have "bc_tx_index bc' = buildTxIndex (bc_cfg bc) (?bs @ suffix)"
      using unindex_suffix [OF dist, of "bc_cfg bc"] re ok(4) unfolding split by (simp add: reorged_def buildTxIndex_def)
    moreover have "idx = buildAddrIndex (?bs @ suffix)" if idx: "bc_addr_index bc' = Some idx" for idx
    proof -
      have "map_option (fold index_block_addresses suffix)
          (map_option (fold unindex_block_addresses (rev ?cut)) (bc_addr_index bc)) = Some idx"
        using re idx by (simp add: reorged_def)
      then obtain old where "bc_addr_index bc = Some old"
        "idx = fold index_block_addresses suffix (fold unindex_block_addresses (rev ?cut) old)" by auto
      then show ?thesis using unindex_addr_suffix [OF dist] ok(5) unfolding split by (simp add: buildAddrIndex_def)
    qed
    moreover have "burned_by (bc_cfg bc) (bc_blocks bc) = burned_by (bc_cfg bc) ?bs + burned_by (bc_cfg bc) ?cut"
      using burned_by_append [of "bc_cfg bc" ?bs ?cut] unfolding split .
    then have "bc_burned bc' = of_nat (burned_by (bc_cfg bc) (?bs @ suffix))"
      using re ok(3) by (simp add: reorged_def burned_by_append)
    ultimately show ?thesis using ledger re
      by (auto simp: chain_ok_def reorged_def ledger_chain_upgrades ChainWork_append)
  qed
qed


section \<open>Reachable chains\<close>

text \<open>
  A slice of a Go program has fewer than \<open>2 ^ 63\<close> elements, so does the list of blocks. A store may be
  attached at any time, as \<open>Open\<close> does after its replay.
\<close>

definition fits_memory :: "chain \<Rightarrow> bool" where
  "fits_memory bc \<longleftrightarrow> length (bc_blocks bc) < 2 ^ 63"

inductive chain_step :: "chain \<Rightarrow> chain \<Rightarrow> bool" where
  add: "AddBlock env b bc = Some (e, bc') \<Longrightarrow> chain_step bc bc'"
| reorg: "ReorgFrom env h suffix bc = Some (r, bc') \<Longrightarrow> chain_step bc bc'"
| replace: "ReplaceChain env incoming bc = Some (r, bc') \<Longrightarrow> chain_step bc bc'"
| address_index: "chain_step bc (EnableAddressIndex bc)"
| attach: "chain_step bc (bc\<lparr>bc_store := st\<rparr>)"

inductive reachable_chain :: "config \<Rightarrow> deployment_table \<Rightarrow> chain \<Rightarrow> bool" for cfg table where
  start: "NewBlockchain cfg table = Some bc \<Longrightarrow> reachable_chain cfg table bc"
| step: "reachable_chain cfg table bc \<Longrightarrow> chain_step bc bc' \<Longrightarrow> fits_memory bc' \<Longrightarrow> reachable_chain cfg table bc'"

lemma commonPrefix_le: "commonPrefix as bs \<le> length as"
  by (induction as bs rule: commonPrefix.induct) auto

lemma chain_ok_ne: "chain_ok bc \<Longrightarrow> bc_blocks bc \<noteq> []"
  using ledger_lengths by (auto simp: chain_ok_def)

lemma step_ok:
  assumes "chain_step bc bc'" "chain_ok bc" "fits_memory bc" "fits_memory bc'"
  shows "chain_ok bc'"
proof -
  have len: "length (bc_blocks bc) < 2 ^ 64" "length (bc_blocks bc') \<le> 2 ^ 64"
    using assms(3,4) by (simp_all add: fits_memory_def)
  have re: "chain_ok bc'" if "reorgLocked env fork suffix bc = Some (r, bc')" "fork < length (bc_blocks bc)" for env fork suffix r
    using reorg_ok [OF assms(2) that] len by simp
  from assms(1) show ?thesis
  proof cases
    case (add env b e)
    then show ?thesis using AddBlock_ok [OF assms(2)] len by blast
  next
    case (reorg env h suffix r)
    have "unat h < length (bc_blocks bc)" if "\<not> of_nat (length (bc_blocks bc)) \<le> h"
      using that len(1) by (simp add: word_le_nat_alt unat_of_nat)
    then show ?thesis using reorg re assms(2) by (auto simp: ReorgFrom_def split: if_splits)
  next
    case (replace env incoming r)
    have "commonPrefix (bc_blocks bc) incoming - 1 < length (bc_blocks bc)"
    proof -
      have "0 < length (bc_blocks bc)" using chain_ok_ne [OF assms(2)] by simp
      then show ?thesis using commonPrefix_le [of "bc_blocks bc" incoming] by linarith
    qed
    then show ?thesis using replace re assms(2) by (auto simp: ReplaceChain_def Let_def split: if_splits)
  qed (use assms(2) in \<open>auto simp: chain_ok_def EnableAddressIndex_def buildAddrIndex_def\<close>)
qed

lemma new_fits: "NewBlockchain cfg table = Some bc \<Longrightarrow> fits_memory bc"
  unfolding NewBlockchain_def by (erule refreshed) (simp add: fits_memory_def genesis_chain_def)

lemma reachable_ok: "reachable_chain cfg table bc \<Longrightarrow> chain_ok bc \<and> fits_memory bc"
  by (induction rule: reachable_chain.induct) (auto simp: new_chain_ok new_fits intro: step_ok)

end
