(* ===== verification/Chain_Queries.thy ===== *)
theory Chain_Queries
  imports Chain_Invariant
begin

text \<open>
  What a chain answers without changing: headers and bodies by height, what a miner fills into a
  candidate, locators and their fork point, the validation of a run of headers, inclusion and ancestry
  proofs (\<open>core/blockchain.go\<close>), the supply report (\<open>core/supply.go\<close>), filters by height
  (\<open>core/cfilter.go\<close>), which bodies are still held (\<open>core/prune.go\<close>), the history of an address
  (\<open>core/addrindex.go\<close>) and the listings of assets and their holders (\<open>core/assetindex.go\<close>).
\<close>

section \<open>Headers and bodies\<close>

definition SpendableBalance :: "string \<Rightarrow> chain \<Rightarrow> u64" where
  "SpendableBalance addr bc =
     (let bal = acc_balance (state_Get (bc_state bc) addr);
          imm = immatureCoinbase (bc_blocks bc) (of_nat (length (bc_blocks bc))) addr
      in if bal \<le> imm then 0 else bal - imm)"

definition NextBits :: "chain \<Rightarrow> u32" where
  "NextBits bc = expectedBits (bc_cfg bc) (bc_blocks bc) (of_nat (length (bc_blocks bc)))"

definition NextBaseFee :: "chain \<Rightarrow> u64" where
  "NextBaseFee bc = expectedBaseFee (bc_blocks bc) (of_nat (length (bc_blocks bc)))"

definition bc_Headers :: "chain \<Rightarrow> header list" where
  "bc_Headers bc = map block_Header (bc_blocks bc)"

definition HeaderAt :: "u64 \<Rightarrow> chain \<Rightarrow> header option" where
  "HeaderAt height bc =
     (if of_nat (length (bc_blocks bc)) \<le> height then None else Some (block_Header (bc_blocks bc ! unat height)))"

definition BlockAt :: "u64 \<Rightarrow> chain \<Rightarrow> block option" where
  "BlockAt height bc =
     (if of_nat (length (bc_blocks bc)) \<le> height then None else Some (bc_blocks bc ! unat height))"

text \<open>The positions a page of at most \<open>most\<close> entries from \<open>from\<close> covers.\<close>

definition page :: "u64 \<Rightarrow> int \<Rightarrow> nat \<Rightarrow> nat list" where
  "page from most len =
     (if of_nat len \<le> from \<or> most \<le> 0 then []
      else let stop = from + of_int most in
        [unat from..<unat (if of_nat len < stop then of_nat len else stop)])"

definition HeadersFrom :: "u64 \<Rightarrow> int \<Rightarrow> chain \<Rightarrow> header list" where
  "HeadersFrom from most bc = map (\<lambda>i. block_Header (bc_blocks bc ! i)) (page from most (length (bc_blocks bc)))"

definition BlocksRange :: "u64 \<Rightarrow> u64 \<Rightarrow> int \<Rightarrow> chain \<Rightarrow> block list" where
  "BlocksRange from to most bc =
     (let len = of_nat (length (bc_blocks bc)) in
      if len \<le> from \<or> to < from \<or> most \<le> 0 then []
      else let to1 = (if len \<le> to then len - 1 else to);
               to2 = (if of_int most < to1 - from + 1 then from + of_int most - 1 else to1)
        in map (\<lambda>i. bc_blocks bc ! i) [unat from..<unat to2 + 1])"

section \<open>Bodies, filters and pruning\<close>

fun first_body :: "nat \<Rightarrow> block list \<Rightarrow> nat" where
  "first_body i [] = i"
| "first_body i (b # bs) = (if IsPlaceholder b then first_body (i + 1) bs else i)"

definition bodyHeight :: "chain \<Rightarrow> u64" where
  "bodyHeight bc = of_nat (first_body 1 (drop 1 (bc_blocks bc)))"

definition HasBody :: "u64 \<Rightarrow> chain \<Rightarrow> bool" where
  "HasBody height bc =
     (if of_nat (length (bc_blocks bc)) \<le> height then False else \<not> IsPlaceholder (bc_blocks bc ! unat height))"

datatype body_error = NoBlockAt u64 | PrunedBody u64 u64

definition BlockBodyAt :: "u64 \<Rightarrow> chain \<Rightarrow> body_error + block" where
  "BlockBodyAt height bc =
     (if of_nat (length (bc_blocks bc)) \<le> height then Inl (NoBlockAt height)
      else let b = bc_blocks bc ! unat height in
        if IsPlaceholder b then Inl (PrunedBody height (bodyHeight bc)) else Inr b)"

definition BlockFilterAt :: "u64 \<Rightarrow> chain \<Rightarrow> block_filter option" where
  "BlockFilterAt height bc =
     (if of_nat (length (bc_blocks bc)) \<le> height then None
      else if IsPlaceholder (bc_blocks bc ! unat height) then None
      else Some (BuildBlockFilter (bc_cfg bc) (bc_blocks bc ! unat height)))"

definition BlockFilters :: "chain \<Rightarrow> block_filter list" where
  "BlockFilters bc = map (BuildBlockFilter (bc_cfg bc)) (filter (\<lambda>b. \<not> IsPlaceholder b) (bc_blocks bc))"

definition BlockFiltersFrom :: "u64 \<Rightarrow> int \<Rightarrow> chain \<Rightarrow> block_filter list" where
  "BlockFiltersFrom from most bc =
     map (BuildBlockFilter (bc_cfg bc)) (filter (\<lambda>b. \<not> IsPlaceholder b)
       (map (\<lambda>i. bc_blocks bc ! i) (page from most (length (bc_blocks bc)))))"

definition FilterHeadersFrom :: "u64 \<Rightarrow> int \<Rightarrow> chain \<Rightarrow> string list" where
  "FilterHeadersFrom from most bc =
     (if most \<le> 0 \<or> from < bc_filter_base bc then []
      else map (\<lambda>i. bc_filter_headers bc ! i)
        (page (from - bc_filter_base bc) most (length (bc_filter_headers bc))))"

section \<open>What a miner asks\<close>

text \<open>
  \<open>NextStateRoot\<close> applies the candidate to a copy of the ledger; the nodes it writes and the
  transactions it verifies stay in the shared caches.
\<close>

definition NextStateRoot :: "block \<Rightarrow> chain \<Rightarrow> (apply_block_error + string) \<times> chain" where
  "NextStateRoot cand bc =
     (case applyTxsAndCoinbase (bc_cfg bc) (bc_state bc) (bc_blocks bc) cand (bc_sig_cache bc) of
        (Inl e, _, cache) \<Rightarrow> (Inl e, bc\<lparr>bc_sig_cache := cache\<rparr>)
      | (Inr undo, s, cache) \<Rightarrow>
          (case commitStateRoot (bc_cfg bc) s undo (Some (commitCtxAt (length (bc_blocks bc) - 1) bc)) of
             (root, cc) \<Rightarrow> (Inr root, bc\<lparr>bc_sig_cache := cache, bc_nodes := cc_nodes (the cc)\<rparr>)))"

text \<open>\<open>None\<close> is the error of an undecodable parent root.\<close>

definition NextCommitments :: "block \<Rightarrow> chain \<Rightarrow> (string \<times> string) option" where
  "NextCommitments cand bc =
     (let cfg = bc_cfg bc in
      case (if IsUpgradeActive cfg UpgradeFilterCommit (blk_index cand)
            then BlockFilterRoot cfg (blk_filter_root (bc_tip bc)) cand else Some []) of
        None \<Rightarrow> None
      | Some filterRoot \<Rightarrow>
          Some (filterRoot,
            case bc_history bc of
              Some h \<Rightarrow> if IsUpgradeActive cfg UpgradeHistoryRoot (blk_index cand) then mmr_Root cfg h else []
            | None \<Rightarrow> []))"

definition HistoryRoot :: "chain \<Rightarrow> string" where
  "HistoryRoot bc = (case bc_history bc of None \<Rightarrow> EmptyMMRRoot (bc_cfg bc) | Some h \<Rightarrow> mmr_Root (bc_cfg bc) h)"

section \<open>Locators and runs of headers\<close>

text \<open>The step is a power of two, \<open>k\<close> its exponent.\<close>

function locator_from :: "block list \<Rightarrow> nat \<Rightarrow> nat \<Rightarrow> string list \<Rightarrow> string list" where
  "locator_from blocks i k loc =
     (if i = 0 then loc
      else let loc' = loc @ [blk_hash (blocks ! i)]; k' = (if 10 < length loc' then k + 1 else k)
        in locator_from blocks (i - 2 ^ k') k' loc')"
  by pat_completeness auto
termination by (relation "measure (\<lambda>(_, i, _). i)") (auto simp: Let_def)

declare locator_from.simps [simp del]

definition Locator :: "chain \<Rightarrow> string list" where
  "Locator bc = locator_from (bc_blocks bc) (length (bc_blocks bc) - 1) 0 [] @ [blk_hash (bc_blocks bc ! 0)]"

definition hash_heights :: "block list \<Rightarrow> (string, u64) fmap" where
  "hash_heights blocks = fold (\<lambda>(i, b). fmupd (blk_hash b) (of_nat i)) (enumerate 0 blocks) fmempty"

fun first_known :: "(string, u64) fmap \<Rightarrow> string list \<Rightarrow> u64" where
  "first_known have [] = 0"
| "first_known have (h # hs) = (case fmlookup have h of Some height \<Rightarrow> height | None \<Rightarrow> first_known have hs)"

definition LocatorFork :: "string list \<Rightarrow> chain \<Rightarrow> u64" where
  "LocatorFork locator bc = first_known (hash_heights (bc_blocks bc)) locator"

datatype header_error = HeaderBadIndex nat | HeaderPrevMismatch nat | HeaderInvalidPoW nat

fun validate_headers :: "config \<Rightarrow> nat \<Rightarrow> header list \<Rightarrow> string \<Rightarrow> u64 \<Rightarrow> header_error option" where
  "validate_headers cfg i [] ph pi = None"
| "validate_headers cfg i (h # hs) ph pi =
     (if hdr_index h \<noteq> pi + 1 then Some (HeaderBadIndex i)
      else if hdr_prev_hash h \<noteq> ph then Some (HeaderPrevMismatch i)
      else if \<not> hdr_HasValidPoW cfg h then Some (HeaderInvalidPoW i)
      else validate_headers cfg (i + 1) hs (hdr_hash h) (hdr_index h))"

definition ValidateHeaderChain :: "config \<Rightarrow> header list \<Rightarrow> string \<Rightarrow> u64 \<Rightarrow> header_error option" where
  "ValidateHeaderChain cfg headers prevHash prevIndex = validate_headers cfg 0 headers prevHash prevIndex"

section \<open>Proofs for light clients\<close>

record tx_proof =
  tp_block_index :: u64
  tp_block_hash :: string
  tp_merkle_root :: string
  tp_confirmations :: u64
  tp_tx :: transaction
  tp_steps :: "merkle_step list"

text \<open>\<open>MerkleProof\<close> of an index out of range gives a nil proof.\<close>

definition FindTxProof :: "string \<Rightarrow> chain \<Rightarrow> tx_proof option" where
  "FindTxProof hash bc =
     (case findTx (bc_tx_index bc) (bc_blocks bc) hash of None \<Rightarrow> None
      | Some (tx, loc) \<Rightarrow>
          let b = bc_blocks bc ! unat (loc_height loc) in
          Some \<lparr>tp_block_index = blk_index b, tp_block_hash = blk_hash b, tp_merkle_root = blk_merkle_root b,
            tp_confirmations = blk_index (bc_tip bc) - blk_index b + 1, tp_tx = tx,
            tp_steps = (case MerkleProof (bc_cfg bc) (blk_transactions b) (int (loc_index loc)) of
                          None \<Rightarrow> [] | Some pf \<Rightarrow> pf)\<rparr>)"

datatype prove_error =
    AboveTip u64 | NotBelow u64 u64 | AccumulatorInactive | GenesisNotInAccumulator | BelowAccumulator
  | NotInRange u64 u64 | AncestryFailed ancestry_error

definition ancestry_leaves :: "u64 \<Rightarrow> u64 \<Rightarrow> chain \<Rightarrow> string list \<times> u64 option" where
  "ancestry_leaves height asOf bc =
     fold (\<lambda>b (leaves, position).
         if \<not> inHistory (bc_cfg bc) (blk_index b) then (leaves, position)
         else (leaves @ [blk_hash b],
               if blk_index b = height then Some (of_nat (length leaves)) else position))
       (take (unat asOf) (bc_blocks bc)) ([], None)"

definition ProveAncestry :: "u64 \<Rightarrow> u64 \<Rightarrow> chain \<Rightarrow> prove_error + ancestry_proof" where
  "ProveAncestry height asOf bc =
     (let cfg = bc_cfg bc in
      if of_nat (length (bc_blocks bc)) \<le> asOf then Inl (AboveTip asOf)
      else if asOf \<le> height then Inl (NotBelow height asOf)
      else if \<not> IsUpgradeActive cfg UpgradeHistoryRoot asOf then Inl AccumulatorInactive
      else if \<not> inHistory cfg height then Inl (if height = 0 then GenesisNotInAccumulator else BelowAccumulator)
      else (case ancestry_leaves height asOf bc of
          (leaves, None) \<Rightarrow> Inl (NotInRange height asOf)
        | (leaves, Some position) \<Rightarrow>
            (case BuildAncestryProof cfg leaves position of
               Inl e \<Rightarrow> Inl (AncestryFailed e)
             | Inr p \<Rightarrow> Inr (p\<lparr>anc_height := height\<rparr>))))"

section \<open>Supply\<close>

record supply_report =
  sup_height :: u64
  sup_minted :: u64
  sup_burned :: u64
  sup_circulating :: u64
  sup_accounts :: nat
  sup_subsidy :: u64
  sup_next_halving :: u64
  sup_consistent :: bool
  sup_minted_fmt :: string
  sup_burned_fmt :: string
  sup_circulating_fmt :: string
  sup_subsidy_fmt :: string

definition bc_Supply :: "chain \<Rightarrow> supply_report option" where
  "bc_Supply bc =
     (let height = blk_index (bc_tip bc); circ = totalBalance (bc_state bc); succ = height + 1 in
      map_option (\<lambda>minted.
        \<lparr>sup_height = height, sup_minted = minted, sup_burned = bc_burned bc, sup_circulating = circ,
         sup_accounts = length (state_Range (bc_state bc)), sup_subsidy = BlockReward succ,
         sup_next_halving = (succ div HalvingInterval + 1) * HalvingInterval,
         sup_consistent = (bc_burned bc \<le> minted \<and> minted - bc_burned bc = circ),
         sup_minted_fmt = FormatAmount minted, sup_burned_fmt = FormatAmount (bc_burned bc),
         sup_circulating_fmt = FormatAmount circ, sup_subsidy_fmt = FormatAmount (BlockReward succ)\<rparr>)
      (CumulativeSubsidy height))"

section \<open>Listings\<close>

definition DefaultAddressHistoryLimit :: int where "DefaultAddressHistoryLimit = 100"
definition MaxAddressHistoryLimit :: int where "MaxAddressHistoryLimit = 1000"

record address_entry =
  ae_height :: u64
  ae_index :: nat
  ae_hash :: string
  ae_tx :: transaction

fun history_loop :: "config \<Rightarrow> block list \<Rightarrow> u64 \<Rightarrow> int \<Rightarrow> tx_loc list \<Rightarrow> address_entry list \<Rightarrow> address_entry list" where
  "history_loop cfg blocks from limit [] out = out"
| "history_loop cfg blocks from limit (l # ls) out =
     (if loc_height l < from then history_loop cfg blocks from limit ls out
      else if limit \<le> int (length out) then out
      else if of_nat (length blocks) \<le> loc_height l then history_loop cfg blocks from limit ls out
      else let b = blocks ! unat (loc_height l) in
        if length (blk_transactions b) \<le> loc_index l then history_loop cfg blocks from limit ls out
        else let tx = blk_transactions b ! loc_index l in
          history_loop cfg blocks from limit ls
            (out @ [\<lparr>ae_height = loc_height l, ae_index = loc_index l, ae_hash = tx_hash cfg tx, ae_tx = tx\<rparr>]))"

definition AddressHistory :: "string \<Rightarrow> u64 \<Rightarrow> int \<Rightarrow> chain \<Rightarrow> address_entry list option" where
  "AddressHistory addr from limit bc =
     (let l1 = (if limit \<le> 0 then DefaultAddressHistoryLimit else limit);
          l2 = (if MaxAddressHistoryLimit < l1 then MaxAddressHistoryLimit else l1)
      in map_option (\<lambda>idx. history_loop (bc_cfg bc) (bc_blocks bc) from l2 (fmget [] idx addr) []) (bc_addr_index bc))"

text \<open>Sorting by a first and then a second key is sorting by the second and then, stably, by the first.\<close>

definition Assets :: "chain \<Rightarrow> asset_info list" where
  "Assets bc = sort_key ai_height (sort_key ai_id (map (\<lambda>k. the (fmlookup (bc_assets bc) k)) (fmkeys (bc_assets bc))))"

definition AssetsByTicker :: "string \<Rightarrow> chain \<Rightarrow> asset_info list" where
  "AssetsByTicker ticker bc = filter (\<lambda>info. ai_ticker info = ticker) (Assets bc)"

definition AssetHolders :: "string \<Rightarrow> chain \<Rightarrow> (string \<times> u64) list" where
  "AssetHolders asset bc =
     sort_key (\<lambda>(_, amount). - uint amount) (sort_key fst
       (filter (\<lambda>(_, amount). 0 < amount)
         (map (\<lambda>(addr, acc). (addr, fmget 0 (acc_assets acc) asset)) (state_Range (bc_state bc)))))"

end
