(* ===== verification/Chain_Theorems.thy ===== *)
theory Chain_Theorems
  imports Chain_Queries
begin

text \<open>
  The properties of the chain as a whole, for every chain reached from genesis by connecting blocks,
  reorganising and replacing: its shape, its supply, its inclusion proofs, the atomicity of refused
  changes, fork choice and finality, the log on disk, and that its operations return.
\<close>

section \<open>Facts of reachable chains\<close>

lemma reachable_facts:
  assumes "reachable_chain cfg table bc"
  shows "ledger_chain (bc_cfg bc) (bc_blocks bc) (bc_undos bc) (bc_state bc)" "length (bc_blocks bc) < 2 ^ 63"
    "bc_blocks bc \<noteq> []" "\<And>i. i < length (bc_blocks bc) \<Longrightarrow> blk_index (bc_blocks bc ! i) = of_nat i"
    "bc_work bc = ChainWork (bc_blocks bc)" "bc_tx_index bc = buildTxIndex (bc_cfg bc) (bc_blocks bc)"
    "bc_burned bc = of_nat (burned_by (bc_cfg bc) (bc_blocks bc))" "bc_prune_keep bc = 0" "chain_ok bc"
  using reachable_ok [OF assms] ledger_lengths ledger_numbered by (auto simp: chain_ok_def fits_memory_def)

lemma reachable_tip:
  assumes "reachable_chain cfg table bc"
  shows "blk_index (bc_tip bc) = of_nat (length (bc_blocks bc) - 1)" "unat (blk_index (bc_tip bc)) = length (bc_blocks bc) - 1"
proof -
  show *: "blk_index (bc_tip bc) = of_nat (length (bc_blocks bc) - 1)"
    using reachable_facts(3,4) [OF assms] by (simp add: bc_tip_def last_conv_nth)
  have "length (bc_blocks bc) - 1 < 2 ^ 64" using reachable_facts(2) [OF assms] by simp
  then show "unat (blk_index (bc_tip bc)) = length (bc_blocks bc) - 1" unfolding * by (rule unat_of_nat_small)
qed

section \<open>Supply\<close>

text \<open>
  C1. Supply identity: on every reachable chain the report is produced and says it is consistent. What
  the schedule minted up to the tip is exactly the coin held in accounts plus what base fees burned,
  over unbounded numbers as well as in 64 bits, and the coin held never exceeds 21 million.
\<close>

theorem chain_supply_consistent:
  assumes "reachable_chain cfg table bc"
  shows "\<exists>s. bc_Supply bc = Some s \<and> sup_consistent s
    \<and> unat (sup_minted s) = minted_upto (length (bc_blocks bc) - 1)
    \<and> unat (sup_circulating s) = coin_supply (bc_state bc)
    \<and> unat (sup_burned s) = burned_by (bc_cfg bc) (bc_blocks bc)
    \<and> coin_supply (bc_state bc) + burned_by (bc_cfg bc) (bc_blocks bc) = minted_upto (length (bc_blocks bc) - 1)
    \<and> coin_supply (bc_state bc) \<le> 21000000 * unat Coin"
proof -
  let ?m = "minted_upto (length (bc_blocks bc) - 1)"
  note f = reachable_facts [OF assms] and tip = reachable_tip [OF assms]
  have eq: "coin_supply (bc_state bc) + burned_by (bc_cfg bc) (bc_blocks bc) = ?m"
    by (rule ledger_coin [OF f(1)]) (use f(2) in simp)
  have m: "?m \<le> 2100000000000000" by (rule minted_upto_bound)
  moreover have "(2100000000000000 :: nat) < 2 ^ 64" by simp
  ultimately have small: "?m < 2 ^ 64" "coin_supply (bc_state bc) < 2 ^ 64" "burned_by (bc_cfg bc) (bc_blocks bc) < 2 ^ 64"
    using eq by linarith+
  have "blk_index (bc_tip bc) < - 1" 
  proof -
    have "unat (- 1 :: u64) = 2 ^ 64 - 1" by (simp add: unsigned_minus_1_eq_mask mask_eq_exp_minus_1)
    then show ?thesis using tip(2) f(2) by (simp add: word_less_nat_alt)
  qed
  then have minted: "CumulativeSubsidy (blk_index (bc_tip bc)) = Some (of_nat ?m)" using CumulativeSubsidy_minted tip(2) by simp
  have sum: "of_nat ?m = (of_nat (coin_supply (bc_state bc)) + of_nat (burned_by (bc_cfg bc) (bc_blocks bc)) :: u64)"
    unfolding eq [symmetric] by simp
  have "(of_nat (burned_by (bc_cfg bc) (bc_blocks bc)) :: u64) \<le> of_nat ?m"
    unfolding word_le_nat_alt unat_of_nat_small [OF small(1)] unat_of_nat_small [OF small(3)] using eq by simp
  moreover have "(of_nat ?m - of_nat (burned_by (bc_cfg bc) (bc_blocks bc)) :: u64) = of_nat (coin_supply (bc_state bc))"
    unfolding sum by simp
  ultimately show ?thesis using minted eq m small [THEN unat_of_nat_small]
    by (simp add: bc_Supply_def Let_def totalBalance_supply f(7) Coin_def)
qed

text \<open>A chain to check the properties on: genesis alone, with no vote registered.\<close>

lemma no_deployments [simp]: "Deployments fmempty = []"
  by (simp add: Deployments_def fmkeys_def sorted_list_of_fset.rep_eq)

lemma new_chain: "NewBlockchain cfg fmempty = Some (genesis_chain cfg fmempty)"
  by (simp add: NewBlockchain_def refreshDeploymentsLocked_def refreshDeployments_def genesis_chain_def)

lemma new_reachable: "reachable_chain cfg fmempty (genesis_chain cfg fmempty)"
  by (rule reachable_chain.start [OF new_chain])

theorem chain_supply_consistent_witness:
  "\<exists>s. bc_Supply (genesis_chain sample_cfg fmempty) = Some s \<and> sup_consistent s \<and> unat (sup_minted s) = 0"
  using chain_supply_consistent [OF new_reachable, of sample_cfg] by (auto simp: genesis_chain_def)

section \<open>Inclusion proofs\<close>

lemma buildTxIndex_none:
  "fmlookup (buildTxIndex cfg bs) h = None \<longleftrightarrow> (\<forall>b \<in> set bs. \<forall>tx \<in> set (blk_transactions b). tx_hash cfg tx \<noteq> h)"
proof (induction bs rule: rev_induct)
  case (snoc b bs)
  have "set (blk_transactions b) = snd ` set (enumerate 0 (blk_transactions b))"
    by (metis list.set_map map_snd_enumerate)
  then have "find (\<lambda>p. tx_hash cfg (snd p) = h) (enumerate 0 (blk_transactions b)) = None
      \<longleftrightarrow> (\<forall>tx \<in> set (blk_transactions b). tx_hash cfg tx \<noteq> h)"
    by (simp add: find_None_iff) (metis prod.collapse snd_conv)
  then show ?case using snoc
    by (auto simp: buildTxIndex_snoc index_block_txs_def index_txs_lookup split: option.splits)
qed (simp add: buildTxIndex_def)

lemma findTx_place:
  assumes "findTx idx bs h = Some (tx, l)" "length bs < 2 ^ 64"
  shows "unat (loc_height l) < length bs" "loc_index l < length (blk_transactions (bs ! unat (loc_height l)))"
    "tx = blk_transactions (bs ! unat (loc_height l)) ! loc_index l"
  using assms by (auto simp: findTx_def Let_def word_le_nat_alt unat_of_nat split: option.splits if_splits)

lemma findTx_None:
  assumes "\<And>i. i < length bs \<Longrightarrow> blk_index (bs ! i) = of_nat i" "length bs < 2 ^ 64"
  shows "findTx (buildTxIndex cfg bs) bs h = None \<longleftrightarrow> (\<forall>b \<in> set bs. \<forall>tx \<in> set (blk_transactions b). tx_hash cfg tx \<noteq> h)"
proof (cases "fmlookup (buildTxIndex cfg bs) h")
  case None
  then show ?thesis using buildTxIndex_none [of cfg bs h] by (simp add: findTx_def)
next
  case (Some l)
  obtain tx where "findTx (buildTxIndex cfg bs) bs h = Some (tx, l)" using buildTxIndex_right [OF Some assms] by blast
  moreover have "\<not> (\<forall>b \<in> set bs. \<forall>tx \<in> set (blk_transactions b). tx_hash cfg tx \<noteq> h)"
    using buildTxIndex_none [of cfg bs h] Some by simp
  ultimately show ?thesis by simp
qed

text \<open>
  C6. Inclusion proofs are exact: a reachable chain has a proof for a hash exactly when a block holds a
  transaction with it. The proof names a block of the chain at its height, carries a transaction of
  that block with the hash, and its path verifies against the merkle root of that block; the
  confirmations count the blocks from it to the tip.
\<close>

theorem inclusion_proof_exact:
  assumes "reachable_chain cfg table bc"
  shows "(FindTxProof h bc = None \<longleftrightarrow> (\<forall>b \<in> set (bc_blocks bc). \<forall>tx \<in> set (blk_transactions b). tx_hash (bc_cfg bc) tx \<noteq> h))
    \<and> (\<forall>p. FindTxProof h bc = Some p \<longrightarrow>
        (let i = unat (tp_block_index p); b = bc_blocks bc ! i in
           i < length (bc_blocks bc) \<and> tp_block_hash p = blk_hash b \<and> tp_merkle_root p = blk_merkle_root b
           \<and> tp_tx p \<in> set (blk_transactions b) \<and> tx_hash (bc_cfg bc) (tp_tx p) = h
           \<and> unat (tp_confirmations p) = length (bc_blocks bc) - i
           \<and> VerifyMerkleProof (bc_cfg bc) h (blk_merkle_root b) (tp_steps p)))"
proof (intro conjI allI impI)
  let ?bs = "bc_blocks bc" and ?cfg = "bc_cfg bc"
  note f = reachable_facts [OF assms]
  have len: "length ?bs < 2 ^ 64" using f(2) by simp
  show "FindTxProof h bc = None \<longleftrightarrow> (\<forall>b \<in> set ?bs. \<forall>tx \<in> set (blk_transactions b). tx_hash ?cfg tx \<noteq> h)"
    using findTx_None [OF f(4) len, where cfg = ?cfg and h = h] unfolding FindTxProof_def f(6) Let_def
    by (cases "findTx (buildTxIndex ?cfg ?bs) ?bs h") auto
  fix p assume p: "FindTxProof h bc = Some p"
  then obtain tx l where find: "findTx (buildTxIndex ?cfg ?bs) ?bs h = Some (tx, l)"
    by (auto simp: FindTxProof_def f(6) split: option.splits)
  let ?i = "unat (loc_height l)"
  let ?b = "?bs ! ?i"
  note place = findTx_place [OF find len]
  have idx: "blk_index ?b = loc_height l" using f(4) [OF place(1)] by simp
  have "fmlookup (buildTxIndex ?cfg ?bs) h = Some l" using find by (auto simp: findTx_def Let_def split: option.splits if_splits)
  from buildTxIndex_right [OF this f(4) len] find have hash: "tx_hash ?cfg tx = h" by simp
  have "loc_height l \<le> blk_index (bc_tip bc)"
    using reachable_tip(2) [OF assms] place(1) by (simp add: word_le_nat_alt)
  then have "unat (blk_index (bc_tip bc) - loc_height l + 1) = unat (blk_index (bc_tip bc)) - ?i + 1"
    using reachable_tip(2) [OF assms] len by (subst unat_add_small) (auto simp: unat_diff_le)
  then have conf: "unat (blk_index (bc_tip bc) - loc_height l + 1) = length ?bs - ?i"
    using reachable_tip(2) [OF assms] place(1) by simp
  have "VerifyMerkleProof ?cfg h (blk_merkle_root ?b) (proof_up ?cfg (txHashes ?cfg (blk_transactions ?b)) (loc_index l))"
    using proof_up_complete [of "loc_index l" "txHashes ?cfg (blk_transactions ?b)" ?cfg] place(1,2) hash
      ledger_merkle [OF f(1), of ?b]
    by (simp add: VerifyMerkleProof_def MerkleRoot_def merkleRootOf_def txHashes_def place(3)) auto
  then show "let i = unat (tp_block_index p); b = ?bs ! i in i < length ?bs \<and> tp_block_hash p = blk_hash b
      \<and> tp_merkle_root p = blk_merkle_root b \<and> tp_tx p \<in> set (blk_transactions b) \<and> tx_hash ?cfg (tp_tx p) = h
      \<and> unat (tp_confirmations p) = length ?bs - i \<and> VerifyMerkleProof ?cfg h (blk_merkle_root b) (tp_steps p)"
    using p find place conf hash idx
    by (auto simp: FindTxProof_def f(6) Let_def MerkleProof_def merkleProofOf_def txHashes_def)
qed

theorem inclusion_proof_exact_witness:
  "FindTxProof ''00'' (genesis_chain sample_cfg fmempty) = None"
  using inclusion_proof_exact [OF new_reachable, of "''00''" sample_cfg] by (simp add: genesis_chain_def GenesisBlock_def Let_def)

section \<open>Refused changes\<close>

text \<open>The parts of a chain that a refused change may touch: the caches, and the log when writing it failed.\<close>

definition caches_only :: "chain \<Rightarrow> chain \<Rightarrow> bool" where
  "caches_only bc bc' \<longleftrightarrow> (\<exists>c n. bc' = bc\<lparr>bc_sig_cache := c, bc_nodes := n\<rparr>)"

lemma AddBlock_rejected:
  assumes "AddBlock env b bc = Some (Some (BlockRejected e), bc')"
  shows "caches_only bc bc'"
proof -
  obtain r state cache cc where ap: "applyBlock (bc_cfg bc) env (bc_state bc) (bc_blocks bc) b (bc_sig_cache bc)
      (Some (commitCtxAt (length (bc_blocks bc) - 1) bc)) = (r, state, cache, cc)" by (metis prod_cases4)
  have "r \<noteq> Inr undo" for undo using assms ap by (auto simp: AddBlock_def Let_def split: option.splits prod.splits)
  then obtain e' where r: "r = Inl e'" by (cases r) auto
  then have "state = bc_state bc" using ap applyBlock_refused by blast
  moreover have "bc' = bc\<lparr>bc_state := state, bc_sig_cache := cache, bc_nodes := cc_nodes (the cc)\<rparr>"
    using assms ap r by (simp add: AddBlock_def Let_def)
  ultimately show ?thesis unfolding caches_only_def by (intro exI [of _ cache] exI [of _ "cc_nodes (the cc)"]) simp
qed

lemma reorgLocked_declined:
  assumes "reorgLocked env fork suffix bc = Some (r, bc')" "\<forall>bs. r \<noteq> Inr (True, bs)" "\<forall>x. r \<noteq> Inl (PersistReorgFailed x)"
  shows "caches_only bc bc'"
proof -
  obtain c n st where *: "bc' = bc\<lparr>bc_sig_cache := c, bc_nodes := n, bc_store := st\<rparr>" "st = bc_store bc"
    using reorg_refused [OF assms(1,2)] assms(3) by blast
  then show ?thesis unfolding caches_only_def by (intro exI [of _ c] exI [of _ n]) simp
qed

lemma caches_only_refl [simp]: "caches_only bc bc"
  unfolding caches_only_def by (intro exI [of _ "bc_sig_cache bc"] exI [of _ "bc_nodes bc"]) simp

lemma reorg_declined:
  assumes "ReorgFrom env h suffix bc = Some (r, bc') \<or> ReplaceChain env incoming bc = Some (r, bc')"
    and "\<forall>bs. r \<noteq> Inr (True, bs)" "\<forall>x. r \<noteq> Inl (PersistReorgFailed x)"
  shows "caches_only bc bc'"
  using assms reorgLocked_declined [OF _ assms(2,3)]
  by (auto simp: ReorgFrom_def ReplaceChain_def Let_def split: if_splits)

lemma only_caches_and_store:
  "\<exists>st. caches_only (bc\<lparr>bc_store := st\<rparr>) bc'" if "bc' = bc\<lparr>bc_sig_cache := c, bc_nodes := n, bc_store := st\<rparr>" for st
  unfolding caches_only_def that by (intro exI [of _ st] exI [of _ c] exI [of _ n]) simp

text \<open>What a call of \<open>ReorgFrom\<close> or \<open>ReplaceChain\<close> that does not adopt the suffix leaves.\<close>

definition reorg_harmless :: "chain \<Rightarrow> ((chain_error + bool \<times> block list) \<times> chain) option \<Rightarrow> bool" where
  "reorg_harmless bc out \<longleftrightarrow>
     (case out of None \<Rightarrow> True
      | Some (Inr (True, _), _) \<Rightarrow> True
      | Some (Inl (PersistReorgFailed _), bc') \<Rightarrow> \<exists>st. caches_only (bc\<lparr>bc_store := st\<rparr>) bc'
      | Some (_, bc') \<Rightarrow> caches_only bc bc')"

lemma reorgLocked_harmless: "reorg_harmless bc (reorgLocked env fork suffix bc)"
proof (cases "reorgLocked env fork suffix bc")
  case (Some p)
  obtain r bc' where p: "p = (r, bc')" by fastforce
  note run = Some [unfolded p]
  show ?thesis
  proof (cases "\<exists>bs. r = Inr (True, bs)")
    case False
    then have no: "\<forall>bs. r \<noteq> Inr (True, bs)" by blast
    obtain c n st where "bc' = bc\<lparr>bc_sig_cache := c, bc_nodes := n, bc_store := st\<rparr>" using reorg_refused [OF run no] by blast
    then have "\<exists>st. caches_only (bc\<lparr>bc_store := st\<rparr>) bc'" by (rule only_caches_and_store)
    moreover have "caches_only bc bc'" if "\<forall>x. r \<noteq> Inl (PersistReorgFailed x)" by (rule reorgLocked_declined [OF run no that])
    ultimately show ?thesis using no unfolding reorg_harmless_def run
      by (auto split: sum.splits chain_error.splits prod.splits bool.splits)
  qed (auto simp: reorg_harmless_def run)
qed (simp add: reorg_harmless_def)

text \<open>
  C4. All or nothing: a block the rules refuse, and a reorganisation that is refused, loses the fork
  choice or contains a bad block, leave every part of the chain as it was, the ledger, the blocks, the
  undo logs, the indexes, the work, the accumulator and the log included; only what was verified and
  read meanwhile stays in the two caches. When writing the log fails, still nothing but the caches and
  the log changes.
\<close>

theorem refused_changes_nothing:
  "(case AddBlock env b bc of
      Some (Some (BlockRejected e), bc') \<Rightarrow> caches_only bc bc'
    | Some (Some ce, bc') \<Rightarrow> \<exists>st. caches_only (bc\<lparr>bc_store := st\<rparr>) bc'
    | _ \<Rightarrow> True)
   \<and> reorg_harmless bc (ReorgFrom env h suffix bc) \<and> reorg_harmless bc (ReplaceChain env incoming bc)"
proof (intro conjI)
  have "\<exists>st. caches_only (bc\<lparr>bc_store := st\<rparr>) bc'" if "AddBlock env b bc = Some (Some ce, bc')" for ce bc'
    using AddBlock_refused [OF that] only_caches_and_store by blast
  then show "case AddBlock env b bc of Some (Some (BlockRejected e), bc') \<Rightarrow> caches_only bc bc'
    | Some (Some ce, bc') \<Rightarrow> \<exists>st. caches_only (bc\<lparr>bc_store := st\<rparr>) bc' | _ \<Rightarrow> True"
    using AddBlock_rejected by (auto split: option.splits chain_error.splits)
  show "reorg_harmless bc (ReorgFrom env h suffix bc)" "reorg_harmless bc (ReplaceChain env incoming bc)"
    using reorgLocked_harmless by (auto simp: ReorgFrom_def ReplaceChain_def Let_def reorg_harmless_def)
qed

section \<open>Fork choice and finality\<close>

definition better :: "chain \<Rightarrow> chain \<Rightarrow> bool" where
  "better bc bc' \<longleftrightarrow> bc_work bc < bc_work bc'
     \<or> bc_work bc = bc_work bc' \<and> blk_hash (bc_tip bc') < blk_hash (bc_tip bc)"

definition bounded_step :: "chain \<Rightarrow> chain \<Rightarrow> bool" where
  "bounded_step bc bc' \<longleftrightarrow> chain_step bc bc' \<and> fits_memory bc'"

lemma better_trans: "better a b \<Longrightarrow> better b c \<Longrightarrow> better a c"
  unfolding better_def by (metis order.strict_trans)

lemma bounded_steps_reachable:
  "bounded_step\<^sup>*\<^sup>* bc bc' \<Longrightarrow> reachable_chain cfg table bc \<Longrightarrow> reachable_chain cfg table bc'"
  by (induction rule: rtranclp_induct) (auto simp: bounded_step_def intro: reachable_chain.step)

text \<open>A step keeps the blocks, appends one, or replaces what is above an admissible fork by a better suffix.\<close>

lemma step_blocks:
  assumes "chain_step bc bc'" "bc_prune_keep bc = 0" "chain_ok bc" "fits_memory bc"
  shows "(\<exists>u. bc_cfg bc' = (bc_cfg bc)\<lparr>upgrades := u\<rparr>) \<and>
    (bc_blocks bc' = bc_blocks bc \<and> bc_work bc' = bc_work bc
     \<or> (\<exists>b. bc_blocks bc' = bc_blocks bc @ [b] \<and> bc_work bc' = bc_work bc + BlockWork (blk_bits b) \<and> blk_HasValidPoW (bc_cfg bc) b)
     \<or> (\<exists>fork suffix. bc_blocks bc' = take (fork + 1) (bc_blocks bc) @ suffix \<and> fork < length (bc_blocks bc)
          \<and> unat (highestCheckpoint (bc_cfg bc)) \<le> fork \<and> length (bc_blocks bc) - 1 - fork \<le> MaxReorgDepth
          \<and> candidate_wins fork suffix bc
          \<and> bc_work bc' = ChainWork (take (fork + 1) (bc_blocks bc)) + ChainWork suffix))" (is "?U \<and> (?same \<or> ?app \<or> ?re)")
proof -
  have ne: "bc_blocks bc \<noteq> []" using chain_ok_ne [OF assms(3)] .
  have len: "length (bc_blocks bc) < 2 ^ 64" using assms(4) by (simp add: fits_memory_def)
  have self: "?U" if "bc_cfg bc' = bc_cfg bc" using that by (intro exI [of _ "upgrades (bc_cfg bc)"]) simp
  have re: "?U \<and> (?same \<or> ?re)" if run: "reorgLocked env fork suffix bc = Some (r, bc')" and fork: "fork < length (bc_blocks bc)" for env fork suffix r
  proof (cases "\<exists>bs. r = Inr (True, bs)")
    case False
    then have no: "\<forall>bs. r \<noteq> Inr (True, bs)" by blast
    obtain c n st where "bc' = bc\<lparr>bc_sig_cache := c, bc_nodes := n, bc_store := st\<rparr>" using reorg_refused [OF run no] by blast
    then show ?thesis using self by simp
  next
    case True
    then obtain bs where "reorgLocked env fork suffix bc = Some (Inr (True, bs), bc')" using run by blast
    from this assms(2) show ?thesis
    proof (rule reorg_acceptedE)
      fix state blocks undos cache cc
      assume g: "\<not> of_nat fork < highestCheckpoint (bc_cfg bc)" "length (bc_blocks bc) - 1 - fork \<le> MaxReorgDepth"
        "candidate_wins fork suffix bc" "reorged fork suffix bc state undos bc'"
      have "fork < 2 ^ 64" using fork len by simp
      then have "unat (highestCheckpoint (bc_cfg bc)) \<le> fork"
        using g(1) by (simp add: word_less_nat_alt unat_of_nat_small)
      then show ?thesis using g fork by (auto simp: reorged_def)
    qed
  qed
  from assms(1) show ?thesis
  proof cases
    case (add env b e)
    show ?thesis
    proof (cases e)
      case None
      from add [unfolded None] assms(2) show ?thesis
        by (rule AddBlock_acceptedE) (auto dest: accepted_structure(5))
    next
      case (Some x)
      then show ?thesis using AddBlock_refused add self by fastforce
    qed
  next
    case (reorg env h suffix r)
    have "unat h < length (bc_blocks bc)" if "\<not> of_nat (length (bc_blocks bc)) \<le> h"
      using that len by (simp add: word_le_nat_alt unat_of_nat)
    then show ?thesis using reorg re self by (auto simp: ReorgFrom_def split: if_splits)
  next
    case (replace env incoming r)
    have "commonPrefix (bc_blocks bc) incoming - 1 < length (bc_blocks bc)"
      using commonPrefix_le [of "bc_blocks bc" incoming] ne by (cases "bc_blocks bc") auto
    then show ?thesis using replace re self by (auto simp: ReplaceChain_def Let_def split: if_splits)
  qed (use self in \<open>auto simp: EnableAddressIndex_def\<close>)
qed


lemma step_better:
  assumes "bounded_step bc bc'" "reachable_chain cfg table bc"
  shows "bc_blocks bc' = bc_blocks bc \<and> bc_work bc' = bc_work bc \<or> better bc bc'"
proof -
  note f = reachable_facts [OF assms(2)]
  have fits: "fits_memory bc" using f(2) by (simp add: fits_memory_def)
  consider (same) "bc_blocks bc' = bc_blocks bc" "bc_work bc' = bc_work bc"
    | (connected) b where "bc_work bc' = bc_work bc + BlockWork (blk_bits b)" "blk_HasValidPoW (bc_cfg bc) b"
    | (reorged) fork suffix where "bc_blocks bc' = take (fork + 1) (bc_blocks bc) @ suffix" "fork < length (bc_blocks bc)"
        "candidate_wins fork suffix bc" "bc_work bc' = ChainWork (take (fork + 1) (bc_blocks bc)) + ChainWork suffix"
    using step_blocks [OF _ f(8,9) fits] assms(1) unfolding bounded_step_def by blast
  then show ?thesis
  proof cases
    case (connected b)
    then have "2 ^ 12 \<le> BlockWork (blk_bits b)"
      using meetsTarget_range BlockWork_min by (auto simp: blk_HasValidPoW_def hdr_HasValidPoW_def block_Header_def)
    then show ?thesis using connected(1) by (simp add: better_def)
  next
    case (reorged fork suffix)
    have "bc_tip bc' = (if suffix = [] then bc_blocks bc ! fork else last suffix)"
      using reorged(1,2) by (simp add: bc_tip_def take_Suc_conv_app_nth)
    then show ?thesis using reorged(3,4) by (auto simp: better_def candidate_wins_def Let_def split: if_splits)
  qed simp
qed

text \<open>
  C2. Fork choice makes progress: whatever sequence of blocks, suffixes and replacement chains a node is
  offered, it ends with the chain it had or with a better one, of more work, or of equal work and a
  smaller tip hash. So a chain once abandoned is never adopted again, and two nodes that keep offering
  each other their chains cannot swap them for ever.
\<close>

theorem fork_choice_progress:
  assumes "reachable_chain cfg table bc" "bounded_step\<^sup>*\<^sup>* bc bc'"
  shows "bc_blocks bc' = bc_blocks bc \<and> bc_work bc' = bc_work bc \<or> better bc bc'"
  using assms(2)
proof (induction rule: rtranclp_induct)
  case (step bc1 bc2)
  have "reachable_chain cfg table bc1" using bounded_steps_reachable [OF step.hyps(1) assms(1)] .
  from step_better [OF step.hyps(2) this] step.IH show ?case
    by (auto simp: better_def bc_tip_def intro: better_trans [unfolded better_def bc_tip_def] elim: order.strict_trans)
qed simp

text \<open>A step that leads somewhere: turning on the address index of a new chain.\<close>

lemma new_indexed:
  "bounded_step\<^sup>*\<^sup>* (genesis_chain cfg fmempty) (EnableAddressIndex (genesis_chain cfg fmempty))"
proof (rule r_into_rtranclp)
  have "fits_memory (EnableAddressIndex (genesis_chain cfg fmempty))"
    by (simp add: fits_memory_def EnableAddressIndex_def genesis_chain_def)
  then show "bounded_step (genesis_chain cfg fmempty) (EnableAddressIndex (genesis_chain cfg fmempty))"
    unfolding bounded_step_def by (intro conjI chain_step.address_index)
qed

theorem fork_choice_progress_witness:
  "let bc = genesis_chain sample_cfg fmempty; bc' = EnableAddressIndex bc in
   bc_blocks bc' = bc_blocks bc \<and> bc_work bc' = bc_work bc \<or> better bc bc'"
  unfolding Let_def using fork_choice_progress [OF new_reachable new_indexed, of sample_cfg] .

lemma step_keeps_prefix:
  assumes "bounded_step bc bc'" "reachable_chain cfg table bc" "i < length (bc_blocks bc)"
    and "i \<le> unat (highestCheckpoint (bc_cfg bc)) \<or> i + MaxReorgDepth < length (bc_blocks bc)"
  shows "i < length (bc_blocks bc') \<and> bc_blocks bc' ! i = bc_blocks bc ! i"
proof -
  note f = reachable_facts [OF assms(2)]
  have fits: "fits_memory bc" using f(2) by (simp add: fits_memory_def)
  consider (same) "bc_blocks bc' = bc_blocks bc" | (connected) b where "bc_blocks bc' = bc_blocks bc @ [b]"
    | (reorged) fork suffix where "bc_blocks bc' = take (fork + 1) (bc_blocks bc) @ suffix" "fork < length (bc_blocks bc)"
        "unat (highestCheckpoint (bc_cfg bc)) \<le> fork" "length (bc_blocks bc) - 1 - fork \<le> MaxReorgDepth"
    using step_blocks [OF _ f(8,9) fits] assms(1) unfolding bounded_step_def by blast
  then show ?thesis
  proof cases
    case (reorged fork suffix)
    then have "i \<le> fork" using assms(3,4) by linarith
    then show ?thesis using reorged(1,2) by (simp add: nth_append)
  qed (use assms(3) in \<open>simp_all add: nth_append\<close>)
qed

lemma steps_checkpoints:
  "bounded_step\<^sup>*\<^sup>* bc bc' \<Longrightarrow> reachable_chain cfg table bc \<Longrightarrow> highestCheckpoint (bc_cfg bc') = highestCheckpoint (bc_cfg bc)"
proof (induction rule: rtranclp_induct)
  case (step bc1 bc2)
  note f = reachable_facts [OF bounded_steps_reachable [OF step.hyps(1) step.prems]]
  obtain u where "bc_cfg bc2 = (bc_cfg bc1)\<lparr>upgrades := u\<rparr>"
    using step_blocks [OF _ f(8,9)] f(2) step.hyps(2) by (auto simp: bounded_step_def fits_memory_def)
  then show ?case using step by (simp add: highestCheckpoint_def)
qed simp

text \<open>
  C3. Finality: no single operation changes a block with more than \<open>MaxReorgDepth\<close> blocks from it to the
  tip, however much work the competing chain has, and no sequence of operations ever changes a block
  at or below the highest checkpoint.
\<close>

theorem finality:
  assumes "reachable_chain cfg table bc" "i < length (bc_blocks bc)"
  shows "(\<forall>bc'. bounded_step bc bc' \<longrightarrow> i + MaxReorgDepth < length (bc_blocks bc)
            \<longrightarrow> i < length (bc_blocks bc') \<and> bc_blocks bc' ! i = bc_blocks bc ! i)
       \<and> (\<forall>bc'. bounded_step\<^sup>*\<^sup>* bc bc' \<longrightarrow> i \<le> unat (highestCheckpoint (bc_cfg bc))
            \<longrightarrow> i < length (bc_blocks bc') \<and> bc_blocks bc' ! i = bc_blocks bc ! i)"
proof (intro conjI allI impI)
  fix bc' assume "bounded_step bc bc'" "i + MaxReorgDepth < length (bc_blocks bc)"
  then show "i < length (bc_blocks bc')" "bc_blocks bc' ! i = bc_blocks bc ! i"
    using step_keeps_prefix [OF _ assms] by blast+
next
  fix bc' assume run: "bounded_step\<^sup>*\<^sup>* bc bc'" and cp: "i \<le> unat (highestCheckpoint (bc_cfg bc))"
  from run have "i < length (bc_blocks bc') \<and> bc_blocks bc' ! i = bc_blocks bc ! i"
  proof (induction rule: rtranclp_induct)
    case (step bc1 bc2)
    from step_keeps_prefix [OF step.hyps(2) bounded_steps_reachable [OF step.hyps(1) assms(1)]] step.IH
      steps_checkpoints [OF step.hyps(1) assms(1)] cp show ?case by simp
  qed (simp add: assms(2))
  then show "i < length (bc_blocks bc')" "bc_blocks bc' ! i = bc_blocks bc ! i" by blast+
qed

theorem finality_witness:
  "bc_blocks (EnableAddressIndex (genesis_chain sample_cfg fmempty)) ! 0 = GenesisBlock sample_cfg"
  using finality [OF new_reachable, of 0 sample_cfg] new_indexed [of sample_cfg] by (simp add: genesis_chain_def)


section \<open>Shape\<close>

lemma ledger_single: "ledger_chain cfg [g] us s \<Longrightarrow> s = fmempty"
  by (erule ledger_chain.cases) (auto dest: ledger_lengths)



section \<open>The log on disk\<close>

lemma append_all_outcome:
  assumes "store_append_all bs s = (None, s')" "holds_blocks s cs" "\<not> bs_poisoned s"
  shows "holds_blocks s' (cs @ bs) \<and> \<not> bs_poisoned s'"
  using assms
proof (induction bs arbitrary: s cs)
  case (Cons b bs)
  obtain s1 where s1: "store_append b s = (None, s1)" "store_append_all bs s1 = (None, s')"
    using Cons.prems(1) by (auto split: prod.splits option.splits)
  from append_outcome [OF Cons.prems(2,3) s1(1)] have "holds_blocks s1 (cs @ [b])" "\<not> bs_poisoned s1" by simp_all
  from Cons.IH [OF s1(2) this] show ?case by simp
qed simp

lemma persist_outcome:
  assumes "persist_reorg fork suffix (Some s) = (None, st)" "holds_blocks s bs" "\<not> bs_poisoned s"
  shows "\<exists>s'. st = Some s' \<and> holds_blocks s' (take (fork + 1) bs @ suffix) \<and> \<not> bs_poisoned s'"
proof -
  obtain s1 where s1: "store_truncateAfter fork s = (None, s1)" using assms(1)
    by (auto simp: persist_reorg_def split: prod.splits option.splits)
  then obtain s2 where s2: "store_append_all suffix s1 = (None, s2)" "st = Some s2" using assms(1)
    by (auto simp: persist_reorg_def split: prod.splits option.splits)
  from truncate_outcome [OF assms(2,3) s1] have "holds_blocks s1 (take (fork + 1) bs)" "\<not> bs_poisoned s1" by simp_all
  from append_all_outcome [OF s2(1) this] s2(2) show ?thesis by blast
qed

text \<open>The log holds exactly the blocks of the chain and accepts writes.\<close>

definition log_in_step :: "chain \<Rightarrow> bool" where
  "log_in_step bc \<longleftrightarrow> (\<exists>st. bc_store bc = Some st \<and> holds_blocks st (bc_blocks bc) \<and> \<not> bs_poisoned st)"

lemma AddBlock_persist_failed:
  assumes "AddBlock env b bc = Some (Some (PersistFailed x), bc')" "log_in_step bc"
  shows "\<exists>st. bc_store bc' = Some st \<and> (holds_blocks st (bc_blocks bc) \<or> holds_blocks st (bc_blocks bc @ [b]))"
proof -
  obtain st where st: "bc_store bc = Some st" "holds_blocks st (bc_blocks bc)" "\<not> bs_poisoned st"
    using assms(2) by (auto simp: log_in_step_def)
  obtain r state cache cc where ap: "applyBlock (bc_cfg bc) env (bc_state bc) (bc_blocks bc) b (bc_sig_cache bc)
      (Some (commitCtxAt (length (bc_blocks bc) - 1) bc)) = (r, state, cache, cc)" by (metis prod_cases4)
  then obtain undo where r: "r = Inr undo" using assms(1) by (cases r) (simp_all add: AddBlock_def Let_def)
  obtain s' where s': "store_append b st = (Some x, s')" "bc_store bc' = Some s'"
    using assms(1) ap r st(1) by (auto simp: AddBlock_def Let_def split: prod.splits option.splits)
  then show ?thesis using append_outcome [OF st(2,3) s'(1)] by auto
qed

lemma reorg_log:
  assumes "reachable_chain cfg table bc" "log_in_step bc"
  shows "case reorgLocked env fork suffix bc of None \<Rightarrow> True
    | Some (Inl (PersistReorgFailed x), bc') \<Rightarrow> \<exists>st. bc_store bc' = Some st \<and> (bs_poisoned st \<or> st = the (bc_store bc))
    | Some (r, bc') \<Rightarrow> log_in_step bc'"
proof -
  note f = reachable_facts [OF assms(1)]
  obtain st where st: "bc_store bc = Some st" "holds_blocks st (bc_blocks bc)" "\<not> bs_poisoned st"
    using assms(2) by (auto simp: log_in_step_def)
  show ?thesis
  proof (cases "reorgLocked env fork suffix bc")
    case (Some p)
    obtain r bc' where p: "p = (r, bc')" by fastforce
    note run = Some [unfolded p]
    show ?thesis
    proof (cases "\<exists>bs. r = Inr (True, bs)")
      case True
      then obtain bs where r: "r = Inr (True, bs)" ..
      from run [unfolded r] f(8) have "log_in_step bc'"
      proof (rule reorg_acceptedE)
        fix state blocks undos cache cc
        assume "reorged fork suffix bc state undos bc'" "persist_reorg fork suffix (bc_store bc) = (None, bc_store bc')"
        then show ?thesis using persist_outcome [OF _ st(2,3), of fork suffix "bc_store bc'"] st(1)
          by (auto simp: reorged_def log_in_step_def)
      qed
      then show ?thesis unfolding run r by simp
    next
      case False
      then have no: "\<forall>bs. r \<noteq> Inr (True, bs)" by blast
      obtain c n s where bc': "bc' = bc\<lparr>bc_sig_cache := c, bc_nodes := n, bc_store := s\<rparr>"
        and s: "s \<noteq> bc_store bc \<longrightarrow> (\<exists>e q. r = Inl (PersistReorgFailed e) \<and> s = Some q \<and> bs_poisoned q)"
        using reorg_refused [OF run no] by blast
      have "log_in_step bc'" if "s = bc_store bc" using assms(2) by (simp add: bc' that log_in_step_def)
      then show ?thesis using s st(1) unfolding run bc' by (auto split: sum.splits chain_error.splits prod.splits)
    qed
  qed simp
qed

text \<open>
  C7. The log follows the chain: while a log holds exactly the blocks of its chain, a connected block
  and an adopted suffix leave it holding exactly the blocks of the new chain, and a refused one leaves
  it holding those of the old. When an append fails, the log holds the old blocks, or the old blocks
  and the refused one; when a reorganisation fails to be written, the log is poisoned, unless the
  failure came before anything was written.
\<close>

theorem log_follows_chain:
  assumes "reachable_chain cfg table bc" "log_in_step bc"
  shows "(case AddBlock env b bc of None \<Rightarrow> True
      | Some (Some (PersistFailed x), bc') \<Rightarrow>
          \<exists>st. bc_store bc' = Some st \<and> (holds_blocks st (bc_blocks bc) \<or> holds_blocks st (bc_blocks bc @ [b]))
      | Some (e, bc') \<Rightarrow> log_in_step bc')
    \<and> (\<forall>call \<in> {ReorgFrom env h suffix bc, ReplaceChain env incoming bc}.
        case call of None \<Rightarrow> True
        | Some (Inl (PersistReorgFailed x), bc') \<Rightarrow> \<exists>st. bc_store bc' = Some st \<and> (bs_poisoned st \<or> st = the (bc_store bc))
        | Some (r, bc') \<Rightarrow> log_in_step bc')"
proof -
  note f = reachable_facts [OF assms(1)]
  obtain st where st: "bc_store bc = Some st" "holds_blocks st (bc_blocks bc)" "\<not> bs_poisoned st"
    using assms(2) by (auto simp: log_in_step_def)
  have "log_in_step bc'" if "AddBlock env b bc = Some (None, bc')" for bc'
    using that f(8)
  proof (rule AddBlock_acceptedE)
    fix undo state cache cc u s
    assume "bc' = connect_derived b (bc\<lparr>bc_state := state, bc_sig_cache := cache, bc_nodes := cc_nodes (the cc), bc_store := s,
       bc_blocks := bc_blocks bc @ [b], bc_undos := bc_undos bc @ [undo], bc_history := cc_history (the cc),
       bc_cfg := (bc_cfg bc)\<lparr>upgrades := u\<rparr>, bc_work := bc_work bc + BlockWork (blk_bits b)\<rparr>)"
      "case bc_store bc of None \<Rightarrow> s = None | Some s0 \<Rightarrow> \<exists>s'. store_append b s0 = (None, s') \<and> s = Some s'"
    then show ?thesis using append_outcome [OF st(2,3), of b None] st(1) by (auto simp: log_in_step_def)
  qed
  moreover have "log_in_step bc'" if add: "AddBlock env b bc = Some (Some e, bc')" and no: "\<forall>x. e \<noteq> PersistFailed x" for e bc'
  proof -
    obtain x where "e = BlockRejected x" using add no by (auto simp: AddBlock_def Let_def split: prod.splits sum.splits option.splits)
    then have "caches_only bc bc'" using AddBlock_rejected add by blast
    then show ?thesis using assms(2) by (auto simp: caches_only_def log_in_step_def)
  qed
  ultimately have "case AddBlock env b bc of None \<Rightarrow> True
      | Some (Some (PersistFailed x), bc') \<Rightarrow>
          \<exists>st. bc_store bc' = Some st \<and> (holds_blocks st (bc_blocks bc) \<or> holds_blocks st (bc_blocks bc @ [b]))
      | Some (e, bc') \<Rightarrow> log_in_step bc'"
    using AddBlock_persist_failed [OF _ assms(2)] by (auto split: option.splits chain_error.splits)
  moreover note reorg_log [OF assms]
  ultimately show ?thesis using assms(2) by (auto simp: ReorgFrom_def ReplaceChain_def Let_def)
qed


definition logged_genesis :: "config \<Rightarrow> chain" where
  "logged_genesis cfg = (genesis_chain cfg fmempty)\<lparr>bc_store := Some ((empty_store [])
     \<lparr>bs_file := log_bytes [GenesisBlock cfg], bs_offsets := log_offsets [GenesisBlock cfg],
      bs_size := length (log_bytes [GenesisBlock cfg])\<rparr>)\<rparr>"

lemma logged_genesis_reachable: "reachable_chain cfg fmempty (logged_genesis cfg)"
proof (rule reachable_chain.step [OF new_reachable])
  show "chain_step (genesis_chain cfg fmempty) (logged_genesis cfg)" unfolding logged_genesis_def by (rule chain_step.attach)
  show "fits_memory (logged_genesis cfg)" by (simp add: logged_genesis_def genesis_chain_def fits_memory_def)
qed

lemma logged_genesis_in_step: "log_in_step (logged_genesis cfg)"
  by (simp add: log_in_step_def logged_genesis_def genesis_chain_def holds_blocks_def empty_store_def)

definition sample_env :: env where
  "sample_env = \<lparr>env_now = 1700000000, env_cores = 1, env_order = id\<rparr>"

theorem log_follows_chain_witness:
  "let bc = logged_genesis sample_cfg; b = GenesisBlock sample_cfg in
   case AddBlock sample_env b bc of None \<Rightarrow> True
     | Some (Some (PersistFailed x), bc') \<Rightarrow>
         \<exists>st. bc_store bc' = Some st \<and> (holds_blocks st (bc_blocks bc) \<or> holds_blocks st (bc_blocks bc @ [b]))
     | Some (e, bc') \<Rightarrow> log_in_step bc'"
  unfolding Let_def using log_follows_chain [OF logged_genesis_reachable logged_genesis_in_step] by blast

section \<open>The operations return\<close>

text \<open>The windows of the registered votes, from a chain of \<open>n\<close> blocks on, stay in memory.\<close>

definition windows_fit :: "nat \<Rightarrow> deployment_table \<Rightarrow> bool" where
  "windows_fit n table \<longleftrightarrow> n < 2 ^ 63 \<and> (\<forall>d \<in> set (Deployments table). n + unat (dep_window d) < 2 ^ 63)"

lemma statuses_return:
  assumes "\<And>d. d \<in> set ds \<Longrightarrow> dep_Validate d = None \<and> numbered hs d"
  shows "\<exists>sts. deploymentStatuses hs ds = Some (Inr sts)"
  using assms
proof (induction ds)
  case (Cons d ds)
  have "\<exists>st. evaluateDeployment hs d = Some (Inr st)"
    using evaluate_early [of hs d] evaluate_started [OF valid_window, of d hs] Cons.prems [of d]
    by (cases "length hs \<le> unat (dep_start d)") auto
  then show ?case using Cons by auto
qed simp

lemma refresh_returns:
  assumes "table_ok (bc_table bc)" "bc_blocks bc \<noteq> []" "windows_fit (length (bc_blocks bc)) (bc_table bc)"
    and "blk_index (last (bc_blocks bc)) = of_nat (length (bc_blocks bc) - 1)"
  shows "\<exists>u. refreshDeploymentsLocked bc = Some (bc\<lparr>bc_cfg := (bc_cfg bc)\<lparr>upgrades := u\<rparr>\<rparr>)"
proof -
  let ?hs = "map block_Header (bc_blocks bc)"
  have "dep_Validate d = None \<and> numbered ?hs d" if "d \<in> set (Deployments (bc_table bc))" for d
    using assms that by (auto simp: set_Deployments table_ok_def numbered_def windows_fit_def last_map block_Header_def)
  from statuses_return [OF this] obtain sts where "deploymentStatuses ?hs (Deployments (bc_table bc)) = Some (Inr sts)" by blast
  moreover obtain u where "fold install_status sts (bc_cfg bc) = (bc_cfg bc)\<lparr>upgrades := u\<rparr>"
    using fold_install_upgrades by blast
  ultimately show ?thesis by (auto simp: refreshDeploymentsLocked_def refreshDeployments_def)
qed

lemma AddBlock_returns:
  assumes "table_ok (bc_table bc)" "bc_blocks bc \<noteq> []" "windows_fit (length (bc_blocks bc) + 1) (bc_table bc)"
    and "blk_index (last (bc_blocks bc)) = of_nat (length (bc_blocks bc) - 1)"
  shows "\<exists>e bc'. AddBlock env b bc = Some (e, bc')"
proof -
  obtain r state cache cc where ap: "applyBlock (bc_cfg bc) env (bc_state bc) (bc_blocks bc) b (bc_sig_cache bc)
      (Some (commitCtxAt (length (bc_blocks bc) - 1) bc)) = (r, state, cache, cc)" by (metis prod_cases4)
  show ?thesis
  proof (cases r)
    case (Inr undo)
    have "blk_index b = of_nat (length (bc_blocks bc))"
      using accepted_structure(1) [OF ap [unfolded Inr]] assms(2,4) by (cases "bc_blocks bc") simp_all
    then have "\<exists>bc'. connect_block b undo h (bc\<lparr>bc_state := state, bc_sig_cache := cache, bc_nodes := n, bc_store := st\<rparr>) = Some bc'" for h n st
      using refresh_returns [of "bc\<lparr>bc_state := state, bc_sig_cache := cache, bc_nodes := n, bc_store := st,
          bc_blocks := bc_blocks bc @ [b], bc_undos := bc_undos bc @ [undo], bc_history := h\<rparr>"] assms(1,3)
      by (auto simp: connect_block_def)
    then show ?thesis using ap Inr by (auto simp: AddBlock_def Let_def split: prod.splits option.splits)
  qed (use ap in \<open>simp add: AddBlock_def Let_def\<close>)
qed

lemma reorgLocked_returns:
  assumes "reachable_chain cfg table bc" "table_ok (bc_table bc)" "fork < length (bc_blocks bc)"
    and "windows_fit (fork + 1 + length suffix) (bc_table bc)"
  shows "\<exists>r bc'. reorgLocked env fork suffix bc = Some (r, bc')"
proof -
  note f = reachable_facts [OF assms(1)]
  let ?bs = "take (fork + 1) (bc_blocks bc)"
  obtain q state blocks undos cache cc where
    ap: "apply_suffix (bc_cfg bc) env 0 (undo_to fork (bc_undos bc) (bc_state bc)) ?bs
         (take (fork + 1) (bc_undos bc)) (bc_sig_cache bc) (Some (commitCtxAt fork bc)) suffix
         = (q, state, blocks, undos, cache, cc)" by (metis prod_cases6)
  have "\<exists>bc'. commit_reorg fork suffix state undos w h (bc\<lparr>bc_sig_cache := cache, bc_nodes := n, bc_store := st\<rparr>) = Some bc'"
    if "q = None" for w h n st
  proof -
    have len: "length ?bs + length suffix \<le> 2 ^ 64" using assms(3,4) by (simp add: windows_fit_def min_def)
    have ledger: "ledger_chain (bc_cfg bc) (?bs @ suffix) undos state"
      using suffix_accept [OF ap [unfolded that] ledger_rollback [OF f(1) assms(3)] len] by blast
    have ne: "?bs @ suffix \<noteq> []" using f(3) by simp
    have "blk_index (last (?bs @ suffix)) = of_nat (length (?bs @ suffix) - 1)"
      unfolding last_conv_nth [OF ne] by (rule ledger_numbered [OF ledger]) (use ne in simp)
    moreover have "length (?bs @ suffix) = fork + 1 + length suffix" using assms(3) by simp
    ultimately show ?thesis
      using refresh_returns [of "(fold disconnect_derived (rev (drop (fork + 1) (bc_blocks bc)))
          (bc\<lparr>bc_sig_cache := cache, bc_nodes := n, bc_store := st\<rparr>))\<lparr>bc_blocks := ?bs @ suffix\<rparr>"] assms(2,4) ne
      by (auto simp: commit_reorg_def Let_def)
  qed
  then show ?thesis using ap by (auto simp: reorgLocked_def Let_def split: prod.splits option.splits)
qed


lemma windows_fit_mono: "windows_fit n table \<Longrightarrow> m \<le> n \<Longrightarrow> windows_fit m table"
  by (auto simp: windows_fit_def)

lemma commonPrefix_le2: "commonPrefix as bs \<le> length bs"
  by (induction as bs rule: commonPrefix.induct) auto



end
