(* ===== verification/Snapshot.thy ===== *)
theory Snapshot
  imports Chain_Theorems State_Samples
begin

text \<open>
  Snapshots of the ledger and pruned stores (\<open>core/snapshot.go\<close>, the rest of \<open>core/prune.go\<close> and the
  opening of a store in \<open>core/blockchain.go\<close>): the ledger of a past height from the undo logs, its
  verification against a header, a chain seeded from a verified snapshot, and the replay of a log whose
  early bodies are gone. The sidecar file of a pruned store is JSON; what reading it gives is a parameter.
\<close>

section \<open>Snapshots\<close>

record snapshot =
  sn_height :: u64
  sn_header :: header
  sn_accounts :: state

definition SnapshotAt :: "u64 \<Rightarrow> chain \<Rightarrow> snapshot option" where
  "SnapshotAt height bc =
     (if of_nat (length (bc_blocks bc)) \<le> height then None
      else Some \<lparr>sn_height = height, sn_header = block_Header (bc_blocks bc ! unat height),
                 sn_accounts = undo_to (unat height) (bc_undos bc) (bc_state bc)\<rparr>)"

datatype snapshot_error =
    SnapHeight u64 u64 | SnapPoW | SnapStateRoot | SnapHeaderCount u64 nat | SnapGenesis
  | SnapHeaders header_error | SnapHeaderHash

definition VerifySnapshot :: "config \<Rightarrow> snapshot \<Rightarrow> snapshot_error option" where
  "VerifySnapshot cfg s =
     (if hdr_index (sn_header s) \<noteq> sn_height s then Some (SnapHeight (sn_height s) (hdr_index (sn_header s)))
      else if \<not> hdr_HasValidPoW cfg (sn_header s) then Some SnapPoW
      else if stateRoot cfg (sn_accounts s) \<noteq> hdr_state_root (sn_header s) then Some SnapStateRoot
      else None)"

text \<open>
  The chain before deployments and history are brought up to date. \<open>CumulativeSubsidy\<close> may run for as
  long as the height is large; it is an option here as everywhere.
\<close>

definition snapshot_chain :: "config \<Rightarrow> deployment_table \<Rightarrow> snapshot \<Rightarrow> header list \<Rightarrow> u64 \<Rightarrow> chain" where
  "snapshot_chain cfg table s headers minted =
     (let blocks = map BlockFromHeader headers; state = sn_accounts s in
      \<lparr>bc_cfg = cfg, bc_table = table, bc_blocks = blocks, bc_state = state,
       bc_work = sum_list (map (\<lambda>h. BlockWork (hdr_bits h)) headers), bc_undos = map (\<lambda>_. []) headers,
       bc_store = None, bc_store_compacted_to = 0, bc_compaction_due = False,
       bc_tx_index = buildTxIndex cfg blocks, bc_addr_index = None, bc_assets = buildAssetIndex cfg blocks,
       bc_burned = (if totalBalance state < minted then minted - totalBalance state else 0),
       bc_prune_keep = 0, bc_pruned = 0, bc_filter_headers = [], bc_filter_base = sn_height s + 1,
       bc_sig_cache = Some (NewValidationCache DefaultValidationCacheSize),
       bc_nodes = NewBoundedNodeStore DefaultTrieCacheNodes, bc_history = Some empty_mmr\<rparr>)"

text \<open>\<open>None\<close> is a panic on an empty list of headers, or a computation that does not return.\<close>

definition NewFromSnapshot ::
  "config \<Rightarrow> deployment_table \<Rightarrow> snapshot \<Rightarrow> header list \<Rightarrow> (snapshot_error + chain) option" where
  "NewFromSnapshot cfg table s headers =
     (case VerifySnapshot cfg s of Some e \<Rightarrow> Some (Inl e)
      | None \<Rightarrow>
          if of_nat (length headers) \<noteq> sn_height s + 1 then Some (Inl (SnapHeaderCount (sn_height s + 1) (length headers)))
          else if headers = [] then None
          else if hdr_hash (hd headers) \<noteq> blk_hash (GenesisBlock cfg) then Some (Inl SnapGenesis)
          else case ValidateHeaderChain cfg (tl headers) (hdr_hash (hd headers)) 0 of
            Some e \<Rightarrow> Some (Inl (SnapHeaders e))
          | None \<Rightarrow>
              if hdr_hash (headers ! unat (sn_height s)) \<noteq> hdr_hash (sn_header s) then Some (Inl SnapHeaderHash)
              else case CumulativeSubsidy (sn_height s) of None \<Rightarrow> None
                | Some minted \<Rightarrow>
                    (case refreshDeploymentsLocked (snapshot_chain cfg table s headers minted) of None \<Rightarrow> None
                     | Some bc \<Rightarrow> Some (Inr (bc\<lparr>bc_history := Some (rebuildHistoryTo (length (bc_blocks bc) - 1) bc)\<rparr>))))"

section \<open>Pruned stores\<close>

definition stateSnapshot :: "chain \<Rightarrow> snapshot option" where
  "stateSnapshot bc =
     (let body = bodyHeight bc in
      if body = 0 \<or> of_nat (length (bc_blocks bc)) < body then None
      else let at = body - 1 in
        Some \<lparr>sn_height = at, sn_header = block_Header (bc_blocks bc ! unat at),
              sn_accounts = undo_to (unat at) (bc_undos bc) (bc_state bc)\<rparr>)"

fun first_placeholder :: "nat \<Rightarrow> block list \<Rightarrow> nat option" where
  "first_placeholder i [] = None"
| "first_placeholder i (b # bs) = (if IsPlaceholder b then Some i else first_placeholder (i + 1) bs)"

definition firstPlaceholder :: "block list \<Rightarrow> nat option" where
  "firstPlaceholder blocks = first_placeholder 1 (tl blocks)"

datatype open_error =
    StoreFailed io_error | GenesisMismatch | SnapshotUnreadable | SnapshotMissing nat | SnapshotBeyond u64 nat
  | BodyMissing nat u64 | BadSnapshot snapshot_error | ReplayFailed nat chain_error

fun replay :: "env \<Rightarrow> nat \<Rightarrow> block list \<Rightarrow> chain \<Rightarrow> (open_error + chain) option" where
  "replay env i [] bc = Some (Inr bc)"
| "replay env i (b # bs) bc =
     (case AddBlock env b bc of None \<Rightarrow> None
      | Some (Some e, _) \<Rightarrow> Some (Inl (ReplayFailed i e))
      | Some (None, bc') \<Rightarrow> replay env (i + 1) bs bc')"

text \<open>
  The sidecar: \<open>Inl\<close> when it cannot be read or parsed, else the snapshot if there is one.
\<close>

definition openPrunedStore ::
  "config \<Rightarrow> deployment_table \<Rightarrow> env \<Rightarrow> unit + snapshot option \<Rightarrow> block list \<Rightarrow> nat \<Rightarrow> (open_error + chain) option" where
  "openPrunedStore cfg table env sidecar blocks firstPruned =
     (case sidecar of Inl _ \<Rightarrow> Some (Inl SnapshotUnreadable)
      | Inr None \<Rightarrow> Some (Inl (SnapshotMissing firstPruned))
      | Inr (Some snap) \<Rightarrow>
          if of_nat (length blocks) \<le> sn_height snap then Some (Inl (SnapshotBeyond (sn_height snap) (length blocks)))
          else let h = unat (sn_height snap) in
            case first_placeholder (h + 1) (drop (h + 1) blocks) of
              Some i \<Rightarrow> Some (Inl (BodyMissing i (sn_height snap)))
            | None \<Rightarrow>
                (case NewFromSnapshot cfg table snap (map block_Header (take (h + 1) blocks)) of
                   None \<Rightarrow> None
                 | Some (Inl e) \<Rightarrow> Some (Inl (BadSnapshot e))
                 | Some (Inr bc) \<Rightarrow>
                     (case replay env (h + 1) (drop (h + 1) blocks) bc of
                        Some (Inr bc') \<Rightarrow> Some (Inr (bc'\<lparr>bc_store_compacted_to := sn_height snap + 1\<rparr>))
                      | r \<Rightarrow> r)))"

definition Open ::
  "config \<Rightarrow> deployment_table \<Rightarrow> env \<Rightarrow> (bytes \<Rightarrow> block option) \<Rightarrow> nat option list \<Rightarrow> bytes \<Rightarrow> unit + snapshot option
    \<Rightarrow> (open_error + chain) option" where
  "Open cfg table env json io file sidecar =
     (case openStore json io file of Inl e \<Rightarrow> Some (Inl (StoreFailed e))
      | Inr (store, blocks) \<Rightarrow>
          (case NewBlockchain cfg table of None \<Rightarrow> None
           | Some bc \<Rightarrow>
               if blocks = [] then
                 (case store_append (GenesisBlock cfg) store of
                    (Some e, _) \<Rightarrow> Some (Inl (StoreFailed e))
                  | (None, store') \<Rightarrow> Some (Inr (bc\<lparr>bc_store := Some store'\<rparr>)))
               else if blk_hash (hd blocks) \<noteq> blk_hash (GenesisBlock cfg) then Some (Inl GenesisMismatch)
               else (case (case firstPlaceholder blocks of
                             Some i \<Rightarrow> openPrunedStore cfg table env sidecar blocks i
                           | None \<Rightarrow> replay env 1 (tl blocks) bc) of
                       Some (Inr bc') \<Rightarrow> Some (Inr (bc'\<lparr>bc_store := Some store\<rparr>))
                     | r \<Rightarrow> r)))"

section \<open>The ledger of a past height\<close>

text \<open>A chain grown from another by accepted blocks.\<close>

inductive grown :: "chain \<Rightarrow> chain \<Rightarrow> bool" for past where
  here: "grown past past"
| block: "grown past bc \<Longrightarrow> AddBlock env b bc = Some (None, bc') \<Longrightarrow> fits_memory bc' \<Longrightarrow> grown past bc'"

lemma grown_ok: "grown past bc \<Longrightarrow> chain_ok past \<Longrightarrow> fits_memory past \<Longrightarrow> chain_ok bc \<and> fits_memory bc"
proof (induction rule: grown.induct)
  case (block bc env b bc')
  then show ?case using AddBlock_ok [of bc env b None bc'] by (simp add: fits_memory_def)
qed simp

lemma grown_undo:
  assumes "grown past bc" "chain_ok past" "fits_memory past"
  shows "(\<exists>bs us. bc_blocks bc = bc_blocks past @ bs \<and> bc_undos bc = bc_undos past @ us)
    \<and> undo_to (length (bc_blocks past) - 1) (bc_undos bc) (bc_state bc) = bc_state past"
  using assms
proof (induction rule: grown.induct)
  case here
  have "length (bc_undos past) = length (bc_blocks past)" using here(1) ledger_lengths by (auto simp: chain_ok_def)
  then show ?case by (simp add: undo_to_tip)
next
  case (block bc env b bc')
  have ok: "chain_ok bc" using grown_ok [OF block.hyps(1)] block.prems by simp
  then have keep: "bc_prune_keep bc = 0" "length (bc_undos bc) = length (bc_blocks bc)" "bc_blocks past \<noteq> []"
    using ledger_lengths block.prems(1) by (auto simp: chain_ok_def)
  obtain undo where undo: "bc_undos bc' = bc_undos bc @ [undo]" "bc_blocks bc' = bc_blocks bc @ [b]"
    "applyUndo (bc_state bc') undo = bc_state bc"
    using block.hyps(2) keep(1) by (rule AddBlock_acceptedE) (auto dest: accepted_undo)
  have "length (bc_blocks past) - 1 < length (bc_undos bc)"
    using block.IH block.prems keep(2,3) by (cases "bc_blocks past") auto
  then show ?case using block.IH block.prems undo by (auto simp: undo_to_snoc)
qed

text \<open>
  The snapshot a node takes of a past height is the ledger the chain had at that height: whatever
  blocks have been connected since, rolling their undo logs back restores every account exactly, and
  the header is that of the block which was the tip.
\<close>

theorem snapshot_is_past_ledger:
  assumes "reachable_chain cfg table past" "grown past bc"
  shows "SnapshotAt (blk_index (bc_tip past)) bc
    = Some \<lparr>sn_height = blk_index (bc_tip past), sn_header = block_Header (bc_tip past), sn_accounts = bc_state past\<rparr>"
proof -
  have ok: "chain_ok past" "fits_memory past" using reachable_ok [OF assms(1)] by simp_all
  then have ne: "bc_blocks past \<noteq> []" by (simp add: chain_ok_ne)
  let ?n = "length (bc_blocks past) - 1"
  have idx: "blk_index (bc_tip past) = of_nat ?n"
    using ledger_numbered [of "bc_cfg past" "bc_blocks past" "bc_undos past" "bc_state past" ?n] ok(1) ne
    by (simp add: bc_tip_def last_conv_nth chain_ok_def)
  have u: "unat (of_nat ?n :: u64) = ?n" using ok(2) by (simp add: fits_memory_def unat_of_nat)
  obtain bs where bs: "bc_blocks bc = bc_blocks past @ bs"
    "undo_to ?n (bc_undos bc) (bc_state bc) = bc_state past"
    using grown_undo [OF assms(2) ok] by blast
  have "length (bc_blocks bc) < 2 ^ 63" using grown_ok [OF assms(2) ok] by (simp add: fits_memory_def)
  then have "unat (of_nat (length (bc_blocks bc)) :: u64) = length (bc_blocks bc)" by (simp add: unat_of_nat)
  moreover have "?n < length (bc_blocks bc)" using bs(1) ne by (cases "bc_blocks past") simp_all
  ultimately have "\<not> of_nat (length (bc_blocks bc)) \<le> (of_nat ?n :: u64)" using u by (simp only: word_le_nat_alt)
  moreover have "bc_blocks bc ! ?n = bc_tip past" using bs(1) ne by (simp add: bc_tip_def last_conv_nth nth_append)
  ultimately show ?thesis using bs(2) u by (simp add: SnapshotAt_def idx)
qed

section \<open>A verified snapshot binds the accounts\<close>

definition leaf_strings :: "state \<Rightarrow> string set" where
  "leaf_strings s = (\<lambda>a. leaf_string a (state_Get s a)) ` fmdom' s"

lemma root_binds:
  assumes "no_collision cfg (state_nodes cfg s \<union> state_nodes cfg t)" "keys_apart cfg (fmdom' s \<union> fmdom' t)"
    and "inj_on (sha256 cfg) (leaf_strings s \<union> leaf_strings t)" "stateRoot cfg s = stateRoot cfg t"
    and "addr \<in> fmdom' s"
  shows "addr \<in> fmdom' t \<and> acc_balance (state_Get s addr) = acc_balance (state_Get t addr)
    \<and> acc_nonce (state_Get s addr) = acc_nonce (state_Get t addr)"
proof -
  let ?U = "state_nodes cfg s \<union> state_nodes cfg t"
  have len: "sha256_length cfg" using assms(1) by (simp add: no_collision_def)
  have proper: "\<forall>n \<in> ?U. node_proper n"
    using build_nodes_proper [OF len, of PE] state_entries_ok [OF len] by (auto simp: state_nodes_def)
  have u: "universe cfg ?U s" "universe cfg ?U t" using assms(1) proper by (auto simp: universe_def)
  have "state_tree cfg s = state_tree cfg t"
    using p_hash_inj [OF universe_nodes(1,3) [OF u(1)] universe_nodes(3) [OF u(2)]] assms(4)
      stateRoot_hash [OF u(1)] stateRoot_hash [OF u(2)] by simp
  moreover have "keys_apart cfg (insert addr (fmdom' r))" if "r \<in> {s, t}" for r
    using assms(5) that by (intro inj_on_subset [OF assms(2) [unfolded keys_apart_def], folded keys_apart_def]) auto
  ultimately have leaf: "map_option (stateLeaf cfg addr) (state_Lookup s addr) = map_option (stateLeaf cfg addr) (state_Lookup t addr)"
    using state_tree_lookup [OF len, of addr s] state_tree_lookup [OF len, of addr t] by simp
  have s: "state_Lookup s addr = Some (state_Get s addr)"
    using assms(5) by (auto simp: state_Lookup_def state_Get_def fmget_def fmlookup_dom'_iff)
  then have t: "state_Lookup t addr = Some (state_Get t addr)"
    using leaf by (cases "state_Lookup t addr") (auto simp: state_Lookup_def state_Get_def fmget_def)
  then have dom: "addr \<in> fmdom' t" by (auto simp: state_Lookup_def fmlookup_dom'_iff)
  have "sha256 cfg (leaf_string addr (state_Get s addr)) = sha256 cfg (leaf_string addr (state_Get t addr))"
    using leaf s t by (simp add: stateLeaf_def hashBytes_def)
  then have "leaf_string addr (state_Get s addr) = leaf_string addr (state_Get t addr)"
    using assms(3,5) dom by (auto simp: leaf_strings_def dest: inj_onD)
  then show ?thesis using leaf_string_balance dom by blast
qed

text \<open>
  C22. Two snapshots that verify against the same header agree: they have the same accounts, each with the
  same balance and the same nonce, unless two of the strings hashed collide. A peer cannot serve a
  different ledger for a header it did not choose.
\<close>

theorem verified_snapshot_binds:
  assumes "VerifySnapshot cfg s = None" "VerifySnapshot cfg t = None" "sn_header s = sn_header t"
    and "no_collision cfg (state_nodes cfg (sn_accounts s) \<union> state_nodes cfg (sn_accounts t))"
    and "keys_apart cfg (fmdom' (sn_accounts s) \<union> fmdom' (sn_accounts t))"
    and "inj_on (sha256 cfg) (leaf_strings (sn_accounts s) \<union> leaf_strings (sn_accounts t))"
  shows "sn_height s = sn_height t \<and> fmdom' (sn_accounts s) = fmdom' (sn_accounts t)
    \<and> acc_balance (state_Get (sn_accounts s) addr) = acc_balance (state_Get (sn_accounts t) addr)
    \<and> acc_nonce (state_Get (sn_accounts s) addr) = acc_nonce (state_Get (sn_accounts t) addr)"
proof -
  let ?s = "sn_accounts s" and ?t = "sn_accounts t"
  have root: "stateRoot cfg ?s = stateRoot cfg ?t" and h: "sn_height s = sn_height t"
    using assms(1-3) by (auto simp: VerifySnapshot_def split: if_splits)
  note one = root_binds [OF assms(4-6) root]
  note two = root_binds [of cfg ?t ?s, OF _ _ _ root [symmetric]]
  have dom: "fmdom' ?s = fmdom' ?t" using one two assms(4-6) by (auto simp: Un_commute)
  show ?thesis
  proof (cases "addr \<in> fmdom' ?s")
    case True
    then show ?thesis using one h dom by blast
  next
    case False
    then have "state_Get ?s addr = state_Get ?t addr"
      using dom fmlookup_dom'_iff [of addr ?s] fmlookup_dom'_iff [of addr ?t] by (auto simp: state_Get_def fmget_def split: option.split)
    then show ?thesis using h dom by simp
  qed
qed

section \<open>The first block above a snapshot\<close>

lemma NewFromSnapshot_blocks:
  assumes "NewFromSnapshot cfg table s headers = Some (Inr bc)"
  shows "bc_blocks bc = map BlockFromHeader headers" "headers \<noteq> []" "bc_prune_keep bc = 0"
proof -
  obtain minted bc1 where r: "refreshDeploymentsLocked (snapshot_chain cfg table s headers minted) = Some bc1"
    "bc = bc1\<lparr>bc_history := Some (rebuildHistoryTo (length (bc_blocks bc1) - 1) bc1)\<rparr>" and ne: "headers \<noteq> []"
    using assms by (auto simp: NewFromSnapshot_def split: option.splits if_splits)
  from r(1) obtain u where "bc1 = (snapshot_chain cfg table s headers minted)\<lparr>bc_cfg := (bc_cfg (snapshot_chain cfg table s headers minted))\<lparr>upgrades := u\<rparr>\<rparr>"
    by (rule refreshed)
  then show "bc_blocks bc = map BlockFromHeader headers" "headers \<noteq> []" "bc_prune_keep bc = 0"
    using r(2) ne by (simp_all add: snapshot_chain_def Let_def)
qed

lemma accepted_base_fee:
  assumes "applyBlock cfg env state blocks b cache cc = (Inr undo, state', cache', cc')"
  shows "blk_base_fee b = expectedBaseFee blocks (blk_index b)"
proof -
  have "validateBlockStructure cfg (env_now env) blocks b cc = None"
    using assms by (rule applyBlock_acceptedE)
  then show ?thesis by (auto simp: validateBlockStructure_def Let_def err_then_def split: if_splits option.splits)
qed

lemma fee_at_parent:
  assumes "0 < height" "parent = blocks ! unat (height - 1)" "8 \<le> unat (blk_base_fee parent)" "unat (blk_base_fee parent) * 500 < 2 ^ 64"
  shows "blk_transactions parent = [] \<Longrightarrow> expectedBaseFee blocks height < blk_base_fee parent"
    and "BaseFeeTargetTxs \<le> length (blk_transactions parent) - 1 \<Longrightarrow> length (blk_transactions parent) \<le> MaxBlockTxs + 1 \<Longrightarrow>
      blk_base_fee parent \<le> expectedBaseFee blocks height"
proof -
  let ?base = "blk_base_fee parent" and ?n = "length (blk_transactions parent) - 1"
  have base: "(if ?base < MinBaseFee then MinBaseFee else ?base) = ?base"
    using assms(3) by (simp add: MinBaseFee_def word_less_nat_alt)
  have h: "height \<noteq> 0" using assms(1) by auto
  show "expectedBaseFee blocks height < ?base" if "blk_transactions parent = []"
  proof -
    let ?w = "?base * of_nat BaseFeeTargetTxs div of_nat BaseFeeTargetTxs div BaseFeeMaxChangeDenominator"
    have w: "unat ?w = unat ?base div 8"
      using base_fee_delta [OF assms(4), of BaseFeeTargetTxs] by (simp add: BaseFeeTargetTxs_val)
    have "expectedBaseFee blocks height = (if ?base \<le> ?w \<or> ?base - ?w < MinBaseFee then MinBaseFee else ?base - ?w)"
      unfolding expectedBaseFee_def Let_def assms(2) [symmetric] base using h that by (simp add: BaseFeeTargetTxs_val)
    moreover have "unat (?base - ?w) = unat ?base - unat ?base div 8"
      using w by (subst unat_diff_le) (simp_all add: word_le_nat_alt)
    ultimately show ?thesis using w assms(3) by (auto simp: word_less_nat_alt word_le_nat_alt MinBaseFee_def)
  qed
  show "?base \<le> expectedBaseFee blocks height" if "BaseFeeTargetTxs \<le> ?n" "length (blk_transactions parent) \<le> MaxBlockTxs + 1"
  proof (cases "?n = BaseFeeTargetTxs")
    case True
    then show ?thesis unfolding expectedBaseFee_def Let_def assms(2) [symmetric] base using h by simp
  next
    case False
    let ?d = "?n - BaseFeeTargetTxs"
    let ?w = "?base * of_nat ?d div of_nat BaseFeeTargetTxs div BaseFeeMaxChangeDenominator"
    have d: "?d \<le> 500" using that(2) by (simp add: MaxBlockTxs_def BaseFeeTargetTxs_val)
    note dl = base_fee_delta [OF assms(4) d]
    define x where "x = (if ?w = 0 then 1 else ?w)"
    have e: "expectedBaseFee blocks height = ?base + x"
      unfolding expectedBaseFee_def Let_def assms(2) [symmetric] base x_def using h False that(1) by simp
    have "unat ?w \<le> unat ?base div 8" unfolding dl(1) by (rule dl(2))
    then have "unat x \<le> unat ?base" using assms(3) by (auto simp: x_def)
    then have "unat (?base + x) = unat ?base + unat x" by (intro unat_add_small) (use assms(4) in linarith)
    then show ?thesis unfolding e by (simp add: word_le_nat_alt)
  qed
qed

text \<open>
  A chain seeded from a snapshot holds the parent of its next block as a header only, so it takes the
  parent for empty: when the parent was at its target or above and the base fee is at least 8, it refuses
  every successor that has the base fee the rules require of it.
\<close>

theorem snapshot_refuses_successor:
  assumes "NewFromSnapshot cfg table s (map block_Header (bs @ [parent])) = Some (Inr bc)" "length bs < 2 ^ 63"
    and "BaseFeeTargetTxs \<le> length (blk_transactions parent) - 1" "length (blk_transactions parent) \<le> MaxBlockTxs + 1"
    and "8 \<le> unat (blk_base_fee parent)" "unat (blk_base_fee parent) * 500 < 2 ^ 64"
    and "blk_index b = of_nat (length bs) + 1" "blk_base_fee b = expectedBaseFee (bs @ [parent]) (blk_index b)"
  shows "\<exists>e bc'. AddBlock env b bc = Some (Some (BlockRejected e), bc')"
proof -
  let ?p = "BlockFromHeader (block_Header parent)"
  have blocks: "bc_blocks bc = map (\<lambda>b. BlockFromHeader (block_Header b)) bs @ [?p]"
    using NewFromSnapshot_blocks [OF assms(1)] by simp
  have i: "unat (of_nat (length bs) :: u64) = length bs" using assms(2) by (simp add: unat_of_nat)
  have "unat (of_nat (length bs) + 1 :: u64) = length bs + 1" using i assms(2) by (subst unat_add_small) simp_all
  then have pos: "0 < blk_index b" using assms(7) by (metis add_is_0 one_neq_zero unat_0 word_gt_0)
  have at: "xs ! unat (blk_index b - 1) = last xs" if "length xs = length bs + 1" for xs :: "block list"
    using that i by (cases xs rule: rev_cases) (simp_all add: assms(7) nth_append)
  have last: "last (bc_blocks bc) = ?p" "length (bc_blocks bc) = length bs + 1" by (simp_all add: blocks)
  have fee: "blk_base_fee ?p = blk_base_fee parent" "blk_transactions ?p = []" by (simp_all add: BlockFromHeader_def block_Header_def)
  have "expectedBaseFee (bc_blocks bc) (blk_index b) < blk_base_fee parent"
    using fee_at_parent(1) [OF pos, of ?p "bc_blocks bc"] at [of "bc_blocks bc"] last fee assms(5,6) by simp
  moreover have "blk_base_fee parent \<le> blk_base_fee b"
    using fee_at_parent(2) [OF pos, of parent "bs @ [parent]"] at [of "bs @ [parent]"] assms(3-6,8) by simp
  ultimately have ne: "blk_base_fee b \<noteq> expectedBaseFee (bc_blocks bc) (blk_index b)" by auto
  obtain r state cache cc where ap: "applyBlock (bc_cfg bc) env (bc_state bc) (bc_blocks bc) b (bc_sig_cache bc)
      (Some (commitCtxAt (length (bc_blocks bc) - 1) bc)) = (r, state, cache, cc)" by (metis prod_cases4)
  then have "\<nexists>undo. r = Inr undo" using accepted_base_fee ne by blast
  then obtain e where "r = Inl e" by (cases r) auto
  then show ?thesis using ap by (simp add: AddBlock_def Let_def)
qed


section \<open>Instances\<close>

theorem snapshot_is_past_ledger_witness:
  "SnapshotAt 0 (genesis_chain sample_cfg fmempty)
     = Some \<lparr>sn_height = 0, sn_header = block_Header (GenesisBlock sample_cfg), sn_accounts = fmempty\<rparr>"
  using snapshot_is_past_ledger [OF new_reachable grown.here, of sample_cfg]
  by (simp add: genesis_chain_def bc_tip_def GenesisBlock_def Let_def)

text \<open>A hash under which every header of version 1 has its proof of work, and the nodes of a ledger differ.\<close>

definition pow_cfg :: config where
  "pow_cfg = mix_cfg\<lparr>sha256 := (\<lambda>b. if take 2 b = ''1|'' then replicate 32 (CHR 0x00) else mix_sha b)\<rparr>"

definition sample_snapshot :: snapshot where
  "sample_snapshot =
     (let h = (block_Header sample_tip)\<lparr>hdr_bits := GenesisBits, hdr_state_root := stateRoot pow_cfg ledger_xy\<rparr>
      in \<lparr>sn_height = 1, sn_header = h\<lparr>hdr_hash := hdr_ComputeHash pow_cfg h\<rparr>, sn_accounts = ledger_xy\<rparr>)"

lemma pow_target: "meetsTarget (hex_encode (replicate 32 (CHR 0x00))) GenesisBits"
  using GenesisBits_range by (simp add: meetsTarget_def hashToBig_def hex_decode_encode be_val_replicate_0 Let_def)

lemma sample_verifies: "VerifySnapshot pow_cfg sample_snapshot = None"
proof -
  have "dec 1 = ''1''" by code_simp
  then have "take 2 (appendPreimage pow_cfg h) = ''1|''" if "hdr_version h = 1" for h
    using that by (simp add: appendPreimage_def appendPreimagePrefix_def)
  then have "sha256 pow_cfg (appendPreimage pow_cfg h) = replicate 32 (CHR 0x00)" if "hdr_version h = 1" for h
    using that by (simp add: pow_cfg_def)
  then show ?thesis using pow_target
    by (simp add: VerifySnapshot_def sample_snapshot_def Let_def block_Header_def sample_tip_def hdr_HasValidPoW_def
        hdr_ComputeHash_def hashBytes_def)
qed

lemma pow_inj: "inj_on (sha256 pow_cfg) (insert ''dnas-trie-empty'' (node_preimage ` state_nodes pow_cfg ledger_xy))"
  by code_simp

text \<open>The same accounts, received in another order.\<close>

definition served_snapshot :: snapshot where
  "served_snapshot = sample_snapshot\<lparr>sn_accounts :=
     fmap_of_list [(''0'', zero_account\<lparr>acc_balance := 7\<rparr>), (''p'', zero_account\<lparr>acc_balance := 5\<rparr>)]\<rparr>"

lemma served_same: "served_snapshot = sample_snapshot"
proof -
  have "fmap_of_list [(''0'', zero_account\<lparr>acc_balance := 7\<rparr>), (''p'', zero_account\<lparr>acc_balance := 5\<rparr>)] = ledger_xy"
    by (rule fmap_ext) (auto simp: ledger_xy_def fmap_of_list.rep_eq)
  then show ?thesis by (simp add: served_snapshot_def sample_snapshot_def Let_def)
qed

theorem verified_snapshot_binds_witness:
  "VerifySnapshot pow_cfg sample_snapshot = None \<and> VerifySnapshot pow_cfg served_snapshot = None
    \<and> acc_balance (state_Get (sn_accounts sample_snapshot) ''p'') = acc_balance (state_Get (sn_accounts served_snapshot) ''p'')"
proof -
  have acc: "sn_accounts sample_snapshot = ledger_xy" by (simp add: sample_snapshot_def Let_def)
  have "no_collision pow_cfg (state_nodes pow_cfg ledger_xy \<union> state_nodes pow_cfg ledger_xy)"
    using pow_inj by (auto simp: no_collision_def sha256_length_def pow_cfg_def mix_sha_def Let_def min_def)
  moreover have "keys_apart pow_cfg (fmdom' ledger_xy \<union> fmdom' ledger_xy)" unfolding dom_xy by code_simp
  moreover have "inj_on (sha256 pow_cfg) (leaf_strings ledger_xy \<union> leaf_strings ledger_xy)"
    unfolding leaf_strings_def dom_xy by code_simp
  moreover have "VerifySnapshot pow_cfg served_snapshot = None" using sample_verifies by (simp add: served_same)
  ultimately show ?thesis
    using verified_snapshot_binds [OF sample_verifies _ _, of served_snapshot "''p''"] sample_verifies acc
    by (simp add: served_same)
qed

end
