(* ===== verification/Mempool.thy ===== *)
theory Mempool
  imports Chain_Queries
begin

text \<open>
  The pool of pending transactions (\<open>core/mempool.go\<close>, \<open>core/package.go\<close>): admission with its relay
  floor, nonce and affordability rules, replacement by fee, eviction under two budgets, package limits
  on unconfirmed ancestors and descendants, pruning, reconciliation after a tip change and fee
  statistics. The pool reads confirmed accounts through an interface, a record of functions here; the
  chain is one instance. A pool operation that holds the lock throughout is a function of the pool;
  \<open>Add\<close>, which releases it while a signature is verified, is a check followed by a locked section, so
  that the pool may change in between.
\<close>

section \<open>Fee rates\<close>

text \<open>
  A rate is a quotient of two 64-bit integers in \<open>float64\<close>: both are converted and divided, each step
  rounded to nearest with 53 significant bits, ties to even. Such quotients are zero or between
  \<open>2^-64\<close> and \<open>2^64\<close>, far from the limits of the exponent, so a rate is a rational number here.
\<close>

definition round_even :: "rat \<Rightarrow> int" where
  "round_even q =
     (let f = \<lfloor>q\<rfloor>; r = q - of_int f in
      if r < 1 / 2 then f else if 1 / 2 < r then f + 1 else if even f then f else f + 1)"

definition pow2_rat :: "int \<Rightarrow> rat" where
  "pow2_rat e = (if 0 \<le> e then 2 ^ nat e else 1 / 2 ^ nat (- e))"

definition f64_round :: "rat \<Rightarrow> rat" where
  "f64_round q =
     (if q \<le> 0 then 0
      else case quotient_of q of (n, d) \<Rightarrow>
        let e0 = int (bit_len (nat n)) - int (bit_len (nat d)) - 53;
            e = (if q / pow2_rat e0 < 2 ^ 53 then e0 else e0 + 1)
        in of_int (round_even (q / pow2_rat e)) * pow2_rat e)"

definition f64_quot :: "u64 \<Rightarrow> int \<Rightarrow> rat" where
  "f64_quot fee sz = f64_round (f64_round (of_int (uint fee)) / f64_round (of_int sz))"

definition txRate :: "config \<Rightarrow> transaction \<Rightarrow> rat" where
  "txRate cfg tx = f64_quot (tx_fee tx) (int (tx_size cfg tx))"

section \<open>State\<close>

definition DefaultMempoolSize :: int where "DefaultMempoolSize = 5000"
definition DefaultMempoolBytes :: int where "DefaultMempoolBytes = 32 * 2 ^ 20"
definition MaxRelayTxBytes :: nat where "MaxRelayTxBytes = 100000"
definition feeFloorMaxMultiplier :: int where "feeFloorMaxMultiplier = 100"
definition MaxPerSender :: nat where "MaxPerSender = 64"
definition MaxPackageAncestors :: nat where "MaxPackageAncestors = 25"
definition MaxPackageDescendants :: nat where "MaxPackageDescendants = 25"
definition MaxPackageBytes :: nat where "MaxPackageBytes = 101000"

text \<open>\<open>AccountSource\<close>, with the height when the source also has one.\<close>

record account_source =
  src_account :: "string \<Rightarrow> account"
  src_spendable :: "string \<Rightarrow> u64"
  src_height :: "u64 option"

definition chain_source :: "chain \<Rightarrow> account_source" where
  "chain_source bc = \<lparr>src_account = state_Get (bc_state bc), src_spendable = (\<lambda>addr. SpendableBalance addr bc),
     src_height = Some (blk_index (bc_tip bc))\<rparr>"

text \<open>
  \<open>mp_order\<close> is the order in which an iteration over a map visits its keys or values: Go leaves it
  open, so every statement about a pool is about any such order.
\<close>

record mempool =
  mp_txs :: "(string, transaction) fmap"
  mp_by_sender :: "(string, (u64, string) fmap) fmap"
  mp_sponsored :: "(string, u64) fmap"
  mp_bytes :: int
  mp_max_bytes :: int
  mp_max :: int
  mp_min_relay_fee :: u64
  mp_credited_by :: "(string, string list) fmap"
  mp_order :: "string list \<Rightarrow> string list"

definition NewMempoolWithLimits :: "(string list \<Rightarrow> string list) \<Rightarrow> int \<Rightarrow> int \<Rightarrow> u64 \<Rightarrow> mempool" where
  "NewMempoolWithLimits order mx maxBytes minRelayFee =
     \<lparr>mp_txs = fmempty, mp_by_sender = fmempty, mp_sponsored = fmempty, mp_bytes = 0,
      mp_max_bytes = (if maxBytes \<le> 0 then DefaultMempoolBytes else maxBytes),
      mp_max = (if mx \<le> 0 then DefaultMempoolSize else mx), mp_min_relay_fee = minRelayFee,
      mp_credited_by = fmempty, mp_order = order\<rparr>"

definition NewMempoolWithPolicy :: "(string list \<Rightarrow> string list) \<Rightarrow> int \<Rightarrow> u64 \<Rightarrow> mempool" where
  "NewMempoolWithPolicy order mx minRelayFee = NewMempoolWithLimits order mx DefaultMempoolBytes minRelayFee"

definition mp_size :: "mempool \<Rightarrow> nat" where
  "mp_size m = length (fmkeys (mp_txs m))"

text \<open>\<open>m.txs[h]\<close>, the zero transaction when \<open>h\<close> is absent, and \<open>m.bySender[from]\<close>.\<close>

definition mp_tx :: "mempool \<Rightarrow> string \<Rightarrow> transaction" where
  "mp_tx m h = fmget zero_tx (mp_txs m) h"

definition mp_queue :: "mempool \<Rightarrow> string \<Rightarrow> (u64, string) fmap" where
  "mp_queue m from = fmget fmempty (mp_by_sender m) from"

text \<open>The hashes a sender has queued, as an iteration over its queue visits them.\<close>

definition queued_hashes :: "mempool \<Rightarrow> string \<Rightarrow> string list" where
  "queued_hashes m from = mp_order m (map (\<lambda>n. fmget [] (mp_queue m from) n) (fmkeys (mp_queue m from)))"

definition minFee :: "mempool \<Rightarrow> u64" where
  "minFee m =
     (if mp_min_relay_fee m = 0 \<or> mp_max m \<le> 0 then mp_min_relay_fee m
      else let fill0 = int (mp_size m) * 100 div mp_max m;
               fill1 = (if 0 < mp_max_bytes m \<and> fill0 < mp_bytes m * 100 div mp_max_bytes m
                        then mp_bytes m * 100 div mp_max_bytes m else fill0);
               fill = (if 100 < fill1 then 100 else fill1);
               extra = (of_int (feeFloorMaxMultiplier - 1) * of_int (fill * fill)) div 10000
           in mp_min_relay_fee m * (1 + extra))"

section \<open>Storing and removing\<close>

definition distinctRecipients :: "transaction \<Rightarrow> string list" where
  "distinctRecipients tx = sort (remdups (filter (\<lambda>a. a \<noteq> []) (map out_to (outputs tx))))"

definition indexCredits :: "string \<Rightarrow> transaction \<Rightarrow> (string, string list) fmap \<Rightarrow> (string, string list) fmap" where
  "indexCredits h tx idx =
     (if IsAssetTransfer tx \<or> IsIssue tx then idx
      else fold (\<lambda>addr idx. if addr = tx_from tx then idx else fmupd addr (fmget [] idx addr @ [h]) idx)
        (distinctRecipients tx) idx)"

definition unindex_credit :: "string \<Rightarrow> string \<Rightarrow> (string, string list) fmap \<Rightarrow> (string, string list) fmap" where
  "unindex_credit h addr idx =
     (let rest = remove1 h (fmget [] idx addr) in if rest = [] then fmdrop addr idx else fmupd addr rest idx)"

definition unindexCredits :: "string \<Rightarrow> transaction \<Rightarrow> (string, string list) fmap \<Rightarrow> (string, string list) fmap" where
  "unindexCredits h tx idx =
     (if IsAssetTransfer tx \<or> IsIssue tx then idx else fold (unindex_credit h) (distinctRecipients tx) idx)"

definition mp_insert :: "config \<Rightarrow> string \<Rightarrow> transaction \<Rightarrow> mempool \<Rightarrow> mempool" where
  "mp_insert cfg h tx m =
     m\<lparr>mp_txs := fmupd h tx (mp_txs m),
       mp_by_sender := fmupd (tx_from tx) (fmupd (tx_nonce tx) h (mp_queue m (tx_from tx))) (mp_by_sender m),
       mp_bytes := mp_bytes m + int (tx_size cfg tx),
       mp_sponsored := (if IsSponsored tx
          then fmupd (tx_fee_payer tx) (fmget 0 (mp_sponsored m) (tx_fee_payer tx) + tx_fee tx) (mp_sponsored m)
          else mp_sponsored m),
       mp_credited_by := indexCredits h tx (mp_credited_by m)\<rparr>"

definition release_sponsor :: "transaction \<Rightarrow> (string, u64) fmap \<Rightarrow> (string, u64) fmap" where
  "release_sponsor tx sp =
     (if IsSponsored tx then
        let rest = fmget 0 sp (tx_fee_payer tx) - tx_fee tx in
        if rest = 0 then fmdrop (tx_fee_payer tx) sp else fmupd (tx_fee_payer tx) rest sp
      else sp)"

definition unqueue :: "string \<Rightarrow> transaction \<Rightarrow> (string, (u64, string) fmap) fmap \<Rightarrow> (string, (u64, string) fmap) fmap" where
  "unqueue h tx bs =
     (case fmlookup bs (tx_from tx) of None \<Rightarrow> bs
      | Some q \<Rightarrow>
          let q' = (if fmlookup q (tx_nonce tx) = Some h then fmdrop (tx_nonce tx) q else q) in
          if q' = fmempty then fmdrop (tx_from tx) bs else fmupd (tx_from tx) q' bs)"

definition mp_delete :: "config \<Rightarrow> string \<Rightarrow> mempool \<Rightarrow> mempool" where
  "mp_delete cfg h m =
     (case fmlookup (mp_txs m) h of None \<Rightarrow> m
      | Some tx \<Rightarrow>
          m\<lparr>mp_txs := fmdrop h (mp_txs m),
            mp_by_sender := unqueue h tx (mp_by_sender m),
            mp_bytes := (if mp_bytes m - int (tx_size cfg tx) < 0 then 0 else mp_bytes m - int (tx_size cfg tx)),
            mp_sponsored := release_sponsor tx (mp_sponsored m),
            mp_credited_by := unindexCredits h tx (mp_credited_by m)\<rparr>)"

section \<open>Packages\<close>

definition txCoinCost :: "transaction \<Rightarrow> u64" where
  "txCoinCost tx =
     (let fee = senderFee tx in
      if IsIssue tx \<or> IsAssetTransfer tx then fee
      else case TotalOut tx of None \<Rightarrow> - 1 | Some out \<Rightarrow> out + fee)"

fun credit_sum :: "string \<Rightarrow> u64 \<Rightarrow> tx_output list \<Rightarrow> u64 option" where
  "credit_sum addr tot [] = Some tot"
| "credit_sum addr tot (out # outs) =
     (if out_to out = addr then
        (if tot + out_amount out < tot then None else credit_sum addr (tot + out_amount out) outs)
      else credit_sum addr tot outs)"

fun pending_credit :: "mempool \<Rightarrow> string \<Rightarrow> u64 \<Rightarrow> string list \<Rightarrow> u64" where
  "pending_credit m addr tot [] = tot"
| "pending_credit m addr tot (h # hs) =
     (case fmlookup (mp_txs m) h of None \<Rightarrow> pending_credit m addr tot hs
      | Some tx \<Rightarrow>
          if IsAssetTransfer tx \<or> IsIssue tx then pending_credit m addr tot hs
          else (case credit_sum addr tot (outputs tx) of None \<Rightarrow> - 1 | Some t \<Rightarrow> pending_credit m addr t hs))"

definition pendingCredit :: "mempool \<Rightarrow> string \<Rightarrow> u64" where
  "pendingCredit m addr = pending_credit m addr 0 (fmget [] (mp_credited_by m) addr)"

text \<open>
  The walks over the dependency graph. The depth of the code is counted down from the bound, so that a
  walk at depth \<open>d\<close> runs with \<open>bound + 1 - d\<close>; a set is the list of its members as they were found.
\<close>

primrec collectAncestors :: "nat \<Rightarrow> account_source option \<Rightarrow> mempool \<Rightarrow> transaction \<Rightarrow> u64 \<Rightarrow> string list \<Rightarrow> string list" where
  "collectAncestors 0 src m tx extraCost found = found"
| "collectAncestors (Suc k) src m tx extraCost found =
     (let confirmed = (case src of None \<Rightarrow> 0 | Some s \<Rightarrow> acc_nonce (src_account s (tx_from tx)));
          (ownCost, found1) = fold (\<lambda>n (cost, out).
              let h = fmget [] (mp_queue m (tx_from tx)) (of_nat n) in
              if h = [] \<or> h \<in> set out then (cost, out)
              else (cost + txCoinCost (mp_tx m h), collectAncestors k src m (mp_tx m h) 0 (out @ [h])))
            [unat confirmed..<unat (tx_nonce tx)] (0, found);
          need = txCoinCost tx + ownCost + extraCost;
          spendable = (case src of None \<Rightarrow> 0 | Some s \<Rightarrow> src_spendable s (tx_from tx))
      in if need \<le> spendable then found1
         else fold (\<lambda>h out.
             case fmlookup (mp_txs m) h of None \<Rightarrow> out
             | Some parent \<Rightarrow> if h \<in> set out then out else collectAncestors k src m parent 0 (out @ [h]))
           (fmget [] (mp_credited_by m) (tx_from tx)) found1)"

definition ancestors :: "account_source option \<Rightarrow> mempool \<Rightarrow> transaction \<Rightarrow> string list" where
  "ancestors src m tx = collectAncestors (MaxPerSender + MaxPackageAncestors + 2) src m tx 0 []"

primrec walkDescendants :: "nat \<Rightarrow> account_source option \<Rightarrow> mempool \<Rightarrow> transaction \<Rightarrow> string list \<Rightarrow> string list" where
  "walkDescendants 0 src m tx found = found"
| "walkDescendants (Suc k) src m tx found =
     (if IsAssetTransfer tx \<or> IsIssue tx then found
      else fold (\<lambda>addr out.
          if addr = tx_from tx \<or> mp_queue m addr = fmempty then out
          else let cost = sum_list (map (\<lambda>h. txCoinCost (mp_tx m h)) (queued_hashes m addr));
                   spendable = (case src of None \<Rightarrow> 0 | Some s \<Rightarrow> src_spendable s addr)
            in if cost \<le> spendable then out
               else fold (\<lambda>h out. if h \<in> set out then out else walkDescendants k src m (mp_tx m h) (out @ [h]))
                 (queued_hashes m addr) out)
        (distinctRecipients tx) found)"

definition descendants :: "account_source option \<Rightarrow> mempool \<Rightarrow> string \<Rightarrow> string list" where
  "descendants src m h =
     (case fmlookup (mp_txs m) h of None \<Rightarrow> []
      | Some tx \<Rightarrow> filter (\<lambda>d. d \<noteq> h) (walkDescendants (MaxPackageAncestors + 2) src m tx []))"

datatype mempool_error =
    CoinbaseInMempool | PoolSanity tx_error | TooLargeToRelay nat | BelowFloor u64 u64
  | NonceUsed u64 u64 | TooManyQueued nat | NonceGap u64 u64 | CannotAfford u64 u64
  | TooManyAncestors nat | PackageTooLarge nat | TooManyDescendants nat | SponsorCannotAfford u64 u64
  | PoolAuth auth_error | ReplacementTooCheap | FullNothingEvictable | FullRateTooLow | FullOwnQueue

definition packageLimits :: "config \<Rightarrow> account_source option \<Rightarrow> mempool \<Rightarrow> transaction \<Rightarrow> mempool_error option" where
  "packageLimits cfg src m tx =
     (let anc = mp_order m (ancestors src m tx);
          foreign = filter (\<lambda>h. tx_from (mp_tx m h) \<noteq> tx_from tx) anc;
          nbytes = tx_size cfg tx + sum_list (map (\<lambda>h. tx_size cfg (mp_tx m h)) anc)
      in if MaxPackageAncestors < length foreign then Some (TooManyAncestors (length foreign))
         else if MaxPackageBytes < nbytes then Some (PackageTooLarge nbytes)
         else (case find (\<lambda>h. MaxPackageDescendants < length (descendants src m h) + 1) foreign of
             None \<Rightarrow> None
           | Some h \<Rightarrow> Some (TooManyDescendants (length (descendants src m h) + 1))))"


section \<open>Admission\<close>

text \<open>
  The first nonce from \<open>n\<close> on that has no entry. The loop of the code runs at most once per queued
  entry, which is the fuel.
\<close>

fun next_nonce :: "nat \<Rightarrow> (u64, string) fmap \<Rightarrow> u64 \<Rightarrow> u64" where
  "next_nonce 0 q n = n"
| "next_nonce (Suc k) q n = (if fmget [] q n \<noteq> [] then next_nonce k q (n + 1) else n)"

text \<open>The sender's other queued costs, added up until the total exceeds what can be spent.\<close>

fun queue_cost :: "mempool \<Rightarrow> string \<Rightarrow> u64 \<Rightarrow> u64 \<Rightarrow> string list \<Rightarrow> u64" where
  "queue_cost m replacing spendable tot [] = tot"
| "queue_cost m replacing spendable tot (h # hs) =
     (if h = replacing then queue_cost m replacing spendable tot hs
      else let tot' = tot + txCoinCost (mp_tx m h) in
        if spendable < tot' then tot' else queue_cost m replacing spendable tot' hs)"

definition sponsorAffordable :: "account_source \<Rightarrow> mempool \<Rightarrow> transaction \<Rightarrow> string \<Rightarrow> mempool_error option" where
  "sponsorAffordable src m tx replacing =
     (if \<not> IsSponsored tx then None
      else let old = fmlookup (mp_txs m) replacing;
               committed0 = fmget 0 (mp_sponsored m) (tx_fee_payer tx);
               committed = (case old of
                   Some o' \<Rightarrow> if replacing \<noteq> [] \<and> IsSponsored o' \<and> tx_fee_payer o' = tx_fee_payer tx
                             then committed0 - tx_fee o' else committed0
                 | None \<Rightarrow> committed0);
               tot = committed + tx_fee tx; spendable = src_spendable src (tx_fee_payer tx)
        in if spendable < tot then Some (SponsorCannotAfford tot spendable) else None)"

definition spendable_with_credit :: "account_source \<Rightarrow> mempool \<Rightarrow> string \<Rightarrow> u64" where
  "spendable_with_credit src m from =
     (let confirmed = src_spendable src from; credit = pendingCredit m from in
      if 0 < credit then (if confirmed + credit < confirmed then - 1 else confirmed + credit) else confirmed)"

definition admissible :: "config \<Rightarrow> account_source option \<Rightarrow> mempool \<Rightarrow> transaction \<Rightarrow> string \<Rightarrow> mempool_error option" where
  "admissible cfg srco m tx replacing =
     (case srco of None \<Rightarrow> None
      | Some src \<Rightarrow>
          let queued = mp_queue m (tx_from tx); confirmed = acc_nonce (src_account src (tx_from tx)) in
          if tx_nonce tx < confirmed then Some (NonceUsed (tx_nonce tx) confirmed)
          else if replacing = [] \<and> MaxPerSender \<le> length (fmkeys queued) then Some (TooManyQueued (length (fmkeys queued)))
          else let free = next_nonce (length (fmkeys queued)) queued confirmed in
          if replacing = [] \<and> tx_nonce tx \<noteq> free then Some (NonceGap (tx_nonce tx) free)
          else let spendable = spendable_with_credit src m (tx_from tx);
                   tot = queue_cost m replacing spendable (txCoinCost tx) (queued_hashes m (tx_from tx)) in
          if spendable < tot then Some (CannotAfford tot spendable)
          else err_then (packageLimits cfg srco m tx) (sponsorAffordable src m tx replacing))"

definition unmineable :: "config \<Rightarrow> account_source option \<Rightarrow> transaction \<Rightarrow> bool" where
  "unmineable cfg src tx =
     (case src of None \<Rightarrow> False
      | Some s \<Rightarrow> (case src_height s of None \<Rightarrow> False | Some h \<Rightarrow> checkTxAtHeight cfg tx (h + 1) \<noteq> None))"

definition conflict :: "mempool \<Rightarrow> transaction \<Rightarrow> string option" where
  "conflict m tx = fmlookup (mp_queue m (tx_from tx)) (tx_nonce tx)"

definition overBudget :: "nat \<Rightarrow> mempool \<Rightarrow> bool" where
  "overBudget sz m \<longleftrightarrow> mp_max m \<le> int (mp_size m) \<or> mp_max_bytes m < mp_bytes m + int sz"

text \<open>The hash queued last by a sender: the iteration keeps the largest nonce, starting from no hash.\<close>

definition top_hash :: "(u64, string) fmap \<Rightarrow> string" where
  "top_hash q = snd (fold (\<lambda>n (top, h). if h = [] \<or> top < n then (n, fmget [] q n) else (top, h)) (fmkeys q) (0, []))"

definition evictionCandidate :: "config \<Rightarrow> mempool \<Rightarrow> (string \<times> rat) option" where
  "evictionCandidate cfg m =
     fold (\<lambda>sender best.
         let h = top_hash (mp_queue m sender) in
         if h = [] then best
         else let r = txRate cfg (mp_tx m h) in
           (case best of None \<Rightarrow> Some (h, r) | Some (_, rate) \<Rightarrow> if r < rate then Some (h, r) else best))
       (mp_order m (fmkeys (mp_by_sender m))) None"

text \<open>The eviction loop removes one entry per round; the fuel is one more than the entries there are.\<close>

fun make_room :: "nat \<Rightarrow> config \<Rightarrow> transaction \<Rightarrow> mempool \<Rightarrow> (mempool_error option \<times> mempool) option" where
  "make_room 0 cfg tx m = None"
| "make_room (Suc k) cfg tx m =
     (if \<not> overBudget (tx_size cfg tx) m then Some (None, m)
      else case evictionCandidate cfg m of
        None \<Rightarrow> Some (Some FullNothingEvictable, m)
      | Some (victim, rate) \<Rightarrow>
          if txRate cfg tx \<le> rate then Some (Some FullRateTooLow, m)
          else if tx_from (mp_tx m victim) = tx_from tx \<and> tx_nonce (mp_tx m victim) < tx_nonce tx
          then Some (Some FullOwnQueue, m)
          else make_room k cfg tx (mp_delete cfg victim m))"

text \<open>Everything \<open>Add\<close> checks before it takes the lock for good; \<open>Inr False\<close> is a known transaction.\<close>

definition add_checks :: "config \<Rightarrow> account_source option \<Rightarrow> vcache option \<Rightarrow> transaction \<Rightarrow> mempool
    \<Rightarrow> (mempool_error + bool) \<times> vcache option" where
  "add_checks cfg src cache tx m =
     (let sz = tx_size cfg tx; floor = minFee m in
      if IsCoinbase tx then (Inl CoinbaseInMempool, cache)
      else case CheckTxSanity cfg tx of Some e \<Rightarrow> (Inl (PoolSanity e), cache) | None \<Rightarrow>
      if MaxRelayTxBytes < sz then (Inl (TooLargeToRelay sz), cache)
      else if 0 < floor \<and> tx_fee tx < floor * of_nat sz then (Inl (BelowFloor (tx_fee tx) (floor * of_nat sz)), cache)
      else if fmlookup (mp_txs m) (tx_hash cfg tx) \<noteq> None then (Inr False, cache)
      else case admissible cfg src m tx (fmget [] (mp_queue m (tx_from tx)) (tx_nonce tx)) of
        Some e \<Rightarrow> (Inl e, cache)
      | None \<Rightarrow> (case cache_Verify cfg tx cache of (Some e, c) \<Rightarrow> (Inl (PoolAuth e), c) | (None, c) \<Rightarrow> (Inr True, c)))"

text \<open>The section under the lock; \<open>None\<close> when the eviction loop would not end.\<close>

definition add_locked :: "config \<Rightarrow> account_source option \<Rightarrow> transaction \<Rightarrow> mempool
    \<Rightarrow> ((mempool_error + bool) \<times> mempool) option" where
  "add_locked cfg src tx m =
     (let h = tx_hash cfg tx in
      if fmlookup (mp_txs m) h \<noteq> None then Some (Inr False, m)
      else let oldHash = (case conflict m tx of None \<Rightarrow> [] | Some o' \<Rightarrow> o') in
      case admissible cfg src m tx oldHash of Some e \<Rightarrow> Some (Inl e, m) | None \<Rightarrow>
     (case conflict m tx of
        Some _ \<Rightarrow>
          let old = mp_tx m oldHash in
          if tx_fee tx \<le> tx_fee old \<and> \<not> (unmineable cfg src old \<and> \<not> unmineable cfg src tx)
          then Some (Inl ReplacementTooCheap, m)
          else Some (Inr True, mp_insert cfg h tx (mp_delete cfg oldHash m))
      | None \<Rightarrow>
          (case make_room (mp_size m + 1) cfg tx m of
             None \<Rightarrow> None
           | Some (Some e, m') \<Rightarrow> Some (Inl e, m')
           | Some (None, m') \<Rightarrow> Some (Inr True, mp_insert cfg h tx m'))))"

definition mp_Add :: "config \<Rightarrow> account_source option \<Rightarrow> vcache option \<Rightarrow> transaction \<Rightarrow> mempool
    \<Rightarrow> ((mempool_error + bool) \<times> mempool \<times> vcache option) option" where
  "mp_Add cfg src cache tx m =
     (case add_checks cfg src cache tx m of
        (Inl e, c) \<Rightarrow> Some (Inl e, m, c)
      | (Inr False, c) \<Rightarrow> Some (Inr False, m, c)
      | (Inr True, c) \<Rightarrow> map_option (\<lambda>(r, m'). (r, m', c)) (add_locked cfg src tx m))"

section \<open>Removal and reconciliation\<close>

definition mp_Remove :: "config \<Rightarrow> transaction list \<Rightarrow> mempool \<Rightarrow> mempool" where
  "mp_Remove cfg txs m = fold (\<lambda>tx. mp_delete cfg (tx_hash cfg tx)) txs m"

definition PruneExpired :: "config \<Rightarrow> u64 \<Rightarrow> mempool \<Rightarrow> nat \<times> mempool" where
  "PruneExpired cfg tipHeight m =
     fold (\<lambda>h (n, m'). if IsExpiredAt (mp_tx m h) (tipHeight + 1) then (n + 1, mp_delete cfg h m') else (n, m'))
       (mp_order m (fmkeys (mp_txs m))) (0, m)"

text \<open>The hashes a payer sponsors, cheapest rate first, are dropped until the rest fits.\<close>

fun drop_sponsored :: "config \<Rightarrow> string \<Rightarrow> u64 \<Rightarrow> string list \<Rightarrow> nat \<times> mempool \<Rightarrow> nat \<times> mempool" where
  "drop_sponsored cfg payer spendable [] nm = nm"
| "drop_sponsored cfg payer spendable (h # hs) (n, m) =
     (if fmget 0 (mp_sponsored m) payer \<le> spendable then (n, m)
      else drop_sponsored cfg payer spendable hs (n + 1, mp_delete cfg h m))"

definition sponsored_by :: "mempool \<Rightarrow> string \<Rightarrow> string list" where
  "sponsored_by m payer =
     filter (\<lambda>h. IsSponsored (mp_tx m h) \<and> tx_fee_payer (mp_tx m h) = payer) (mp_order m (fmkeys (mp_txs m)))"

definition reconcileSponsors :: "config \<Rightarrow> account_source \<Rightarrow> mempool \<Rightarrow> nat \<times> mempool" where
  "reconcileSponsors cfg src m =
     (if mp_sponsored m = fmempty then (0, m)
      else let payers = remdups (map (\<lambda>h. tx_fee_payer (mp_tx m h))
                 (filter (\<lambda>h. IsSponsored (mp_tx m h)) (mp_order m (fmkeys (mp_txs m)))))
        in fold (\<lambda>payer (n, m'). drop_sponsored cfg payer (src_spendable src payer)
               (sort_key (\<lambda>h. txRate cfg (mp_tx m' h)) (sponsored_by m payer)) (n, m'))
             (mp_order m payers) (0, m))"

text \<open>One sender's queue in nonce order: the run from \<open>want\<close> that the balance covers is kept.\<close>

fun keep_run :: "config \<Rightarrow> (u64, string) fmap \<Rightarrow> u64 \<Rightarrow> u64 \<Rightarrow> u64 \<Rightarrow> u64 list \<Rightarrow> nat \<times> mempool \<Rightarrow> nat \<times> mempool" where
  "keep_run cfg q spendable want tot [] nm = nm"
| "keep_run cfg q spendable want tot (k # ks) (n, m) =
     (let h = fmget [] q k; tot' = (if k = want then tot + txCoinCost (mp_tx m h) else tot) in
      if k = want \<and> \<not> spendable < tot' then keep_run cfg q spendable (want + 1) tot' ks (n, m)
      else keep_run cfg q spendable want tot' ks (n + 1, mp_delete cfg h m))"

definition reconcile_sender :: "config \<Rightarrow> account_source \<Rightarrow> string \<Rightarrow> nat \<times> mempool \<Rightarrow> nat \<times> mempool" where
  "reconcile_sender cfg src sender nm =
     (let q = mp_queue (snd nm) sender in
      keep_run cfg q (src_spendable src sender) (acc_nonce (src_account src sender)) 0 (fmkeys q) nm)"

definition Reconcile :: "config \<Rightarrow> account_source option \<Rightarrow> u64 \<Rightarrow> mempool \<Rightarrow> nat \<times> mempool" where
  "Reconcile cfg srco tipHeight m =
     (case PruneExpired cfg tipHeight m of (dropped, m1) \<Rightarrow>
      (case srco of None \<Rightarrow> (dropped, m1)
       | Some src \<Rightarrow>
           (case reconcileSponsors cfg src m1 of (n, m2) \<Rightarrow>
              fold (reconcile_sender cfg src) (mp_order m2 (fmkeys (mp_by_sender m2))) (dropped + n, m2))))"


section \<open>Fee statistics\<close>

definition mp_All :: "mempool \<Rightarrow> transaction list" where
  "mp_All m = map (mp_tx m) (mp_order m (fmkeys (mp_txs m)))"

fun tip_at_cutoff :: "int \<Rightarrow> int \<Rightarrow> (rat \<times> u64 \<times> nat) list \<Rightarrow> u64" where
  "tip_at_cutoff capacity filled [] = 0"
| "tip_at_cutoff capacity filled ((rate, tipRate, sz) # es) =
     (if capacity \<le> filled + int sz then tipRate else tip_at_cutoff capacity (filled + int sz) es)"

definition EstimateTip :: "config \<Rightarrow> u64 \<Rightarrow> int \<Rightarrow> mempool \<Rightarrow> u64" where
  "EstimateTip cfg baseFee capacity m =
     (if capacity \<le> 0 then 0
      else let entries = map (\<lambda>tx. let sz = tx_size cfg tx; least = BaseFeeFor cfg tx baseFee;
                   tip = (if least < tx_fee tx then tx_fee tx - least else 0)
                 in (f64_quot tip (int sz), tip div of_nat sz, sz)) (mp_All m)
        in if int (sum_list (map (\<lambda>(_, _, sz). sz) entries)) \<le> capacity then 0
           else tip_at_cutoff capacity 0 (sort_key (\<lambda>(rate, _, _). - rate) entries))"

record fee_bucket =
  fb_from :: u64
  fb_to :: u64
  fb_count :: nat
  fb_bytes :: nat

record mempool_stats =
  ms_count :: nat
  ms_bytes :: nat
  ms_min_rate :: u64
  ms_max_rate :: u64
  ms_median_rate :: u64
  ms_buckets :: "fee_bucket list"

definition feeBucketEdges :: "u64 list" where "feeBucketEdges = [1, 5, 10, 25, 50, 100, 250, 500]"

definition empty_buckets :: "fee_bucket list" where
  "empty_buckets = map (\<lambda>i. \<lparr>fb_from = feeBucketEdges ! i,
     fb_to = (if i + 1 < length feeBucketEdges then feeBucketEdges ! (i + 1) - 1 else 0), fb_count = 0, fb_bytes = 0\<rparr>)
     [0..<length feeBucketEdges]"

text \<open>From the last bucket down, the first that starts at or below the rate, or bucket 0.\<close>

definition bucket_of :: "fee_bucket list \<Rightarrow> u64 \<Rightarrow> nat" where
  "bucket_of bs rate = (case find (\<lambda>i. fb_from (bs ! i) \<le> rate \<or> i = 0) (rev [0..<length bs]) of None \<Rightarrow> 0 | Some i \<Rightarrow> i)"

definition count_into :: "u64 \<Rightarrow> nat \<Rightarrow> fee_bucket list \<Rightarrow> fee_bucket list" where
  "count_into rate sz bs =
     (let i = bucket_of bs rate; b = bs ! i in bs[i := b\<lparr>fb_count := fb_count b + 1, fb_bytes := fb_bytes b + sz\<rparr>])"

definition mp_Stats :: "config \<Rightarrow> mempool \<Rightarrow> mempool_stats" where
  "mp_Stats cfg m =
     (let txs = mp_All m; rate = (\<lambda>tx. tx_fee tx div of_nat (tx_size cfg tx)); rates = sort (map rate txs) in
      if txs = [] then \<lparr>ms_count = 0, ms_bytes = 0, ms_min_rate = 0, ms_max_rate = 0, ms_median_rate = 0,
        ms_buckets = empty_buckets\<rparr>
      else \<lparr>ms_count = length txs, ms_bytes = sum_list (map (tx_size cfg) txs), ms_min_rate = hd rates,
        ms_max_rate = last rates, ms_median_rate = rates ! (length rates div 2),
        ms_buckets = fold (\<lambda>tx. count_into (rate tx) (tx_size cfg tx)) txs empty_buckets\<rparr>)"

end
