(* ===== verification/Mempool_Invariant.thy ===== *)
theory Mempool_Invariant
  imports Mempool
begin

text \<open>
  The indexes of the pool describe its transactions: an invariant that every operation keeps. All
  removals go through \<open>mp_delete\<close>, so what a deletion keeps is kept by pruning, reconciliation and the
  making of room; this is a locale with one assumption, interpreted for each part of the invariant.
\<close>

section \<open>Removals\<close>

locale pool_shrinking =
  fixes cfg :: config and P :: "mempool \<Rightarrow> bool"
  assumes delete: "P m \<Longrightarrow> P (mp_delete cfg h m)"
begin

lemma remove: "P m \<Longrightarrow> P (mp_Remove cfg txs m)"
  unfolding mp_Remove_def by (induction txs arbitrary: m) (auto simp: delete)

lemma prune: "P m \<Longrightarrow> P (snd (PruneExpired cfg h m))"
proof -
  have "P m' \<Longrightarrow> P (snd (fold (\<lambda>h (n, m'). if IsExpiredAt (mp_tx m h) t then (n + 1, mp_delete cfg h m') else (n, m')) hs (n, m')))" for hs n m' t
    by (induction hs arbitrary: n m') (auto simp: delete)
  then show "P m \<Longrightarrow> P (snd (PruneExpired cfg h m))" by (simp add: PruneExpired_def)
qed

lemma drop_sponsored: "P (snd nm) \<Longrightarrow> P (snd (drop_sponsored cfg payer spendable hs nm))"
proof (induction hs arbitrary: nm)
  case (Cons h hs)
  then show ?case by (cases nm) (simp add: delete)
qed simp

lemma sponsors: "P m \<Longrightarrow> P (snd (reconcileSponsors cfg src m))"
proof -
  have "P (snd nm) \<Longrightarrow> P (snd (fold (\<lambda>payer (n, m'). drop_sponsored cfg payer (f payer) (g m' payer) (n, m')) ps nm))" for f g ps nm
  proof (induction ps arbitrary: nm)
    case (Cons p ps)
    then show ?case using drop_sponsored [of nm] by (cases nm) simp
  qed simp
  then show "P m \<Longrightarrow> P (snd (reconcileSponsors cfg src m))" by (simp add: reconcileSponsors_def Let_def)
qed

lemma keep_run: "P (snd nm) \<Longrightarrow> P (snd (keep_run cfg q spendable want tot ks nm))"
proof (induction ks arbitrary: want tot nm)
  case (Cons k ks)
  then show ?case by (cases nm) (simp add: Let_def delete)
qed simp

lemma reconcile: "P m \<Longrightarrow> P (snd (Reconcile cfg src h m))"
proof -
  have "P (snd nm) \<Longrightarrow> P (snd (fold (reconcile_sender cfg s) ss nm))" for s ss nm
    by (induction ss arbitrary: nm) (auto simp: reconcile_sender_def Let_def keep_run)
  then show "P m \<Longrightarrow> P (snd (Reconcile cfg src h m))"
    using prune [of m h] sponsors by (auto simp: Reconcile_def split: prod.splits option.splits) (metis snd_conv)+
qed

lemma make_room: "P m \<Longrightarrow> make_room k cfg tx m = Some (e, m') \<Longrightarrow> P m'"
proof (induction k arbitrary: m)
  case (Suc k)
  then show ?case by (auto split: if_splits option.splits) (blast intro: delete)+
qed simp

end


section \<open>The sender index\<close>

definition indexed :: "config \<Rightarrow> mempool \<Rightarrow> bool" where
  "indexed cfg m \<longleftrightarrow>
     (\<forall>h tx. fmlookup (mp_txs m) h = Some tx \<longrightarrow> h = tx_hash cfg tx \<and> fmlookup (mp_queue m (tx_from tx)) (tx_nonce tx) = Some h)
   \<and> (\<forall>s n h. fmlookup (mp_queue m s) n = Some h \<longrightarrow> (\<exists>tx. fmlookup (mp_txs m) h = Some tx \<and> tx_from tx = s \<and> tx_nonce tx = n))
   \<and> (\<forall>s. fmlookup (mp_by_sender m) s \<noteq> Some fmempty)"

lemma indexedD:
  assumes "indexed cfg m"
  shows "fmlookup (mp_txs m) h = Some tx \<Longrightarrow> h = tx_hash cfg tx"
    and "fmlookup (mp_txs m) h = Some tx \<Longrightarrow> fmlookup (mp_queue m (tx_from tx)) (tx_nonce tx) = Some h"
    and "fmlookup (mp_queue m s) n = Some h \<Longrightarrow> \<exists>tx. fmlookup (mp_txs m) h = Some tx \<and> tx_from tx = s \<and> tx_nonce tx = n"
    and "fmlookup (mp_by_sender m) s \<noteq> Some fmempty"
  using assms unfolding indexed_def by blast+

lemma queue_unqueue:
  assumes "fmlookup (fmget fmempty bs (tx_from tx)) (tx_nonce tx) = Some h"
  shows "fmget fmempty (unqueue h tx bs) s =
    (if s = tx_from tx then fmdrop (tx_nonce tx) (fmget fmempty bs s) else fmget fmempty bs s)"
  using assms by (auto simp: unqueue_def Let_def fmget_def split: option.splits)

lemma indexed_delete:
  assumes "indexed cfg m"
  shows "indexed cfg (mp_delete cfg h m)"
proof (cases "fmlookup (mp_txs m) h")
  case None
  then show ?thesis using assms by (simp add: mp_delete_def)
next
  case (Some tx)
  note d = indexedD [OF assms]
  let ?m = "mp_delete cfg h m"
  have q: "mp_queue ?m s = (if s = tx_from tx then fmdrop (tx_nonce tx) (mp_queue m s) else mp_queue m s)" for s
    using queue_unqueue [of "mp_by_sender m" tx h s] d(2) [OF Some] by (simp add: mp_delete_def mp_queue_def Some)
  have txs: "mp_txs ?m = fmdrop h (mp_txs m)" by (simp add: mp_delete_def Some)
  have "fmlookup (mp_queue ?m (tx_from t)) (tx_nonce t) = Some k" if "fmlookup (mp_txs m) k = Some t" "k \<noteq> h" for k t
    using that d(2) [OF that(1)] d(2) [OF Some] by (auto simp: q)
  moreover have "\<exists>t. fmlookup (mp_txs ?m) k = Some t \<and> tx_from t = s \<and> tx_nonce t = n"
    if "fmlookup (mp_queue ?m s) n = Some k" for s n k
  proof -
    have old: "fmlookup (mp_queue m s) n = Some k" "\<not> (s = tx_from tx \<and> n = tx_nonce tx)"
      using that by (auto simp: q split: if_splits)
    from d(3) [OF old(1)] obtain t where "fmlookup (mp_txs m) k = Some t" "tx_from t = s" "tx_nonce t = n" by blast
    moreover from this old(2) Some have "k \<noteq> h" by auto
    ultimately show ?thesis by (auto simp: txs)
  qed
  moreover have "fmlookup (mp_by_sender ?m) s \<noteq> Some fmempty" for s
    using d(4) [of s] by (auto simp: mp_delete_def Some unqueue_def Let_def split: option.splits if_splits)
  ultimately show ?thesis using d(1) unfolding indexed_def by (auto simp: txs split: if_splits)
qed

lemma indexed_insert:
  assumes "indexed cfg m" "fmlookup (mp_txs m) (tx_hash cfg tx) = None" "conflict m tx = None"
  shows "indexed cfg (mp_insert cfg (tx_hash cfg tx) tx m)"
proof -
  note d = indexedD [OF assms(1)]
  let ?h = "tx_hash cfg tx" and ?m = "mp_insert cfg (tx_hash cfg tx) tx m"
  have q: "mp_queue ?m s = (if s = tx_from tx then fmupd (tx_nonce tx) ?h (mp_queue m s) else mp_queue m s)" for s
    by (simp add: mp_insert_def mp_queue_def)
  have txs: "mp_txs ?m = fmupd ?h tx (mp_txs m)" by (simp add: mp_insert_def)
  have "fmlookup (mp_queue ?m (tx_from t)) (tx_nonce t) = Some k" if "fmlookup (mp_txs m) k = Some t" for k t
    using d(2) [OF that] assms(3) by (auto simp: q conflict_def)
  moreover have "\<exists>t. fmlookup (mp_txs ?m) k = Some t \<and> tx_from t = s \<and> tx_nonce t = n"
    if "fmlookup (mp_queue ?m s) n = Some k" for s n k
    using that d(3) [of s n k] assms(2) by (auto simp: q txs split: if_splits)
  moreover have "fmlookup (mp_by_sender ?m) s \<noteq> Some fmempty" for s
  proof -
    have "fmupd a b c \<noteq> fmempty" for a :: u64 and b :: string and c by (metis fmempty_lookup fmupd_lookup option.distinct(1))
    then show ?thesis using d(4) [of s] by (auto simp: mp_insert_def split: if_splits)
  qed
  ultimately show ?thesis using d(1) assms(2) unfolding indexed_def by (auto simp: txs q split: if_splits)
qed

interpretation sender_index: pool_shrinking cfg "indexed cfg" for cfg
  by unfold_locales (rule indexed_delete)

section \<open>The totals\<close>

text \<open>A sum over the transactions of the pool, and what storing and removing one do to it.\<close>

definition pool_sum :: "(transaction \<Rightarrow> 'a :: comm_monoid_add) \<Rightarrow> mempool \<Rightarrow> 'a" where
  "pool_sum f m = (\<Sum>h \<in> fmdom' (mp_txs m). f (mp_tx m h))"

lemma finite_dom [simp]: "finite (fmdom' m)"
  by (simp add: fmdom'_alt_def)

lemma pool_sum_delete:
  fixes f :: "transaction \<Rightarrow> 'a :: ab_group_add"
  shows "pool_sum f (mp_delete cfg h m) = pool_sum f m - (case fmlookup (mp_txs m) h of None \<Rightarrow> 0 | Some tx \<Rightarrow> f tx)"
proof (cases "fmlookup (mp_txs m) h")
  case (Some tx)
  have "h \<in> fmdom' (mp_txs m)" using Some by (simp add: fmlookup_dom'_iff)
  moreover have "(\<Sum>k \<in> fmdom' (mp_txs m) - {h}. f (mp_tx (mp_delete cfg h m) k)) = (\<Sum>k \<in> fmdom' (mp_txs m) - {h}. f (mp_tx m k))"
    by (rule sum.cong) (auto simp: mp_tx_def mp_delete_def Some)
  ultimately show ?thesis using Some
    by (simp add: pool_sum_def mp_delete_def sum.remove [of "fmdom' (mp_txs m)" h] mp_tx_def fmget_def fmdom'_drop)
qed (simp add: mp_delete_def)

lemma pool_sum_insert:
  fixes f :: "transaction \<Rightarrow> 'a :: comm_monoid_add"
  assumes "fmlookup (mp_txs m) h = None"
  shows "pool_sum f (mp_insert cfg h tx m) = f tx + pool_sum f m"
proof -
  have h: "h \<notin> fmdom' (mp_txs m)" using assms by (simp add: fmlookup_dom'_iff)
  then have "(\<Sum>k \<in> fmdom' (mp_txs m). f (mp_tx (mp_insert cfg h tx m) k)) = (\<Sum>k \<in> fmdom' (mp_txs m). f (mp_tx m k))"
    by (intro sum.cong) (auto simp: mp_tx_def mp_insert_def)
  then show ?thesis using h by (simp add: pool_sum_def mp_insert_def mp_tx_def)
qed

definition totals_ok :: "config \<Rightarrow> mempool \<Rightarrow> bool" where
  "totals_ok cfg m \<longleftrightarrow> mp_bytes m = pool_sum (\<lambda>tx. int (tx_size cfg tx)) m
     \<and> (\<forall>p. fmget 0 (mp_sponsored m) p = pool_sum (\<lambda>tx. if IsSponsored tx \<and> tx_fee_payer tx = p then tx_fee tx else 0) m)"

lemma totals_delete:
  assumes "totals_ok cfg m"
  shows "totals_ok cfg (mp_delete cfg h m)"
proof -
  have "0 \<le> pool_sum (\<lambda>tx. int (tx_size cfg tx)) (mp_delete cfg h m)" by (simp add: pool_sum_def sum_nonneg)
  then show ?thesis using assms unfolding totals_ok_def pool_sum_delete
    by (auto simp: mp_delete_def release_sponsor_def Let_def split: option.splits)
qed

lemma totals_insert:
  assumes "totals_ok cfg m" "fmlookup (mp_txs m) h = None"
  shows "totals_ok cfg (mp_insert cfg h tx m)"
  using assms(1) unfolding totals_ok_def pool_sum_insert [OF assms(2)] by (auto simp: mp_insert_def)

interpretation totals: pool_shrinking cfg "totals_ok cfg" for cfg
  by unfold_locales (rule totals_delete)


section \<open>The credit index\<close>

definition credits :: "transaction \<Rightarrow> string \<Rightarrow> bool" where
  "credits tx addr \<longleftrightarrow> \<not> IsAssetTransfer tx \<and> \<not> IsIssue tx \<and> addr \<in> set (distinctRecipients tx) \<and> addr \<noteq> tx_from tx"

lemma distinct_recipients [simp]: "distinct (distinctRecipients tx)"
  by (simp add: distinctRecipients_def)

lemma unindex_get:
  assumes "distinct as"
  shows "fmget [] (fold (unindex_credit h) as idx) a = (if a \<in> set as then remove1 h (fmget [] idx a) else fmget [] idx a)"
  using assms
proof (induction as arbitrary: idx)
  case (Cons b as)
  have "fmget [] (unindex_credit h b idx) a = (if a = b then remove1 h (fmget [] idx a) else fmget [] idx a)"
    by (simp add: unindex_credit_def Let_def)
  then show ?case using Cons by auto
qed simp

lemma unindexCredits_get:
  "fmget [] (unindexCredits h tx idx) a =
     (if \<not> IsAssetTransfer tx \<and> \<not> IsIssue tx \<and> a \<in> set (distinctRecipients tx) then remove1 h (fmget [] idx a) else fmget [] idx a)"
  by (simp add: unindexCredits_def unindex_get)

lemma indexCredits_get:
  "fmget [] (indexCredits h tx idx) a = (if credits tx a then fmget [] idx a @ [h] else fmget [] idx a)"
proof -
  have "fmget [] (fold (\<lambda>addr idx. if addr = f then idx else fmupd addr (fmget [] idx addr @ [h]) idx) as idx) a
      = (if a \<in> set as \<and> a \<noteq> f then fmget [] idx a @ [h] else fmget [] idx a)" if "distinct as" for as f
    using that
  proof (induction as arbitrary: idx)
    case (Cons b as)
    then show ?case by auto
  qed simp
  then show ?thesis by (simp add: indexCredits_def credits_def)
qed

definition credits_ok :: "config \<Rightarrow> mempool \<Rightarrow> bool" where
  "credits_ok cfg m \<longleftrightarrow> (\<forall>a. distinct (fmget [] (mp_credited_by m) a)
     \<and> set (fmget [] (mp_credited_by m) a) = {h. \<exists>tx. fmlookup (mp_txs m) h = Some tx \<and> credits tx a})"

lemma credits_delete:
  assumes "credits_ok cfg m"
  shows "credits_ok cfg (mp_delete cfg h m)"
proof (cases "fmlookup (mp_txs m) h")
  case (Some tx)
  have ok: "distinct (fmget [] (mp_credited_by m) a)"
    "set (fmget [] (mp_credited_by m) a) = {k. \<exists>tx. fmlookup (mp_txs m) k = Some tx \<and> credits tx a}" for a
    using assms unfolding credits_ok_def by auto
  have "set (fmget [] (mp_credited_by (mp_delete cfg h m)) a) =
      {k. \<exists>t. fmlookup (mp_txs (mp_delete cfg h m)) k = Some t \<and> credits t a}" for a
    using ok [of a] Some by (auto simp: mp_delete_def unindexCredits_get credits_def split: if_splits)
  moreover have "distinct (fmget [] (mp_credited_by (mp_delete cfg h m)) a)" for a
    using ok(1) [of a] Some by (simp add: mp_delete_def unindexCredits_get)
  ultimately show ?thesis unfolding credits_ok_def by blast
qed (use assms in \<open>simp add: mp_delete_def\<close>)

lemma credits_insert:
  assumes "credits_ok cfg m" "fmlookup (mp_txs m) h = None"
  shows "credits_ok cfg (mp_insert cfg h tx m)"
  using assms unfolding credits_ok_def by (auto simp: mp_insert_def indexCredits_get)

interpretation credit_index: pool_shrinking cfg "credits_ok cfg" for cfg
  by unfold_locales (rule credits_delete)

section \<open>Bounds and contents\<close>

text \<open>What is true of each transaction when it enters stays true of all that are left.\<close>

definition all_txs :: "(transaction \<Rightarrow> bool) \<Rightarrow> mempool \<Rightarrow> bool" where
  "all_txs Q m \<longleftrightarrow> (\<forall>h tx. fmlookup (mp_txs m) h = Some tx \<longrightarrow> Q tx)"

interpretation contents: pool_shrinking cfg "all_txs Q" for cfg Q
  by unfold_locales (auto simp: all_txs_def mp_delete_def split: option.splits if_splits)

definition limits :: "mempool \<Rightarrow> int \<times> int \<times> (string list \<Rightarrow> string list)" where
  "limits m = (mp_max m, mp_max_bytes m, mp_order m)"

lemma limits_delete [simp]: "limits (mp_delete cfg h m) = limits m"
  by (simp add: limits_def mp_delete_def split: option.splits)

lemma limits_insert [simp]: "limits (mp_insert cfg h tx m) = limits m"
  by (simp add: limits_def mp_insert_def)

interpretation settings: pool_shrinking cfg "\<lambda>m. limits m = l" for cfg l
  by unfold_locales simp

lemma mp_size_card: "mp_size m = card (fmdom' (mp_txs m))"
  by (simp add: mp_size_def fmkeys_def fmdom'_alt_def fcard.rep_eq sorted_list_of_fset.rep_eq)

lemma mp_size_delete: "mp_size (mp_delete cfg h m) = (if fmlookup (mp_txs m) h = None then mp_size m else mp_size m - 1)"
  by (auto simp: mp_size_card mp_delete_def fmlookup_dom'_iff fmdom'_drop split: option.splits)

lemma mp_size_insert: "fmlookup (mp_txs m) h = None \<Longrightarrow> mp_size (mp_insert cfg h tx m) = mp_size m + 1"
  by (simp add: mp_size_card mp_insert_def fmlookup_dom'_iff)

interpretation sizes: pool_shrinking cfg "\<lambda>m. int (mp_size m) \<le> n" for cfg n
  by unfold_locales (auto simp: mp_size_delete)

definition queue_len :: "mempool \<Rightarrow> string \<Rightarrow> nat" where
  "queue_len m s = length (fmkeys (mp_queue m s))"

lemma queue_len_card: "queue_len m s = card (fmdom' (mp_queue m s))"
  by (simp add: queue_len_def fmkeys_def fmdom'_alt_def fcard.rep_eq sorted_list_of_fset.rep_eq)

lemma queue_len_delete: "queue_len (mp_delete cfg h m) s \<le> queue_len m s"
proof -
  have "fmdom' (mp_queue (mp_delete cfg h m) s) \<subseteq> fmdom' (mp_queue m s)"
    by (auto simp: mp_delete_def unqueue_def Let_def mp_queue_def fmget_def fmlookup_dom'_iff split: option.splits if_splits)
  then show ?thesis unfolding queue_len_card by (rule card_mono [OF finite_dom])
qed

interpretation queues: pool_shrinking cfg "\<lambda>m. \<forall>s. queue_len m s \<le> n" for cfg n
  by unfold_locales (meson order_trans queue_len_delete)


section \<open>Making room\<close>

lemma top_hash_queued: "top_hash q = [] \<or> (\<exists>n. fmlookup q n = Some (top_hash q))"
proof -
  let ?good = "\<lambda>acc. snd acc = [] \<or> (\<exists>n. fmlookup q n = Some (snd acc))"
  have "?good (fold (\<lambda>n (top, h). if h = [] \<or> top < n then (n, fmget [] q n) else (top, h)) (fmkeys q) (0, []))"
  proof (rule fold_invariant [where Q = "\<lambda>n. n \<in> fmdom' q"])
    fix n and acc :: "u64 \<times> string" assume "n \<in> fmdom' q" "?good acc"
    then show "?good (case acc of (t, h) \<Rightarrow> if h = [] \<or> t < n then (n, fmget [] q n) else (t, h))"
      by (cases acc) (auto simp: fmget_def fmlookup_dom'_iff)
  qed (simp_all add: fmdom'_alt_def)
  then show ?thesis by (simp add: top_hash_def)
qed

lemma candidate_queued:
  assumes "evictionCandidate cfg m = Some (v, r)" "indexed cfg m"
  shows "fmlookup (mp_txs m) v \<noteq> None" "r = txRate cfg (mp_tx m v)"
proof -
  let ?good = "\<lambda>best. case best of None \<Rightarrow> True | Some (v, r) \<Rightarrow> fmlookup (mp_txs m) v \<noteq> None \<and> r = txRate cfg (mp_tx m v)"
  have "?good (evictionCandidate cfg m)" unfolding evictionCandidate_def
  proof (rule fold_invariant [where Q = "\<lambda>_. True"])
    fix s and best :: "(string \<times> rat) option" assume best: "?good best"
    have "fmlookup (mp_txs m) (top_hash (mp_queue m s)) \<noteq> None" if "top_hash (mp_queue m s) \<noteq> []"
      using top_hash_queued [of "mp_queue m s"] that indexedD(3) [OF assms(2)] by blast
    then show "?good (let h = top_hash (mp_queue m s) in if h = [] then best
        else let r = txRate cfg (mp_tx m h) in case best of None \<Rightarrow> Some (h, r)
          | Some (_, rate) \<Rightarrow> if r < rate then Some (h, r) else best)"
      using best by (auto simp: Let_def split: option.splits)
  qed simp_all
  then have "?good (Some (v, r))" unfolding assms(1) .
  then show "fmlookup (mp_txs m) v \<noteq> None" "r = txRate cfg (mp_tx m v)" by simp_all
qed

lemma make_room_returns: "indexed cfg m \<Longrightarrow> mp_size m < k \<Longrightarrow> \<exists>e m'. make_room k cfg tx m = Some (e, m')"
proof (induction k arbitrary: m)
  case (Suc k)
  show ?case
  proof (cases "evictionCandidate cfg m")
    case (Some vr)
    obtain v r where vr: "vr = (v, r)" by fastforce
    have v: "fmlookup (mp_txs m) v \<noteq> None" using candidate_queued(1) [OF Some [unfolded vr] Suc.prems(1)] .
    then have "v \<in> fmdom' (mp_txs m)" by (simp add: fmlookup_dom'_iff)
    then have "0 < mp_size m" by (auto simp: mp_size_card card_gt_0_iff)
    then have "mp_size (mp_delete cfg v m) < k" using v Suc.prems(2) by (auto simp: mp_size_delete)
    then have "\<exists>e m'. make_room k cfg tx (mp_delete cfg v m) = Some (e, m')"
      using Suc.IH indexed_delete [OF Suc.prems(1)] by blast
    then show ?thesis using Some vr by auto
  qed simp
qed simp

lemma make_room_fits: "make_room k cfg tx m = Some (None, m') \<Longrightarrow> \<not> overBudget (tx_size cfg tx) m'"
  by (induction k arbitrary: m) (auto split: if_splits option.splits)

text \<open>Whatever is evicted pays a lower rate than the transaction that takes its room.\<close>

lemma make_room_cheaper:
  assumes "make_room k cfg tx m = Some (e, m')" "indexed cfg m" "fmlookup (mp_txs m) h = Some t" "fmlookup (mp_txs m') h = None"
  shows "txRate cfg t < txRate cfg tx"
  using assms
proof (induction k arbitrary: m)
  case (Suc k)
  show ?case
  proof (cases "overBudget (tx_size cfg tx) m \<and> (\<exists>v r. evictionCandidate cfg m = Some (v, r) \<and> \<not> txRate cfg tx \<le> r
      \<and> make_room k cfg tx (mp_delete cfg v m) = Some (e, m'))")
    case True
    then obtain v r where v: "evictionCandidate cfg m = Some (v, r)" "\<not> txRate cfg tx \<le> r"
      "make_room k cfg tx (mp_delete cfg v m) = Some (e, m')" by blast
    show ?thesis
    proof (cases "h = v")
      case True
      then show ?thesis using candidate_queued(2) [OF v(1) Suc.prems(2)] v(2) Suc.prems(3) by (simp add: mp_tx_def fmget_def)
    next
      case False
      then have "fmlookup (mp_txs (mp_delete cfg v m)) h = Some t" using Suc.prems(3) by (simp add: mp_delete_def split: option.splits)
      then show ?thesis using Suc.IH [OF v(3) indexed_delete [OF Suc.prems(2)]] Suc.prems(4) by blast
    qed
  next
    case False
    then have "m' = m" using Suc.prems(1) by (auto split: if_splits option.splits)
    then show ?thesis using Suc.prems(3,4) by simp
  qed
qed simp

section \<open>Adding\<close>

lemma conflict_delete: "conflict m tx = None \<Longrightarrow> conflict (mp_delete cfg h m) tx = None"
  by (auto simp: conflict_def mp_delete_def unqueue_def Let_def mp_queue_def fmget_def split: option.splits if_splits)

interpretation free_slot: pool_shrinking cfg "\<lambda>m. conflict m tx = None \<and> fmlookup (mp_txs m) h = None" for cfg tx h
proof unfold_locales
  fix m k assume "conflict m tx = None \<and> fmlookup (mp_txs m) h = None"
  moreover from this have "fmlookup (mp_txs (mp_delete cfg k m)) h = None" by (auto simp: mp_delete_def split: option.splits)
  ultimately show "conflict (mp_delete cfg k m) tx = None \<and> fmlookup (mp_txs (mp_delete cfg k m)) h = None"
    using conflict_delete by blast
qed

text \<open>
  The locked section either leaves a pool that removals alone lead to, or stores the transaction in
  such a pool, where its hash is new and its slot is free.
\<close>

definition by_removals :: "config \<Rightarrow> mempool \<Rightarrow> mempool \<Rightarrow> bool" where
  "by_removals cfg m m' \<longleftrightarrow> (\<forall>P. pool_shrinking cfg P \<longrightarrow> P m \<longrightarrow> P m')"

lemma by_removals_delete: "by_removals cfg m (mp_delete cfg h m)"
  by (auto simp: by_removals_def pool_shrinking.delete)

lemma by_removals_room: "make_room k cfg tx m = Some (e, m') \<Longrightarrow> by_removals cfg m m'"
  by (auto simp: by_removals_def pool_shrinking.make_room)

lemma by_removals_refl [simp]: "by_removals cfg m m"
  by (simp add: by_removals_def)

lemma add_locked_cases:
  assumes "add_locked cfg src tx m = Some (r, m')" "indexed cfg m"
  obtains (kept) "by_removals cfg m m'" "r \<noteq> Inr True"
  | (replaced) old where "conflict m tx = Some old" "m' = mp_insert cfg (tx_hash cfg tx) tx (mp_delete cfg old m)"
      "fmlookup (mp_txs m) old \<noteq> None" "fmlookup (mp_txs m) (tx_hash cfg tx) = None" "r = Inr True"
      "conflict (mp_delete cfg old m) tx = None" "admissible cfg src m tx old = None"
  | (added) m1 where "conflict m tx = None" "make_room (mp_size m + 1) cfg tx m = Some (None, m1)"
      "m' = mp_insert cfg (tx_hash cfg tx) tx m1" "fmlookup (mp_txs m) (tx_hash cfg tx) = None" "r = Inr True"
      "admissible cfg src m tx [] = None"
proof (cases "conflict m tx")
  case (Some old)
  obtain t where t: "fmlookup (mp_txs m) old = Some t" "tx_from t = tx_from tx" "tx_nonce t = tx_nonce tx"
    using indexedD(3) [OF assms(2)] Some unfolding conflict_def by blast
  have free: "conflict (mp_delete cfg old m) tx = None"
    using queue_unqueue [of "mp_by_sender m" t old "tx_from tx"] indexedD(2) [OF assms(2) t(1)] t
    by (simp add: conflict_def mp_delete_def mp_queue_def)
  show thesis
  proof (cases "r = Inr True")
    case True
    then have "m' = mp_insert cfg (tx_hash cfg tx) tx (mp_delete cfg old m)" "fmlookup (mp_txs m) (tx_hash cfg tx) = None"
      "admissible cfg src m tx old = None"
      using assms(1) Some by (auto simp: add_locked_def Let_def split: if_splits option.splits)
    then show thesis using replaced Some t(1) free True by simp
  next
    case False
    then have "m' = m" using assms(1) Some by (auto simp: add_locked_def Let_def split: if_splits option.splits)
    then show thesis using kept False by simp
  qed
next
  case None
  show thesis
  proof (cases "r = Inr True")
    case True
    then obtain m1 where "make_room (mp_size m + 1) cfg tx m = Some (None, m1)"
      "m' = mp_insert cfg (tx_hash cfg tx) tx m1" "fmlookup (mp_txs m) (tx_hash cfg tx) = None" "admissible cfg src m tx [] = None"
      using assms(1) None by (auto simp: add_locked_def Let_def simp del: make_room.simps split: if_splits option.splits)
    then show thesis using added None True by blast
  next
    case False
    then have "m' = m \<or> (\<exists>e. make_room (mp_size m + 1) cfg tx m = Some (e, m'))"
      using assms(1) None by (auto simp: add_locked_def Let_def simp del: make_room.simps split: if_splits option.splits)
    then have "by_removals cfg m m'" using by_removals_room by (auto simp del: make_room.simps)
    then show thesis using kept False by blast
  qed
qed

lemma add_locked_returns:
  assumes "indexed cfg m"
  shows "\<exists>r m'. add_locked cfg src tx m = Some (r, m')"
proof -
  obtain e m1 where "make_room (mp_size m + 1) cfg tx m = Some (e, m1)" using make_room_returns [OF assms] by fastforce
  then show ?thesis by (cases e) (auto simp: add_locked_def Let_def simp del: make_room.simps split: option.splits)
qed

end
