(* ===== verification/Mempool_Theorems.thy ===== *)
theory Mempool_Theorems
  imports Mempool_Invariant
begin

text \<open>
  The properties of the pool: the invariant of every pool reached by its operations, what admission
  guarantees, and what a reconciliation with a new tip leaves.
\<close>

section \<open>Reachable pools\<close>

definition cache_ok :: "config \<Rightarrow> vcache option \<Rightarrow> bool" where
  "cache_ok cfg c \<longleftrightarrow> (case c of None \<Rightarrow> True | Some c \<Rightarrow> \<forall>tx. tx_hash cfg tx |\<in>| vc_seen c \<longrightarrow> VerifySignature cfg tx = None)"

definition relayable :: "config \<Rightarrow> transaction \<Rightarrow> bool" where
  "relayable cfg tx \<longleftrightarrow> \<not> IsCoinbase tx \<and> CheckTxSanity cfg tx = None \<and> tx_size cfg tx \<le> MaxRelayTxBytes
     \<and> VerifySignature cfg tx = None"

lemma checks_relayable:
  assumes "add_checks cfg src cache tx m = (Inr True, c)" "cache_ok cfg cache"
  shows "relayable cfg tx"
proof -
  have "cache_Verify cfg tx cache = (None, c)" "\<not> IsCoinbase tx" "CheckTxSanity cfg tx = None" "tx_size cfg tx \<le> MaxRelayTxBytes"
    using assms(1) by (auto simp: add_checks_def Let_def split: if_splits option.splits prod.splits)
  then show ?thesis using assms(2)
    by (auto simp: relayable_def cache_ok_def cache_Verify_def Let_def split: option.splits if_splits)
qed

text \<open>
  The pool a transaction was checked against need not be the pool it is stored in: the lock is free in
  between, and the tip and the caches may have moved.
\<close>

inductive reachable_pool :: "config \<Rightarrow> mempool \<Rightarrow> bool" for cfg where
  start: "(\<forall>xs. mset (order xs) = mset xs) \<Longrightarrow> reachable_pool cfg (NewMempoolWithLimits order mx mb fee)"
| add: "reachable_pool cfg m \<Longrightarrow> add_checks cfg src0 cache tx m0 = (Inr True, c) \<Longrightarrow> cache_ok cfg cache
    \<Longrightarrow> add_locked cfg (Some src) tx m = Some (r, m') \<Longrightarrow> reachable_pool cfg m'"
| remove: "reachable_pool cfg m \<Longrightarrow> reachable_pool cfg (mp_Remove cfg txs m)"
| prune: "reachable_pool cfg m \<Longrightarrow> reachable_pool cfg (snd (PruneExpired cfg h m))"
| reconcile: "reachable_pool cfg m \<Longrightarrow> reachable_pool cfg (snd (Reconcile cfg src h m))"

text \<open>The invariant of a pool whose transactions all have a property \<open>P\<close>.\<close>

definition pool_fits :: "(transaction \<Rightarrow> bool) \<Rightarrow> config \<Rightarrow> mempool \<Rightarrow> bool" where
  "pool_fits P cfg m \<longleftrightarrow> indexed cfg m \<and> totals_ok cfg m \<and> credits_ok cfg m \<and> all_txs P m
     \<and> int (mp_size m) \<le> mp_max m \<and> (\<forall>s. queue_len m s \<le> MaxPerSender) \<and> (\<forall>xs. mset (mp_order m xs) = mset xs)"

abbreviation pool_ok :: "config \<Rightarrow> mempool \<Rightarrow> bool" where
  "pool_ok cfg \<equiv> pool_fits (relayable cfg) cfg"

lemma pool_ok_delete: "pool_fits P cfg m \<Longrightarrow> pool_fits P cfg (mp_delete cfg h m)"
proof -
  assume ok: "pool_fits P cfg m"
  have "mp_max (mp_delete cfg h m) = mp_max m" "mp_order (mp_delete cfg h m) = mp_order m"
    using limits_delete [of cfg h m] by (simp_all add: limits_def)
  then show ?thesis using ok unfolding pool_fits_def
    using sender_index.delete totals.delete credit_index.delete contents.delete [of P] sizes.delete queues.delete
    by simp
qed

interpretation pool: pool_shrinking cfg "pool_fits P cfg" for P cfg
  by unfold_locales (rule pool_ok_delete)

lemma pool_ok_insert:
  assumes "pool_fits P cfg m" "fmlookup (mp_txs m) (tx_hash cfg tx) = None" "conflict m tx = None" "P tx"
    and "int (mp_size m) < mp_max m" "queue_len m (tx_from tx) < MaxPerSender"
  shows "pool_fits P cfg (mp_insert cfg (tx_hash cfg tx) tx m)"
proof -
  let ?m = "mp_insert cfg (tx_hash cfg tx) tx m"
  have same: "mp_max ?m = mp_max m" "mp_order ?m = mp_order m" by (simp_all add: mp_insert_def)
  have "fmdom' (mp_queue ?m s) = (if s = tx_from tx then insert (tx_nonce tx) (fmdom' (mp_queue m s)) else fmdom' (mp_queue m s))" for s
    by (simp add: mp_insert_def mp_queue_def)
  then have "queue_len ?m s \<le> MaxPerSender" for s
    using assms(1,6) card_insert_le_m1 [of MaxPerSender "fmdom' (mp_queue m (tx_from tx))" "tx_nonce tx"]
    by (auto simp: queue_len_card pool_fits_def MaxPerSender_def)
  moreover have "all_txs P ?m" using assms(1,4) by (auto simp: pool_fits_def all_txs_def mp_insert_def)
  ultimately show ?thesis using assms indexed_insert totals_insert credits_insert mp_size_insert
    by (simp add: pool_fits_def same)
qed

lemma pool_ok_add:
  assumes "pool_fits P cfg m" "P tx" "add_locked cfg (Some src) tx m = Some (r, m')"
  shows "pool_fits P cfg m'"
proof -
  have ix: "indexed cfg m" using assms(1) by (simp add: pool_fits_def)
  from assms(3) ix show ?thesis
  proof (cases rule: add_locked_cases)
    case kept
    then show ?thesis using assms(1) pool.pool_shrinking_axioms by (auto simp: by_removals_def)
  next
    case (replaced old)
    let ?m = "mp_delete cfg old m"
    obtain t where t: "fmlookup (mp_txs m) old = Some t" "tx_from t = tx_from tx" "tx_nonce t = tx_nonce tx"
      using indexedD(3) [OF ix] replaced(1) unfolding conflict_def by blast
    have "mp_queue ?m (tx_from tx) = fmdrop (tx_nonce tx) (mp_queue m (tx_from tx))"
      using queue_unqueue [of "mp_by_sender m" t old "tx_from tx"] indexedD(2) [OF ix t(1)] t
      by (simp add: mp_delete_def mp_queue_def)
    moreover have "tx_nonce tx \<in> fmdom' (mp_queue m (tx_from tx))" using replaced(1) by (simp add: conflict_def fmlookup_dom'_iff)
    ultimately have "queue_len ?m (tx_from tx) < queue_len m (tx_from tx)"
      unfolding queue_len_card by (metis card_Diff1_less finite_dom fmdom'_drop)
    then have "queue_len ?m (tx_from tx) < MaxPerSender" using assms(1) by (meson order_less_le_trans pool_fits_def)
    moreover have "mp_size ?m < mp_size m"
    proof -
      have "mp_txs ?m = fmdrop old (mp_txs m)" "old \<in> fmdom' (mp_txs m)" by (simp_all add: mp_delete_def t(1) fmlookup_dom'_iff)
      then show ?thesis unfolding mp_size_card by (metis card_Diff1_less finite_dom fmdom'_drop)
    qed
    then have "int (mp_size ?m) < mp_max ?m" using assms(1) limits_delete [of cfg old m] by (simp add: pool_fits_def limits_def)
    moreover have "fmlookup (mp_txs ?m) (tx_hash cfg tx) = None" using replaced(4) by (simp add: mp_delete_def t(1))
    ultimately show ?thesis unfolding replaced(2) using pool_ok_insert pool_ok_delete [OF assms(1)] replaced(6) assms(2) by blast
  next
    case (added m1)
    note room = by_removals_room [OF added(2)]
    have m1: "pool_fits P cfg m1" "conflict m1 tx = None \<and> fmlookup (mp_txs m1) (tx_hash cfg tx) = None"
      using pool.make_room [OF assms(1) added(2)] free_slot.make_room [OF _ added(2)] added(1,4) by blast+
    have "queue_len m (tx_from tx) < MaxPerSender"
      using added(6) by (auto simp: admissible_def Let_def queue_len_def split: if_splits)
    then have "queue_len m1 (tx_from tx) < MaxPerSender"
    proof -
      have "pool_shrinking cfg (\<lambda>m. queue_len m (tx_from tx) < MaxPerSender)"
        by unfold_locales (meson order_le_less_trans queue_len_delete)
      then show ?thesis using room \<open>queue_len m (tx_from tx) < MaxPerSender\<close> by (auto simp: by_removals_def)
    qed
    moreover have "int (mp_size m1) < mp_max m1" using make_room_fits [OF added(2)] by (simp add: overBudget_def)
    ultimately show ?thesis unfolding added(3) using pool_ok_insert m1 assms(2) by blast
  qed
qed

lemma reachable_pool_ok: "reachable_pool cfg m \<Longrightarrow> pool_ok cfg m"
proof (induction rule: reachable_pool.induct)
  case (start order mx mb fee)
  then show ?case
    by (simp add: pool_fits_def NewMempoolWithLimits_def indexed_def totals_ok_def credits_ok_def all_txs_def mp_queue_def
        pool_sum_def mp_size_card queue_len_card DefaultMempoolSize_def)
next
  case (add m src0 cache tx m0 c src r m')
  then show ?case using pool_ok_add checks_relayable by blast
qed (simp_all add: pool.remove pool.prune pool.reconcile)

text \<open>
  C14. The pool is what its indexes say: on every pool reached by additions, replacements, evictions,
  removals, pruning and reconciliation, whatever happens between the checks of an addition and its
  locked section, every queued transaction is stored under its hash and is the only one of its sender
  and nonce, the byte count and the sponsors' totals are the sums over the queue, the credit index lists
  exactly the transactions that pay an address, every transaction passed the consensus checks and its
  signature, and the bounds on the number of transactions and on each sender's queue hold.
\<close>

theorem pool_invariant:
  assumes "reachable_pool cfg m"
  shows "indexed cfg m \<and> totals_ok cfg m \<and> credits_ok cfg m \<and> all_txs (relayable cfg) m
    \<and> int (mp_size m) \<le> mp_max m \<and> (\<forall>s. queue_len m s \<le> MaxPerSender)"
  using reachable_pool_ok [OF assms] by (simp add: pool_fits_def)

theorem pool_invariant_witness:
  "indexed sample_cfg (NewMempoolWithLimits id 10 1000 1) \<and> int (mp_size (NewMempoolWithLimits id 10 1000 1)) \<le> 10"
proof -
  have "reachable_pool sample_cfg (NewMempoolWithLimits id 10 1000 1)" by (rule reachable_pool.start) simp
  from pool_invariant [OF this] show ?thesis by (simp add: NewMempoolWithLimits_def)
qed


section \<open>Admission\<close>

lemma removals_submap:
  assumes "by_removals cfg m m'" "fmlookup (mp_txs m') h = Some t"
  shows "fmlookup (mp_txs m) h = Some t"
proof -
  have "pool_shrinking cfg (\<lambda>m'. fmlookup (mp_txs m') h = Some t \<longrightarrow> fmlookup (mp_txs m) h = Some t)"
    by unfold_locales (auto simp: mp_delete_def split: option.splits if_splits)
  with assms show ?thesis unfolding by_removals_def by blast
qed

text \<open>
  C15. Admission: the locked section of an addition always ends. A transaction that takes a new slot
  leaves the pool within both budgets, its byte count and its number of transactions, and every
  transaction evicted for it pays a strictly lower rate; what was not evicted is still there. A
  transaction that replaces one of the same sender and nonce takes exactly that one's place, pays more
  unless the old one cannot be mined now, and changes the byte count by the difference of their sizes,
  whatever the byte budget.
\<close>

theorem admission_outcome:
  assumes "reachable_pool cfg m"
  shows "\<exists>r m'. add_locked cfg src tx m = Some (r, m') \<and> (r = Inr True \<longrightarrow>
      fmlookup (mp_txs m') (tx_hash cfg tx) = Some tx
    \<and> (case conflict m tx of
         None \<Rightarrow> int (mp_size m') \<le> mp_max m \<and> mp_bytes m' \<le> mp_max_bytes m
           \<and> (\<forall>h t. fmlookup (mp_txs m) h = Some t \<longrightarrow> fmlookup (mp_txs m') h = Some t \<or> txRate cfg t < txRate cfg tx)
       | Some old \<Rightarrow> mp_txs m' = fmupd (tx_hash cfg tx) tx (fmdrop old (mp_txs m))
           \<and> (tx_fee (mp_tx m old) < tx_fee tx \<or> unmineable cfg src (mp_tx m old) \<and> \<not> unmineable cfg src tx)
           \<and> mp_bytes m' = mp_bytes m - int (tx_size cfg (mp_tx m old)) + int (tx_size cfg tx)))"
proof -
  have ok: "indexed cfg m" "totals_ok cfg m" using reachable_pool_ok [OF assms] by (simp_all add: pool_fits_def)
  obtain r m' where run: "add_locked cfg src tx m = Some (r, m')" using add_locked_returns [OF ok(1)] by blast
  from run ok(1) show ?thesis
  proof (cases rule: add_locked_cases)
    case kept
    then show ?thesis using run by blast
  next
    case (replaced old)
    obtain t where t: "fmlookup (mp_txs m) old = Some t" using replaced(3) by auto
    have "0 \<le> pool_sum (\<lambda>tx. int (tx_size cfg tx)) (mp_delete cfg old m)" by (simp add: pool_sum_def sum_nonneg)
    then have "int (tx_size cfg t) \<le> mp_bytes m" using ok(2) t by (simp add: pool_sum_delete totals_ok_def)
    then have "mp_bytes m' = mp_bytes m - int (tx_size cfg (mp_tx m old)) + int (tx_size cfg tx)"
      by (simp add: replaced(2) mp_insert_def mp_delete_def t mp_tx_def fmget_def)
    moreover have "tx_fee (mp_tx m old) < tx_fee tx \<or> unmineable cfg src (mp_tx m old) \<and> \<not> unmineable cfg src tx"
      using run replaced(1,5) by (auto simp: add_locked_def Let_def split: if_splits option.splits)
    ultimately show ?thesis using run replaced(1,2) by (simp add: mp_insert_def mp_delete_def t)
  next
    case (added m1)
    have fits: "\<not> overBudget (tx_size cfg tx) m1" by (rule make_room_fits [OF added(2)])
    have lim: "limits m1 = limits m" using settings.make_room [OF refl added(2)] .
    have new: "fmlookup (mp_txs m1) (tx_hash cfg tx) = None" using free_slot.make_room [OF _ added(2)] added(1,4) by blast
    note removals_submap [OF by_removals_room [OF added(2)]]
    then have "fmlookup (mp_txs m') h = Some t \<or> txRate cfg t < txRate cfg tx" if "fmlookup (mp_txs m) h = Some t" for h t
      using make_room_cheaper [OF added(2) ok(1) that] that added(4) by (cases "fmlookup (mp_txs m1) h") (auto simp: added(3) mp_insert_def)
    then show ?thesis using run added(1,3) fits lim new
      by (auto simp: overBudget_def limits_def mp_size_insert) (auto simp: mp_insert_def)
  qed
qed

theorem admission_outcome_witness:
  "\<exists>r m'. add_locked sample_cfg None zero_tx (NewMempoolWithLimits id 10 1000 1) = Some (r, m')"
proof -
  have "reachable_pool sample_cfg (NewMempoolWithLimits id 10 1000 1)" by (rule reachable_pool.start) simp
  from admission_outcome [OF this] show ?thesis by blast
qed

section \<open>Reconciliation\<close>

lemma delete_queue:
  assumes "indexed cfg m" "fmlookup (mp_queue m s) k = Some h"
  shows "mp_queue (mp_delete cfg h m) s' = (if s' = s then fmdrop k (mp_queue m s) else mp_queue m s')"
proof -
  obtain t where t: "fmlookup (mp_txs m) h = Some t" "tx_from t = s" "tx_nonce t = k" using indexedD(3) [OF assms] by blast
  then show ?thesis using queue_unqueue [of "mp_by_sender m" t h s'] indexedD(2) [OF assms(1) t(1)]
    by (simp add: mp_delete_def mp_queue_def)
qed

text \<open>The queue of a sender runs from its confirmed nonce without a gap, and every head of the run is affordable.\<close>

definition run_costs :: "mempool \<Rightarrow> string \<Rightarrow> u64 list \<Rightarrow> u64" where
  "run_costs m s ks = sum_list (map (\<lambda>k. txCoinCost (mp_tx m (fmget [] (mp_queue m s) k))) ks)"

definition run_ok :: "account_source \<Rightarrow> mempool \<Rightarrow> string \<Rightarrow> bool" where
  "run_ok src m s \<longleftrightarrow> (\<exists>n. fmdom' (mp_queue m s) = (\<lambda>i. acc_nonce (src_account src s) + of_nat i) ` {..<n}
     \<and> (\<forall>j. 0 < j \<and> j \<le> n \<longrightarrow>
          run_costs m s (map (\<lambda>i. acc_nonce (src_account src s) + of_nat i) [0..<j]) \<le> src_spendable src s))"

lemma run_from_Suc: "map (\<lambda>i. w + of_nat i) [0..<Suc n] = w # map (\<lambda>i. (w + 1) + of_nat i) [0..<n]" for w :: u64
  by (simp add: map_upt_Suc add.assoc del: upt_Suc)

lemma keep_run_spec:
  assumes "keep_run cfg q sp want tot ks (c, m) = (c', m')" "indexed cfg m" "distinct ks"
    and "\<forall>k \<in> set ks. fmlookup (mp_queue m s) k = fmlookup q k \<and> fmlookup q k \<noteq> None"
  shows "\<exists>n. let K = map (\<lambda>i. want + of_nat i) [0..<n] in set K \<subseteq> set ks
    \<and> mp_queue m' = (\<lambda>s'. if s' = s then fmdrop_set (set ks - set K) (mp_queue m s) else mp_queue m s')
    \<and> (\<forall>j. 0 < j \<and> j \<le> n \<longrightarrow> tot + sum_list (map (\<lambda>k. txCoinCost (mp_tx m (fmget [] q k))) (take j K)) \<le> sp)
    \<and> by_removals cfg m m'"
  using assms
proof (induction ks arbitrary: want tot c m)
  case Nil
  then show ?case by (intro exI [of _ 0]) (auto simp: fun_eq_iff fmdrop_set_null)
next
  case (Cons k ks)
  let ?h = "fmget [] q k"
  let ?tot = "if k = want then tot + txCoinCost (mp_tx m ?h) else tot"
  have k: "fmlookup (mp_queue m s) k = Some ?h" using Cons.prems(4) by (auto simp: fmget_def)
  show ?case
  proof (cases "k = want \<and> \<not> sp < ?tot")
    case True
    then have run: "keep_run cfg q sp (want + 1) ?tot ks (c, m) = (c', m')" using Cons.prems(1) by (auto simp: Let_def split: if_splits)
    from Cons.IH [OF run Cons.prems(2)] Cons.prems(3,4) obtain n where n: "let K = map (\<lambda>i. (want + 1) + of_nat i) [0..<n] in set K \<subseteq> set ks
      \<and> mp_queue m' = (\<lambda>s'. if s' = s then fmdrop_set (set ks - set K) (mp_queue m s) else mp_queue m s')
      \<and> (\<forall>j. 0 < j \<and> j \<le> n \<longrightarrow> ?tot + sum_list (map (\<lambda>k. txCoinCost (mp_tx m (fmget [] q k))) (take j K)) \<le> sp)
      \<and> by_removals cfg m m'" by auto
    have K: "map (\<lambda>i. want + of_nat i) [0..<Suc n] = want # map (\<lambda>i. (want + 1) + of_nat i) [0..<n]" by (rule run_from_Suc)
    have diff: "set (k # ks) - set (want # K') = set ks - set K'" if "set K' \<subseteq> set ks" for K'
      using that Cons.prems(3) True by auto
    have "tot + sum_list (map (\<lambda>k. txCoinCost (mp_tx m (fmget [] q k))) (take j (want # map (\<lambda>i. (want + 1) + of_nat i) [0..<n]))) \<le> sp"
      if "0 < j" "j \<le> Suc n" for j
      using n that True by (cases j; cases "j = 1") (auto simp: Let_def add.assoc)
    moreover have "set (k # ks) - set (map (\<lambda>i. want + of_nat i) [0..<Suc n]) = set ks - set (map (\<lambda>i. (want + 1) + of_nat i) [0..<n])"
      unfolding K by (rule diff) (use n in \<open>simp add: Let_def\<close>)
    moreover have "set (map (\<lambda>i. want + of_nat i) [0..<Suc n]) \<subseteq> set (k # ks)" unfolding K using n True by (auto simp: Let_def)
    ultimately show ?thesis using n unfolding Let_def by (intro exI [of _ "Suc n"]) (simp only: K simp_thms, blast)
  next
    case False
    let ?m = "mp_delete cfg ?h m"
    have run: "keep_run cfg q sp want ?tot ks (c + 1, ?m) = (c', m')" using Cons.prems(1) False by (auto simp: Let_def)
    note dq = delete_queue [OF Cons.prems(2) k]
    have "\<forall>k' \<in> set ks. fmlookup (mp_queue ?m s) k' = fmlookup q k' \<and> fmlookup q k' \<noteq> None"
      using Cons.prems(3,4) by (auto simp: dq)
    from Cons.IH [OF run indexed_delete [OF Cons.prems(2)] _ this] Cons.prems(3) obtain n where n: "let K = map (\<lambda>i. want + of_nat i) [0..<n] in set K \<subseteq> set ks
      \<and> mp_queue m' = (\<lambda>s'. if s' = s then fmdrop_set (set ks - set K) (mp_queue ?m s) else mp_queue ?m s')
      \<and> (\<forall>j. 0 < j \<and> j \<le> n \<longrightarrow> ?tot + sum_list (map (\<lambda>k. txCoinCost (mp_tx ?m (fmget [] q k))) (take j K)) \<le> sp)
      \<and> by_removals cfg ?m m'" by auto
    have other: "mp_tx ?m (fmget [] q k') = mp_tx m (fmget [] q k')" if "k' \<in> set ks" for k'
    proof -
      have k': "fmlookup (mp_queue m s) k' = Some (fmget [] q k')" "k' \<noteq> k" using Cons.prems(3,4) that by (auto simp: fmget_def)
      have "fmget [] q k' \<noteq> ?h"
      proof
        assume eq: "fmget [] q k' = ?h"
        obtain t where "fmlookup (mp_txs m) ?h = Some t" "tx_nonce t = k'" using indexedD(3) [OF Cons.prems(2) k'(1)] eq by auto
        moreover obtain t' where "fmlookup (mp_txs m) ?h = Some t'" "tx_nonce t' = k" using indexedD(3) [OF Cons.prems(2) k] by blast
        ultimately show False using k'(2) by simp
      qed
      then show ?thesis by (simp add: mp_tx_def mp_delete_def split: option.splits)
    qed
    let ?K = "map (\<lambda>i. want + of_nat i) [0..<n]"
    have K: "set ?K \<subseteq> set ks" "k \<notin> set ?K" using n Cons.prems(3) by (auto simp: Let_def)
    have none: "n = 0" if "k = want"
    proof (rule ccontr)
      assume "n \<noteq> 0"
      then have "want \<in> set ?K" by (simp add: image_iff) (intro bexI [of _ 0], simp_all)
      then show False using K(2) that by blast
    qed
    have "mp_queue m' = (\<lambda>s'. if s' = s then fmdrop_set (set ks - set ?K) (fmdrop k (mp_queue m s)) else mp_queue m s')"
      using n by (simp add: Let_def dq fun_eq_iff)
    moreover have "fmdrop_set (set ks - set ?K) (fmdrop k (mp_queue m s)) = fmdrop_set (set (k # ks) - set ?K) (mp_queue m s)"
      using K(2) by (intro fmap_ext) auto
    moreover have "tot + sum_list (map (\<lambda>k. txCoinCost (mp_tx m (fmget [] q k))) (take j ?K)) \<le> sp" if "0 < j" "j \<le> n" for j
    proof -
      have "k \<noteq> want" using none that by auto
      moreover have "x \<in> set ks" if "x \<in> set (take j ?K)" for x using K(1) in_set_takeD [OF that] by blast
      then have eq: "map (\<lambda>k. txCoinCost (mp_tx ?m (fmget [] q k))) (take j ?K) = map (\<lambda>k. txCoinCost (mp_tx m (fmget [] q k))) (take j ?K)"
        by (intro map_cong refl arg_cong [of _ _ txCoinCost] other)
      moreover have "?tot + sum_list (map (\<lambda>k. txCoinCost (mp_tx ?m (fmget [] q k))) (take j ?K)) \<le> sp"
        using n that unfolding Let_def by blast
      ultimately show ?thesis unfolding eq by simp
    qed
    moreover have "by_removals cfg m m'" using n by (auto simp: Let_def by_removals_def pool_shrinking.delete)
    ultimately show ?thesis using K(1) unfolding Let_def by (intro exI [of _ n]) auto
  qed
qed


lemma queued_tx_kept:
  assumes "by_removals cfg m m'" "indexed cfg m'" "fmlookup (mp_queue m' s) k = Some h"
  shows "mp_tx m' h = mp_tx m h"
proof -
  obtain t where "fmlookup (mp_txs m') h = Some t" using indexedD(3) [OF assms(2,3)] by blast
  with removals_submap [OF assms(1) this] show ?thesis by (simp add: mp_tx_def fmget_def)
qed

lemma removals_indexed: "by_removals cfg m m' \<Longrightarrow> indexed cfg m \<Longrightarrow> indexed cfg m'"
  using sender_index.pool_shrinking_axioms by (auto simp: by_removals_def)

lemma run_ok_kept:
  assumes "run_ok src m s" "mp_queue m' s = mp_queue m s" "by_removals cfg m m'" "indexed cfg m"
  shows "run_ok src m' s"
proof -
  let ?at = "\<lambda>i. acc_nonce (src_account src s) + of_nat i"
  obtain n where n: "fmdom' (mp_queue m s) = ?at ` {..<n}"
    "\<And>j. 0 < j \<Longrightarrow> j \<le> n \<Longrightarrow> run_costs m s (map ?at [0..<j]) \<le> src_spendable src s"
    using assms(1) unfolding run_ok_def by blast
  have tx: "mp_tx m' (fmget [] (mp_queue m s) k) = mp_tx m (fmget [] (mp_queue m s) k)" if "k \<in> fmdom' (mp_queue m s)" for k
    using queued_tx_kept [OF assms(3) removals_indexed [OF assms(3,4)], of s k] that assms(2)
    by (auto simp: fmget_def fmlookup_dom'_iff)
  have "run_costs m' s (map ?at [0..<j]) = run_costs m s (map ?at [0..<j])" if "j \<le> n" for j
    unfolding run_costs_def assms(2) using that n(1)
    by (intro arg_cong [of _ _ sum_list] map_cong refl arg_cong [of _ _ txCoinCost] tx) auto
  then show ?thesis unfolding run_ok_def assms(2) using n by auto
qed

lemma reconcile_sender_spec:
  assumes "reconcile_sender cfg src s (c, m) = (c', m')" "indexed cfg m"
  shows "run_ok src m' s" "\<And>s'. s' \<noteq> s \<Longrightarrow> mp_queue m' s' = mp_queue m s'" "by_removals cfg m m'"
proof -
  let ?q = "mp_queue m s" and ?at = "\<lambda>i. acc_nonce (src_account src s) + of_nat i"
  have run: "keep_run cfg ?q (src_spendable src s) (acc_nonce (src_account src s)) 0 (fmkeys ?q) (c, m) = (c', m')"
    using assms(1) by (simp add: reconcile_sender_def Let_def)
  have keys: "set (fmkeys ?q) = fmdom' ?q" by (simp add: fmdom'_alt_def)
  then have "\<forall>k \<in> set (fmkeys ?q). fmlookup (mp_queue m s) k = fmlookup ?q k \<and> fmlookup ?q k \<noteq> None"
    by (auto simp: fmlookup_dom'_iff)
  from keep_run_spec [OF run assms(2) _ this] obtain n where n: "set (map ?at [0..<n]) \<subseteq> fmdom' ?q"
    "mp_queue m' = (\<lambda>s'. if s' = s then fmdrop_set (fmdom' ?q - set (map ?at [0..<n])) ?q else mp_queue m s')"
    "\<And>j. 0 < j \<Longrightarrow> j \<le> n \<Longrightarrow> sum_list (map (\<lambda>k. txCoinCost (mp_tx m (fmget [] ?q k))) (take j (map ?at [0..<n]))) \<le> src_spendable src s"
    "by_removals cfg m m'" unfolding Let_def keys by auto
  show "\<And>s'. s' \<noteq> s \<Longrightarrow> mp_queue m' s' = mp_queue m s'" "by_removals cfg m m'" using n(2,4) by simp_all
  have look: "fmlookup (mp_queue m' s) k = (if k \<in> ?at ` {..<n} then fmlookup ?q k else None)" for k
    using n(2) by (auto simp: fmlookup_dom'_iff lessThan_atLeast0)
  have dom: "fmdom' (mp_queue m' s) = ?at ` {..<n}"
    using n(1) by (auto simp: look fmlookup_dom'_iff lessThan_atLeast0 split: if_splits)
  have tx: "mp_tx m' (fmget [] (mp_queue m' s) k) = mp_tx m (fmget [] ?q k)" if "k \<in> ?at ` {..<n}" for k
  proof -
    have "k \<in> fmdom' (mp_queue m' s)" using that dom by simp
    then obtain h where "fmlookup (mp_queue m' s) k = Some h" unfolding fmlookup_dom'_iff by blast
    then show ?thesis using queued_tx_kept [OF n(4) removals_indexed [OF n(4) assms(2)], of s k h] that
      by (simp add: look fmget_def)
  qed
  have "run_costs m' s (map ?at [0..<j]) = sum_list (map (\<lambda>k. txCoinCost (mp_tx m (fmget [] ?q k))) (take j (map ?at [0..<n])))"
    if "j \<le> n" for j
  proof -
    have "take j (map ?at [0..<n]) = map ?at [0..<j]" using that by (simp add: take_map)
    then show ?thesis unfolding run_costs_def
    using that by (simp only:) (intro arg_cong [of _ _ sum_list] map_cong refl arg_cong [of _ _ txCoinCost] tx, auto)
  qed
  then show "run_ok src m' s" unfolding run_ok_def dom using n(3) by auto
qed

lemma reconcile_senders_spec:
  assumes "fold (reconcile_sender cfg src) ss (c, m) = (c', m')" "indexed cfg m" "s \<in> set ss \<or> run_ok src m s"
  shows "run_ok src m' s"
  using assms
proof (induction ss arbitrary: c m)
  case (Cons a ss)
  obtain c1 m1 where m1: "reconcile_sender cfg src a (c, m) = (c1, m1)" by fastforce
  note spec = reconcile_sender_spec [OF m1 Cons.prems(2)]
  have "s \<in> set ss \<or> run_ok src m1 s"
    using Cons.prems(3) spec(1) run_ok_kept [OF _ spec(2) spec(3) Cons.prems(2), of src s] by auto
  then show ?case using Cons.IH [of c1 m1] Cons.prems(1) m1 removals_indexed [OF spec(3) Cons.prems(2)] by simp
qed simp

lemma delete_lookup: "fmlookup (mp_txs (mp_delete cfg a m)) h = (if h = a then None else fmlookup (mp_txs m) h)"
  by (simp add: mp_delete_def split: option.splits)

lemma prune_expired_gone:
  assumes "pool_ok cfg m"
  shows "all_txs (\<lambda>tx. \<not> IsExpiredAt tx (t + 1)) (snd (PruneExpired cfg t m))"
proof -
  let ?f = "\<lambda>h (n, m'). if IsExpiredAt (mp_tx m h) (t + 1) then (n + 1, mp_delete cfg h m') else (n, m')"
  have sub: "fmlookup (mp_txs (snd (fold ?f hs (c, m')))) h = Some tx \<Longrightarrow>
      fmlookup (mp_txs m') h = Some tx \<and> \<not> (h \<in> set hs \<and> IsExpiredAt (mp_tx m h) (t + 1))" for hs c m' h tx
  proof (induction hs arbitrary: c m')
    case (Cons a hs)
    show ?case
    proof (cases "IsExpiredAt (mp_tx m a) (t + 1)")
      case True
      then show ?thesis using Cons.IH [of "c + 1" "mp_delete cfg a m'"] Cons.prems by (auto simp: delete_lookup split: if_splits)
    next
      case False
      then show ?thesis using Cons.IH [of c m'] Cons.prems by auto
    qed
  qed simp
  have "set (mp_order m (fmkeys (mp_txs m))) = fmdom' (mp_txs m)"
    using assms by (metis fmdom'_alt_def pool_fits_def set_fmkeys set_mset_mset)
  then show ?thesis using sub [of "mp_order m (fmkeys (mp_txs m))" 0 m]
    by (auto simp: all_txs_def PruneExpired_def fmlookup_dom'_iff mp_tx_def fmget_def) fastforce
qed



end
