(* ===== verification/Block_Template.thy ===== *)
theory Block_Template
  imports Mempool_Theorems Chain_Theorems
begin

text \<open>
  From the pool to a block: the package rates (\<open>core/package.go\<close>: \<open>effectiveRates\<close>), the greedy
  selection that simulates the chain (\<open>core/mempool.go\<close>: \<open>Select\<close>), and the assembly of a candidate
  (\<open>node/node.go\<close>: \<open>assembleBlock\<close>, \<open>buildBlockFor\<close>).
\<close>

section \<open>Package rates\<close>

definition packagePricingSet :: "account_source option \<Rightarrow> mempool \<Rightarrow> string \<Rightarrow> transaction \<Rightarrow> string list" where
  "packagePricingSet src m h tx =
     filter (\<lambda>d. d \<noteq> h) (remdups (descendants src m h
       @ map (\<lambda>n. fmget [] (mp_queue m (tx_from tx)) n) (filter (\<lambda>n. tx_nonce tx < n) (fmkeys (mp_queue m (tx_from tx))))))"

definition effective_rate :: "config \<Rightarrow> account_source option \<Rightarrow> mempool \<Rightarrow> string \<Rightarrow> transaction \<Rightarrow> rat" where
  "effective_rate cfg src m h tx =
     (let sz = int (tx_size cfg tx);
          own = (if 0 < sz then f64_quot (tx_fee tx) sz else 0);
          ds = packagePricingSet src m h tx;
          fees = tx_fee tx + sum_list (map (\<lambda>d. tx_fee (mp_tx m d)) ds);
          pkgsz = sz + int (sum_list (map (\<lambda>d. tx_size cfg (mp_tx m d)) ds))
      in if 0 < pkgsz \<and> own < f64_quot fees pkgsz then f64_quot fees pkgsz else own)"

definition effectiveRates :: "config \<Rightarrow> account_source option \<Rightarrow> mempool \<Rightarrow> (string, rat) fmap" where
  "effectiveRates cfg src m = fmmap_keys (effective_rate cfg src m) (mp_txs m)"

section \<open>Selection\<close>

record sel_candidate =
  sc_tx :: transaction
  sc_hash :: string
  sc_size :: nat
  sc_ops :: nat
  sc_rate :: rat

definition LookupName :: "string \<Rightarrow> chain \<Rightarrow> name_record \<times> bool" where
  "LookupName name bc =
     (case state_Lookup (bc_state bc) (nameStateKey name) of
        None \<Rightarrow> (\<lparr>rec_name = name, rec_owner = [], rec_expires = 0\<rparr>, False)
      | Some acc \<Rightarrow> let r = nameRecordOf name acc in (r, heldAt r (blk_index (bc_tip bc))))"

definition nameOpMineable :: "chain \<Rightarrow> transaction \<Rightarrow> u64 \<Rightarrow> bool" where
  "nameOpMineable bc tx mineHeight =
     (case tx_name tx of None \<Rightarrow> False
      | Some n \<Rightarrow>
          let r = fst (LookupName (nop_name n) bc); held = heldAt r mineHeight in
          if nop_op n = NameOpRegister then \<not> held else held \<and> rec_owner r = tx_from tx)"

text \<open>Whether a queued transaction is a candidate at all, and what is computed of it once.\<close>

definition candidate_for :: "config \<Rightarrow> chain \<Rightarrow> (string, rat) fmap \<Rightarrow> transaction \<Rightarrow> sel_candidate option" where
  "candidate_for cfg bc rates tx =
     (let mineHeight = blk_index (bc_tip bc) + 1; baseFee = NextBaseFee bc; sz = tx_size cfg tx in
      if tx_fee tx < baseFee * of_nat sz then None
      else if CheckTxSanity cfg tx \<noteq> None \<or> checkTxAtHeight cfg tx mineHeight \<noteq> None then None
      else if IsNameOp tx \<and> \<not> nameOpMineable bc tx mineHeight then None
      else let h = tx_hash cfg tx; own = txRate cfg tx;
               rate = (case fmlookup rates h of Some r \<Rightarrow> if own < r then r else own | None \<Rightarrow> own)
        in Some \<lparr>sc_tx = tx, sc_hash = h, sc_size = sz, sc_ops = VerifyOps tx, sc_rate = rate\<rparr>)"

definition candidates :: "config \<Rightarrow> chain \<Rightarrow> account_source option \<Rightarrow> mempool \<Rightarrow> sel_candidate list" where
  "candidates cfg bc src m = List.map_filter (candidate_for cfg bc (effectiveRates cfg src m)) (mp_All m)"

text \<open>The candidates of each sender in nonce order, senders in order of their addresses.\<close>

definition sender_queues :: "sel_candidate list \<Rightarrow> (string \<times> sel_candidate list) list" where
  "sender_queues cs =
     map (\<lambda>s. (s, sort_key (\<lambda>c. tx_nonce (sc_tx c)) (filter (\<lambda>c. tx_from (sc_tx c) = s) cs)))
       (sort (remdups (map (\<lambda>c. tx_from (sc_tx c)) cs)))"

record sim_account =
  sim_balance :: u64
  sim_nonce :: u64
  sim_assets :: "(string, u64) fmap"

text \<open>
  The state of the selection: the simulated accounts read so far, the names already acted on, what is
  left of each sender's queue (the cursor of the code), and what is selected with its weight and cost.
\<close>

record selection =
  sel_cache :: "(string, sim_account) fmap"
  sel_names :: "string list"
  sel_queues :: "(string \<times> sel_candidate list) list"
  sel_txs :: "transaction list"
  sel_weight :: nat
  sel_ops :: nat

definition sim_get :: "chain \<Rightarrow> (string, sim_account) fmap \<Rightarrow> string \<Rightarrow> sim_account" where
  "sim_get bc cache addr =
     (case fmlookup cache addr of Some s \<Rightarrow> s
      | None \<Rightarrow> let acc = state_Get (bc_state bc) addr in
          \<lparr>sim_balance = SpendableBalance addr bc, sim_nonce = acc_nonce acc, sim_assets = acc_assets acc\<rparr>)"

definition affordable :: "chain \<Rightarrow> (string, sim_account) fmap \<Rightarrow> transaction \<Rightarrow> bool" where
  "affordable bc cache tx =
     (let s = sim_get bc cache (tx_from tx) in
      if IsSponsored tx \<and> sim_balance (sim_get bc cache (tx_fee_payer tx)) < tx_fee tx then False
      else if IsIssue tx then senderFee tx \<le> sim_balance s
      else case tx_asset_op tx of
        Some opr \<Rightarrow>
          if sim_balance s < senderFee tx then False
          else let held = fmget 0 (sim_assets s) (tx_asset_id tx) in
            if aop_op opr = AssetOpMint
            then held \<le> held + aop_amount opr \<and> held + aop_amount opr \<le> MaxAssetSupply
            else if aop_op opr = AssetOpBurn then aop_amount opr \<le> held else False
      | None \<Rightarrow>
          if IsAssetTransfer tx
          then senderFee tx \<le> sim_balance s \<and> tx_amount tx \<le> fmget 0 (sim_assets s) (tx_asset_id tx)
          else txCoinCost tx \<le> sim_balance s)"

definition debitSponsor :: "chain \<Rightarrow> transaction \<Rightarrow> (string, sim_account) fmap \<Rightarrow> (string, sim_account) fmap" where
  "debitSponsor bc tx cache =
     (if \<not> IsSponsored tx then cache
      else let p = sim_get bc cache (tx_fee_payer tx) in
        fmupd (tx_fee_payer tx) (p\<lparr>sim_balance := sim_balance p - tx_fee tx\<rparr>) cache)"

definition sim_asset :: "string \<Rightarrow> u64 \<Rightarrow> sim_account \<Rightarrow> sim_account" where
  "sim_asset i d s = s\<lparr>sim_assets := fmupd i (fmget 0 (sim_assets s) i + d) (sim_assets s)\<rparr>"

definition sim_credit :: "chain \<Rightarrow> tx_output \<Rightarrow> (string, sim_account) fmap \<Rightarrow> (string, sim_account) fmap" where
  "sim_credit bc out cache =
     (let r = sim_get bc cache (out_to out) in fmupd (out_to out) (r\<lparr>sim_balance := sim_balance r + out_amount out\<rparr>) cache)"

text \<open>The simulated accounts after a transaction is picked.\<close>

definition simulate :: "config \<Rightarrow> chain \<Rightarrow> transaction \<Rightarrow> (string, sim_account) fmap \<Rightarrow> (string, sim_account) fmap" where
  "simulate cfg bc tx cache =
     (let s0 = sim_get bc cache (tx_from tx);
          s = s0\<lparr>sim_balance := sim_balance s0 - senderFee tx, sim_nonce := sim_nonce s0 + 1\<rparr> in
      if IsNameOp tx then debitSponsor bc tx (fmupd (tx_from tx) s cache)
      else case tx_issue tx of
        Some i \<Rightarrow> debitSponsor bc tx (fmupd (tx_from tx)
            (sim_asset (IssuedAssetID cfg (tx_from tx) (tx_nonce tx) i) (iss_supply i) s) cache)
      | None \<Rightarrow>
     (case tx_asset_op tx of
        Some opr \<Rightarrow> debitSponsor bc tx (fmupd (tx_from tx)
            (if aop_op opr = AssetOpMint then sim_asset (tx_asset_id tx) (aop_amount opr) s
             else if aop_op opr = AssetOpBurn then sim_asset (tx_asset_id tx) (- aop_amount opr) s else s) cache)
      | None \<Rightarrow>
          if IsAssetTransfer tx then
            let c1 = debitSponsor bc tx (fmupd (tx_from tx) (sim_asset (tx_asset_id tx) (- tx_amount tx) s) cache)
            in fmupd (tx_to tx) (sim_asset (tx_asset_id tx) (tx_amount tx) (sim_get bc c1 (tx_to tx))) c1
          else fold (sim_credit bc) (outputs tx)
            (debitSponsor bc tx (fmupd (tx_from tx)
               (s0\<lparr>sim_balance := sim_balance s0 - txCoinCost tx, sim_nonce := sim_nonce s0 + 1\<rparr>) cache))))"

text \<open>The head of a sender's queue once everything below its next nonce is skipped, if it is ready and fits.\<close>

definition advance :: "chain \<Rightarrow> selection \<Rightarrow> string \<times> sel_candidate list \<Rightarrow> string \<times> sel_candidate list" where
  "advance bc sel = (\<lambda>(s, cs). (s, dropWhile (\<lambda>c. tx_nonce (sc_tx c) < sim_nonce (sim_get bc (sel_cache sel) s)) cs))"

definition ready :: "chain \<Rightarrow> selection \<Rightarrow> string \<times> sel_candidate list \<Rightarrow> sel_candidate option" where
  "ready bc sel = (\<lambda>(s, cs).
     case cs of [] \<Rightarrow> None
     | c # _ \<Rightarrow>
         if tx_nonce (sc_tx c) \<noteq> sim_nonce (sim_get bc (sel_cache sel) s) then None
         else if MaxBlockBytes < sel_weight sel + sc_size c then None
         else if MaxBlockVerifyOps < sel_ops sel + sc_ops c then None
         else if \<not> affordable bc (sel_cache sel) (sc_tx c) then None
         else if (case tx_name (sc_tx c) of Some n \<Rightarrow> nop_name n \<in> set (sel_names sel) | None \<Rightarrow> False) then None
         else Some c)"

definition better_candidate :: "sel_candidate \<Rightarrow> sel_candidate option \<Rightarrow> sel_candidate option" where
  "better_candidate c best =
     (case best of None \<Rightarrow> Some c
      | Some b \<Rightarrow> if sc_rate b < sc_rate c \<or> sc_rate c = sc_rate b \<and> sc_hash c < sc_hash b then Some c else best)"

definition best_candidate :: "chain \<Rightarrow> selection \<Rightarrow> sel_candidate option" where
  "best_candidate bc sel =
     fold (\<lambda>q best. case ready bc sel q of None \<Rightarrow> best | Some c \<Rightarrow> better_candidate c best) (sel_queues sel) None"

definition take_candidate :: "config \<Rightarrow> chain \<Rightarrow> sel_candidate \<Rightarrow> selection \<Rightarrow> selection" where
  "take_candidate cfg bc c sel =
     sel\<lparr>sel_cache := simulate cfg bc (sc_tx c) (sel_cache sel),
         sel_names := (case tx_name (sc_tx c) of Some n \<Rightarrow> nop_name n # sel_names sel | None \<Rightarrow> sel_names sel),
         sel_txs := sel_txs sel @ [sc_tx c], sel_weight := sel_weight sel + sc_size c, sel_ops := sel_ops sel + sc_ops c\<rparr>"

text \<open>One round per selected transaction, at most as many as the caller asks for.\<close>

primrec select_loop :: "nat \<Rightarrow> config \<Rightarrow> chain \<Rightarrow> selection \<Rightarrow> selection" where
  "select_loop 0 cfg bc sel = sel"
| "select_loop (Suc k) cfg bc sel =
     (let sel1 = sel\<lparr>sel_queues := map (advance bc sel) (sel_queues sel)\<rparr> in
      case best_candidate bc sel1 of None \<Rightarrow> sel1
      | Some c \<Rightarrow> select_loop k cfg bc (take_candidate cfg bc c sel1))"

definition Select :: "config \<Rightarrow> chain \<Rightarrow> account_source option \<Rightarrow> int \<Rightarrow> mempool \<Rightarrow> transaction list" where
  "Select cfg bc src most m =
     sel_txs (select_loop (nat most) cfg bc
       \<lparr>sel_cache = fmempty, sel_names = [], sel_queues = sender_queues (candidates cfg bc src m),
        sel_txs = [], sel_weight = 0, sel_ops = 0\<rparr>)"

section \<open>Assembling a candidate block\<close>

text \<open>\<open>now\<close> is the node's own clock, \<open>signals\<close> the configured version bits.\<close>

definition assembleBlock :: "chain \<Rightarrow> mempool \<Rightarrow> int \<Rightarrow> 8 word list \<Rightarrow> string \<Rightarrow> block \<times> transaction list" where
  "assembleBlock bc m now signals minerAddr =
     (let cfg = bc_cfg bc; tip = bc_tip bc; height = blk_index tip + 1; baseFee = NextBaseFee bc;
          txs = Select cfg bc (Some (chain_source bc)) (int MaxBlockTxs) m;
          coinbase = NewCoinbaseAt cfg minerAddr (CoinbaseAmount cfg height txs baseFee) height;
          ts = (if now \<le> blk_timestamp tip then blk_timestamp tip + 1 else now)
      in (\<lparr>blk_version = SignalVersion signals, blk_index = height, blk_timestamp = ts, blk_transactions = coinbase # txs,
           blk_prev_hash = blk_hash tip, blk_merkle_root = MerkleRoot cfg (coinbase # txs), blk_state_root = [],
           blk_base_fee = baseFee, blk_bits = NextBits bc, blk_nonce = 0, blk_hash = [],
           blk_filter_root = [], blk_history_root = []\<rparr>, txs))"

definition maxBuildAttempts :: nat where "maxBuildAttempts = 4"

text \<open>
  The loop of \<open>buildBlockFor\<close>, at most \<open>maxBuildAttempts\<close> rounds: a transaction that the rules refuse
  is dropped from the pool and the block assembled again. A candidate without a state root is not mined.
\<close>

fun build_attempts :: "nat \<Rightarrow> int \<Rightarrow> 8 word list \<Rightarrow> string \<Rightarrow> chain \<Rightarrow> mempool \<Rightarrow> (block \<times> transaction list) \<times> chain \<times> mempool" where
  "build_attempts k now signals minerAddr bc m =
     (case assembleBlock bc m now signals minerAddr of
        (cand, txs) \<Rightarrow>
          (case NextCommitments cand bc of
             None \<Rightarrow> ((cand, txs), bc, m)
           | Some (filterRoot, historyRoot) \<Rightarrow>
               let cand1 = cand\<lparr>blk_filter_root := filterRoot, blk_history_root := historyRoot\<rparr> in
               (case NextStateRoot cand1 bc of
                  (Inr root, bc1) \<Rightarrow> ((cand1\<lparr>blk_state_root := root\<rparr>, txs), bc1, m)
                | (Inl (TxRejection i e), bc1) \<Rightarrow>
                    (case k of 0 \<Rightarrow> ((cand1, txs), bc1, m)
                     | Suc k' \<Rightarrow>
                         if i < 1 \<or> length txs < i then ((cand1, txs), bc1, m)
                         else build_attempts k' now signals minerAddr bc1 (mp_Remove (bc_cfg bc) [txs ! (i - 1)] m))
                | (Inl _, bc1) \<Rightarrow> ((cand1, txs), bc1, m))))"

definition buildBlockFor :: "int \<Rightarrow> 8 word list \<Rightarrow> string \<Rightarrow> chain \<Rightarrow> mempool \<Rightarrow> (block \<times> transaction list) \<times> chain \<times> mempool" where
  "buildBlockFor now signals minerAddr bc m = build_attempts (maxBuildAttempts - 1) now signals minerAddr bc m"

definition BuildTemplate :: "int \<Rightarrow> 8 word list \<Rightarrow> string \<Rightarrow> chain \<Rightarrow> mempool \<Rightarrow> block option \<times> chain \<times> mempool" where
  "BuildTemplate now signals minerAddr bc m =
     (if minerAddr = [] then (None, bc, m)
      else case buildBlockFor now signals minerAddr bc m of
        ((b, txs), bc1, m1) \<Rightarrow> (if blk_state_root b = [] then None else Some b, bc1, m1))"

end
