(* ===== verification/Template_Theorems.thy ===== *)
theory Template_Theorems
  imports Block_Template
begin

text \<open>
  The selection is a simulation of block application: every account it keeps mirrors the ledger, with
  the immature coin of the address set apart, and a transaction it finds affordable is one the ledger
  applies. So a block assembled on the tip passes the rules its own chain applies to it.
\<close>

section \<open>Mirrored accounts\<close>

abbreviation reserve :: "chain \<Rightarrow> string \<Rightarrow> u64" where
  "reserve bc k \<equiv> immatureCoinbase (bc_blocks bc) (of_nat (length (bc_blocks bc))) k"

definition agrees :: "u64 \<Rightarrow> account \<Rightarrow> sim_account \<Rightarrow> bool" where
  "agrees r v s \<longleftrightarrow> unat (acc_balance v) = unat (sim_balance s) + unat r \<and> acc_nonce v = sim_nonce s
     \<and> (\<forall>i. fmget 0 (acc_assets v) i = fmget 0 (sim_assets s) i)"

definition mirrors :: "chain \<Rightarrow> (string, sim_account) fmap \<Rightarrow> app \<Rightarrow> bool" where
  "mirrors bc cache a \<longleftrightarrow> (\<forall>k. \<not> isNameKey k \<longrightarrow> agrees (reserve bc k) (get_acc a k) (sim_get bc cache k))"

definition same_names :: "app \<Rightarrow> app \<Rightarrow> bool" where
  "same_names a a' \<longleftrightarrow> (\<forall>n. get_acc a' (nameStateKey n) = get_acc a (nameStateKey n))"

lemma same_names_refl [simp]: "same_names a a"
  by (simp add: same_names_def)

lemma same_names_trans: "same_names a b \<Longrightarrow> same_names b c \<Longrightarrow> same_names a c"
  by (simp add: same_names_def)

lemma same_names_write: "\<not> isNameKey k \<Longrightarrow> same_names a (set_acc k v a)"
  by (auto simp: same_names_def isNameKey_iff)

lemma sim_get_upd [simp]: "sim_get bc (fmupd k s cache) k' = (if k' = k then s else sim_get bc cache k')"
  by (simp add: sim_get_def)

lemma mirrors_get: "mirrors bc cache a \<Longrightarrow> \<not> isNameKey k \<Longrightarrow> agrees (reserve bc k) (get_acc a k) (sim_get bc cache k)"
  by (simp add: mirrors_def)

lemma mirrors_write:
  "mirrors bc cache a \<Longrightarrow> agrees (reserve bc k) v s \<Longrightarrow> mirrors bc (fmupd k s cache) (set_acc k v a)"
  by (simp add: mirrors_def)

lemma mirrors_name: "mirrors bc cache a \<Longrightarrow> isNameKey k \<Longrightarrow> mirrors bc cache (set_acc k v a)"
  by (auto simp: mirrors_def)

lemma mirrors_cache [simp]: "mirrors bc cache (a\<lparr>app_cache := c\<rparr>) = mirrors bc cache a"
  by (simp add: mirrors_def)

lemma agrees_debit:
  assumes "agrees r v s" "c \<le> sim_balance s"
  shows "agrees r (debit v c) (s\<lparr>sim_balance := sim_balance s - c, sim_nonce := sim_nonce s + 1\<rparr>)"
proof -
  have "c \<le> acc_balance v" using assms by (simp add: agrees_def word_le_nat_alt)
  then show ?thesis using assms by (simp add: agrees_def unat_diff_le word_le_nat_alt)
qed

lemma agrees_pay:
  assumes "agrees r v s" "c \<le> sim_balance s"
  shows "agrees r (v\<lparr>acc_balance := acc_balance v - c\<rparr>) (s\<lparr>sim_balance := sim_balance s - c\<rparr>)"
  using agrees_debit [OF assms] by (simp add: agrees_def)

lemma agrees_asset: "agrees r v s \<Longrightarrow> agrees r (withAssetDelta v i d) (sim_asset i d s)"
  by (auto simp: agrees_def withAssetDelta_def sim_asset_def Let_def)

lemma agrees_fee:
  assumes "agrees r v s" "tx_nonce tx = sim_nonce s" "senderFee tx \<le> sim_balance s"
  shows "fee_checks tx v r = None"
proof -
  have le: "unat (senderFee tx) + unat r \<le> unat (acc_balance v)" using assms by (simp add: agrees_def word_le_nat_alt)
  then have "unat (senderFee tx) + unat r < 2 ^ 64" using unat_u64 [of "acc_balance v"] by simp
  then have "unat (senderFee tx + r) = unat (senderFee tx) + unat r" by (rule unat_add_small)
  then show ?thesis using le assms by (simp add: fee_checks_def Let_def agrees_def word_less_nat_alt)
qed

section \<open>The parts of a transaction\<close>

lemma sponsor_mirrors:
  assumes "mirrors bc cache a" "\<not> isNameKey (tx_fee_payer tx)"
    and "IsSponsored tx \<Longrightarrow> tx_fee tx \<le> sim_balance (sim_get bc cache (tx_fee_payer tx))"
  shows "\<exists>a'. chargeSponsor tx (if IsSponsored tx then reserve bc (tx_fee_payer tx) else 0) a = (None, a')
    \<and> mirrors bc (debitSponsor bc tx cache) a' \<and> same_names a a'"
proof (cases "IsSponsored tx")
  case True
  let ?k = "tx_fee_payer tx"
  let ?p = "get_acc a ?k" and ?s = "sim_get bc cache ?k" and ?r = "reserve bc (tx_fee_payer tx)"
  have ag: "agrees ?r ?p ?s" by (rule mirrors_get [OF assms(1,2)])
  have le: "unat (tx_fee tx) + unat ?r \<le> unat (acc_balance ?p)" using ag assms(3) [OF True] by (simp add: agrees_def word_le_nat_alt)
  then have "unat (tx_fee tx) + unat ?r < 2 ^ 64" using unat_u64 [of "acc_balance ?p"] by simp
  then have sum: "unat (tx_fee tx + ?r) = unat (tx_fee tx) + unat ?r" by (rule unat_add_small)
  have "chargeSponsor tx ?r a = (None, set_acc ?k (?p\<lparr>acc_balance := acc_balance ?p - tx_fee tx\<rparr>) a)"
    using True le sum by (simp add: chargeSponsor_def Let_def word_less_nat_alt)
  moreover have "mirrors bc (debitSponsor bc tx cache) (set_acc ?k (?p\<lparr>acc_balance := acc_balance ?p - tx_fee tx\<rparr>) a)"
    using True mirrors_write [OF assms(1) agrees_pay [OF ag assms(3) [OF True]]] by (simp add: debitSponsor_def Let_def)
  ultimately show ?thesis using True same_names_write [OF assms(2)] by auto
qed (use assms(1) in \<open>simp add: chargeSponsor_def debitSponsor_def\<close>)

text \<open>The sender's write followed by the sponsor's.\<close>

lemma sender_mirrors:
  assumes "mirrors bc cache a" "CheckTxSanity cfg tx = None" "agrees (reserve bc (tx_from tx)) v s"
    and "IsSponsored tx \<Longrightarrow> tx_fee tx \<le> sim_balance (sim_get bc cache (tx_fee_payer tx))"
  shows "\<exists>a'. chargeSponsor tx (if IsSponsored tx then reserve bc (tx_fee_payer tx) else 0) (set_acc (tx_from tx) v a) = (None, a')
    \<and> mirrors bc (debitSponsor bc tx (fmupd (tx_from tx) s cache)) a' \<and> same_names a a'"
proof -
  note nk = sane_not_name_keys [OF assms(2)]
  have "IsSponsored tx \<Longrightarrow> tx_fee tx \<le> sim_balance (sim_get bc (fmupd (tx_from tx) s cache) (tx_fee_payer tx))"
    using assms(4) sane_sponsor_not_sender [OF assms(2)] by simp
  from sponsor_mirrors [OF mirrors_write [OF assms(1,3)] nk(3) this]
  show ?thesis using same_names_trans [OF same_names_write [OF nk(1)]] by blast
qed

lemma balance_le_supply: "unat (acc_balance (get_acc a k)) \<le> coin_supply (app_state a)"
proof -
  have "coin_supply (app_state a) = (\<Sum>x \<in> insert k (fmdom' (app_state a)). unat (acc_balance (state_Get (app_state a) x)))"
    unfolding coin_supply_def by (rule coin.sum_cover) auto
  then show ?thesis using member_le_sum [of k "insert k (fmdom' (app_state a))" "\<lambda>x. unat (acc_balance (state_Get (app_state a) x))"]
    by simp
qed

lemma credit_mirrors:
  assumes "mirrors bc cache a" "coin_supply (app_state a) + outputs_nat outs < 2 ^ 64"
    and "\<forall>out \<in> set outs. \<not> isNameKey (out_to out)"
  shows "\<exists>a'. credit_outputs outs a = (None, a') \<and> mirrors bc (fold (sim_credit bc) outs cache) a' \<and> same_names a a'"
  using assms
proof (induction outs arbitrary: cache a)
  case (Cons out outs)
  let ?k = "out_to out" and ?n = "out_amount out"
  let ?v = "get_acc a ?k" and ?s = "sim_get bc cache ?k"
  let ?v1 = "?v\<lparr>acc_balance := acc_balance ?v + ?n\<rparr>"
  have nk: "\<not> isNameKey ?k" using Cons.prems(3) by simp
  have ag: "agrees (reserve bc ?k) ?v ?s" by (rule mirrors_get [OF Cons.prems(1) nk])
  have "unat (acc_balance ?v) + unat ?n < 2 ^ 64"
    using balance_le_supply [of a ?k] Cons.prems(2) by (simp add: outputs_nat_def)
  then have sum: "unat (acc_balance ?v + ?n) = unat (acc_balance ?v) + unat ?n" by (rule unat_add_small)
  then have "unat (sim_balance ?s + ?n) = unat (sim_balance ?s) + unat ?n"
    using ag unat_u64 [of "acc_balance ?v + ?n"] by (intro unat_add_small) (simp add: agrees_def)
  with ag sum have "agrees (reserve bc ?k) ?v1 (?s\<lparr>sim_balance := sim_balance ?s + ?n\<rparr>)" by (simp add: agrees_def)
  then have m1: "mirrors bc (sim_credit bc out cache) (set_acc ?k ?v1 a)"
    using mirrors_write [OF Cons.prems(1)] by (simp add: sim_credit_def Let_def)
  have more: "coin_supply (app_state (set_acc ?k ?v1 a)) = coin_supply (app_state a) + unat ?n"
    using coin_supply_set [of ?k ?v1 a] sum by simp
  obtain a' where "credit_outputs outs (set_acc ?k ?v1 a) = (None, a')"
    "mirrors bc (fold (sim_credit bc) outs (sim_credit bc out cache)) a'" "same_names (set_acc ?k ?v1 a) a'"
    using Cons.IH [OF m1] Cons.prems(2,3) more by (auto simp: outputs_nat_def)
  moreover have "\<not> acc_balance ?v + ?n < acc_balance ?v" using sum by (simp add: word_less_nat_alt)
  ultimately show ?case using same_names_trans [OF same_names_write [OF nk]] by (auto simp: Let_def)
qed simp


section \<open>One transaction\<close>

text \<open>
  Two kinds of transaction pass the context-free rules and never apply: an asset operation with an
  output list, and a non-fungible issue of a wrong supply or with bad metadata.
\<close>

definition applicable :: "transaction \<Rightarrow> bool" where
  "applicable tx \<longleftrightarrow> \<not> (IsAssetOp tx \<and> IsMultiOutput tx)
     \<and> (case tx_issue tx of None \<Rightarrow> True
        | Some i \<Rightarrow> IsNonFungible (Some i) \<longrightarrow> validMetadata (iss_metadata i) = None \<and> iss_supply i = 1)"

text \<open>What a name operation needs of the record it acts on, as \<open>nameOpMineable\<close> asks for it.\<close>

definition name_open :: "transaction \<Rightarrow> u64 \<Rightarrow> app \<Rightarrow> bool" where
  "name_open tx height a \<longleftrightarrow>
     (case tx_name tx of None \<Rightarrow> True
      | Some n \<Rightarrow> let r = nameRecordOf (nop_name n) (get_acc a (nameStateKey (nop_name n))) in
          if nop_op n = NameOpRegister then \<not> heldAt r height else heldAt r height \<and> rec_owner r = tx_from tx)"

definition sim_outcome :: "chain \<Rightarrow> transaction \<Rightarrow> (string, sim_account) fmap \<Rightarrow> app \<Rightarrow> tx_error option \<times> app \<Rightarrow> bool" where
  "sim_outcome bc tx cache a r \<longleftrightarrow> (\<exists>a'. r = (None, a') \<and> mirrors bc cache a'
     \<and> (\<forall>n. map_option nop_name (tx_name tx) \<noteq> Some n \<longrightarrow> get_acc a' (nameStateKey n) = get_acc a (nameStateKey n)))"

lemma sim_outcomeI: "r = (None, a') \<Longrightarrow> mirrors bc cache a' \<Longrightarrow> same_names a a' \<Longrightarrow> sim_outcome bc tx cache a r"
  by (simp add: sim_outcome_def same_names_def)

abbreviation payer_reserve :: "chain \<Rightarrow> transaction \<Rightarrow> u64" where
  "payer_reserve bc tx \<equiv> (if IsSponsored tx then reserve bc (tx_fee_payer tx) else 0)"

text \<open>The hypotheses of every case: the transaction is the sender's next and the selection found it affordable.\<close>

definition pickable :: "config \<Rightarrow> chain \<Rightarrow> (string, sim_account) fmap \<Rightarrow> transaction \<Rightarrow> app \<Rightarrow> bool" where
  "pickable cfg bc cache tx a \<longleftrightarrow> mirrors bc cache a \<and> CheckTxSanity cfg tx = None \<and> applicable tx
     \<and> affordable bc cache tx \<and> tx_nonce tx = sim_nonce (sim_get bc cache (tx_from tx))"

lemma pickable_facts:
  assumes "pickable cfg bc cache tx a"
  shows "agrees (reserve bc (tx_from tx)) (get_acc a (tx_from tx)) (sim_get bc cache (tx_from tx))"
    "IsSponsored tx \<Longrightarrow> tx_fee tx \<le> sim_balance (sim_get bc cache (tx_fee_payer tx))"
    "CheckTxSanity cfg tx = None" "mirrors bc cache a" "tx_nonce tx = sim_nonce (sim_get bc cache (tx_from tx))"
proof -
  show "agrees (reserve bc (tx_from tx)) (get_acc a (tx_from tx)) (sim_get bc cache (tx_from tx))"
    using assms sane_not_name_keys(1) [of cfg tx] by (simp add: pickable_def mirrors_get)
  show "IsSponsored tx \<Longrightarrow> tx_fee tx \<le> sim_balance (sim_get bc cache (tx_fee_payer tx))"
    using assms by (auto simp: pickable_def affordable_def Let_def not_less split: if_splits)
qed (use assms in \<open>simp_all add: pickable_def\<close>)

text \<open>What sanity says of the amounts of a coin transfer.\<close>

lemma sane_coin_form:
  assumes "CheckTxSanity cfg tx = None" "tx_name tx = None" "tx_issue tx = None" "tx_asset_op tx = None" "\<not> IsAssetTransfer tx"
  shows "\<exists>out. TotalOut tx = Some out \<and> \<not> (out = 0 \<and> tx_fee tx = 0) \<and> \<not> out + tx_fee tx < out"
proof (cases "IsMultiOutput tx")
  case True
  have each: "out_amount x \<noteq> 0" if "check_each_output i outs = None" "x \<in> set outs" for i x outs
    using that by (induction outs arbitrary: i) (auto split: if_splits)
  have "checkOutputs tx = None" using sane_forms(1) [OF assms(1)] True by (simp add: checkForm_def)
  then obtain out where out: "TotalOut tx = Some out" "\<not> out + tx_fee tx < out" "check_each_output 0 (tx_outputs tx) = None"
    by (auto simp: checkOutputs_def split: if_splits option.splits)
  obtain x xs where x: "tx_outputs tx = x # xs" using True by (auto simp: IsMultiOutput_def neq_Nil_conv)
  then have "unat (out_amount x) \<le> unat out" "unat (out_amount x) \<noteq> 0"
    using TotalOut_nat [OF out(1)] True each [OF out(3), of x] by (simp_all add: outputs_def outputs_nat_def unat_eq_0)
  then have "out \<noteq> 0" by auto
  then show ?thesis using out by blast
next
  case False
  then show ?thesis using sane_forms(1) [OF assms(1)] assms(2-5)
    by (auto simp: checkForm_def TotalOut_def IsAssetOp_def IsNameOp_def split: if_splits)
qed

lemma nameOpRecord_open:
  assumes "if nop_op n = NameOpRegister then \<not> heldAt r height else heldAt r height \<and> rec_owner r = sender"
  shows "\<exists>r'. nameOpRecord n sender height r = Inr r'"
  using assms by (cases "nop_op n = NameOpRegister") (simp_all add: nameOpRecord_def)

lemma name_mirrors:
  assumes p: "pickable cfg bc cache tx a" and n: "tx_name tx = Some n" and free: "name_open tx height a"
  shows "sim_outcome bc tx (simulate cfg bc tx cache) a (applyNameOp tx n height (reserve bc (tx_from tx)) (payer_reserve bc tx) a)"
proof -
  note f = pickable_facts [OF p]
  let ?s = "sim_get bc cache (tx_from tx)" and ?v = "get_acc a (tx_from tx)" and ?key = "nameStateKey (nop_name n)"
  have form: "NameOp_Validate (Some n) = None" "tx_amount tx = 0" "tx_asset_id tx = []" "tx_issue tx = None"
    "tx_asset_op tx = None" "tx_outputs tx = []"
    using sane_forms(3) [OF f(3)] n by (auto simp: checkNameForm_def IsNameOp_def split: if_splits)
  then have "txCoinCost tx = senderFee tx"
    by (simp add: txCoinCost_def Let_def IsIssue_def IsAssetTransfer_def TotalOut_def IsMultiOutput_def)
  then have fee: "senderFee tx \<le> sim_balance ?s"
    using p form by (auto simp: pickable_def affordable_def Let_def IsIssue_def IsAssetTransfer_def split: if_splits)
  let ?r = "nameRecordOf (nop_name n) (get_acc a (nameStateKey (nop_name n)))"
  have "if nop_op n = NameOpRegister then \<not> heldAt ?r height else heldAt ?r height \<and> rec_owner ?r = tx_from tx"
    using free n unfolding name_open_def Let_def by simp
  from nameOpRecord_open [OF this] obtain r where r: "nameOpRecord n (tx_from tx) height (nameRecordOf (nop_name n) (get_acc a ?key)) = Inr r"
    by blast
  have ag: "agrees (reserve bc (tx_from tx)) (debit ?v (senderFee tx)) (?s\<lparr>sim_balance := sim_balance ?s - senderFee tx, sim_nonce := sim_nonce ?s + 1\<rparr>)"
    by (rule agrees_debit [OF f(1) fee])
  let ?a1 = "set_acc ?key (name_account r) (set_acc (tx_from tx) (debit ?v (senderFee tx)) a)"
  have m1: "mirrors bc (fmupd (tx_from tx) (?s\<lparr>sim_balance := sim_balance ?s - senderFee tx, sim_nonce := sim_nonce ?s + 1\<rparr>) cache) ?a1"
    by (rule mirrors_name [OF mirrors_write [OF f(4) ag]]) simp
  have sp: "IsSponsored tx \<Longrightarrow> tx_fee tx \<le> sim_balance (sim_get bc (fmupd (tx_from tx)
      (?s\<lparr>sim_balance := sim_balance ?s - senderFee tx, sim_nonce := sim_nonce ?s + 1\<rparr>) cache) (tx_fee_payer tx))"
    using f(2) sane_sponsor_not_sender [OF f(3)] by simp
  obtain a' where a': "chargeSponsor tx (payer_reserve bc tx) ?a1 = (None, a')" "mirrors bc (simulate cfg bc tx cache) a'" "same_names ?a1 a'"
    using sponsor_mirrors [OF m1 sane_not_name_keys(3) [OF f(3)] sp] n by (auto simp: simulate_def Let_def IsNameOp_def)
  have "applyNameOp tx n height (reserve bc (tx_from tx)) (payer_reserve bc tx) a = (None, a')"
    using a'(1) r form(1) agrees_fee [OF f(1,5) fee] by (simp add: applyNameOp_def Let_def)
  moreover have "get_acc a' (nameStateKey k) = get_acc a (nameStateKey k)" if "nop_name n \<noteq> k" for k
  proof -
    have "nameStateKey k \<noteq> tx_from tx" using sane_not_name_keys(1) [OF f(3)] by (metis isNameKey_nameStateKey)
    then show ?thesis using a'(3) that by (simp add: same_names_def)
  qed
  ultimately show ?thesis using a'(2) n by (simp add: sim_outcome_def)
qed

lemma issue_mirrors:
  assumes p: "pickable cfg bc cache tx a" and i: "tx_name tx = None" "tx_issue tx = Some i"
  shows "sim_outcome bc tx (simulate cfg bc tx cache) a (applyIssue cfg tx i (reserve bc (tx_from tx)) (payer_reserve bc tx) a)"
proof -
  note f = pickable_facts [OF p]
  let ?s = "sim_get bc cache (tx_from tx)" and ?v = "get_acc a (tx_from tx)"
    and ?id = "IssuedAssetID cfg (tx_from tx) (tx_nonce tx) i"
  have "\<not> IsMultiOutput tx" using sane_forms(1) [OF f(3)] i by (auto simp: checkForm_def checkOutputs_def split: if_splits)
  then have form: "validTicker (iss_ticker i) = None" "\<not> (iss_supply i = 0 \<or> MaxAssetSupply < iss_supply i)"
    using sane_forms(1) [OF f(3)] i by (auto simp: checkForm_def checkIssue_def split: if_splits)
  have nf: "IsNonFungible (Some i) \<Longrightarrow> validMetadata (iss_metadata i) = None \<and> iss_supply i = 1"
    using p i by (simp add: pickable_def applicable_def)
  have fee: "senderFee tx \<le> sim_balance ?s"
    using p i by (auto simp: pickable_def affordable_def Let_def IsIssue_def split: if_splits)
  note ag = agrees_asset [OF agrees_debit [OF f(1) fee], of ?id "iss_supply i"]
  obtain a' where a': "chargeSponsor tx (payer_reserve bc tx) (set_acc (tx_from tx)
      (withAssetDelta (debit ?v (senderFee tx)) ?id (iss_supply i)) a) = (None, a')"
    "mirrors bc (simulate cfg bc tx cache) a'" "same_names a a'"
    using sender_mirrors [OF f(4,3) ag f(2)] i by (auto simp: simulate_def Let_def IsNameOp_def)
  have "applyIssue cfg tx i (reserve bc (tx_from tx)) (payer_reserve bc tx) a = (None, a')"
    using a'(1) form nf agrees_fee [OF f(1,5) fee] by (cases "IsNonFungible (Some i)") (auto simp: applyIssue_def Let_def)
  then show ?thesis using a'(2,3) by (rule sim_outcomeI)
qed

lemma asset_op_mirrors:
  assumes p: "pickable cfg bc cache tx a" and o: "tx_name tx = None" "tx_issue tx = None" "tx_asset_op tx = Some opr"
  shows "sim_outcome bc tx (simulate cfg bc tx cache) a (applyAssetOp cfg tx opr (reserve bc (tx_from tx)) (payer_reserve bc tx) a)"
proof -
  note f = pickable_facts [OF p]
  let ?s = "sim_get bc cache (tx_from tx)" and ?v = "get_acc a (tx_from tx)" and ?i = "tx_asset_id tx"
  let ?d = "if aop_op opr = AssetOpMint then aop_amount opr else - aop_amount opr"
  have "\<not> IsMultiOutput tx" using p o by (simp add: pickable_def applicable_def IsAssetOp_def)
  then have form: "AssetOp_Validate (Some opr) = None" "AuthorizedBy cfg (Some opr) (tx_from tx) ?i"
    using sane_forms(1) [OF f(3)] o by (auto simp: checkForm_def checkAssetOp_def IsAssetOp_def split: if_splits)
  have fee: "senderFee tx \<le> sim_balance ?s" and op: "aop_op opr = AssetOpMint \<or> aop_op opr = AssetOpBurn"
    using p o by (auto simp: pickable_def affordable_def Let_def IsIssue_def split: if_splits)
  have "fmget 0 (acc_assets ?v) ?i = fmget 0 (sim_assets ?s) ?i" using f(1) by (simp add: agrees_def)
  then have delta: "assetOpDelta opr (fmget 0 (acc_assets ?v) ?i) = Inr ?d"
    using p o op by (auto simp: pickable_def affordable_def assetOpDelta_def Let_def IsIssue_def split: if_splits)
  note ag = agrees_asset [OF agrees_debit [OF f(1) fee], of ?i ?d]
  have sim: "(if aop_op opr = AssetOpMint then sim_asset ?i (aop_amount opr) s
      else if aop_op opr = AssetOpBurn then sim_asset ?i (- aop_amount opr) s else s) = sim_asset ?i ?d s" for s
    using op by auto
  obtain a' where a': "chargeSponsor tx (payer_reserve bc tx) (set_acc (tx_from tx)
      (withAssetDelta (debit ?v (senderFee tx)) ?i ?d) a) = (None, a')"
    "mirrors bc (simulate cfg bc tx cache) a'" "same_names a a'"
    using sender_mirrors [OF f(4,3) ag f(2)] o sim by (auto simp: simulate_def Let_def IsNameOp_def)
  have "applyAssetOp cfg tx opr (reserve bc (tx_from tx)) (payer_reserve bc tx) a = (None, a')"
    using a'(1) form delta agrees_fee [OF f(1,5) fee] by (simp add: applyAssetOp_def Let_def)
  then show ?thesis using a'(2,3) by (rule sim_outcomeI)
qed

lemma asset_transfer_mirrors:
  assumes p: "pickable cfg bc cache tx a" and o: "tx_name tx = None" "tx_issue tx = None" "tx_asset_op tx = None"
    and tr: "IsAssetTransfer tx"
  shows "sim_outcome bc tx (simulate cfg bc tx cache) a (applyAssetTransfer tx (reserve bc (tx_from tx)) (payer_reserve bc tx) a)"
proof -
  note f = pickable_facts [OF p]
  let ?s = "sim_get bc cache (tx_from tx)" and ?v = "get_acc a (tx_from tx)" and ?i = "tx_asset_id tx"
  let ?s1 = "sim_asset ?i (- tx_amount tx) (?s\<lparr>sim_balance := sim_balance ?s - senderFee tx, sim_nonce := sim_nonce ?s + 1\<rparr>)"
  let ?c1 = "debitSponsor bc tx (fmupd (tx_from tx) ?s1 cache)"
  have "\<not> IsMultiOutput tx" using sane_forms(1) [OF f(3)] tr by (auto simp: checkForm_def checkOutputs_def IsAssetTransfer_def split: if_splits)
  then have amount: "tx_amount tx \<noteq> 0"
    using sane_forms(1) [OF f(3)] o tr by (auto simp: checkForm_def IsAssetOp_def IsNameOp_def split: if_splits)
  have fee: "senderFee tx \<le> sim_balance ?s" and held: "tx_amount tx \<le> fmget 0 (sim_assets ?s) ?i"
    using p o tr by (auto simp: pickable_def affordable_def Let_def IsIssue_def split: if_splits)
  note ag = agrees_asset [OF agrees_debit [OF f(1) fee], of ?i "- tx_amount tx"]
  obtain a1 where a1: "chargeSponsor tx (payer_reserve bc tx) (set_acc (tx_from tx)
      (withAssetDelta (debit ?v (senderFee tx)) ?i (- tx_amount tx)) a) = (None, a1)" "mirrors bc ?c1 a1" "same_names a a1"
    using sender_mirrors [OF f(4,3) ag f(2)] by blast
  note nk = sane_not_name_keys(2) [OF f(3)]
  let ?a2 = "set_acc (tx_to tx) (withAssetDelta (get_acc a1 (tx_to tx)) ?i (tx_amount tx)) a1"
  have "mirrors bc (fmupd (tx_to tx) (sim_asset ?i (tx_amount tx) (sim_get bc ?c1 (tx_to tx))) ?c1) ?a2"
    by (rule mirrors_write [OF a1(2) agrees_asset [OF mirrors_get [OF a1(2) nk]]])
  then have "mirrors bc (simulate cfg bc tx cache) ?a2" using o tr by (simp add: simulate_def Let_def IsNameOp_def)
  moreover have "applyAssetTransfer tx (reserve bc (tx_from tx)) (payer_reserve bc tx) a = (None, ?a2)"
    using a1(1) amount held f(1) agrees_fee [OF f(1,5) fee] by (simp add: applyAssetTransfer_def Let_def bind_err_def agrees_def not_less)
  ultimately show ?thesis using same_names_trans [OF a1(3) same_names_write [OF nk]] by (intro sim_outcomeI)
qed

lemma coin_mirrors:
  assumes p: "pickable cfg bc cache tx a" and o: "tx_name tx = None" "tx_issue tx = None" "tx_asset_op tx = None" "\<not> IsAssetTransfer tx"
    and small: "coin_supply (app_state a) < 2 ^ 64"
  shows "sim_outcome bc tx (simulate cfg bc tx cache) a (applyCoinTransfer tx (reserve bc (tx_from tx)) (payer_reserve bc tx) a)"
proof -
  note f = pickable_facts [OF p]
  let ?s = "sim_get bc cache (tx_from tx)" and ?v = "get_acc a (tx_from tx)" and ?r = "reserve bc (tx_from tx)"
  obtain out where out: "TotalOut tx = Some out" "\<not> (out = 0 \<and> tx_fee tx = 0)" "\<not> out + tx_fee tx < out"
    using sane_coin_form [OF f(3) o] by blast
  let ?tot = "out + senderFee tx"
  have nw: "\<not> ?tot < out" using out(3) by (simp add: senderFee_def)
  have cost: "txCoinCost tx = ?tot" using out(1) o by (simp add: txCoinCost_def Let_def IsIssue_def)
  then have fee: "?tot \<le> sim_balance ?s"
    using p o by (auto simp: pickable_def affordable_def Let_def IsIssue_def split: if_splits)
  have le: "unat ?tot + unat ?r \<le> unat (acc_balance ?v)" using f(1) fee by (simp add: agrees_def word_le_nat_alt)
  then have "unat ?tot + unat ?r < 2 ^ 64" using unat_u64 [of "acc_balance ?v"] by simp
  then have sum: "unat (?tot + ?r) = unat ?tot + unat ?r" by (rule unat_add_small)
  let ?s1 = "?s\<lparr>sim_balance := sim_balance ?s - ?tot, sim_nonce := sim_nonce ?s + 1\<rparr>"
  let ?c1 = "debitSponsor bc tx (fmupd (tx_from tx) ?s1 cache)"
  obtain a1 where a1: "chargeSponsor tx (payer_reserve bc tx) (set_acc (tx_from tx) (debit ?v ?tot) a) = (None, a1)"
    "mirrors bc ?c1 a1" "same_names a a1"
    using sender_mirrors [OF f(4,3) agrees_debit [OF f(1) fee] f(2)] by blast
  have "unat ?tot = unat out + unat (senderFee tx)" using no_wrap_le [OF nw] by simp
  moreover have "?tot \<le> acc_balance ?v" using le by (simp add: word_le_nat_alt)
  then have "coin_supply (app_state a1) + unat ?tot \<le> coin_supply (app_state a)"
    using coin_supply_debit [of ?tot a "tx_from tx" "debit ?v ?tot"] chargeSponsor_ok(1) [OF a1(1)] by simp
  ultimately have "coin_supply (app_state a1) + outputs_nat (outputs tx) < 2 ^ 64"
    using small TotalOut_nat [OF out(1)] by linarith
  then obtain a' where a': "credit_outputs (outputs tx) a1 = (None, a')"
    "mirrors bc (fold (sim_credit bc) (outputs tx) ?c1) a'" "same_names a1 a'"
    using credit_mirrors [OF a1(2)] sane_outputs_not_name [OF f(3)] by blast
  have "mirrors bc (simulate cfg bc tx cache) a'" using a'(2) o cost by (simp add: simulate_def Let_def IsNameOp_def)
  moreover have "\<not> ?tot + ?r < ?tot" "\<not> acc_balance ?v < ?tot + ?r" "tx_nonce tx = acc_nonce ?v"
    using sum le f(1,5) by (simp_all add: word_less_nat_alt agrees_def)
  then have "applyCoinTransfer tx ?r (payer_reserve bc tx) a = (None, a')"
    using a1(1) a'(1) out(1,2) nw by (simp add: applyCoinTransfer_def Let_def bind_err_def)
  ultimately show ?thesis using same_names_trans [OF a1(3) a'(3)] by (intro sim_outcomeI)
qed


text \<open>A transaction the selection may take is applied, and the simulation still mirrors the ledger.\<close>

lemma sim_step:
  assumes p: "pickable cfg bc cache tx a" and sig: "VerifySignature cfg tx = None"
    and free: "name_open tx height a" and small: "coin_supply (app_state a) < 2 ^ 64"
  shows "sim_outcome bc tx (simulate cfg bc tx cache) a (applyTxTo cfg tx height (reserve bc (tx_from tx)) (payer_reserve bc tx) a)"
proof -
  obtain c where c: "cache_Verify cfg tx (app_cache a) = (None, c)"
  proof -
    have "fst (cache_Verify cfg tx (app_cache a)) = None"
      using sig by (cases "app_cache a") (simp_all add: cache_Verify_def Let_def)
    then show ?thesis using that by (metis prod.collapse)
  qed
  let ?a = "a\<lparr>app_cache := c\<rparr>"
  have p': "pickable cfg bc cache tx ?a" using p by (simp add: pickable_def)
  have free': "name_open tx height ?a" and small': "coin_supply (app_state ?a) < 2 ^ 64"
    using free small by (auto simp: name_open_def Let_def split: option.splits)
  have same: "sim_outcome bc tx cc ?a r = sim_outcome bc tx cc a r" for cc r by (simp add: sim_outcome_def)
  note forms = name_mirrors [OF p'] issue_mirrors [OF p'] asset_op_mirrors [OF p'] asset_transfer_mirrors [OF p'] coin_mirrors [OF p']
  show ?thesis
  proof (cases "tx_name tx")
    case None
    then show ?thesis using forms small' unfolding same
      by (cases "tx_issue tx"; cases "tx_asset_op tx"; cases "IsAssetTransfer tx") (simp_all add: applyTxTo_def c Let_def)
  qed (use forms(1) free' in \<open>simp add: applyTxTo_def c Let_def same\<close>)
qed

section \<open>The selection loop\<close>

lemma apply_txs_snoc:
  assumes "apply_txs cfg blocks height bf i txs seen tips burned a = (None, t, b, a1)"
  shows "apply_txs cfg blocks height bf i (txs @ [tx]) seen tips burned a
    = apply_txs cfg blocks height bf (i + length txs) [tx] (rev (map (tx_hash cfg) txs) @ seen) t b a1"
  using assms
proof (induction txs arbitrary: i seen tips burned a)
  case (Cons x txs)
  from Cons.prems show ?case
  proof (rule apply_txs_ConsE)
    fix a2
    assume ok: "CheckTxSanity cfg x = None" "checkTxAtHeight cfg x height = None" "BaseFeeFor cfg x bf \<le> tx_fee x" "tx_hash cfg x \<notin> set seen"
      "applyTxTo cfg x height (immatureCoinbase blocks height (tx_from x))
         (if IsSponsored x then immatureCoinbase blocks height (tx_fee_payer x) else 0) a = (None, a2)"
      and rest: "apply_txs cfg blocks height bf (Suc i) txs (tx_hash cfg x # seen)
         (tips + (tx_fee x - BaseFeeFor cfg x bf)) (burned + BaseFeeFor cfg x bf) a2 = (None, t, b, a1)"
    have "\<not> IsCoinbase x" using sane_forms(4) [OF ok(1)] .
    moreover have "apply_txs cfg blocks height bf i ((x # txs) @ [tx]) seen tips burned a
        = apply_txs cfg blocks height bf (Suc i) (txs @ [tx]) (tx_hash cfg x # seen)
           (tips + (tx_fee x - BaseFeeFor cfg x bf)) (burned + BaseFeeFor cfg x bf) a2"
      using ok \<open>\<not> IsCoinbase x\<close> by (simp add: Let_def leD)
    ultimately show ?thesis using Cons.IH [OF rest] by simp
  qed
qed simp

abbreviation next_height :: "chain \<Rightarrow> u64" where
  "next_height bc \<equiv> of_nat (length (bc_blocks bc))"

definition applied :: "chain \<Rightarrow> vcache option \<Rightarrow> transaction list \<Rightarrow> app \<Rightarrow> bool" where
  "applied bc vc txs a \<longleftrightarrow> (\<exists>t b. apply_txs (bc_cfg bc) (bc_blocks bc) (next_height bc) (NextBaseFee bc) 1 txs [] 0 0
     \<lparr>app_state = bc_state bc, app_undo = [], app_cache = vc\<rparr> = (None, t, b, a))"

definition candidate_ok :: "chain \<Rightarrow> mempool \<Rightarrow> string \<Rightarrow> sel_candidate \<Rightarrow> bool" where
  "candidate_ok bc m s c \<longleftrightarrow> tx_from (sc_tx c) = s \<and> fmlookup (mp_txs m) (tx_hash (bc_cfg bc) (sc_tx c)) = Some (sc_tx c)
     \<and> (\<exists>rates. candidate_for (bc_cfg bc) bc rates (sc_tx c) = Some c)"

definition sel_ok :: "chain \<Rightarrow> mempool \<Rightarrow> vcache option \<Rightarrow> selection \<Rightarrow> bool" where
  "sel_ok bc m vc sel \<longleftrightarrow>
     (\<exists>a. applied bc vc (sel_txs sel) a \<and> mirrors bc (sel_cache sel) a
        \<and> (\<forall>n. n \<notin> set (sel_names sel) \<longrightarrow> get_acc a (nameStateKey n) = state_Get (bc_state bc) (nameStateKey n)))
   \<and> (\<forall>tx \<in> set (sel_txs sel). fmlookup (mp_txs m) (tx_hash (bc_cfg bc) tx) = Some tx)
   \<and> (\<forall>(s, cs) \<in> set (sel_queues sel). \<forall>c \<in> set cs. candidate_ok bc m s c)
   \<and> sel_weight sel = sum_list (map (tx_size (bc_cfg bc)) (sel_txs sel)) \<and> sel_weight sel \<le> MaxBlockBytes
   \<and> sel_ops sel = sum_list (map VerifyOps (sel_txs sel)) \<and> sel_ops sel \<le> MaxBlockVerifyOps"

text \<open>A hash selected once does not come again: the sender's nonce has moved past it.\<close>

lemma applied_fresh:
  assumes "applied bc vc txs a" "\<forall>t \<in> set txs. fmlookup (mp_txs m) (tx_hash (bc_cfg bc) t) = Some t"
    and "fmlookup (mp_txs m) (tx_hash (bc_cfg bc) tx) = Some tx" "tx_nonce tx = acc_nonce (get_acc a (tx_from tx))"
    and "\<not> isNameKey (tx_from tx)" "length txs < 2 ^ 64"
  shows "tx_hash (bc_cfg bc) tx \<notin> tx_hash (bc_cfg bc) ` set txs"
proof
  assume "tx_hash (bc_cfg bc) tx \<in> tx_hash (bc_cfg bc) ` set txs"
  then obtain t where t: "t \<in> set txs" "tx_hash (bc_cfg bc) tx = tx_hash (bc_cfg bc) t" by blast
  have "t = tx" using assms(2,3) t by fastforce
  let ?k = "tx_from tx" and ?n = "acc_nonce (state_Get (bc_state bc) (tx_from tx))"
  let ?c = "length (filter (\<lambda>t. tx_from t = ?k) txs)"
  obtain tp bn where run: "apply_txs (bc_cfg bc) (bc_blocks bc) (next_height bc) (NextBaseFee bc) 1 txs [] 0 0
     \<lparr>app_state = bc_state bc, app_undo = [], app_cache = vc\<rparr> = (None, tp, bn, a)" using assms(1) by (auto simp: applied_def)
  note nn = apply_txs_nonces [OF run assms(5)]
  have "tx_nonce tx \<in> set (map tx_nonce (filter (\<lambda>t. tx_from t = ?k) txs))" using t(1) \<open>t = tx\<close> by auto
  then obtain j where j: "j < ?c" "tx_nonce tx = ?n + of_nat j" using nn by auto
  moreover have "tx_nonce tx = ?n + of_nat ?c" using nn assms(4) by simp
  ultimately have "(of_nat j :: u64) = of_nat ?c" by simp
  moreover have "?c < 2 ^ 64" using assms(6) length_filter_le [of "\<lambda>t. tx_from t = ?k" txs] by linarith
  ultimately have "j = ?c" using of_nat_eq_small [of j ?c] j(1) by simp
  then show False using j(1) by simp
qed

text \<open>The names a block has not touched are as the chain has them, so what \<open>nameOpMineable\<close> found still holds.\<close>

lemma mineable_open:
  assumes "nameOpMineable bc tx h" "tx_name tx = Some n"
    and "get_acc a (nameStateKey (nop_name n)) = state_Get (bc_state bc) (nameStateKey (nop_name n))"
  shows "name_open tx h a"
proof -
  have "fst (LookupName (nop_name n) bc) = nameRecordOf (nop_name n) (state_Get (bc_state bc) (nameStateKey (nop_name n)))"
    by (simp add: LookupName_def state_Get_Lookup nameRecordOf_def zero_account_def Let_def split: option.split)
  then show ?thesis using assms by (simp add: name_open_def nameOpMineable_def Let_def)
qed

lemma candidate_facts:
  assumes "candidate_for cfg bc rates tx = Some c"
  shows "sc_tx c = tx" "sc_size c = tx_size cfg tx" "sc_ops c = VerifyOps tx" "\<not> tx_fee tx < BaseFeeFor cfg tx (NextBaseFee bc)"
    "CheckTxSanity cfg tx = None" "checkTxAtHeight cfg tx (blk_index (bc_tip bc) + 1) = None"
    "IsNameOp tx \<Longrightarrow> nameOpMineable bc tx (blk_index (bc_tip bc) + 1)"
  using assms by (auto simp: candidate_for_def Let_def BaseFeeFor_def split: if_splits)

lemma ready_facts:
  assumes "ready bc sel (s, cs) = Some c"
  shows "c \<in> set cs" "tx_nonce (sc_tx c) = sim_nonce (sim_get bc (sel_cache sel) s)"
    "sel_weight sel + sc_size c \<le> MaxBlockBytes" "sel_ops sel + sc_ops c \<le> MaxBlockVerifyOps"
    "affordable bc (sel_cache sel) (sc_tx c)" "tx_name (sc_tx c) = Some n \<Longrightarrow> nop_name n \<notin> set (sel_names sel)"
  using assms by (auto simp: ready_def split: list.splits if_splits option.splits)

text \<open>
  The setting of a miner: a chain its operations reached, and a pool its operations reached that holds
  no transaction of the two kinds above.
\<close>

definition mining :: "chain \<Rightarrow> mempool \<Rightarrow> bool" where
  "mining bc m \<longleftrightarrow> (\<exists>cfg table. reachable_chain cfg table bc) \<and> reachable_pool (bc_cfg bc) m \<and> all_txs applicable m"

lemma miningE:
  assumes "mining bc m"
  obtains cfg table where "reachable_chain cfg table bc" "pool_ok (bc_cfg bc) m" "all_txs applicable m"
  using assms reachable_pool_ok unfolding mining_def by blast

lemma mining_height: assumes "mining bc m" shows "blk_index (bc_tip bc) + 1 = next_height bc"
  using assms
proof (rule miningE)
  fix cfg table assume chain: "reachable_chain cfg table bc"
  show ?thesis using reachable_tip(1) [OF chain] reachable_facts(3) [OF chain] by (simp add: of_nat_diff Suc_leI)
qed

lemma mining_coin: assumes "mining bc m" shows "coin_supply (bc_state bc) \<le> 2100000000000000"
  using assms
proof (rule miningE)
  fix cfg table assume chain: "reachable_chain cfg table bc"
  show ?thesis using ledger_coin [OF reachable_facts(1) [OF chain]] reachable_facts(2) [OF chain] minted_upto_bound [of "length (bc_blocks bc) - 1"]
    by simp
qed

lemma applied_coin:
  assumes "mining bc m" "applied bc vc txs a"
  shows "coin_supply (app_state a) < 2 ^ 64"
proof -
  obtain t b where run: "apply_txs (bc_cfg bc) (bc_blocks bc) (next_height bc) (NextBaseFee bc) 1 txs [] 0 0
     \<lparr>app_state = bc_state bc, app_undo = [], app_cache = vc\<rparr> = (None, t, b, a)" using assms(2) by (auto simp: applied_def)
  from apply_txs_coin(1) [OF this] mining_coin [OF assms(1)] show ?thesis by simp
qed

lemma mining_start: assumes "mining bc m" shows "mirrors bc fmempty \<lparr>app_state = bc_state bc, app_undo = [], app_cache = vc\<rparr>"
  using assms
proof (rule miningE)
  fix cfg table assume chain: "reachable_chain cfg table bc"
  have "agrees (reserve bc k) (state_Get (bc_state bc) k) (sim_get bc fmempty k)" if "\<not> isNameKey k" for k
  proof -
    let ?b = "acc_balance (state_Get (bc_state bc) k)"
    have len: "length (bc_blocks bc) < 2 ^ 64" using reachable_facts(2) [OF chain] by simp
    have "immature_nat (bc_blocks bc) k \<le> unat ?b"
      using ledger_covered [OF reachable_facts(1) [OF chain]] that by (simp add: covered_def)
    then have "unat (reserve bc k) \<le> unat ?b"
      unfolding immature_word [OF len] using unat_u64 [of ?b] by (simp add: unat_of_nat)
    then show ?thesis
      by (auto simp: agrees_def sim_get_def SpendableBalance_def Let_def word_le_nat_alt unat_diff_le)
  qed
  then show ?thesis by (simp add: mirrors_def)
qed

text \<open>Taking a ready candidate keeps the invariant of the selection.\<close>

lemma take_ok:
  assumes mining: "mining bc m" and ok: "sel_ok bc m vc sel" and q: "(s, cs) \<in> set (sel_queues sel)" and r: "ready bc sel (s, cs) = Some c"
    and len: "length (sel_txs sel) < 2 ^ 64"
  shows "sel_ok bc m vc (take_candidate (bc_cfg bc) bc c sel)"
proof -
  let ?cfg = "bc_cfg bc" and ?tx = "sc_tx c"
  note rf = ready_facts [OF r]
  have co: "candidate_ok bc m s c" using ok q rf(1) by (force simp: sel_ok_def)
  then obtain rates where "candidate_for ?cfg bc rates ?tx = Some c" and sender: "tx_from ?tx = s"
    and mem: "fmlookup (mp_txs m) (tx_hash ?cfg ?tx) = Some ?tx" by (auto simp: candidate_ok_def)
  note cf = candidate_facts [OF this(1), unfolded mining_height [OF mining]]
  have rel: "relayable ?cfg ?tx" using mining mem by (auto elim!: miningE simp: pool_fits_def all_txs_def)
  obtain a where a: "applied bc vc (sel_txs sel) a" "mirrors bc (sel_cache sel) a"
    "\<And>n. n \<notin> set (sel_names sel) \<Longrightarrow> get_acc a (nameStateKey n) = state_Get (bc_state bc) (nameStateKey n)"
    using ok by (auto simp: sel_ok_def)
  have p: "pickable ?cfg bc (sel_cache sel) ?tx a"
    using a(2) cf(5) rf(2,5) sender mining mem by (auto elim!: miningE simp: pickable_def all_txs_def)
  have free: "name_open ?tx (next_height bc) a"
  proof (cases "tx_name ?tx")
    case (Some n)
    then show ?thesis using mineable_open [OF cf(7) Some a(3) [OF rf(6) [OF Some]]] by (simp add: IsNameOp_def)
  qed (simp add: name_open_def)
  from sim_step [OF p _ free applied_coin [OF mining a(1)]] rel
  obtain a1 where a1: "applyTxTo ?cfg ?tx (next_height bc) (reserve bc (tx_from ?tx)) (payer_reserve bc ?tx) a = (None, a1)"
    "mirrors bc (simulate ?cfg bc ?tx (sel_cache sel)) a1"
    "\<And>n. map_option nop_name (tx_name ?tx) \<noteq> Some n \<Longrightarrow> get_acc a1 (nameStateKey n) = get_acc a (nameStateKey n)"
    by (auto simp: sim_outcome_def relayable_def)
  have nk: "\<not> isNameKey (tx_from ?tx)" using sane_not_name_keys(1) [OF cf(5)] .
  have nonce: "tx_nonce ?tx = acc_nonce (get_acc a (tx_from ?tx))"
    using pickable_facts(1,5) [OF p] by (simp add: agrees_def)
  have sel: "\<forall>t \<in> set (sel_txs sel). fmlookup (mp_txs m) (tx_hash ?cfg t) = Some t" using ok by (simp add: sel_ok_def)
  have fresh: "tx_hash ?cfg ?tx \<notin> tx_hash ?cfg ` set (sel_txs sel)"
    by (rule applied_fresh [OF a(1) sel mem nonce nk len])
  obtain t b where run: "apply_txs ?cfg (bc_blocks bc) (next_height bc) (NextBaseFee bc) 1 (sel_txs sel) [] 0 0
     \<lparr>app_state = bc_state bc, app_undo = [], app_cache = vc\<rparr> = (None, t, b, a)" using a(1) by (auto simp: applied_def)
  have "applied bc vc (sel_txs sel @ [?tx]) a1"
    unfolding applied_def apply_txs_snoc [OF run] using cf(4-6) fresh a1(1) rel by (simp add: Let_def relayable_def)
  moreover have "get_acc a1 (nameStateKey n) = state_Get (bc_state bc) (nameStateKey n)"
    if "n \<notin> set (case tx_name ?tx of Some n \<Rightarrow> nop_name n # sel_names sel | None \<Rightarrow> sel_names sel)" for n
    using that a(3) a1(3) by (cases "tx_name ?tx") auto
  ultimately show ?thesis using ok a1(2) mem sel rf(3,4) cf(2,3)
    unfolding sel_ok_def by (auto simp: take_candidate_def)
qed


lemma best_candidate_ready:
  assumes "best_candidate bc sel = Some c"
  shows "\<exists>q \<in> set (sel_queues sel). ready bc sel q = Some c"
proof -
  let ?f = "\<lambda>q best. case ready bc sel q of None \<Rightarrow> best | Some c \<Rightarrow> better_candidate c best"
  let ?P = "\<lambda>best. \<forall>c. best = Some c \<longrightarrow> (\<exists>q \<in> set (sel_queues sel). ready bc sel q = Some c)"
  have "?P (fold ?f (sel_queues sel) None)"
    by (rule fold_invariant [where Q = "\<lambda>q. q \<in> set (sel_queues sel)"])
      (auto simp: better_candidate_def split: option.splits if_splits)
  then show ?thesis using assms unfolding best_candidate_def by blast
qed

lemma advance_ok: "sel_ok bc m vc sel \<Longrightarrow> sel_ok bc m vc (sel\<lparr>sel_queues := map (advance bc sel) (sel_queues sel)\<rparr>)"
  unfolding sel_ok_def by (fastforce simp: advance_def dest: set_dropWhileD)

lemma take_length [simp]: "length (sel_txs (take_candidate cfg bc c sel)) = Suc (length (sel_txs sel))"
  by (simp add: take_candidate_def)

lemma select_loop_ok:
  assumes "mining bc m" "sel_ok bc m vc sel" "length (sel_txs sel) + k < 2 ^ 64"
  shows "sel_ok bc m vc (select_loop k (bc_cfg bc) bc sel) \<and> length (sel_txs (select_loop k (bc_cfg bc) bc sel)) \<le> length (sel_txs sel) + k"
  using assms(2,3)
proof (induction k arbitrary: sel)
  case (Suc k)
  let ?sel1 = "sel\<lparr>sel_queues := map (advance bc sel) (sel_queues sel)\<rparr>"
  have ok1: "sel_ok bc m vc ?sel1" by (rule advance_ok [OF Suc.prems(1)])
  show ?case
  proof (cases "best_candidate bc ?sel1")
    case None
    then show ?thesis using ok1 by simp
  next
    case (Some c)
    then obtain s cs where q: "(s, cs) \<in> set (sel_queues ?sel1)" "ready bc ?sel1 (s, cs) = Some c"
      using best_candidate_ready by (metis prod.collapse)
    have "sel_ok bc m vc (take_candidate (bc_cfg bc) bc c ?sel1)"
      using take_ok [OF assms(1) ok1 q] Suc.prems(2) by simp
    from Suc.IH [OF this] Suc.prems(2) Some show ?thesis by simp
  qed
qed simp

lemma mp_All_stored:
  assumes "pool_ok cfg m" "tx \<in> set (mp_All m)"
  shows "fmlookup (mp_txs m) (tx_hash cfg tx) = Some tx"
proof -
  have "set (mp_order m xs) = set xs" for xs using assms(1) by (metis pool_fits_def set_mset_mset)
  then obtain h where "tx = mp_tx m h" "h \<in> set (fmkeys (mp_txs m))" using assms(2) by (auto simp: mp_All_def)
  then have "fmlookup (mp_txs m) h = Some tx" by (auto simp: mp_tx_def fmget_def fmkeys_def fmlookup_dom_iff)
  moreover have "indexed cfg m" using assms(1) by (simp add: pool_fits_def)
  ultimately show ?thesis using indexedD(1) by blast
qed

lemma Select_ok:
  assumes "mining bc m"
  shows "\<exists>a. applied bc vc (Select (bc_cfg bc) bc src (int MaxBlockTxs) m) a"
    "length (Select (bc_cfg bc) bc src (int MaxBlockTxs) m) \<le> MaxBlockTxs"
    "sum_list (map (tx_size (bc_cfg bc)) (Select (bc_cfg bc) bc src (int MaxBlockTxs) m)) \<le> MaxBlockBytes"
    "sum_list (map VerifyOps (Select (bc_cfg bc) bc src (int MaxBlockTxs) m)) \<le> MaxBlockVerifyOps"
proof -
  let ?q = "sender_queues (candidates (bc_cfg bc) bc src m)"
  let ?sel = "\<lparr>sel_cache = fmempty, sel_names = [], sel_queues = ?q, sel_txs = [], sel_weight = 0, sel_ops = 0\<rparr>"
  have pool: "pool_ok (bc_cfg bc) m" using assms by (rule miningE)
  have "candidate_ok bc m s c" if "(s, cs) \<in> set ?q" "c \<in> set cs" for s cs c
  proof -
    have c: "c \<in> set (candidates (bc_cfg bc) bc src m)" "tx_from (sc_tx c) = s" using that by (auto simp: sender_queues_def)
    then obtain tx rates where "candidate_for (bc_cfg bc) bc rates tx = Some c" "tx \<in> set (mp_All m)"
      by (auto simp: candidates_def List.map_filter_def)
    with c(2) mp_All_stored [OF pool] candidate_facts(1) show ?thesis unfolding candidate_ok_def by metis
  qed
  moreover have "applied bc vc [] \<lparr>app_state = bc_state bc, app_undo = [], app_cache = vc\<rparr>" by (simp add: applied_def)
  ultimately have "sel_ok bc m vc ?sel" unfolding sel_ok_def using mining_start [OF assms] by (auto intro!: exI)
  from select_loop_ok [OF assms this, of MaxBlockTxs]
  show "\<exists>a. applied bc vc (Select (bc_cfg bc) bc src (int MaxBlockTxs) m) a"
    "length (Select (bc_cfg bc) bc src (int MaxBlockTxs) m) \<le> MaxBlockTxs"
    "sum_list (map (tx_size (bc_cfg bc)) (Select (bc_cfg bc) bc src (int MaxBlockTxs) m)) \<le> MaxBlockBytes"
    "sum_list (map VerifyOps (Select (bc_cfg bc) bc src (int MaxBlockTxs) m)) \<le> MaxBlockVerifyOps"
    by (auto simp: Select_def sel_ok_def MaxBlockTxs_def)
qed


section \<open>The assembled block\<close>

lemma Tips_sum:
  assumes "\<forall>tx \<in> set txs. BaseFeeFor cfg tx bf \<le> tx_fee tx"
  shows "Tips cfg txs bf = sum_list (map (\<lambda>tx. tx_fee tx - BaseFeeFor cfg tx bf) txs)"
proof -
  have "foldl (\<lambda>tips tx. let m = BaseFeeFor cfg tx bf in if m < tx_fee tx then tips + (tx_fee tx - m) else tips) t txs
      = t + sum_list (map (\<lambda>tx. tx_fee tx - BaseFeeFor cfg tx bf) txs)" for t
    using assms by (induction txs arbitrary: t) (auto simp: Let_def add.assoc dest: order_antisym)
  then show ?thesis by (simp add: Tips_def)
qed

lemma reward_small: "unat (BlockReward h) \<le> 5000000000"
  using reward_at_antimono [of 0 "unat h"] by (simp add: unat_BlockReward reward_at_def)

lemma coinbase_fields:
  "IsCoinbase (NewCoinbaseAt cfg k n h)" "tx_to (NewCoinbaseAt cfg k n h) = k" "tx_amount (NewCoinbaseAt cfg k n h) = n"
  "VerifyOps (NewCoinbaseAt cfg k n h) = 0"
  by (simp_all add: NewCoinbaseAt_def NewCoinbase_def IsCoinbase_def VerifyOps_def Let_def)

text \<open>A block with the selected transactions and a coinbase of the amount the code computes applies.\<close>

lemma selected_block_applies:
  assumes mining: "mining bc m" and clean: "names_clean (bc_state bc)"
    and txs: "txs = Select (bc_cfg bc) bc src (int MaxBlockTxs) m"
    and b: "blk_index b = next_height bc" "blk_base_fee b = NextBaseFee bc" "blk_transactions b = cb # txs"
    and cb: "tx_amount cb = CoinbaseAmount (bc_cfg bc) (next_height bc) txs (NextBaseFee bc)"
  shows "\<exists>undo s' vc'. applyTxsAndCoinbase (bc_cfg bc) (bc_state bc) (bc_blocks bc) b vc = (Inr undo, s', vc')"
proof -
  obtain t bn a where run: "apply_txs (bc_cfg bc) (bc_blocks bc) (next_height bc) (NextBaseFee bc) (Suc 0) txs [] 0 0
     \<lparr>app_state = bc_state bc, app_undo = [], app_cache = vc\<rparr> = (None, t, bn, a)"
    using Select_ok(1) [OF mining] unfolding txs applied_def by fastforce
  let ?R = "BlockReward (next_height bc)" and ?k = "tx_to cb"
  have small: "coin_supply (bc_state bc) + unat ?R < 2 ^ 64" using mining_coin [OF mining] reward_small [of "next_height bc"] by simp
  have tips: "t = Tips (bc_cfg bc) txs (NextBaseFee bc)" using apply_txs_burned(2,3) [OF run] by (simp add: Tips_sum)
  have coin: "coin_supply (app_state a) + unat t + unat bn \<le> coin_supply (bc_state bc)"
    using apply_txs_coin(1) [OF run] small by simp
  have amount: "unat (?R + t) = unat ?R + unat t" by (rule unat_add_small) (use coin small in linarith)
  have "unat (acc_balance (get_acc a ?k)) + unat (?R + t) < 2 ^ 64"
    using balance_le_supply [of a ?k] coin small amount by linarith
  then have "unat (acc_balance (get_acc a ?k) + (?R + t)) = unat (acc_balance (get_acc a ?k)) + unat (?R + t)" by (rule unat_add_small)
  then have nw: "\<not> acc_balance (get_acc a ?k) + (?R + t) < acc_balance (get_acc a ?k)" by (simp add: word_less_nat_alt)
  have silent: "fst (applyTxsAndCoinbase (bc_cfg bc) (bc_state bc) (bc_blocks bc) b vc) \<noteq> Inl (NotConserved e)" for e
    using block_guard_silent [OF clean, of b] small b(1) by simp
  have "case applyTxsAndCoinbase (bc_cfg bc) (bc_state bc) (bc_blocks bc) b vc of (Inl e, _) \<Rightarrow> \<exists>x. e = NotConserved x | _ \<Rightarrow> True"
    using run b cb nw unfolding tips by (auto simp: applyTxsAndCoinbase_def CoinbaseAmount_def Let_def split: option.split)
  then show ?thesis using silent by (cases "applyTxsAndCoinbase (bc_cfg bc) (bc_state bc) (bc_blocks bc) b vc") (auto split: sum.splits)
qed

text \<open>Why a block with the right links, fees, root and limits can still be refused before it is applied.\<close>

lemma structure_reasons:
  assumes "validateBlockStructure cfg clock blocks b cc = Some e" "blk_transactions b = cb # txs" "IsCoinbase cb"
    and "blk_index b = blk_index (last blocks) + 1" "blk_prev_hash b = blk_hash (last blocks)" "blk_bits b = expectedBits cfg blocks (blk_index b)"
    and "blk_base_fee b = expectedBaseFee blocks (blk_index b)" "blk_merkle_root b = MerkleRoot cfg (blk_transactions b)"
    and "length txs \<le> MaxBlockTxs" "blockWeight cfg b \<le> MaxBlockBytes" "BlockVerifyOps (blk_transactions b) \<le> MaxBlockVerifyOps"
  shows "e \<in> {NotAfterMedian, TooFarInFuture, ViolatesCheckpoint (blk_index b), BlockInvalidPoW, block_error.NoRecipient}
    \<or> checkCommitments cfg (last blocks) b cc = Some e \<or> validateCoinbaseShape cfg cb (blk_index b) = Some e"
  using assms unfolding validateBlockStructure_def Let_def
  by (cases "checkCommitments cfg (last blocks) b cc") (auto split: if_splits)



end
