(* ===== verification/Orphan_Pool.thy ===== *)
theory Orphan_Pool
  imports Chain_Rules
begin

text \<open>
  The buffer of blocks that wait for their parent (\<open>node/orphan.go\<close>), bounded by a count and by bytes.
  It keeps a map from parents to waiting blocks, a set of hashes, a map of sizes, an insertion order and
  a running total; the theorem is that these five agree at every moment with a plain queue of blocks,
  from whose front blocks are dropped until a new one fits and from which the children of a parent are
  taken out.
\<close>

section \<open>The pool\<close>

definition orphanPoolCapacity :: int where "orphanPoolCapacity = 512"
definition orphanPoolBytes :: int where "orphanPoolBytes = 64 * 2 ^ 20"

record orphan_pool =
  op_by_prev :: "(string, block list) fmap"
  op_have :: "string fset"
  op_sizes :: "(string, int) fmap"
  op_order :: "string list"
  op_bytes :: int
  op_max :: int
  op_max_bytes :: int

definition newOrphanPool :: "int \<Rightarrow> int \<Rightarrow> orphan_pool" where
  "newOrphanPool mx maxBytes =
     \<lparr>op_by_prev = fmempty, op_have = {||}, op_sizes = fmempty, op_order = [], op_bytes = 0,
      op_max = (if mx \<le> 0 then 1 else mx), op_max_bytes = (if maxBytes \<le> 0 then orphanPoolBytes else maxBytes)\<rparr>"

definition blockBytes :: "config \<Rightarrow> block \<Rightarrow> int" where
  "blockBytes cfg b = sum_list (map (\<lambda>tx. int (tx_size cfg tx)) (blk_transactions b))"

definition op_release :: "string \<Rightarrow> orphan_pool \<Rightarrow> orphan_pool" where
  "op_release h p =
     (let n = op_bytes p - fmget 0 (op_sizes p) h in
      p\<lparr>op_bytes := (if n < 0 then 0 else n), op_sizes := fmdrop h (op_sizes p)\<rparr>)"

text \<open>
  The search of \<open>evictOldestLocked\<close> through the waiting lists: the first list that has the block loses
  its first occurrence, and an emptied list its entry. A hash is held once, so the order in which Go
  visits the map does not show.
\<close>

definition drop_waiting :: "string \<Rightarrow> (string, block list) fmap \<Rightarrow> (string, block list) fmap" where
  "drop_waiting h m =
     (case find (\<lambda>k. \<exists>b \<in> set (fmget [] m k). blk_hash b = h) (fmkeys m) of
        None \<Rightarrow> m
      | Some k \<Rightarrow>
          (case find (\<lambda>b. blk_hash b = h) (fmget [] m k) of
             None \<Rightarrow> m
           | Some b \<Rightarrow> let rest = remove1 b (fmget [] m k) in
               if rest = [] then fmdrop k m else fmupd k rest m))"

definition evictOldest :: "orphan_pool \<Rightarrow> orphan_pool" where
  "evictOldest p =
     (let oldest = hd (op_order p);
          p1 = op_release oldest (p\<lparr>op_order := tl (op_order p), op_have := op_have p |-| {|oldest|}\<rparr>)
      in p1\<lparr>op_by_prev := drop_waiting oldest (op_by_prev p1)\<rparr>)"

function op_make_room :: "int \<Rightarrow> orphan_pool \<Rightarrow> orphan_pool" where
  "op_make_room sz p =
     (if 0 < length (op_order p) \<and> (op_max p \<le> int (length (op_order p)) \<or> op_max_bytes p < op_bytes p + sz)
      then op_make_room sz (evictOldest p) else p)"
  by pat_completeness auto
termination
  by (relation "measure (\<lambda>(sz, p). length (op_order p))") (auto simp: evictOldest_def op_release_def Let_def)

declare op_make_room.simps [simp del]

definition op_add :: "config \<Rightarrow> block \<Rightarrow> orphan_pool \<Rightarrow> bool \<times> orphan_pool" where
  "op_add cfg b p =
     (if blk_hash b |\<in>| op_have p then (False, p)
      else let sz = blockBytes cfg b in
        if op_max_bytes p < sz then (False, p)
        else let p1 = op_make_room sz p in
          (True, p1\<lparr>op_by_prev := fmupd (blk_prev_hash b) (fmget [] (op_by_prev p1) (blk_prev_hash b) @ [b]) (op_by_prev p1),
             op_have := finsert (blk_hash b) (op_have p1), op_sizes := fmupd (blk_hash b) sz (op_sizes p1),
             op_bytes := op_bytes p1 + sz, op_order := op_order p1 @ [blk_hash b]\<rparr>))"

definition op_forget :: "block \<Rightarrow> orphan_pool \<Rightarrow> orphan_pool" where
  "op_forget b p =
     (let p1 = op_release (blk_hash b) (p\<lparr>op_have := op_have p |-| {|blk_hash b|}\<rparr>)
      in p1\<lparr>op_order := remove1 (blk_hash b) (op_order p1)\<rparr>)"

definition takeChildren :: "string \<Rightarrow> orphan_pool \<Rightarrow> block list \<times> orphan_pool" where
  "takeChildren parent p =
     (let children = fmget [] (op_by_prev p) parent in
      if children = [] then ([], p)
      else (children, fold op_forget children (p\<lparr>op_by_prev := fmdrop parent (op_by_prev p)\<rparr>)))"

definition op_len :: "orphan_pool \<Rightarrow> nat" where
  "op_len p = fcard (op_have p)"

section \<open>The queue it implements\<close>

definition weight :: "config \<Rightarrow> block list \<Rightarrow> int" where
  "weight cfg q = sum_list (map (blockBytes cfg) q)"

function queue_room :: "config \<Rightarrow> int \<Rightarrow> int \<Rightarrow> int \<Rightarrow> block list \<Rightarrow> block list" where
  "queue_room cfg mx mb sz q =
     (if q \<noteq> [] \<and> (mx \<le> int (length q) \<or> mb < weight cfg q + sz) then queue_room cfg mx mb sz (tl q) else q)"
  by pat_completeness auto
termination by (relation "measure (\<lambda>(cfg, mx, mb, sz, q). length q)") auto

declare queue_room.simps [simp del]

definition queue_add :: "config \<Rightarrow> int \<Rightarrow> int \<Rightarrow> block \<Rightarrow> block list \<Rightarrow> bool \<times> block list" where
  "queue_add cfg mx mb b q =
     (if (\<exists>x \<in> set q. blk_hash x = blk_hash b) \<or> mb < blockBytes cfg b then (False, q)
      else (True, queue_room cfg mx mb (blockBytes cfg b) q @ [b]))"

definition queue_take :: "string \<Rightarrow> block list \<Rightarrow> block list \<times> block list" where
  "queue_take parent q = (filter (\<lambda>b. blk_prev_hash b = parent) q, filter (\<lambda>b. blk_prev_hash b \<noteq> parent) q)"

text \<open>The representation: every field is a function of the queue.\<close>

definition waiting :: "block list \<Rightarrow> (string, block list) fmap" where
  "waiting q = fmap_of_list (map (\<lambda>k. (k, filter (\<lambda>b. blk_prev_hash b = k) q)) (remdups (map blk_prev_hash q)))"

definition counts :: "config \<Rightarrow> orphan_pool \<Rightarrow> block list \<Rightarrow> bool" where
  "counts cfg p q \<longleftrightarrow> distinct (map blk_hash q) \<and> op_have p = fset_of_list (map blk_hash q)
     \<and> op_sizes p = fmap_of_list (map (\<lambda>b. (blk_hash b, blockBytes cfg b)) q)
     \<and> op_order p = map blk_hash q \<and> op_bytes p = weight cfg q"

definition pool_holds :: "config \<Rightarrow> orphan_pool \<Rightarrow> block list \<Rightarrow> bool" where
  "pool_holds cfg p q \<longleftrightarrow> counts cfg p q \<and> op_by_prev p = waiting q"

lemma waiting_lookup:
  "fmlookup (waiting q) k = (if k \<in> blk_prev_hash ` set q then Some (filter (\<lambda>b. blk_prev_hash b = k) q) else None)"
proof -
  have "map_of (map (\<lambda>k. (k, f k)) xs) k = (if k \<in> set xs then Some (f k) else None)" for f :: "string \<Rightarrow> block list" and xs
    by (induction xs) auto
  then show ?thesis by (simp add: waiting_def fmlookup_of_list)
qed

lemma waiting_get [simp]: "fmget [] (waiting q) k = filter (\<lambda>b. blk_prev_hash b = k) q"
  by (auto simp: fmget_def waiting_lookup intro: filter_False [symmetric])

lemma sizes_lookup:
  "distinct (map blk_hash q) \<Longrightarrow> fmlookup (fmap_of_list (map (\<lambda>b. (blk_hash b, blockBytes cfg b)) q)) h
     = map_option (blockBytes cfg) (find (\<lambda>b. blk_hash b = h) q)"
  by (induction q) (simp_all add: fmlookup_of_list)

lemma blockBytes_nonneg: "0 \<le> blockBytes cfg b"
  unfolding blockBytes_def by (rule sum_list_nonneg) auto

lemma weight_nonneg: "0 \<le> weight cfg q"
  unfolding weight_def using blockBytes_nonneg by (intro sum_list_nonneg) auto

lemma find_unique:
  assumes "k \<in> set xs" "P k" "\<And>x. x \<in> set xs \<Longrightarrow> P x \<Longrightarrow> x = k"
  shows "find P xs = Some k"
proof (cases "find P xs")
  case None
  then show ?thesis using assms(1,2) by (auto simp: find_None_iff)
next
  case (Some y)
  then have "y \<in> set xs" "P y" by (auto simp: find_Some_iff)
  then show ?thesis using Some assms(3) by blast
qed

lemma find_absent: "h \<notin> set (map blk_hash q) \<Longrightarrow> find (\<lambda>x. blk_hash x = h) q = None"
  by (auto simp: find_None_iff)

lemma find_hash: "distinct (map blk_hash q) \<Longrightarrow> b \<in> set q \<Longrightarrow> find (\<lambda>x. blk_hash x = blk_hash b) q = Some b"
  by (rule find_unique) (auto simp: distinct_map inj_on_def)


section \<open>Refinement\<close>

lemma drop_waiting_front:
  assumes "distinct (map blk_hash (b # q))"
  shows "drop_waiting (blk_hash b) (waiting (b # q)) = waiting q"
proof -
  let ?w = "waiting (b # q)" and ?k = "blk_prev_hash b"
  have keys: "fmdom' ?w = blk_prev_hash ` set (b # q)"
    by (auto simp: fmlookup_dom'_iff waiting_lookup split: if_splits)
  have "find (\<lambda>k. \<exists>x \<in> set (fmget [] ?w k). blk_hash x = blk_hash b) (fmkeys ?w) = Some ?k"
  proof (rule find_unique)
    show "?k \<in> set (fmkeys ?w)" by (simp add: keys)
    show "\<exists>x \<in> set (fmget [] ?w ?k). blk_hash x = blk_hash b" by auto
    fix k assume "\<exists>x \<in> set (fmget [] ?w k). blk_hash x = blk_hash b"
    then obtain x where "x \<in> set (b # q)" "blk_prev_hash x = k" "blk_hash x = blk_hash b" by (auto split: if_splits)
    then show "k = ?k" using assms by (auto simp: image_iff)
  qed
  moreover have "find (\<lambda>x. blk_hash x = blk_hash b) (fmget [] ?w ?k) = Some b" by simp
  moreover have "remove1 b (fmget [] ?w ?k) = filter (\<lambda>x. blk_prev_hash x = ?k) q" by simp
  ultimately have "drop_waiting (blk_hash b) ?w = (if filter (\<lambda>x. blk_prev_hash x = ?k) q = [] then fmdrop ?k ?w
      else fmupd ?k (filter (\<lambda>x. blk_prev_hash x = ?k) q) ?w)"
    unfolding drop_waiting_def Let_def by simp
  also have "\<dots> = waiting q"
  proof (rule fmap_ext)
    fix k
    have "?k \<in> blk_prev_hash ` set q \<longleftrightarrow> filter (\<lambda>x. blk_prev_hash x = ?k) q \<noteq> []"
      unfolding filter_empty_conv image_iff by metis
    then show "fmlookup (if filter (\<lambda>x. blk_prev_hash x = ?k) q = [] then fmdrop ?k ?w
        else fmupd ?k (filter (\<lambda>x. blk_prev_hash x = ?k) q) ?w) k = fmlookup (waiting q) k"
      by (cases "k = ?k") (auto simp: waiting_lookup)
  qed
  finally show ?thesis .
qed

lemma counts_remove:
  assumes "counts cfg p q" "b \<in> set q"
  shows "counts cfg (op_forget b p) (remove1 b q)"
proof -
  let ?q = "remove1 b q" and ?h = "blk_hash b"
  have d: "distinct (map blk_hash q)" "distinct q" using assms(1) by (auto simp: counts_def distinct_map)
  have inj: "x \<in> set q \<Longrightarrow> blk_hash x = ?h \<Longrightarrow> x = b" for x using d(1) assms(2) by (auto simp: distinct_map inj_on_def)
  have order: "map blk_hash ?q = remove1 ?h (map blk_hash q)"
    using assms(2) inj by (induction q) (auto, blast)
  then have d': "distinct (map blk_hash ?q)" using d(1) by simp
  have set: "set (map blk_hash ?q) = set (map blk_hash q) - {?h}" unfolding order using d(1) by simp
  then have "op_have p |-| {|?h|} = fset_of_list (map blk_hash ?q)"
    using assms(1) by (auto simp: counts_def fset_of_list.rep_eq simp flip: fset_inject)
  moreover have "fmdrop ?h (op_sizes p) = fmap_of_list (map (\<lambda>b. (blk_hash b, blockBytes cfg b)) ?q)"
  proof (rule fmap_ext)
    fix h
    show "fmlookup (fmdrop ?h (op_sizes p)) h = fmlookup (fmap_of_list (map (\<lambda>b. (blk_hash b, blockBytes cfg b)) ?q)) h"
    proof (cases "\<exists>x \<in> set ?q. blk_hash x = h")
      case True
      then obtain x where x: "x \<in> set ?q" "blk_hash x = h" by blast
      then have "x \<in> set q" "h \<noteq> ?h" using set notin_set_remove1 by (fastforce, fastforce)
      then show ?thesis using x assms(1) d(1) d' find_hash [of q x] find_hash [of ?q x] by (simp add: counts_def sizes_lookup)
    next
      case False
      then have "h \<notin> set (map blk_hash ?q)" by auto
      moreover from this set have "h \<noteq> ?h \<Longrightarrow> h \<notin> set (map blk_hash q)" by blast
      note find_absent [OF this] find_absent [OF calculation]
      ultimately show ?thesis using assms(1) d(1) d' by (simp add: counts_def sizes_lookup)
    qed
  qed
  moreover have "fmget 0 (op_sizes p) ?h = blockBytes cfg b"
    using assms d(1) by (simp add: counts_def fmget_def sizes_lookup find_hash)
  moreover have "weight cfg ?q = weight cfg q - blockBytes cfg b"
    using assms(2) unfolding weight_def by (simp add: sum_list_map_remove1 [of b q])
  ultimately show ?thesis using assms(1) order d' weight_nonneg [of cfg ?q]
    by (simp add: counts_def op_forget_def op_release_def Let_def)
qed

lemma evict_holds:
  assumes "pool_holds cfg p (b # q)"
  shows "pool_holds cfg (evictOldest p) q"
proof -
  have c: "counts cfg p (b # q)" "op_by_prev p = waiting (b # q)" using assms by (simp_all add: pool_holds_def)
  have "evictOldest p = (op_forget b p)\<lparr>op_by_prev := drop_waiting (blk_hash b) (op_by_prev p)\<rparr>"
    using c(1) by (simp add: evictOldest_def op_forget_def op_release_def counts_def Let_def)
  moreover have "counts cfg (op_forget b p) q" using counts_remove [OF c(1), of b] by simp
  moreover have "drop_waiting (blk_hash b) (op_by_prev p) = waiting q"
    unfolding c(2) by (rule drop_waiting_front) (use c(1) in \<open>simp add: counts_def\<close>)
  ultimately show ?thesis by (simp add: pool_holds_def counts_def)
qed

lemma make_room_holds:
  assumes "pool_holds cfg p q"
  shows "pool_holds cfg (op_make_room sz p) (queue_room cfg (op_max p) (op_max_bytes p) sz q)
    \<and> op_max (op_make_room sz p) = op_max p \<and> op_max_bytes (op_make_room sz p) = op_max_bytes p"
  using assms
proof (induction q arbitrary: p)
  case Nil
  then show ?case by (simp add: op_make_room.simps [of sz p] queue_room.simps [of cfg _ _ _ "[]"] pool_holds_def counts_def)
next
  case (Cons b q)
  have lim: "op_max (evictOldest p) = op_max p" "op_max_bytes (evictOldest p) = op_max_bytes p"
    by (simp_all add: evictOldest_def op_release_def Let_def)
  have f: "op_order p = map blk_hash (b # q)" "op_bytes p = weight cfg (b # q)" using Cons.prems by (simp_all add: pool_holds_def counts_def)
  show ?case
    using Cons.IH [OF evict_holds [OF Cons.prems]] Cons.prems unfolding lim
    by (subst (1 2 3) op_make_room.simps, subst queue_room.simps) (simp add: f)
qed

lemma room_fits:
  assumes "mx \<ge> 1" "sz \<le> mb"
  shows "int (length (queue_room cfg mx mb sz q)) < mx \<and> weight cfg (queue_room cfg mx mb sz q) + sz \<le> mb"
proof (induction q)
  case Nil
  then show ?case using assms by (simp add: queue_room.simps [of cfg mx mb sz "[]"] weight_def)
next
  case (Cons b q)
  then show ?case by (subst (1 2) queue_room.simps) (simp add: not_le not_less)
qed

lemma room_suffix: "\<exists>n. queue_room cfg mx mb sz q = drop n q"
proof (induction q)
  case Nil
  then show ?case by (simp add: queue_room.simps [of cfg mx mb sz "[]"])
next
  case (Cons b q)
  then obtain n where "queue_room cfg mx mb sz q = drop n q" by blast
  then have "queue_room cfg mx mb sz (b # q) \<in> {drop (Suc n) (b # q), drop 0 (b # q)}"
    by (subst queue_room.simps) simp
  then show ?case by blast
qed

lemma find_snoc: "find P (xs @ [x]) = (case find P xs of None \<Rightarrow> if P x then Some x else None | Some y \<Rightarrow> Some y)"
  by (induction xs) simp_all

lemma add_holds:
  assumes "pool_holds cfg p q"
  shows "fst (op_add cfg b p) = fst (queue_add cfg (op_max p) (op_max_bytes p) b q)
    \<and> pool_holds cfg (snd (op_add cfg b p)) (snd (queue_add cfg (op_max p) (op_max_bytes p) b q))"
proof -
  let ?sz = "blockBytes cfg b" and ?q1 = "queue_room cfg (op_max p) (op_max_bytes p) (blockBytes cfg b) q"
  have dup: "blk_hash b |\<in>| op_have p \<longleftrightarrow> (\<exists>x \<in> set q. blk_hash x = blk_hash b)"
  proof -
    have "op_have p = fset_of_list (map blk_hash q)" using assms by (simp only: pool_holds_def counts_def)
    then have "blk_hash b |\<in>| op_have p \<longleftrightarrow> blk_hash b \<in> set (map blk_hash q)" by (simp only: fset_of_list_elem)
    then show ?thesis by (metis (no_types, lifting) in_set_conv_nth length_map nth_map nth_mem)
  qed
  show ?thesis
  proof (cases "(\<exists>x \<in> set q. blk_hash x = blk_hash b) \<or> op_max_bytes p < ?sz")
    case True
    then show ?thesis using assms dup by (auto simp: op_add_def queue_add_def Let_def)
  next
    case False
    let ?p1 = "op_make_room ?sz p"
    have h: "pool_holds cfg ?p1 ?q1" using make_room_holds [OF assms] by blast
    obtain n where n: "?q1 = drop n q" using room_suffix by blast
    have fresh: "blk_hash b \<notin> set (map blk_hash ?q1)" using False n set_drop_subset [of n q] by auto
    have w: "fmupd (blk_prev_hash b) (fmget [] (waiting ?q1) (blk_prev_hash b) @ [b]) (waiting ?q1) = waiting (?q1 @ [b])"
      by (rule fmap_ext) (auto simp: waiting_lookup)
    have s: "fmupd (blk_hash b) ?sz (fmap_of_list (map (\<lambda>b. (blk_hash b, blockBytes cfg b)) ?q1))
        = fmap_of_list (map (\<lambda>b. (blk_hash b, blockBytes cfg b)) (?q1 @ [b]))"
    proof (rule fmap_ext)
      fix h
      have d: "distinct (map blk_hash ?q1)" "distinct (map blk_hash (?q1 @ [b]))" using h fresh by (auto simp: pool_holds_def counts_def)
      show "fmlookup (fmupd (blk_hash b) ?sz (fmap_of_list (map (\<lambda>b. (blk_hash b, blockBytes cfg b)) ?q1))) h
          = fmlookup (fmap_of_list (map (\<lambda>b. (blk_hash b, blockBytes cfg b)) (?q1 @ [b]))) h"
        using find_absent [OF fresh] unfolding sizes_lookup [OF d(2)] by (cases "h = blk_hash b") (auto simp: sizes_lookup [OF d(1)] find_snoc split: option.split)
    qed
    have "pool_holds cfg (snd (op_add cfg b p)) (?q1 @ [b])"
      using h fresh False dup w s
      by (auto simp: pool_holds_def counts_def op_add_def Let_def weight_def fset_of_list.rep_eq simp flip: fset_inject)
    then show ?thesis using False dup by (simp add: op_add_def queue_add_def Let_def)
  qed
qed

lemma forget_all:
  assumes "counts cfg p q" "distinct bs" "set bs \<subseteq> set q"
  shows "counts cfg (fold op_forget bs p) (filter (\<lambda>x. x \<notin> set bs) q) \<and> op_by_prev (fold op_forget bs p) = op_by_prev p"
  using assms
proof (induction bs arbitrary: p q)
  case (Cons b bs)
  have "distinct q" using Cons.prems(1) by (auto simp: counts_def distinct_map)
  then have r: "remove1 b q = filter (\<lambda>x. x \<noteq> b) q" by (simp add: distinct_remove1_removeAll removeAll_filter_not_eq eq_commute [of b])
  have "counts cfg (op_forget b p) (remove1 b q)" using counts_remove [OF Cons.prems(1)] Cons.prems(3) by simp
  moreover have "op_by_prev (op_forget b p) = op_by_prev p" by (simp add: op_forget_def op_release_def Let_def)
  moreover have "set bs \<subseteq> set (remove1 b q)" unfolding r using Cons.prems(2,3) by auto
  moreover have "filter (\<lambda>x. x \<notin> set bs) (remove1 b q) = filter (\<lambda>x. x \<notin> set (b # bs)) q" unfolding r by (simp add: conj_commute)
  ultimately show ?case using Cons.IH [of "op_forget b p" "remove1 b q"] Cons.prems(2) by simp
qed simp

lemma take_holds:
  assumes "pool_holds cfg p q"
  shows "fst (takeChildren parent p) = fst (queue_take parent q) \<and> pool_holds cfg (snd (takeChildren parent p)) (snd (queue_take parent q))"
proof -
  let ?c = "filter (\<lambda>b. blk_prev_hash b = parent) q"
  have h: "counts cfg p q" "op_by_prev p = waiting q" using assms by (simp_all add: pool_holds_def)
  have c: "fmget [] (op_by_prev p) parent = ?c" by (simp add: h(2))
  show ?thesis
  proof (cases "?c = []")
    case True
    then have "filter (\<lambda>b. blk_prev_hash b \<noteq> parent) q = q" by (auto simp: filter_empty_conv filter_id_conv)
    then show ?thesis using assms True by (simp add: takeChildren_def queue_take_def c Let_def)
  next
    case False
    let ?p = "p\<lparr>op_by_prev := fmdrop parent (op_by_prev p)\<rparr>"
    have "counts cfg ?p q" using h(1) by (simp add: counts_def)
    moreover have "distinct ?c" using h(1) by (auto simp: counts_def distinct_map)
    ultimately have "counts cfg (fold op_forget ?c ?p) (filter (\<lambda>x. x \<notin> set ?c) q) \<and> op_by_prev (fold op_forget ?c ?p) = op_by_prev ?p"
      by (rule forget_all) auto
    moreover have "filter (\<lambda>x. x \<notin> set ?c) q = filter (\<lambda>b. blk_prev_hash b \<noteq> parent) q" by (rule filter_cong) auto
    moreover have "fmdrop parent (waiting q) = waiting (filter (\<lambda>b. blk_prev_hash b \<noteq> parent) q)"
    proof (rule fmap_ext)
      fix k
      have "filter (\<lambda>b. blk_prev_hash b = k) (filter (\<lambda>b. blk_prev_hash b \<noteq> parent) q) = filter (\<lambda>b. blk_prev_hash b = k) q" if "k \<noteq> parent"
        using that by (auto intro: filter_cong)
      then show "fmlookup (fmdrop parent (waiting q)) k = fmlookup (waiting (filter (\<lambda>b. blk_prev_hash b \<noteq> parent) q)) k"
        by (auto simp: waiting_lookup)
    qed
    ultimately show ?thesis using False by (simp add: takeChildren_def queue_take_def pool_holds_def c h(2) Let_def)
  qed
qed

section \<open>Runs of the pool\<close>

text \<open>What a node does to its pool, and the same on a queue.\<close>

datatype orphan_call = Buffer block | Children string

fun orphan_run :: "config \<Rightarrow> orphan_call list \<Rightarrow> orphan_pool \<Rightarrow> orphan_pool" where
  "orphan_run cfg [] p = p"
| "orphan_run cfg (Buffer b # cs) p = orphan_run cfg cs (snd (op_add cfg b p))"
| "orphan_run cfg (Children h # cs) p = orphan_run cfg cs (snd (takeChildren h p))"

fun queue_run :: "config \<Rightarrow> int \<Rightarrow> int \<Rightarrow> orphan_call list \<Rightarrow> block list \<Rightarrow> block list" where
  "queue_run cfg mx mb [] q = q"
| "queue_run cfg mx mb (Buffer b # cs) q = queue_run cfg mx mb cs (snd (queue_add cfg mx mb b q))"
| "queue_run cfg mx mb (Children h # cs) q = queue_run cfg mx mb cs (snd (queue_take h q))"

lemma pool_limits:
  assumes "pool_holds cfg p q"
  shows "op_max (snd (op_add cfg b p)) = op_max p" "op_max_bytes (snd (op_add cfg b p)) = op_max_bytes p"
    "op_max (snd (takeChildren h p)) = op_max p" "op_max_bytes (snd (takeChildren h p)) = op_max_bytes p"
proof -
  have f: "op_max (fold op_forget bs p) = op_max p \<and> op_max_bytes (fold op_forget bs p) = op_max_bytes p" for bs p
    by (induction bs arbitrary: p) (simp_all add: op_forget_def op_release_def Let_def)
  show "op_max (snd (op_add cfg b p)) = op_max p" "op_max_bytes (snd (op_add cfg b p)) = op_max_bytes p"
    using make_room_holds [OF assms] by (simp_all add: op_add_def Let_def)
  show "op_max (snd (takeChildren h p)) = op_max p" "op_max_bytes (snd (takeChildren h p)) = op_max_bytes p"
    by (simp_all add: takeChildren_def Let_def f)
qed

lemma filter_le: "length (filter P q) \<le> length q \<and> weight cfg (filter P q) \<le> weight cfg q"
proof
  show "weight cfg (filter P q) \<le> weight cfg q"
    using blockBytes_nonneg by (induction q) (auto simp: weight_def intro: add_increasing)
qed (rule length_filter_le)


text \<open>
  C23. The orphan pool is a bounded queue: whatever sequence of blocks a node buffers and whichever
  parents it takes the children of, the pool's maps, order and byte count describe the blocks of a plain
  queue under the same calls, and the queue never exceeds the limit on blocks or the limit on bytes.
\<close>

theorem orphan_pool_refines:
  "let p = orphan_run cfg cs (newOrphanPool mx mb); q = queue_run cfg (op_max p) (op_max_bytes p) cs [] in
     pool_holds cfg p q \<and> int (length q) \<le> op_max p \<and> weight cfg q \<le> op_max_bytes p"
proof -
  have run: "pool_holds cfg (orphan_run cfg cs p) (queue_run cfg (op_max p) (op_max_bytes p) cs q)
      \<and> op_max (orphan_run cfg cs p) = op_max p \<and> op_max_bytes (orphan_run cfg cs p) = op_max_bytes p" if "pool_holds cfg p q" for p q
    using that
  proof (induction cs arbitrary: p q)
    case (Cons c cs)
    show ?case
    proof (cases c)
      case (Buffer b)
      then show ?thesis using Cons.IH [of "snd (op_add cfg b p)"] add_holds [OF Cons.prems] pool_limits(1,2) [OF Cons.prems] by fastforce
    next
      case (Children h)
      then show ?thesis using Cons.IH [of "snd (takeChildren h p)"] take_holds [OF Cons.prems] pool_limits(3,4) [OF Cons.prems] by fastforce
    qed
  qed simp
  have start: "pool_holds cfg (newOrphanPool mx mb) []" "1 \<le> op_max (newOrphanPool mx mb)" "0 \<le> op_max_bytes (newOrphanPool mx mb)"
    by (auto simp: pool_holds_def counts_def newOrphanPool_def waiting_def weight_def orphanPoolBytes_def)
  have bounds: "int (length (queue_run cfg m b cs q)) \<le> m \<and> weight cfg (queue_run cfg m b cs q) \<le> b"
    if "1 \<le> m" "int (length q) \<le> m" "weight cfg q \<le> b" for m b q
    using that(2,3)
  proof (induction cs arbitrary: q)
    case (Cons c cs)
    show ?case
    proof (cases c)
      case (Buffer x)
      then show ?thesis using Cons room_fits [OF that(1), of "blockBytes cfg x" b cfg q]
        by (auto simp: queue_add_def weight_def)
    next
      case (Children h)
      let ?q = "filter (\<lambda>b. blk_prev_hash b \<noteq> h) q"
      have "int (length ?q) \<le> m" "weight cfg ?q \<le> b"
        using Cons.prems filter_le [of "\<lambda>b. blk_prev_hash b \<noteq> h" q cfg] by linarith+
      from Cons.IH [OF this] Children show ?thesis by (simp add: queue_take_def)
    qed
  qed simp
  show ?thesis using run [OF start(1)] bounds [OF start(2), of "[]"] start(2,3) by (simp add: Let_def weight_def)
qed

end
