(* ===== verification/Node.thy ===== *)
theory Node
  imports Peer_Tables Orphan_Pool Template_Theorems
begin

text \<open>
  The peer-to-peer node (\<open>node/node.go\<close>, \<open>node/sync.go\<close>, \<open>node/txrelay.go\<close>, \<open>node/compactblock.go\<close>,
  \<open>node/cfilterwire.go\<close>, \<open>node/dandelion.go\<close>, \<open>node/shares.go\<close>): its state, the messages of its
  protocol, and one definition per handler. A handler takes the node's state and returns the changed
  state; what it sends is appended to \<open>nd_out\<close>, what it publishes to \<open>nd_events\<close>, and a dial loop it
  starts to \<open>nd_dials\<close>. The option around a result is \<open>None\<close> when an operation of the chain or the pool
  below it does not return or a Go operation would panic. A handler runs at one instant of \<open>node_env\<close>;
  peers are named by a number in place of their pointer.
\<close>

section \<open>Messages\<close>

datatype msg_type =
    MsgIdentity | MsgHello | MsgGetPeers | MsgPeers | MsgTx | MsgTxInv | MsgGetTx | MsgTxs
  | MsgGetMempool | MsgMempool | MsgInv | MsgGetData | MsgBlock | MsgCmpctBlock | MsgGetBlockTxn | MsgBlockTxn
  | MsgGetHeaders | MsgHeaders | MsgGetBlocks | MsgBlocks | MsgGetCFilters | MsgCFilters | MsgGetCFHeaders | MsgCFHeaders
  | MsgGetChain | MsgChain | MsgPing | MsgPong | MsgVersion | MsgUnknown string

definition ProtocolVersion :: int where "ProtocolVersion = 2"
definition MinProtocolVersion :: int where "MinProtocolVersion = 1"
definition CapDandelion :: string where "CapDandelion = ''dand''"
definition CapMempool :: string where "CapMempool = ''mpool''"
definition CapTxInv :: string where "CapTxInv = ''txinv''"
definition CapCompact :: string where "CapCompact = ''cmpct''"
definition CapCFilters :: string where "CapCFilters = ''cf''"

definition maxGossipPeers :: nat where "maxGossipPeers = 256"
definition maxHeadersBatch :: nat where "maxHeadersBatch = 2000"
definition maxBlocksBatch :: nat where "maxBlocksBatch = 256"
definition maxMempoolBatch :: nat where "maxMempoolBatch = 256"
definition maxTxInvBatch :: nat where "maxTxInvBatch = 512"
definition maxCFilterBatch :: nat where "maxCFilterBatch = 128"
definition maxCFHeaderBatch :: nat where "maxCFHeaderBatch = 2000"

text \<open>What a frame of each type may carry.\<close>

definition maxFrame :: nat where "maxFrame = 64 * 2 ^ 20"
definition smallMsgCap :: nat where "smallMsgCap = 2 ^ 20"
definition blockOverhead :: nat where "blockOverhead = 4"
definition chainCap :: nat where "chainCap = maxFrame"
definition maxHeaderBytes :: nat where "maxHeaderBytes = 1024"

definition maxPayloadFor :: "msg_type \<Rightarrow> nat" where
  "maxPayloadFor t =
     (case t of
        MsgChain \<Rightarrow> chainCap
      | MsgBlocks \<Rightarrow> maxBlocksBatch * MaxBlockBytes * blockOverhead
      | MsgBlock \<Rightarrow> MaxBlockBytes * blockOverhead
      | MsgCmpctBlock \<Rightarrow> MaxBlockBytes * blockOverhead
      | MsgBlockTxn \<Rightarrow> MaxBlockBytes * blockOverhead
      | MsgTxs \<Rightarrow> MaxBlockBytes * blockOverhead
      | MsgMempool \<Rightarrow> MaxBlockBytes * blockOverhead
      | MsgTx \<Rightarrow> MaxBlockBytes * blockOverhead
      | MsgHeaders \<Rightarrow> maxHeadersBatch * maxHeaderBytes
      | _ \<Rightarrow> smallMsgCap)"

record compact_block =
  cb_header :: header
  cb_coinbase :: transaction
  cb_short_ids :: "string list"

record message =
  msg_kind :: msg_type
  msg_pubkey :: string
  msg_sig :: string
  msg_addr :: string
  msg_peers :: "string list"
  msg_version :: int
  msg_caps :: "string list"
  msg_network :: string
  msg_time :: int
  msg_tx :: "transaction option"
  msg_stem :: bool
  msg_block :: "block option"
  msg_txs :: "transaction list"
  msg_blocks :: "block list"
  msg_chain :: "block list"
  msg_headers :: "header list"
  msg_locator :: "string list"
  msg_hashes :: "string list"
  msg_indexes :: "u32 list"
  msg_cmpct :: "compact_block option"
  msg_index :: u64
  msg_hash :: string
  msg_from :: u64
  msg_to :: u64
  msg_filters :: "block_filter list"
  msg_cfheaders :: "string list"
  msg_base :: u64

definition Message :: "msg_type \<Rightarrow> message" where
  "Message t =
     \<lparr>msg_kind = t, msg_pubkey = [], msg_sig = [], msg_addr = [], msg_peers = [], msg_version = 0, msg_caps = [],
      msg_network = [], msg_time = 0, msg_tx = None, msg_stem = False, msg_block = None, msg_txs = [], msg_blocks = [],
      msg_chain = [], msg_headers = [], msg_locator = [], msg_hashes = [], msg_indexes = [], msg_cmpct = None,
      msg_index = 0, msg_hash = [], msg_from = 0, msg_to = 0, msg_filters = [], msg_cfheaders = [], msg_base = 0\<rparr>"

section \<open>State\<close>

record peer =
  p_addr :: string
  p_id :: string
  p_ip :: string
  p_version :: int
  p_caps :: "string list"
  p_last_get_chain :: int
  p_asked_mempool :: bool
  p_inbound :: bool
  p_since :: int
  p_time_offset :: "int option"

record pending_block =
  pd_header :: header
  pd_txs :: "transaction list"
  pd_missing :: "u32 list"
  pd_from :: nat
  pd_deadline :: int

record block_request =
  br_from :: u64
  br_to :: u64
  br_sent :: int

text \<open>Dandelion's state; an armed embargo is a transaction and the instant at which it fluffs.\<close>

record dandelion =
  dn_stem_id :: string
  dn_epoch_until :: int
  dn_embargoes :: "(string, transaction \<times> int) fmap"

record event =
  ev_type :: string
  ev_height :: u64
  ev_hash :: string
  ev_txs :: nat
  ev_from :: string
  ev_to :: string
  ev_amount :: u64
  ev_fee :: u64
  ev_outputs :: nat

record miner_shares =
  ms_address :: string
  ms_shares :: u64
  ms_blocks :: u64
  ms_last_height :: u64

record share_ledger =
  sl_submitted :: u64
  sl_accepted :: u64
  sl_stale :: u64
  sl_blocks :: u64
  sl_by_miner :: "(string, miner_shares) fmap"

record node_config =
  nc_advertise_addr :: string
  nc_dandelion :: bool
  nc_signal_bits :: "8 word list"
  nc_share_factor :: u32
  nc_identity :: string
  nc_network :: string
  nc_max_peers :: int

record node =
  nd_cfg :: node_config
  nd_chain :: chain
  nd_mempool :: mempool
  nd_peers :: "(nat, peer) fmap"
  nd_seen_blk :: seen_set
  nd_seen_tx :: seen_set
  nd_tx_req :: tx_requests
  nd_assembly :: "(string, pending_block) fmap"
  nd_compact_hit :: int
  nd_compact_miss :: int
  nd_shares :: share_ledger
  nd_reorgs :: reorg_log
  nd_cfilters_served :: u64
  nd_cfheaders_served :: u64
  nd_cfilter_replies :: u64
  nd_cfheader_replies :: u64
  nd_book :: peerbook
  nd_addrs :: addrman
  nd_bans :: banbook
  nd_dand :: dandelion
  nd_orphans :: orphan_pool
  nd_inflight :: "(nat, block_request) fmap"
  nd_best_height :: int
  nd_mining :: bool
  nd_tip_gen :: int
  nd_tx_gen :: int
  nd_out :: "(nat \<times> message) list"
  nd_events :: "event list"
  nd_dials :: "string list"
  nd_dropped :: "nat list"

text \<open>
  What a handler reads from outside: the clock in nanoseconds and as text, the clock and the workers of
  block validation, the order of map iterations, the \<open>net\<close> package, the random choices of Dandelion.
\<close>

record node_env =
  ne_now :: int
  ne_stamp :: string
  ne_core :: env
  ne_order :: "nat list \<Rightarrow> nat list"
  ne_keys :: "string list \<Rightarrow> string list"
  ne_net :: net_lib
  ne_fluff :: bool
  ne_pick :: "nat \<Rightarrow> nat"

abbreviation nd_config :: "node \<Rightarrow> config" where
  "nd_config nd \<equiv> bc_cfg (nd_chain nd)"

definition bc_Height :: "chain \<Rightarrow> u64" where
  "bc_Height bc = blk_index (bc_tip bc)"

section \<open>Sending, publishing, noting\<close>

definition supports :: "peer \<Rightarrow> string \<Rightarrow> bool" where
  "supports p cap \<longleftrightarrow> cap \<in> set (p_caps p)"

definition nd_send :: "nat \<Rightarrow> message \<Rightarrow> node \<Rightarrow> node" where
  "nd_send p m nd = nd\<lparr>nd_out := nd_out nd @ [(p, m)]\<rparr>"

definition peers_except :: "node_env \<Rightarrow> nat option \<Rightarrow> node \<Rightarrow> (nat \<times> peer) list" where
  "peers_except e except nd =
     map (\<lambda>i. (i, the (fmlookup (nd_peers nd) i))) (filter (\<lambda>i. Some i \<noteq> except) (ne_order e (fmkeys (nd_peers nd))))"

definition broadcastExcept :: "node_env \<Rightarrow> message \<Rightarrow> nat option \<Rightarrow> node \<Rightarrow> node" where
  "broadcastExcept e m except nd = fold (\<lambda>(i, _). nd_send i m) (peers_except e except nd) nd"

definition nd_emit :: "event \<Rightarrow> node \<Rightarrow> node" where
  "nd_emit ev nd = nd\<lparr>nd_events := nd_events nd @ [ev]\<rparr>"

definition publishBlock :: "bool \<Rightarrow> node \<Rightarrow> node" where
  "publishBlock reorg nd =
     (let tip = bc_tip (nd_chain nd) in
      nd_emit \<lparr>ev_type = (if reorg then ''reorg'' else ''block''), ev_height = blk_index tip, ev_hash = blk_hash tip,
        ev_txs = length (blk_transactions tip), ev_from = [], ev_to = [], ev_amount = 0, ev_fee = 0, ev_outputs = 0\<rparr> nd)"

definition publishTx :: "transaction \<Rightarrow> node \<Rightarrow> node" where
  "publishTx tx nd =
     nd_emit \<lparr>ev_type = ''tx'', ev_height = 0, ev_hash = tx_hash (nd_config nd) tx, ev_txs = 0, ev_from = tx_from tx,
       ev_to = tx_to tx,
       ev_amount = (if IsMultiOutput tx then (case TotalOut tx of None \<Rightarrow> 0 | Some t \<Rightarrow> t) else tx_amount tx),
       ev_fee = tx_fee tx, ev_outputs = (if IsMultiOutput tx then length (tx_outputs tx) else 0)\<rparr> nd"

definition markSeenBlock :: "string \<Rightarrow> node \<Rightarrow> bool \<times> node" where
  "markSeenBlock h nd = (case sn_seen h (nd_seen_blk nd) of (r, s) \<Rightarrow> (r, nd\<lparr>nd_seen_blk := s\<rparr>))"

definition markSeenTx :: "string \<Rightarrow> node \<Rightarrow> bool \<times> node" where
  "markSeenTx h nd = (case sn_seen h (nd_seen_tx nd) of (r, s) \<Rightarrow> (r, nd\<lparr>nd_seen_tx := s\<rparr>))"

definition onTipChanged :: "node \<Rightarrow> node" where
  "onTipChanged nd = nd\<lparr>nd_tip_gen := nd_tip_gen nd + 1\<rparr>"

definition onNewTx :: "node \<Rightarrow> node" where
  "onNewTx nd = nd\<lparr>nd_tx_gen := nd_tx_gen nd + 1\<rparr>"

definition ban_peer :: "nat \<Rightarrow> int \<Rightarrow> node \<Rightarrow> node" where
  "ban_peer p points nd =
     (case fmlookup (nd_peers nd) p of None \<Rightarrow> nd
      | Some pr \<Rightarrow> nd\<lparr>nd_bans := snd (ban_add (p_id pr) points (nd_bans nd))\<rparr>)"

definition getHeadersMsg :: "node \<Rightarrow> message" where
  "getHeadersMsg nd = (Message MsgGetHeaders)\<lparr>msg_locator := Locator (nd_chain nd)\<rparr>"

definition addPeer :: "nat \<Rightarrow> peer \<Rightarrow> node \<Rightarrow> node" where
  "addPeer i p nd = nd\<lparr>nd_peers := fmupd i p (nd_peers nd)\<rparr>"

definition clearRequest :: "nat \<Rightarrow> node \<Rightarrow> node" where
  "clearRequest p nd = nd\<lparr>nd_inflight := fmdrop p (nd_inflight nd)\<rparr>"

definition trackRequest :: "node_env \<Rightarrow> nat \<Rightarrow> u64 \<Rightarrow> u64 \<Rightarrow> node \<Rightarrow> node" where
  "trackRequest e p a b nd = nd\<lparr>nd_inflight := fmupd p \<lparr>br_from = a, br_to = b, br_sent = ne_now e\<rparr> (nd_inflight nd)\<rparr>"

definition removePeer :: "nat \<Rightarrow> node \<Rightarrow> node" where
  "removePeer i nd = clearRequest i (nd\<lparr>nd_peers := fmdrop i (nd_peers nd)\<rparr>)"

definition caps :: "node \<Rightarrow> string list" where
  "caps nd = [CapMempool, CapTxInv, CapCompact, CapCFilters] @ (if nc_dandelion (nd_cfg nd) then [CapDandelion] else [])"

definition PeerAddrs :: "node_env \<Rightarrow> node \<Rightarrow> string list" where
  "PeerAddrs e nd = rev (remdups (rev (filter (\<lambda>a. a \<noteq> []) (map (\<lambda>(_, p). p_addr p) (peers_except e None nd)))))"

definition connectedTo :: "string \<Rightarrow> node \<Rightarrow> bool" where
  "connectedTo addr nd \<longleftrightarrow> (\<exists>i \<in> set (fmkeys (nd_peers nd)). map_option p_addr (fmlookup (nd_peers nd) i) = Some addr)"

end
