(* ===== verification/Node_Handlers.thy ===== *)
theory Node_Handlers
  imports Node "HOL-Library.Monad_Syntax"
begin

text \<open>
  The handlers of the node: pending transactions, blocks that arrive in full, in batches or as compact
  blocks, the headers-first synchronisation, filters for light clients, the mined blocks of the node's own
  miner and of external ones, and the dispatch of a message. They follow \<open>node/node.go\<close> and its siblings
  call by call; log lines are left out.
\<close>

section \<open>A new node\<close>

text \<open>\<open>addrOrder\<close> is the order in which the address manager's table is visited.\<close>

definition newNode :: "node_config \<Rightarrow> bool \<Rightarrow> (string list \<Rightarrow> string list) \<Rightarrow> chain \<Rightarrow> mempool \<Rightarrow> node" where
  "newNode nc mine addrOrder bc m =
     \<lparr>nd_cfg = nc, nd_chain = bc, nd_mempool = m, nd_peers = fmempty, nd_seen_blk = newSeenSet seenCapacity,
      nd_seen_tx = newSeenSet seenCapacity, nd_tx_req = newTxRequests, nd_assembly = fmempty, nd_compact_hit = 0,
      nd_compact_miss = 0,
      nd_shares = \<lparr>sl_submitted = 0, sl_accepted = 0, sl_stale = 0, sl_blocks = 0, sl_by_miner = fmempty\<rparr>,
      nd_reorgs = newReorgLog, nd_cfilters_served = 0, nd_cfheaders_served = 0, nd_cfilter_replies = 0, nd_cfheader_replies = 0,
      nd_book = newPeerbook (nc_advertise_addr nc) (nc_max_peers nc), nd_addrs = newAddrman addrOrder,
      nd_bans = newBanbook banThreshold, nd_dand = \<lparr>dn_stem_id = [], dn_epoch_until = 0, dn_embargoes = fmempty\<rparr>,
      nd_orphans = newOrphanPool orphanPoolCapacity orphanPoolBytes, nd_inflight = fmempty, nd_best_height = 0,
      nd_mining = mine, nd_tip_gen = 0, nd_tx_gen = 0, nd_out = [], nd_events = [], nd_dials = [], nd_dropped = []\<rparr>"

section \<open>Pending transactions\<close>

definition pick_stem :: "node_env \<Rightarrow> (nat \<times> peer) list \<Rightarrow> dandelion \<Rightarrow> nat option \<times> dandelion" where
  "pick_stem e cands d =
     (let cur = find (\<lambda>(_, p). p_id p = dn_stem_id d) cands in
      if cur \<noteq> None \<and> ne_now e < dn_epoch_until d then (map_option fst cur, d)
      else if cands = [] then (None, d\<lparr>dn_stem_id := []\<rparr>)
      else case cands ! (ne_pick e (length cands) mod length cands) of (i, p) \<Rightarrow>
        (Some i, d\<lparr>dn_stem_id := p_id p, dn_epoch_until := ne_now e + 120 * 10 ^ 9\<rparr>))"

definition dandEmbargo :: int where "dandEmbargo = 5 * 10 ^ 9"

definition startEmbargo :: "node_env \<Rightarrow> string \<Rightarrow> transaction \<Rightarrow> dandelion \<Rightarrow> dandelion" where
  "startEmbargo e h tx d =
     (if fmlookup (dn_embargoes d) h \<noteq> None then d
      else d\<lparr>dn_embargoes := fmupd h (tx, ne_now e + dandEmbargo) (dn_embargoes d)\<rparr>)"

definition cancelEmbargo :: "string \<Rightarrow> dandelion \<Rightarrow> dandelion" where
  "cancelEmbargo h d = d\<lparr>dn_embargoes := fmdrop h (dn_embargoes d)\<rparr>"

definition announceTx :: "node_env \<Rightarrow> transaction \<Rightarrow> nat option \<Rightarrow> node \<Rightarrow> node" where
  "announceTx e tx except nd =
     (let inv = (Message MsgTxInv)\<lparr>msg_hashes := [tx_hash (nd_config nd) tx]\<rparr>;
          full = (Message MsgTx)\<lparr>msg_tx := Some tx\<rparr>
      in fold (\<lambda>(i, p). nd_send i (if supports p CapTxInv then inv else full)) (peers_except e except nd) nd)"

definition fluff :: "node_env \<Rightarrow> transaction \<Rightarrow> nat option \<Rightarrow> node \<Rightarrow> node" where
  "fluff e tx except nd = announceTx e tx except nd"

definition stemSuccessor :: "node_env \<Rightarrow> nat option \<Rightarrow> node \<Rightarrow> nat option \<times> node" where
  "stemSuccessor e exclude nd =
     (case pick_stem e (filter (\<lambda>(_, p). supports p CapDandelion) (peers_except e exclude nd)) (nd_dand nd) of
        (r, d) \<Rightarrow> (r, nd\<lparr>nd_dand := d\<rparr>))"

definition relayTx :: "node_env \<Rightarrow> transaction \<Rightarrow> nat option \<Rightarrow> bool \<Rightarrow> node \<Rightarrow> node" where
  "relayTx e tx source stemPhase nd =
     (if \<not> nc_dandelion (nd_cfg nd) \<or> \<not> stemPhase then fluff e tx source nd
      else case stemSuccessor e source nd of
        (None, nd1) \<Rightarrow> fluff e tx source nd1
      | (Some sp, nd1) \<Rightarrow>
          if ne_fluff e then fluff e tx source nd1
          else let nd2 = nd_send sp ((Message MsgTx)\<lparr>msg_tx := Some tx, msg_stem := True\<rparr>) nd1
            in nd2\<lparr>nd_dand := startEmbargo e (tx_hash (nd_config nd) tx) tx (nd_dand nd2)\<rparr>)"

text \<open>The timer of an embargo: it forgets the transaction and fluffs it.\<close>

definition embargo_fires :: "node_env \<Rightarrow> string \<Rightarrow> node \<Rightarrow> node" where
  "embargo_fires e h nd =
     (case fmlookup (dn_embargoes (nd_dand nd)) h of None \<Rightarrow> nd
      | Some (tx, due) \<Rightarrow>
          if ne_now e < due then nd
          else fluff e tx None (nd\<lparr>nd_dand := cancelEmbargo h (nd_dand nd)\<rparr>))"

text \<open>
  Admission to the node's pool: against the node's chain, with the cache of verified signatures the two
  share.
\<close>

definition pool_add :: "transaction \<Rightarrow> node \<Rightarrow> ((mempool_error + bool) \<times> node) option" where
  "pool_add tx nd =
     (let bc = nd_chain nd in
      map_option (\<lambda>(r, m, cache). (r, nd\<lparr>nd_mempool := m, nd_chain := bc\<lparr>bc_sig_cache := cache\<rparr>\<rparr>))
        (mp_Add (bc_cfg bc) (Some (chain_source bc)) (bc_sig_cache bc) tx (nd_mempool nd)))"

definition NextNonce :: "string \<Rightarrow> node \<Rightarrow> u64" where
  "NextNonce addr nd =
     fold (\<lambda>tx nxt. if tx_from tx = addr \<and> nxt \<le> tx_nonce tx then tx_nonce tx + 1 else nxt)
       (mp_All (nd_mempool nd)) (acc_nonce (state_Get (bc_state (nd_chain nd)) addr))"

datatype submit_error = AlreadyExpired u64 u64 | SubmitRefused mempool_error

definition SubmitTx :: "node_env \<Rightarrow> transaction \<Rightarrow> node \<Rightarrow> (submit_error option \<times> node) option" where
  "SubmitTx e tx nd =
     (let nxt = bc_Height (nd_chain nd) + 1 in
      if IsExpiredAt tx nxt then Some (Some (AlreadyExpired (tx_expiry tx) nxt), nd)
      else do { (r, nd1) \<leftarrow> pool_add tx nd;
        Some (case r of
            Inl err \<Rightarrow> (Some (SubmitRefused err), nd1)
          | Inr False \<Rightarrow> (None, nd1)
          | Inr True \<Rightarrow>
              (None, publishTx tx (relayTx e tx None True (onNewTx (snd (markSeenTx (tx_hash (nd_config nd1) tx) nd1)))))) })"

definition onTx :: "node_env \<Rightarrow> nat \<Rightarrow> transaction option \<Rightarrow> bool \<Rightarrow> node \<Rightarrow> node option" where
  "onTx e p txo stem nd =
     (case txo of None \<Rightarrow> Some nd
      | Some tx \<Rightarrow>
          let h = tx_hash (nd_config nd) tx;
              nd1 = nd\<lparr>nd_tx_req := tr_done h (nd_tx_req nd)\<rparr>;
              nd2 = (if stem then nd1 else nd1\<lparr>nd_dand := cancelEmbargo h (nd_dand nd1)\<rparr>)
          in case markSeenTx h nd2 of
            (True, nd3) \<Rightarrow> Some nd3
          | (False, nd3) \<Rightarrow>
              if IsExpiredAt tx (bc_Height (nd_chain nd3) + 1) then Some nd3
              else do { (r, nd4) \<leftarrow> pool_add tx nd3;
                Some (case r of Inr True \<Rightarrow> publishTx tx (relayTx e tx (Some p) stem (onNewTx nd4)) | _ \<Rightarrow> nd4) })"

definition mempoolBatch :: "node \<Rightarrow> transaction list" where
  "mempoolBatch nd = take maxMempoolBatch (mp_All (nd_mempool nd))"

fun learn_txs :: "node_env \<Rightarrow> nat \<Rightarrow> u64 \<Rightarrow> nat \<Rightarrow> transaction list \<Rightarrow> node \<Rightarrow> (nat \<times> node) option" where
  "learn_txs e p nxt learned [] nd = Some (learned, nd)"
| "learn_txs e p nxt learned (tx # txs) nd =
     (if IsExpiredAt tx nxt then learn_txs e p nxt learned txs nd
      else let h = tx_hash (nd_config nd) tx in
        case markSeenTx h (nd\<lparr>nd_tx_req := tr_done h (nd_tx_req nd)\<rparr>) of
          (True, nd1) \<Rightarrow> learn_txs e p nxt learned txs nd1
        | (False, nd1) \<Rightarrow>
            (case pool_add tx nd1 of
               None \<Rightarrow> None
             | Some (Inr True, nd2) \<Rightarrow> learn_txs e p nxt (learned + 1) txs (publishTx tx (fluff e tx (Some p) nd2))
             | Some (_, nd2) \<Rightarrow> learn_txs e p nxt learned txs nd2))"

definition onMempoolBatch :: "node_env \<Rightarrow> nat \<Rightarrow> transaction list \<Rightarrow> node \<Rightarrow> node option" where
  "onMempoolBatch e p txs nd =
     do { (learned, nd1) \<leftarrow> learn_txs e p (bc_Height (nd_chain nd) + 1) 0 (take maxMempoolBatch txs) nd;
          Some (if 0 < learned then onNewTx nd1 else nd1) }"

fun want_txs :: "int \<Rightarrow> string list \<Rightarrow> node \<Rightarrow> string list \<times> node" where
  "want_txs now [] nd = ([], nd)"
| "want_txs now (h # hs) nd =
     (if \<not> looksLikeTxid h \<or> sn_has h (nd_seen_tx nd) \<or> fmlookup (mp_txs (nd_mempool nd)) h \<noteq> None then want_txs now hs nd
      else case tr_claim h now (nd_tx_req nd) of (ok, r) \<Rightarrow>
        (case want_txs now hs (nd\<lparr>nd_tx_req := r\<rparr>) of (want, nd1) \<Rightarrow> (if ok then h # want else want, nd1)))"

definition onTxInv :: "node_env \<Rightarrow> nat \<Rightarrow> string list \<Rightarrow> node \<Rightarrow> node" where
  "onTxInv e p hashes nd =
     (case want_txs (ne_now e) (take maxTxInvBatch hashes) nd of (want, nd1) \<Rightarrow>
        if want = [] then nd1 else nd_send p ((Message MsgGetTx)\<lparr>msg_hashes := want\<rparr>) nd1)"

definition onGetTx :: "nat \<Rightarrow> string list \<Rightarrow> node \<Rightarrow> node" where
  "onGetTx p hashes nd =
     (let txs = take maxMempoolBatch (List.map_filter (fmlookup (mp_txs (nd_mempool nd))) (take maxTxInvBatch hashes)) in
      if txs = [] then nd else nd_send p ((Message MsgTxs)\<lparr>msg_txs := txs\<rparr>) nd)"

section \<open>New blocks\<close>

definition nd_AddBlock :: "node_env \<Rightarrow> block \<Rightarrow> node \<Rightarrow> (chain_error option \<times> node) option" where
  "nd_AddBlock e b nd = map_option (\<lambda>(err, bc). (err, nd\<lparr>nd_chain := bc\<rparr>)) (AddBlock (ne_core e) b (nd_chain nd))"

definition reconcileMempool :: "node \<Rightarrow> node" where
  "reconcileMempool nd =
     nd\<lparr>nd_mempool := snd (Reconcile (nd_config nd) (Some (chain_source (nd_chain nd))) (bc_Height (nd_chain nd)) (nd_mempool nd))\<rparr>"

definition afterNewBlock :: "bool \<Rightarrow> node \<Rightarrow> node" where
  "afterNewBlock reorg nd = publishBlock reorg (reconcileMempool (onTipChanged nd))"

fun resurrect :: "transaction list \<Rightarrow> int \<Rightarrow> node \<Rightarrow> (int \<times> node) option" where
  "resurrect [] n nd = Some (n, nd)"
| "resurrect (tx # txs) n nd =
     (if fmlookup (bc_tx_index (nd_chain nd)) (tx_hash (nd_config nd) tx) \<noteq> None then resurrect txs n nd
      else do { (r, nd1) \<leftarrow> pool_add tx nd; resurrect txs (if r = Inr True then n + 1 else n) nd1 })"

definition resurrectTxs :: "block list \<Rightarrow> node \<Rightarrow> (int \<times> node) option" where
  "resurrectTxs disconnected nd = resurrect (concat (map (\<lambda>b. drop 1 (blk_transactions b)) disconnected)) 0 nd"

definition int64_of :: "u64 \<Rightarrow> int" where
  "int64_of h = wrap64 (int (unat h))"

definition noteReorg :: "node_env \<Rightarrow> block list \<Rightarrow> int \<Rightarrow> node \<Rightarrow> node" where
  "noteReorg e disconnected requeued nd =
     (if disconnected = [] then nd
      else let oldTip = last disconnected; tip = bc_tip (nd_chain nd);
               orphaned = sum_list (map (\<lambda>b. if 1 < length (blk_transactions b) then int (length (blk_transactions b)) - 1 else 0) disconnected);
               age = min (ne_now e - blk_timestamp oldTip * 10 ^ 9) (2 ^ 63 - 1)
        in nd\<lparr>nd_reorgs := reorg_record
             \<lparr>ro_at = ne_stamp e, ro_height = blk_index tip, ro_fork_height = blk_index (hd disconnected) - 1,
              ro_depth = int (length disconnected), ro_adopted = int64_of (blk_index tip) - int64_of (blk_index (hd disconnected)) + 1,
              ro_old_tip = blk_hash oldTip, ro_new_tip = blk_hash tip, ro_requeued = requeued,
              ro_dropped_txs = orphaned - requeued,
              ro_seen_seconds = (if 0 < age then \<lfloor>duration_seconds age\<rfloor> else 0)\<rparr> (nd_reorgs nd)\<rparr>)"

definition refused_reason :: "chain_error \<Rightarrow> (int \<times> string) option" where
  "refused_reason err =
     (case err of BelowCheckpoint removed _ _ \<Rightarrow> Some (int removed, ''below_checkpoint'')
      | TooDeep removed _ \<Rightarrow> Some (int removed, ''too_deep'') | _ \<Rightarrow> None)"

definition noteRefusedReorg :: "node_env \<Rightarrow> chain_error \<Rightarrow> node \<Rightarrow> node" where
  "noteRefusedReorg e err nd =
     (case refused_reason err of None \<Rightarrow> nd
      | Some (depth, why) \<Rightarrow> nd\<lparr>nd_reorgs := noteRefused depth why (ne_now e) (nd_reorgs nd)\<rparr>)"

definition noteBestHeight :: "u64 \<Rightarrow> node \<Rightarrow> node" where
  "noteBestHeight h nd = (if int64_of h \<le> nd_best_height nd then nd else nd\<lparr>nd_best_height := int64_of h\<rparr>)"

definition bestKnownHeight :: "node \<Rightarrow> u64" where
  "bestKnownHeight nd = (if nd_best_height nd < 0 then 0 else of_int (nd_best_height nd))"

definition BlocksBehind :: "node \<Rightarrow> u64" where
  "BlocksBehind nd =
     (let tip = bc_Height (nd_chain nd); best = bestKnownHeight nd in if tip < best then best - tip else 0)"

definition bufferOrphan :: "block \<Rightarrow> node \<Rightarrow> bool \<times> node" where
  "bufferOrphan b nd =
     (if blk_index b \<le> bc_Height (nd_chain nd) then (False, nd)
      else if SelfValid (nd_config nd) b \<noteq> None then (False, nd)
      else case op_add (nd_config nd) b (nd_orphans nd) of (r, p) \<Rightarrow> (r, nd\<lparr>nd_orphans := p\<rparr>))"

fun connect_children :: "node_env \<Rightarrow> block list \<Rightarrow> nat \<Rightarrow> node \<Rightarrow> (nat \<times> node) option" where
  "connect_children e [] k nd = Some (k, nd)"
| "connect_children e (b # bs) k nd =
     (case nd_AddBlock e b nd of
        None \<Rightarrow> None
      | Some (Some _, nd1) \<Rightarrow> connect_children e bs k nd1
      | Some (None, nd1) \<Rightarrow> connect_children e bs (k + 1) (snd (markSeenBlock (blk_hash b) nd1)))"

lemma AddBlock_orphans: "nd_AddBlock e b nd = Some (r, nd1) \<Longrightarrow> nd_orphans nd1 = nd_orphans nd"
  by (auto simp: nd_AddBlock_def)

lemma markSeen_orphans [simp]: "nd_orphans (snd (markSeenBlock h nd)) = nd_orphans nd"
  by (simp add: markSeenBlock_def split: prod.split)

lemma connect_children_orphans:
  "connect_children e bs k nd = Some (j, nd') \<Longrightarrow> nd_orphans nd' = nd_orphans nd"
proof (induction bs arbitrary: k nd)
  case (Cons b bs)
  obtain r nd1 where a: "nd_AddBlock e b nd = Some (r, nd1)"
    using Cons.prems by (cases "nd_AddBlock e b nd") auto
  show ?case using Cons.IH Cons.prems AddBlock_orphans [OF a] by (cases r) (fastforce simp: a)+
qed simp

lemma takeChildren_smaller:
  assumes "takeChildren parent p = (children, p')" "children \<noteq> []"
  shows "fcard (fmdom (op_by_prev p')) < fcard (fmdom (op_by_prev p))"
proof -
  have keep: "op_by_prev (fold op_forget bs q) = op_by_prev q" for bs q
    by (induction bs arbitrary: q) (auto simp: op_forget_def op_release_def Let_def)
  have "parent |\<in>| fmdom (op_by_prev p)"
    using assms by (auto simp: takeChildren_def Let_def fmget_def fmlookup_dom_iff split: if_splits option.splits)
  moreover have "fmdom (op_by_prev p') = fmdom (op_by_prev p) |-| {|parent|}"
    using assms by (auto simp: takeChildren_def Let_def keep split: if_splits)
  ultimately show ?thesis by (metis fcard_fminus1_less)
qed

function connectOrphans :: "node_env \<Rightarrow> nat \<Rightarrow> node \<Rightarrow> (nat \<times> node) option" where
  "connectOrphans e connected nd =
     (case takeChildren (blk_hash (bc_tip (nd_chain nd))) (nd_orphans nd) of (children, pool) \<Rightarrow>
        if children = [] then Some (connected, nd)
        else case connect_children e children 0 (nd\<lparr>nd_orphans := pool\<rparr>) of
          None \<Rightarrow> None
        | Some (k, nd1) \<Rightarrow> if k = 0 then Some (connected, nd1) else connectOrphans e (connected + k) nd1)"
  by pat_completeness auto
termination
  by (relation "measure (\<lambda>(e, n, nd). fcard (fmdom (op_by_prev (nd_orphans nd))))")
    (auto dest!: connect_children_orphans takeChildren_smaller [OF sym])

declare connectOrphans.simps [simp del]


section \<open>Compact blocks\<close>

definition shortIDLen :: nat where "shortIDLen = 8"
definition maxPendingBlocks :: nat where "maxPendingBlocks = 16"
definition pendingBlockTTL :: int where "pendingBlockTTL = 60 * 10 ^ 9"

definition shortID :: "config \<Rightarrow> string \<Rightarrow> string \<Rightarrow> string" where
  "shortID cfg blockHash txid = hex_encode (take shortIDLen (sha256 cfg (blockHash @ ''|'' @ txid)))"

text \<open>Slicing an empty list of transactions panics.\<close>

definition NewCompactBlock :: "config \<Rightarrow> block \<Rightarrow> compact_block option" where
  "NewCompactBlock cfg b =
     (case blk_transactions b of [] \<Rightarrow> None
      | coinbase # txs \<Rightarrow> Some \<lparr>cb_header = block_Header b, cb_coinbase = coinbase,
          cb_short_ids = map (\<lambda>tx. shortID cfg (blk_hash b) (tx_hash cfg tx)) txs\<rparr>)"

definition older_pending :: "(string, pending_block) fmap \<Rightarrow> string \<Rightarrow> (string \<times> int) option \<Rightarrow> (string \<times> int) option" where
  "older_pending m h acc =
     (case fmlookup m h of None \<Rightarrow> acc
      | Some pb \<Rightarrow> (case acc of None \<Rightarrow> Some (h, pd_deadline pb)
          | Some (_, at) \<Rightarrow> if pd_deadline pb < at then Some (h, pd_deadline pb) else acc))"

definition drop_oldest_pending :: "node_env \<Rightarrow> (string, pending_block) fmap \<Rightarrow> (string, pending_block) fmap" where
  "drop_oldest_pending e m =
     (case fold (older_pending m) (ne_keys e (fmkeys m)) None of None \<Rightarrow> m | Some (h, _) \<Rightarrow> fmdrop h m)"

text \<open>A round of the eviction loop drops one entry, so it takes as many rounds as there are entries too many.\<close>

definition assembly_put :: "node_env \<Rightarrow> string \<Rightarrow> pending_block \<Rightarrow> (string, pending_block) fmap \<Rightarrow> (string, pending_block) fmap" where
  "assembly_put e hash pb m =
     (let m1 = fmfilter (\<lambda>h. case fmlookup m h of None \<Rightarrow> False | Some p \<Rightarrow> \<not> pd_deadline p < ne_now e) m;
          m2 = (drop_oldest_pending e ^^ (fcard (fmdom m1) + 1 - maxPendingBlocks)) m1
      in fmupd hash pb m2)"

definition assembly_take :: "node_env \<Rightarrow> string \<Rightarrow> (string, pending_block) fmap \<Rightarrow> pending_block option \<times> (string, pending_block) fmap" where
  "assembly_take e hash m =
     (case fmlookup m hash of None \<Rightarrow> (None, m)
      | Some pb \<Rightarrow> (if pd_deadline pb < ne_now e then None else Some pb, fmdrop hash m))"

definition announceBlock :: "node_env \<Rightarrow> block \<Rightarrow> nat option \<Rightarrow> node \<Rightarrow> node" where
  "announceBlock e b except nd =
     (let inv = (Message MsgInv)\<lparr>msg_index := blk_index b, msg_hash := blk_hash b\<rparr>;
          cmpct = (if \<not> IsPlaceholder b \<and> 1 < length (blk_transactions b) then NewCompactBlock (nd_config nd) b else None)
      in fold (\<lambda>(i, p). nd_send i (case cmpct of
                 Some cb \<Rightarrow> if supports p CapCompact then (Message MsgCmpctBlock)\<lparr>msg_cmpct := Some cb\<rparr> else inv
               | None \<Rightarrow> inv)) (peers_except e except nd) nd)"

definition onBlockReceived :: "node_env \<Rightarrow> nat \<Rightarrow> block \<Rightarrow> node \<Rightarrow> node option" where
  "onBlockReceived e p b nd =
     (case markSeenBlock (blk_hash b) nd of
        (True, nd1) \<Rightarrow> Some nd1
      | (False, nd1) \<Rightarrow>
          if SelfValid (nd_config nd1) b \<noteq> None then Some (ban_peer p banInvalidBlock nd1)
          else do { (err, nd3) \<leftarrow> nd_AddBlock e b (noteBestHeight (blk_index b) nd1);
            (case err of
               Some _ \<Rightarrow> (let nd4 = snd (bufferOrphan b nd3) in Some (nd_send p (getHeadersMsg nd4) nd4))
             | None \<Rightarrow> do { (_, nd4) \<leftarrow> connectOrphans e 0 nd3; Some (announceBlock e b (Some p) (afterNewBlock False nd4)) }) })"

definition completeBlock :: "node_env \<Rightarrow> nat \<Rightarrow> header \<Rightarrow> transaction list \<Rightarrow> node \<Rightarrow> node option" where
  "completeBlock e p h txs nd =
     (let b = (BlockFromHeader h)\<lparr>blk_transactions := txs\<rparr> in
      if MerkleRoot (nd_config nd) txs \<noteq> hdr_merkle_root h
      then Some (nd_send p ((Message MsgGetData)\<lparr>msg_index := hdr_index h\<rparr>) (nd\<lparr>nd_compact_miss := nd_compact_miss nd + 1\<rparr>))
      else onBlockReceived e p b (nd\<lparr>nd_compact_hit := nd_compact_hit nd + 1\<rparr>))"

definition by_short_id :: "config \<Rightarrow> string \<Rightarrow> transaction list \<Rightarrow> (string, transaction) fmap" where
  "by_short_id cfg hash txs = fold (\<lambda>tx. fmupd (shortID cfg hash (tx_hash cfg tx)) tx) txs fmempty"

definition resolve_ids :: "(string, transaction) fmap \<Rightarrow> string list \<Rightarrow> transaction list" where
  "resolve_ids byID ids = map (fmget zero_tx byID) ids"

definition missing_ids :: "(string, transaction) fmap \<Rightarrow> string list \<Rightarrow> u32 list" where
  "missing_ids byID ids = map (\<lambda>i. of_nat (i + 1)) (filter (\<lambda>i. fmlookup byID (ids ! i) = None) [0..<length ids])"

definition onCompactBlock :: "node_env \<Rightarrow> nat \<Rightarrow> compact_block option \<Rightarrow> node \<Rightarrow> node option" where
  "onCompactBlock e p cbo nd =
     (case cbo of None \<Rightarrow> Some nd
      | Some cb \<Rightarrow>
          let cfg = nd_config nd; hash = hdr_hash (cb_header cb) in
          if hash = [] \<or> MaxBlockTxs < length (cb_short_ids cb) then Some nd
          else if sn_has hash (nd_seen_blk nd) then Some nd
          else if \<not> hdr_HasValidPoW cfg (cb_header cb) then Some (ban_peer p banInvalidBlock nd)
          else let byID = by_short_id cfg hash (mp_All (nd_mempool nd));
                   txs = cb_coinbase cb # resolve_ids byID (cb_short_ids cb);
                   missing = missing_ids byID (cb_short_ids cb)
            in if missing = [] then completeBlock e p (cb_header cb) txs nd
               else Some (nd_send p ((Message MsgGetBlockTxn)\<lparr>msg_indexes := missing, msg_index := hdr_index (cb_header cb), msg_hash := hash\<rparr>)
                 (nd\<lparr>nd_assembly := assembly_put e hash
                    \<lparr>pd_header = cb_header cb, pd_txs = txs, pd_missing = missing, pd_from = p, pd_deadline = ne_now e + pendingBlockTTL\<rparr>
                    (nd_assembly nd)\<rparr>)))"

definition onGetBlockTxn :: "nat \<Rightarrow> u64 \<Rightarrow> string \<Rightarrow> u32 list \<Rightarrow> node \<Rightarrow> node" where
  "onGetBlockTxn p index hash indexes nd =
     (case BlockAt index (nd_chain nd) of None \<Rightarrow> nd
      | Some b \<Rightarrow>
          if blk_hash b \<noteq> hash \<or> IsPlaceholder b then nd
          else let txs = map (\<lambda>i. blk_transactions b ! unat i)
                 (filter (\<lambda>i. unat i < length (blk_transactions b)) (take MaxBlockTxs indexes))
            in nd_send p ((Message MsgBlockTxn)\<lparr>msg_hash := hash, msg_txs := txs\<rparr>) nd)"

text \<open>Filling the holes; \<open>None\<close> for a position outside the block.\<close>

fun fill_missing :: "(u32 \<times> transaction) list \<Rightarrow> transaction list \<Rightarrow> transaction list option" where
  "fill_missing [] txs = Some txs"
| "fill_missing ((pos, tx) # rest) txs = (if length txs \<le> unat pos then None else fill_missing rest (txs[unat pos := tx]))"

definition onBlockTxn :: "node_env \<Rightarrow> nat \<Rightarrow> string \<Rightarrow> transaction list \<Rightarrow> node \<Rightarrow> node option" where
  "onBlockTxn e p hash txs nd =
     (case assembly_take e hash (nd_assembly nd) of
        (None, m) \<Rightarrow> Some (nd\<lparr>nd_assembly := m\<rparr>)
      | (Some pb, m) \<Rightarrow>
          let nd1 = nd\<lparr>nd_assembly := m\<rparr> in
          if length txs \<noteq> length (pd_missing pb)
          then Some (nd_send p ((Message MsgGetData)\<lparr>msg_index := hdr_index (pd_header pb)\<rparr>) nd1)
          else case fill_missing (zip (pd_missing pb) txs) (pd_txs pb) of
            None \<Rightarrow> Some nd1
          | Some body \<Rightarrow> completeBlock e p (pd_header pb) body nd1)"

section \<open>Synchronisation\<close>

definition onHeaders :: "node_env \<Rightarrow> nat \<Rightarrow> header list \<Rightarrow> node \<Rightarrow> node" where
  "onHeaders e p headers nd =
     (case headers of [] \<Rightarrow> nd
      | h0 # _ \<Rightarrow>
          (case HeaderAt (hdr_index h0 - 1) (nd_chain nd) of
             None \<Rightarrow> nd_send p (Message MsgGetChain) nd
           | Some parent \<Rightarrow>
               if hdr_prev_hash h0 \<noteq> hdr_hash parent then nd_send p (Message MsgGetChain) nd
               else if ValidateHeaderChain (nd_config nd) headers (hdr_hash parent) (hdr_index parent) \<noteq> None
               then ban_peer p banBadHeaders nd
               else let a = hdr_index h0; b = hdr_index (last headers);
                        nd1 = nd_send p ((Message MsgGetBlocks)\<lparr>msg_from := a, msg_to := b\<rparr>) (noteBestHeight b nd)
                 in trackRequest e p a b nd1))"

fun extend_with :: "node_env \<Rightarrow> block list \<Rightarrow> nat \<Rightarrow> nat \<Rightarrow> node \<Rightarrow> (nat \<times> nat \<times> node) option" where
  "extend_with e [] added buffered nd = Some (added, buffered, nd)"
| "extend_with e (b # bs) added buffered nd =
     (case nd_AddBlock e b nd of
        None \<Rightarrow> None
      | Some (Some _, nd1) \<Rightarrow>
          (case bufferOrphan b nd1 of (ok, nd2) \<Rightarrow> extend_with e bs added (if ok then buffered + 1 else buffered) nd2)
      | Some (None, nd1) \<Rightarrow> extend_with e bs (added + 1) buffered (snd (markSeenBlock (blk_hash b) nd1)))"

definition adopt_reorg :: "node_env \<Rightarrow> block list \<Rightarrow> node \<Rightarrow> node option" where
  "adopt_reorg e disconnected nd =
     do { (requeued, nd1) \<leftarrow> resurrectTxs disconnected nd; Some (afterNewBlock True (noteReorg e disconnected requeued nd1)) }"

definition tip_inv :: "node \<Rightarrow> message" where
  "tip_inv nd = (let tip = bc_tip (nd_chain nd) in (Message MsgInv)\<lparr>msg_index := blk_index tip, msg_hash := blk_hash tip\<rparr>)"

text \<open>The two halves of \<open>onBlocks\<close>: a batch that starts below the tip is a fork, one above it extends the chain.\<close>

definition fork_adopted :: "node_env \<Rightarrow> nat \<Rightarrow> block list \<Rightarrow> node \<Rightarrow> node" where
  "fork_adopted e p blocks nd3 =
     (let nd4 = broadcastExcept e (tip_inv nd3) (Some p) nd3 in
      if length blocks = maxBlocksBatch then nd_send p (getHeadersMsg nd4) nd4 else nd4)"

definition onFork :: "node_env \<Rightarrow> nat \<Rightarrow> block list \<Rightarrow> node \<Rightarrow> node option" where
  "onFork e p blocks nd =
     (case ReorgFrom (ne_core e) (blk_index (hd blocks) - 1) blocks (nd_chain nd) of
        None \<Rightarrow> None
      | Some (Inr (True, disconnected), bc) \<Rightarrow>
          map_option (fork_adopted e p blocks)
            (adopt_reorg e disconnected (fold (\<lambda>b n. snd (markSeenBlock (blk_hash b) n)) blocks (nd\<lparr>nd_chain := bc\<rparr>)))
      | Some (_, bc) \<Rightarrow> Some (nd_send p (Message MsgGetChain) (nd\<lparr>nd_chain := bc\<rparr>)))"

definition extended :: "node_env \<Rightarrow> nat \<Rightarrow> nat \<Rightarrow> nat \<Rightarrow> nat \<Rightarrow> node \<Rightarrow> node" where
  "extended e p batch added buffered nd3 =
     (if added = 0 then (if buffered = 0 then nd_send p (getHeadersMsg nd3) nd3 else nd3)
      else let nd4 = afterNewBlock False nd3; nd5 = broadcastExcept e (tip_inv nd4) (Some p) nd4
        in if batch \<le> added then nd_send p (getHeadersMsg nd5) nd5 else nd5)"

definition onExtension :: "node_env \<Rightarrow> nat \<Rightarrow> block list \<Rightarrow> node \<Rightarrow> node option" where
  "onExtension e p blocks nd =
     (case extend_with e blocks 0 0 nd of
        None \<Rightarrow> None
      | Some (added0, buffered, nd2) \<Rightarrow>
          map_option (\<lambda>(added, nd3). extended e p (length blocks) added buffered nd3) (connectOrphans e added0 nd2))"

definition onBlocks :: "node_env \<Rightarrow> nat \<Rightarrow> block list \<Rightarrow> node \<Rightarrow> node option" where
  "onBlocks e p blocks nd0 =
     (let nd1 = clearRequest p nd0 in
      if blocks = [] then Some nd1
      else let nd = noteBestHeight (blk_index (last blocks)) nd1 in
        if blk_index (hd blocks) \<le> bc_Height (nd_chain nd) then onFork e p blocks nd else onExtension e p blocks nd)"

definition onChain :: "node_env \<Rightarrow> block list \<Rightarrow> node \<Rightarrow> node option" where
  "onChain e incoming nd =
     (case ReplaceChain (ne_core e) incoming (nd_chain nd) of
        None \<Rightarrow> None
      | Some (Inr (True, disconnected), bc) \<Rightarrow> adopt_reorg e disconnected (nd\<lparr>nd_chain := bc\<rparr>)
      | Some (Inr (False, _), bc) \<Rightarrow> Some (nd\<lparr>nd_chain := bc\<rparr>)
      | Some (Inl err, bc) \<Rightarrow> Some (noteRefusedReorg e err (nd\<lparr>nd_chain := bc\<rparr>)))"


definition blockRequestTimeout :: int where "blockRequestTimeout = 20 * 10 ^ 9"
definition maxSyncPeers :: int where "maxSyncPeers = 3"

definition dropStalledPeers :: "node_env \<Rightarrow> node \<Rightarrow> node" where
  "dropStalledPeers e nd =
     (let stalled = filter (\<lambda>p. case fmlookup (nd_inflight nd) p of None \<Rightarrow> False
            | Some r \<Rightarrow> blockRequestTimeout < ne_now e - br_sent r) (ne_order e (fmkeys (nd_inflight nd)));
          nd1 = nd\<lparr>nd_inflight := fmdrop_set (set stalled) (nd_inflight nd)\<rparr>
      in fold (\<lambda>p n. (ban_peer p banStalling n)\<lparr>nd_dropped := nd_dropped n @ [p]\<rparr>) stalled nd1)"

fun request_windows :: "node_env \<Rightarrow> u64 \<Rightarrow> nat list \<Rightarrow> u64 \<Rightarrow> int \<Rightarrow> node \<Rightarrow> node" where
  "request_windows e best [] nextWindow slots nd = nd"
| "request_windows e best (p # ps) nextWindow slots nd =
     (if slots \<le> 0 \<or> best < nextWindow then nd
      else let to1 = nextWindow + of_nat maxBlocksBatch - 1; to2 = (if best < to1 then best else to1);
               nd1 = nd_send p ((Message MsgGetBlocks)\<lparr>msg_from := nextWindow, msg_to := to2\<rparr>) nd
        in request_windows e best ps (to2 + 1) (slots - 1) (trackRequest e p nextWindow to2 nd1))"

definition requestMoreBlocks :: "node_env \<Rightarrow> node \<Rightarrow> node" where
  "requestMoreBlocks e nd =
     (let tip = bc_Height (nd_chain nd); best = bestKnownHeight nd in
      if best \<le> tip then nd
      else let busy = fmkeys (nd_inflight nd);
               nextWindow = fold (\<lambda>p w. case fmlookup (nd_inflight nd) p of None \<Rightarrow> w
                 | Some r \<Rightarrow> if w \<le> br_to r then br_to r + 1 else w) (ne_order e busy) (tip + 1);
               slots = maxSyncPeers - int (length busy);
               idle = filter (\<lambda>p. p \<notin> set busy) (map fst (peers_except e None nd))
        in if slots \<le> 0 then nd
           else case idle of [] \<Rightarrow> nd
           | p # _ \<Rightarrow> if nextWindow = tip + 1 then nd_send p (getHeadersMsg nd) nd
                      else request_windows e best idle nextWindow slots nd)"

definition reconcileMempoolWithPeers :: "node_env \<Rightarrow> node \<Rightarrow> node" where
  "reconcileMempoolWithPeers e nd =
     (if bc_Height (nd_chain nd) < bestKnownHeight nd then nd
      else fold (\<lambda>(i, p) n.
          if p_asked_mempool p \<or> \<not> supports p CapMempool then n
          else nd_send i (Message MsgGetMempool) (n\<lparr>nd_peers := fmupd i (p\<lparr>p_asked_mempool := True\<rparr>) (nd_peers n)\<rparr>))
        (peers_except e None nd) nd)"

definition syncTick :: "node_env \<Rightarrow> node \<Rightarrow> node" where
  "syncTick e nd = reconcileMempoolWithPeers e (requestMoreBlocks e (dropStalledPeers e nd))"

section \<open>Filters for light clients\<close>

definition rangeCount :: "u64 \<Rightarrow> u64 \<Rightarrow> nat \<Rightarrow> int" where
  "rangeCount a b mx =
     (if b < a then 0 else let span = b - a + 1 in int (unat (if of_nat mx < span then of_nat mx else span)))"

definition onGetCFilters :: "nat \<Rightarrow> u64 \<Rightarrow> u64 \<Rightarrow> node \<Rightarrow> node" where
  "onGetCFilters p a b nd =
     (let base = bodyHeight (nd_chain nd); start = (if a < base then base else a); n = rangeCount start b maxCFilterBatch;
          fs = (if 0 < n then BlockFiltersFrom start n (nd_chain nd) else [])
      in nd_send p ((Message MsgCFilters)\<lparr>msg_from := start, msg_filters := fs, msg_base := base\<rparr>)
           (nd\<lparr>nd_cfilters_served := nd_cfilters_served nd + of_nat (length fs)\<rparr>))"

definition onCFilters :: "message \<Rightarrow> node \<Rightarrow> node" where
  "onCFilters m nd = (if msg_filters m = [] then nd else nd\<lparr>nd_cfilter_replies := nd_cfilter_replies nd + 1\<rparr>)"

definition onGetCFHeaders :: "nat \<Rightarrow> u64 \<Rightarrow> u64 \<Rightarrow> node \<Rightarrow> node" where
  "onGetCFHeaders p a b nd =
     (let base = bc_filter_base (nd_chain nd); start = (if a < base then base else a); n = rangeCount start b maxCFHeaderBatch;
          hs = (if 0 < n then FilterHeadersFrom start n (nd_chain nd) else [])
      in nd_send p ((Message MsgCFHeaders)\<lparr>msg_from := start, msg_cfheaders := hs, msg_base := base\<rparr>)
           (nd\<lparr>nd_cfheaders_served := nd_cfheaders_served nd + of_nat (length hs)\<rparr>))"

definition onCFHeaders :: "message \<Rightarrow> node \<Rightarrow> node" where
  "onCFHeaders m nd = (if msg_cfheaders m = [] then nd else nd\<lparr>nd_cfheader_replies := nd_cfheader_replies nd + 1\<rparr>)"

section \<open>Outbound connections\<close>

definition dialRetryInterval :: int where "dialRetryInterval = 3 * 10 ^ 9"
definition dialRetryMax :: int where "dialRetryMax = 300 * 10 ^ 9"

definition nextDialDelay :: "int \<Rightarrow> int \<Rightarrow> int" where
  "nextDialDelay d base =
     (let b = (if base \<le> 0 then dialRetryInterval else base) in
      if d \<le> 0 then b else if dialRetryMax div 2 \<le> d then dialRetryMax else d * 2)"

definition maybeDial :: "node_env \<Rightarrow> string \<Rightarrow> node \<Rightarrow> node" where
  "maybeDial e addr nd =
     (if addr = [] \<or> addr = nc_advertise_addr (nd_cfg nd) \<or> connectedTo addr nd then nd
      else case am_Reserve (ne_net e) addr (nd_addrs nd) of
        (False, _) \<Rightarrow> nd
      | (True, a) \<Rightarrow>
          (case shouldDial addr (nd_book nd) of
             (False, b) \<Rightarrow> nd\<lparr>nd_book := b, nd_addrs := am_Release (ne_net e) addr a\<rparr>
           | (True, b) \<Rightarrow> nd\<lparr>nd_book := b, nd_addrs := a, nd_dials := nd_dials nd @ [addr]\<rparr>))"

definition fillOutbound :: "node_env \<Rightarrow> (string list \<Rightarrow> string list) \<Rightarrow> node \<Rightarrow> node" where
  "fillOutbound e shuffle nd =
     (let want = nc_max_peers (nd_cfg nd) - int (fcard (pb_dialing (nd_book nd))) in
      if want \<le> 0 then nd
      else case am_Select (ne_net e) shuffle want
             (\<lambda>addr. addr = nc_advertise_addr (nd_cfg nd) \<or> pb_isSelf addr (nd_book nd) \<or> connectedTo addr nd) (nd_addrs nd) of
        (got, a) \<Rightarrow>
          fold (\<lambda>addr n. case shouldDial addr (nd_book n) of
              (False, b) \<Rightarrow> n\<lparr>nd_book := b, nd_addrs := am_Release (ne_net e) addr (nd_addrs n)\<rparr>
            | (True, b) \<Rightarrow> n\<lparr>nd_book := b, nd_dials := nd_dials n @ [addr]\<rparr>) got (nd\<lparr>nd_addrs := a\<rparr>))"

definition onPeers :: "node_env \<Rightarrow> nat \<Rightarrow> string list \<Rightarrow> node \<Rightarrow> node" where
  "onPeers e p addrs nd =
     (let source = (case fmlookup (nd_peers nd) p of None \<Rightarrow> [] | Some pr \<Rightarrow> p_addr pr) in
      fold (\<lambda>addr n. maybeDial e addr (n\<lparr>nd_book := pb_note addr (nd_book n),
              nd_addrs := snd (am_Add (ne_net e) (ne_now e) addr source (nd_addrs n))\<rparr>))
        (take maxGossipPeers addrs) nd)"

datatype add_peer_error = NoAddress | OwnAddress | AlreadyConnected | GroupFull | NotDialing

definition AddPeer :: "node_env \<Rightarrow> string \<Rightarrow> node \<Rightarrow> add_peer_error option \<times> node" where
  "AddPeer e addr nd =
     (if addr = [] then (Some NoAddress, nd)
      else if addr = nc_advertise_addr (nd_cfg nd) then (Some OwnAddress, nd)
      else if connectedTo addr nd then (Some AlreadyConnected, nd)
      else let b0 = pb_note addr (nd_book nd); a0 = snd (am_Add (ne_net e) (ne_now e) addr ''api'' (nd_addrs nd)) in
        case am_Reserve (ne_net e) addr a0 of
          (False, a) \<Rightarrow> (Some GroupFull, nd\<lparr>nd_book := b0, nd_addrs := a\<rparr>)
        | (True, a) \<Rightarrow>
            (case shouldDial addr b0 of
               (False, b) \<Rightarrow> (Some NotDialing, nd\<lparr>nd_book := b, nd_addrs := am_Release (ne_net e) addr a\<rparr>)
             | (True, b) \<Rightarrow> (None, nd\<lparr>nd_book := b, nd_addrs := a, nd_dials := nd_dials nd @ [addr]\<rparr>)))"

definition Unban :: "string \<Rightarrow> node \<Rightarrow> bool \<times> node" where
  "Unban key nd =
     (if key = [] then (False, nd) else case ban_clear key (nd_bans nd) of (ok, b) \<Rightarrow> (ok, nd\<lparr>nd_bans := b\<rparr>))"

section \<open>Mined blocks and shares\<close>

definition SubmitMinedBlock :: "node_env \<Rightarrow> block \<Rightarrow> node \<Rightarrow> (chain_error option \<times> node) option" where
  "SubmitMinedBlock e b nd =
     do { (err, nd1) \<leftarrow> nd_AddBlock e b nd;
          Some (case err of
              Some x \<Rightarrow> (Some x, nd1)
            | None \<Rightarrow>
                let nd2 = snd (markSeenBlock (blk_hash b) nd1);
                    nd3 = nd2\<lparr>nd_mempool := mp_Remove (nd_config nd2) (drop 1 (blk_transactions b)) (nd_mempool nd2)\<rparr>
                in (None, announceBlock e b None (afterNewBlock False nd3))) }"

definition commitMined :: "node_env \<Rightarrow> block \<Rightarrow> transaction list \<Rightarrow> node \<Rightarrow> (chain_error option \<times> node) option" where
  "commitMined e mined txs nd =
     do { (err, nd1) \<leftarrow> nd_AddBlock e mined nd;
          Some (case err of
              Some x \<Rightarrow> (Some x, nd1)
            | None \<Rightarrow>
                let nd2 = snd (markSeenBlock (blk_hash mined) nd1);
                    nd3 = nd2\<lparr>nd_mempool := mp_Remove (nd_config nd2) txs (nd_mempool nd2)\<rparr>
                in (None, publishBlock False (announceBlock e mined None (onTipChanged nd3)))) }"

definition nd_buildBlockFor :: "node_env \<Rightarrow> string \<Rightarrow> node \<Rightarrow> (block \<times> transaction list) \<times> node" where
  "nd_buildBlockFor e minerAddr nd =
     (case buildBlockFor (ne_now e div 10 ^ 9) (nc_signal_bits (nd_cfg nd)) minerAddr (nd_chain nd) (nd_mempool nd) of
        (r, bc, m) \<Rightarrow> (r, nd\<lparr>nd_chain := bc, nd_mempool := m\<rparr>))"

definition maxTrackedMiners :: nat where "maxTrackedMiners = 1024"

definition share_record :: "string \<Rightarrow> u64 \<Rightarrow> bool \<Rightarrow> share_ledger \<Rightarrow> u64 \<times> share_ledger" where
  "share_record addr height isBlock l =
     (let l1 = l\<lparr>sl_accepted := sl_accepted l + 1, sl_blocks := (if isBlock then sl_blocks l + 1 else sl_blocks l)\<rparr> in
      if fmlookup (sl_by_miner l1) addr = None \<and> maxTrackedMiners \<le> fcard (fmdom (sl_by_miner l1)) then (0, l1)
      else let m = fmget \<lparr>ms_address = addr, ms_shares = 0, ms_blocks = 0, ms_last_height = 0\<rparr> (sl_by_miner l1) addr;
               m1 = m\<lparr>ms_shares := ms_shares m + 1, ms_blocks := (if isBlock then ms_blocks m + 1 else ms_blocks m),
                      ms_last_height := height\<rparr>
        in (ms_shares m1, l1\<lparr>sl_by_miner := fmupd addr m1 (sl_by_miner l1)\<rparr>))"

definition DefaultShareFactor :: u32 where "DefaultShareFactor = 256"
definition maxShareTarget :: int where "maxShareTarget = 2 ^ 248"

definition core_ShareBits :: "u32 \<Rightarrow> u32 \<Rightarrow> u32" where
  "core_ShareBits blockBits factor =
     (let target = CompactToBig blockBits in
      if target \<le> 0 then blockBits
      else let t1 = (if 1 < factor then target * int (unat factor) else target);
               t2 = (if maxShareTarget < t1 then maxShareTarget else t1)
        in BigToCompact t2)"

definition MeetsShareTarget :: "string \<Rightarrow> u32 \<Rightarrow> bool" where
  "MeetsShareTarget hash shareBits =
     (let target = CompactToBig shareBits in if target \<le> 0 then False else hashToBig hash \<le> target)"

definition nd_ShareFactor :: "node \<Rightarrow> u32" where
  "nd_ShareFactor nd = (if 0 < nc_share_factor (nd_cfg nd) then nc_share_factor (nd_cfg nd) else DefaultShareFactor)"

definition nd_ShareBits :: "node \<Rightarrow> u32" where
  "nd_ShareBits nd = core_ShareBits (NextBits (nd_chain nd)) (nd_ShareFactor nd)"

datatype share_error = StaleShare u64 u64 | ShareHashMismatch | ShareMerkleMismatch | ShareNoCoinbase | ShareBelowTarget

record share_result =
  sr_block :: bool
  sr_height :: u64
  sr_hash :: string
  sr_address :: string
  sr_shares :: u64

definition submitShareChecked :: "node_env \<Rightarrow> block \<Rightarrow> u32 \<Rightarrow> string \<Rightarrow> node \<Rightarrow> ((share_error + share_result) \<times> node) option" where
  "submitShareChecked e b shareBits creditTo nd0 =
     (let l = nd_shares nd0; nd = nd0\<lparr>nd_shares := l\<lparr>sl_submitted := sl_submitted l + 1\<rparr>\<rparr>; cfg = nd_config nd; tip = bc_tip (nd_chain nd) in
      if blk_index b \<noteq> blk_index tip + 1 \<or> blk_prev_hash b \<noteq> blk_hash tip
      then let l1 = nd_shares nd in
        Some (Inl (StaleShare (blk_index b - 1) (blk_index tip)), nd\<lparr>nd_shares := l1\<lparr>sl_stale := sl_stale l1 + 1\<rparr>\<rparr>)
      else if blk_hash b \<noteq> blk_ComputeHash cfg b then Some (Inl ShareHashMismatch, nd)
      else if MerkleRoot cfg (blk_transactions b) \<noteq> blk_merkle_root b then Some (Inl ShareMerkleMismatch, nd)
      else case blk_transactions b of [] \<Rightarrow> Some (Inl ShareNoCoinbase, nd)
      | cb # _ \<Rightarrow>
          if \<not> IsCoinbase cb then Some (Inl ShareNoCoinbase, nd)
          else if \<not> MeetsShareTarget (blk_hash b) shareBits then Some (Inl ShareBelowTarget, nd)
          else do { (isBlock, nd1) \<leftarrow> (if blk_HasValidPoW cfg b
                      then map_option (\<lambda>(err, n). (err = None, n)) (SubmitMinedBlock e b nd) else Some (False, nd));
                 let addr = (if creditTo = [] then tx_to cb else creditTo);
                 (case share_record addr (blk_index b) isBlock (nd_shares nd1) of (n, l2) \<Rightarrow>
                    Some (Inr \<lparr>sr_block = isBlock, sr_height = blk_index b, sr_hash = blk_hash b, sr_address = addr, sr_shares = n\<rparr>,
                          nd1\<lparr>nd_shares := l2\<rparr>)) })"

definition SubmitShare :: "node_env \<Rightarrow> block \<Rightarrow> node \<Rightarrow> ((share_error + share_result) \<times> node) option" where
  "SubmitShare e b nd = submitShareChecked e b (core_ShareBits (blk_bits b) (nd_ShareFactor nd)) [] nd"


text \<open>
  \<open>Generate\<close>: one block is tried at most five times, each time on a fresh candidate. The two errors are a
  tip no block can be built on and a block that did not come out after its retries.
\<close>

datatype generate_error = NoCandidate | RetriesExhausted nat

fun generate_one :: "node_env \<Rightarrow> string \<Rightarrow> nat \<Rightarrow> node \<Rightarrow> ((generate_error option + string) \<times> node) option" where
  "generate_one e wallet 0 nd = Some (Inl None, nd)"
| "generate_one e wallet (Suc k) nd =
     (case nd_buildBlockFor e wallet nd of ((cand, txs), nd1) \<Rightarrow>
        if blk_state_root cand = [] then Some (Inl (Some NoCandidate), nd1)
        else case Mine (nd_config nd1) cand (\<lambda>_. False) of
          None \<Rightarrow> None
        | Some (_, False) \<Rightarrow> generate_one e wallet k nd1
        | Some (mined, True) \<Rightarrow>
            (case commitMined e mined txs nd1 of
               None \<Rightarrow> None
             | Some (Some _, nd2) \<Rightarrow> generate_one e wallet k nd2
             | Some (None, nd2) \<Rightarrow> Some (Inr (blk_hash mined), nd2)))"

fun generate_from :: "node_env \<Rightarrow> string \<Rightarrow> nat \<Rightarrow> nat \<Rightarrow> string list \<Rightarrow> node \<Rightarrow> ((string list \<times> generate_error option) \<times> node) option" where
  "generate_from e wallet i 0 hashes nd = Some ((hashes, None), nd)"
| "generate_from e wallet i (Suc n) hashes nd =
     (case generate_one e wallet 5 nd of
        None \<Rightarrow> None
      | Some (Inl (Some err), nd1) \<Rightarrow> Some ((hashes, Some err), nd1)
      | Some (Inl None, nd1) \<Rightarrow> Some ((hashes, Some (RetriesExhausted (i + 1))), nd1)
      | Some (Inr h, nd1) \<Rightarrow> generate_from e wallet (i + 1) n (hashes @ [h]) nd1)"

definition Generate :: "node_env \<Rightarrow> string \<Rightarrow> nat \<Rightarrow> node \<Rightarrow> ((string list \<times> generate_error option) \<times> node) option" where
  "Generate e wallet n nd = generate_from e wallet 0 n [] nd"

section \<open>A message\<close>

definition getChainCooldown :: int where "getChainCooldown = 10 * 10 ^ 9"

definition onHello :: "node_env \<Rightarrow> nat \<Rightarrow> string \<Rightarrow> node \<Rightarrow> node" where
  "onHello e p addr nd =
     nd\<lparr>nd_peers := (case fmlookup (nd_peers nd) p of None \<Rightarrow> nd_peers nd
          | Some pr \<Rightarrow> fmupd p (pr\<lparr>p_addr := addr\<rparr>) (nd_peers nd)),
        nd_book := pb_note addr (nd_book nd),
        nd_addrs := snd (am_Add (ne_net e) (ne_now e) addr ''hello'' (nd_addrs nd))\<rparr>"

definition onInv :: "nat \<Rightarrow> u64 \<Rightarrow> node \<Rightarrow> node" where
  "onInv p index nd0 =
     (let nd = noteBestHeight index nd0; h = bc_Height (nd_chain nd) in
      if index = h + 1 then nd_send p ((Message MsgGetData)\<lparr>msg_index := index\<rparr>) nd
      else if h + 1 < index then nd_send p (getHeadersMsg nd) nd
      else nd)"

definition onGetChain :: "node_env \<Rightarrow> nat \<Rightarrow> node \<Rightarrow> node" where
  "onGetChain e p nd =
     (case fmlookup (nd_peers nd) p of None \<Rightarrow> nd
      | Some pr \<Rightarrow>
          if p_last_get_chain pr \<noteq> 0 \<and> ne_now e - p_last_get_chain pr < getChainCooldown then nd
          else nd_send p ((Message MsgChain)\<lparr>msg_chain := bc_blocks (nd_chain nd)\<rparr>)
            (nd\<lparr>nd_peers := fmupd p (pr\<lparr>p_last_get_chain := ne_now e\<rparr>) (nd_peers nd)\<rparr>))"

definition onGetHeaders :: "nat \<Rightarrow> message \<Rightarrow> node \<Rightarrow> node" where
  "onGetHeaders p m nd =
     (let a = (if msg_locator m \<noteq> [] then LocatorFork (msg_locator m) (nd_chain nd) + 1 else msg_from m);
          hs = HeadersFrom a (int maxHeadersBatch) (nd_chain nd)
      in if hs = [] then nd else nd_send p ((Message MsgHeaders)\<lparr>msg_headers := hs\<rparr>) nd)"

definition onGetBlocks :: "nat \<Rightarrow> message \<Rightarrow> node \<Rightarrow> node" where
  "onGetBlocks p m nd =
     (let bs = BlocksRange (msg_from m) (msg_to m) (int maxBlocksBatch) (nd_chain nd)
      in if bs = [] then nd else nd_send p ((Message MsgBlocks)\<lparr>msg_blocks := bs\<rparr>) nd)"

definition handleMessage :: "node_env \<Rightarrow> nat \<Rightarrow> message \<Rightarrow> node \<Rightarrow> node option" where
  "handleMessage e p m nd =
     (case msg_kind m of
        MsgHello \<Rightarrow> Some (onHello e p (msg_addr m) nd)
      | MsgGetPeers \<Rightarrow>
          Some (nd_send p ((Message MsgPeers)\<lparr>msg_peers := ne_keys e (sorted_list_of_fset (pb_known (nd_book nd)))
                  @ [nc_advertise_addr (nd_cfg nd)]\<rparr>) nd)
      | MsgPeers \<Rightarrow> Some (onPeers e p (msg_peers m) nd)
      | MsgTx \<Rightarrow> onTx e p (msg_tx m) (msg_stem m) nd
      | MsgGetMempool \<Rightarrow>
          Some (let txs = mempoolBatch nd in if txs = [] then nd else nd_send p ((Message MsgMempool)\<lparr>msg_txs := txs\<rparr>) nd)
      | MsgMempool \<Rightarrow> onMempoolBatch e p (msg_txs m) nd
      | MsgTxInv \<Rightarrow> Some (onTxInv e p (msg_hashes m) nd)
      | MsgGetTx \<Rightarrow> Some (onGetTx p (msg_hashes m) nd)
      | MsgTxs \<Rightarrow> onMempoolBatch e p (msg_txs m) nd
      | MsgInv \<Rightarrow> Some (onInv p (msg_index m) nd)
      | MsgGetData \<Rightarrow>
          Some (case BlockAt (msg_index m) (nd_chain nd) of None \<Rightarrow> nd
            | Some b \<Rightarrow> nd_send p ((Message MsgBlock)\<lparr>msg_block := Some b\<rparr>) nd)
      | MsgBlock \<Rightarrow> (case msg_block m of None \<Rightarrow> Some nd | Some b \<Rightarrow> onBlockReceived e p b nd)
      | MsgCmpctBlock \<Rightarrow> onCompactBlock e p (msg_cmpct m) nd
      | MsgGetBlockTxn \<Rightarrow> Some (onGetBlockTxn p (msg_index m) (msg_hash m) (msg_indexes m) nd)
      | MsgBlockTxn \<Rightarrow> onBlockTxn e p (msg_hash m) (msg_txs m) nd
      | MsgGetHeaders \<Rightarrow> Some (onGetHeaders p m nd)
      | MsgHeaders \<Rightarrow> Some (onHeaders e p (msg_headers m) nd)
      | MsgGetBlocks \<Rightarrow> Some (onGetBlocks p m nd)
      | MsgBlocks \<Rightarrow> onBlocks e p (msg_blocks m) nd
      | MsgGetCFilters \<Rightarrow> Some (onGetCFilters p (msg_from m) (msg_to m) nd)
      | MsgCFilters \<Rightarrow> Some (onCFilters m nd)
      | MsgGetCFHeaders \<Rightarrow> Some (onGetCFHeaders p (msg_from m) (msg_to m) nd)
      | MsgCFHeaders \<Rightarrow> Some (onCFHeaders m nd)
      | MsgGetChain \<Rightarrow> Some (onGetChain e p nd)
      | MsgChain \<Rightarrow> onChain e (msg_chain m) nd
      | MsgPing \<Rightarrow> Some (nd_send p (Message MsgPong) nd)
      | _ \<Rightarrow> Some nd)"

section \<open>A connection\<close>

text \<open>
  \<open>handleConn\<close> up to the first message: \<open>channel\<close> is the session id of the encrypted channel (\<open>None\<close>
  when the handshake failed), \<open>idm\<close> and \<open>vm\<close> the first two messages read from it (\<open>None\<close> when reading
  failed). The answer is the peer to add, with what was sent to it.
\<close>

definition peer_of :: "node_env \<Rightarrow> string \<Rightarrow> bool \<Rightarrow> message \<Rightarrow> message \<Rightarrow> peer" where
  "peer_of e ip inbound idm vm =
     \<lparr>p_addr = [], p_id = msg_pubkey idm, p_ip = ip, p_version = msg_version vm, p_caps = msg_caps vm, p_last_get_chain = 0,
      p_asked_mempool = False, p_inbound = inbound, p_since = ne_now e,
      p_time_offset = (if msg_time vm \<noteq> 0 then Some (wrap64 (msg_time vm - ne_now e div 10 ^ 9)) else None)\<rparr>"

definition identity_msg :: "node \<Rightarrow> string \<Rightarrow> message" where
  "identity_msg nd signature = (Message MsgIdentity)\<lparr>msg_pubkey := nc_identity (nd_cfg nd), msg_sig := signature\<rparr>"

definition version_msg :: "node_env \<Rightarrow> node \<Rightarrow> message" where
  "version_msg e nd = (Message MsgVersion)\<lparr>msg_version := ProtocolVersion, msg_caps := caps nd,
     msg_network := nc_network (nd_cfg nd), msg_time := ne_now e div 10 ^ 9\<rparr>"

definition ban_ip :: "node_env \<Rightarrow> string \<Rightarrow> node \<Rightarrow> node" where
  "ban_ip e ip nd = (if bannableIP (ne_net e) ip then nd\<lparr>nd_bans := snd (ban_add ip banHandshake (nd_bans nd))\<rparr> else nd)"

definition openConn :: "node_env \<Rightarrow> (string \<Rightarrow> string \<Rightarrow> bytes \<Rightarrow> bool) \<Rightarrow> (bytes \<Rightarrow> string) \<Rightarrow> nat \<Rightarrow> string \<Rightarrow> bool \<Rightarrow> string
    \<Rightarrow> bytes option \<Rightarrow> message option \<Rightarrow> message option \<Rightarrow> node \<Rightarrow> bool \<times> node" where
  "openConn e verify sign i ip inbound dialed channel idmo vmo nd =
     (if ban_banned ip (nd_bans nd) then (False, nd)
      else case channel of None \<Rightarrow> (False, ban_ip e ip nd)
      | Some sid \<Rightarrow>
          let nd1 = nd_send i (identity_msg nd (sign sid)) nd in
          (case idmo of None \<Rightarrow> (False, nd1)
           | Some idm \<Rightarrow>
               if msg_kind idm \<noteq> MsgIdentity \<or> \<not> verify (msg_pubkey idm) (msg_sig idm) sid then (False, ban_ip e ip nd1)
               else if msg_pubkey idm = nc_identity (nd_cfg nd)
               then (False, if dialed = [] then nd1 else nd1\<lparr>nd_book := noteSelf dialed (nd_book nd1)\<rparr>)
               else if ban_banned (msg_pubkey idm) (nd_bans nd1) then (False, nd1)
               else let nd2 = nd_send i (version_msg e nd1) nd1 in
                 (case vmo of None \<Rightarrow> (False, nd2)
                  | Some vm \<Rightarrow>
                      if msg_kind vm \<noteq> MsgVersion \<or> msg_version vm < MinProtocolVersion then (False, nd2)
                      else if (if msg_network vm = [] then ''mainnet'' else msg_network vm) \<noteq> nc_network (nd_cfg nd) then (False, nd2)
                      else let nd3 = addPeer i (peer_of e ip inbound idm vm) nd2;
                               nd4 = (if dialed = [] then nd3 else nd3\<lparr>nd_addrs := am_Good (ne_net e) (ne_now e) dialed (nd_addrs nd3)\<rparr>);
                               nd5 = nd_send i ((Message MsgHello)\<lparr>msg_addr := nc_advertise_addr (nd_cfg nd)\<rparr>) nd4;
                               nd6 = nd_send i (Message MsgGetPeers) nd5
                        in (True, nd_send i (getHeadersMsg nd6) nd6))))"

definition msgRatePerSec :: rat where "msgRatePerSec = 100"
definition msgRateBurst :: rat where "msgRateBurst = 200"

text \<open>The loop over the messages of an open connection, until one arrives too fast or none is left to read.\<close>

fun serve :: "nat \<Rightarrow> rate_limiter \<Rightarrow> (node_env \<times> message) list \<Rightarrow> node \<Rightarrow> node option" where
  "serve i rl [] nd = Some (removePeer i nd)"
| "serve i rl ((e, m) # ms) nd =
     (case rl_allow (ne_now e) rl of
        (False, _) \<Rightarrow> Some (removePeer i nd)
      | (True, rl1) \<Rightarrow> (case handleMessage e i m nd of None \<Rightarrow> None | Some nd1 \<Rightarrow> serve i rl1 ms nd1))"

definition handleConn :: "node_env \<Rightarrow> (string \<Rightarrow> string \<Rightarrow> bytes \<Rightarrow> bool) \<Rightarrow> (bytes \<Rightarrow> string) \<Rightarrow> nat \<Rightarrow> string \<Rightarrow> bool \<Rightarrow> string
    \<Rightarrow> bytes option \<Rightarrow> message option \<Rightarrow> message option \<Rightarrow> (node_env \<times> message) list \<Rightarrow> node \<Rightarrow> node option" where
  "handleConn e verify sign i ip inbound dialed channel idmo vmo msgs nd =
     (case openConn e verify sign i ip inbound dialed channel idmo vmo nd of
        (False, nd1) \<Rightarrow> Some nd1
      | (True, nd1) \<Rightarrow> serve i (newRateLimiter msgRatePerSec msgRateBurst) msgs nd1)"

end
