(* ===== verification/Node_Theorems.thy ===== *)
theory Node_Theorems
  imports Node_Handlers
begin

text \<open>
  What holds of a node whatever it receives: its chain is one the consensus rules accept with the ledger
  that replaying it gives, its pool keeps its indexes and bounds, its orphan pool is a bounded queue, and
  every table about its peers stays within its limit. The invariant is proved for each handler and then
  for every sequence of calls. The second part is about compact blocks.
\<close>

section \<open>The invariant\<close>

definition sane :: "config \<Rightarrow> transaction \<Rightarrow> bool" where
  "sane cfg tx \<longleftrightarrow> \<not> IsCoinbase tx \<and> CheckTxSanity cfg tx = None \<and> tx_size cfg tx \<le> MaxRelayTxBytes"

definition orphans_ok :: "config \<Rightarrow> orphan_pool \<Rightarrow> bool" where
  "orphans_ok cfg p \<longleftrightarrow> 1 \<le> op_max p \<and>
     (\<exists>q. pool_holds cfg p q \<and> int (length q) \<le> op_max p \<and> weight cfg q \<le> op_max_bytes p)"

definition ledger_ok :: "chain \<Rightarrow> mempool \<Rightarrow> orphan_pool \<Rightarrow> bool" where
  "ledger_ok bc m p \<longleftrightarrow> chain_ok bc \<and> fits_memory bc \<and> pool_fits (sane (bc_cfg bc)) (bc_cfg bc) m \<and> orphans_ok (bc_cfg bc) p"

definition tables_ok :: "net_lib \<Rightarrow> seen_set \<Rightarrow> seen_set \<Rightarrow> tx_requests \<Rightarrow> (string, pending_block) fmap \<Rightarrow> addrman \<Rightarrow> peerbook \<Rightarrow> bool" where
  "tables_ok net sb st r asm a b \<longleftrightarrow> seen_ok sb \<and> seen_ok st \<and> requests_ok r \<and> fcard (fmdom asm) \<le> maxPendingBlocks
     \<and> live_ok net a \<and> card (in_table False a) \<le> maxNewEntries \<and> int (fcard (pb_dialing b)) \<le> pb_max b"

definition running_ok :: "net_lib \<Rightarrow> node \<Rightarrow> bool" where
  "running_ok net nd \<longleftrightarrow> ledger_ok (nd_chain nd) (nd_mempool nd) (nd_orphans nd)
     \<and> tables_ok net (nd_seen_blk nd) (nd_seen_tx nd) (nd_tx_req nd) (nd_assembly nd) (nd_addrs nd) (nd_book nd)"

text \<open>
  A handler is safe when it keeps the invariant as long as the blocks it ends with fit in memory. One that
  only adds blocks is also \<open>keeps\<close>, which composes.
\<close>

definition leads :: "net_lib \<Rightarrow> node \<Rightarrow> node \<Rightarrow> bool" where
  "leads net nd nd' \<longleftrightarrow> (running_ok net nd \<longrightarrow> fits_memory (nd_chain nd') \<longrightarrow> running_ok net nd')"

definition keeps :: "net_lib \<Rightarrow> node \<Rightarrow> node \<Rightarrow> bool" where
  "keeps net nd nd' \<longleftrightarrow> leads net nd nd' \<and> length (bc_blocks (nd_chain nd)) \<le> length (bc_blocks (nd_chain nd'))"

lemma keeps_refl [simp]: "keeps net nd nd"
  by (simp add: keeps_def leads_def)

lemma leads_keeps [trans]: "leads net a b \<Longrightarrow> keeps net b c \<Longrightarrow> leads net a c"
  by (auto simp: keeps_def leads_def fits_memory_def)

lemma keeps_trans [trans]: "keeps net a b \<Longrightarrow> keeps net b c \<Longrightarrow> keeps net a c"
  using leads_keeps by (fastforce simp: keeps_def)

lemma keeps_leads: "keeps net a b \<Longrightarrow> leads net a b"
  by (simp add: keeps_def)

text \<open>Steps that touch nothing the invariant speaks about, and steps on one table.\<close>

lemma keeps_quiet:
  assumes "nd_chain nd' = nd_chain nd" "nd_mempool nd' = nd_mempool nd" "nd_orphans nd' = nd_orphans nd"
    and "nd_seen_blk nd' = nd_seen_blk nd" "nd_seen_tx nd' = nd_seen_tx nd" "nd_tx_req nd' = nd_tx_req nd"
    and "nd_assembly nd' = nd_assembly nd" "nd_addrs nd' = nd_addrs nd" "nd_book nd' = nd_book nd"
  shows "keeps net nd nd'"
  using assms by (simp add: keeps_def leads_def running_ok_def)

lemma keeps_tables:
  assumes "nd_chain nd' = nd_chain nd" "nd_mempool nd' = nd_mempool nd" "nd_orphans nd' = nd_orphans nd"
    and "tables_ok net (nd_seen_blk nd) (nd_seen_tx nd) (nd_tx_req nd) (nd_assembly nd) (nd_addrs nd) (nd_book nd) \<Longrightarrow>
      tables_ok net (nd_seen_blk nd') (nd_seen_tx nd') (nd_tx_req nd') (nd_assembly nd') (nd_addrs nd') (nd_book nd')"
  shows "keeps net nd nd'"
  using assms by (simp add: keeps_def leads_def running_ok_def)

lemma keeps_fold:
  assumes "\<And>x nd. keeps net nd (f x nd)"
  shows "keeps net nd (fold f xs nd)"
proof (induction xs arbitrary: nd)
  case (Cons x xs)
  have "keeps net nd (f x nd)" by (rule assms)
  also have "keeps net (f x nd) (fold f xs (f x nd))" by (rule Cons.IH)
  finally show ?case by simp
qed simp

named_theorems quiet "steps that keep the invariant"

lemma keeps_send [quiet]: "keeps net nd (nd_send p m nd)"
  by (rule keeps_quiet) (simp_all add: nd_send_def)

lemma keeps_emit [quiet]: "keeps net nd (nd_emit ev nd)"
  by (rule keeps_quiet) (simp_all add: nd_emit_def)

lemma keeps_publish [quiet]: "keeps net nd (publishBlock r nd)" "keeps net nd (publishTx tx nd)"
  by (simp_all add: publishBlock_def publishTx_def Let_def keeps_emit)

lemma keeps_generation [quiet]: "keeps net nd (onTipChanged nd)" "keeps net nd (onNewTx nd)"
  by (auto intro: keeps_quiet simp: onTipChanged_def onNewTx_def)

lemma keeps_ban [quiet]: "keeps net nd (ban_peer p n nd)" "keeps net nd (ban_ip e ip nd)"
  by (auto intro: keeps_quiet simp: ban_peer_def ban_ip_def split: option.splits)

lemma keeps_requests [quiet]:
  "keeps net nd (clearRequest p nd)" "keeps net nd (trackRequest e p a b nd)" "keeps net nd (addPeer i pr nd)" "keeps net nd (removePeer i nd)"
  by (auto intro: keeps_quiet simp: clearRequest_def trackRequest_def addPeer_def removePeer_def)

lemma keeps_best [quiet]: "keeps net nd (noteBestHeight h nd)"
  by (auto intro: keeps_quiet simp: noteBestHeight_def)

lemma keeps_reorg_log [quiet]: "keeps net nd (noteReorg e bs n nd)" "keeps net nd (noteRefusedReorg e err nd)"
  by (auto intro: keeps_quiet simp: noteReorg_def noteRefusedReorg_def Let_def split: option.splits)

lemma keeps_announce [quiet]:
  "keeps net nd (broadcastExcept e m x nd)" "keeps net nd (announceTx e tx x nd)" "keeps net nd (announceBlock e b x nd)"
  "keeps net nd (fluff e tx x nd)"
  unfolding broadcastExcept_def announceTx_def announceBlock_def fluff_def Let_def
  by (rule keeps_fold; simp add: keeps_send split: prod.split)+

lemma keeps_dandelion: "keeps net nd (nd\<lparr>nd_dand := d\<rparr>)"
  by (rule keeps_quiet) simp_all

lemma keeps_relay [quiet]: "keeps net nd (relayTx e tx src stem nd)"
proof -
  obtain sp nd1 where s: "stemSuccessor e src nd = (sp, nd1)" by (cases "stemSuccessor e src nd")
  hence "keeps net nd nd1" using keeps_dandelion by (auto simp: stemSuccessor_def split: prod.splits)
  moreover have "keeps net nd1 (relayTx e tx src stem nd)" if "nc_dandelion (nd_cfg nd) \<and> stem"
    using that s keeps_announce(4) keeps_trans [OF keeps_send keeps_dandelion]
    by (simp add: relayTx_def Let_def split: option.splits)
  ultimately show ?thesis using keeps_trans keeps_announce(4) by (auto simp: relayTx_def)
qed

lemma keeps_seen [quiet]: "keeps net nd (snd (markSeenBlock h nd))" "keeps net nd (snd (markSeenTx h nd))"
proof -
  show "keeps net nd (snd (markSeenBlock h nd))"
    using seen_ok_seen [of "nd_seen_blk nd" h] by (intro keeps_tables) (auto simp: markSeenBlock_def tables_ok_def split: prod.splits)
  show "keeps net nd (snd (markSeenTx h nd))"
    using seen_ok_seen [of "nd_seen_tx nd" h] by (intro keeps_tables) (auto simp: markSeenTx_def tables_ok_def split: prod.splits)
qed

lemma keeps_done [quiet]: "keeps net nd (nd\<lparr>nd_tx_req := tr_done h (nd_tx_req nd)\<rparr>)"
  by (rule keeps_tables) (auto simp: tables_ok_def requests_ok_done)


section \<open>Pending transactions\<close>

lemma pool_fits_upgrades [simp]:
  "pool_fits P (cfg\<lparr>upgrades := u\<rparr>) m = pool_fits P cfg m" "sane (cfg\<lparr>upgrades := u\<rparr>) = sane cfg"
  "orphans_ok (cfg\<lparr>upgrades := u\<rparr>) p = orphans_ok cfg p"
proof -
  show "pool_fits P (cfg\<lparr>upgrades := u\<rparr>) m = pool_fits P cfg m"
    by (simp add: pool_fits_def indexed_def totals_ok_def credits_ok_def)
  have "CheckTxSanity (cfg\<lparr>upgrades := u\<rparr>) = CheckTxSanity cfg"
    by (simp add: fun_eq_iff CheckTxSanity_def checkForm_def checkAssetOp_def AuthorizedBy_def AssetID_def NonFungibleAssetID_def split: option.split)
  thus "sane (cfg\<lparr>upgrades := u\<rparr>) = sane cfg" by (simp add: fun_eq_iff sane_def)
  have "blockBytes (cfg\<lparr>upgrades := u\<rparr>) = blockBytes cfg" by (simp add: fun_eq_iff blockBytes_def)
  thus "orphans_ok (cfg\<lparr>upgrades := u\<rparr>) p = orphans_ok cfg p" by (simp add: orphans_ok_def pool_holds_def counts_def weight_def)
qed

lemma ledger_cache [simp]: "ledger_ok (bc\<lparr>bc_sig_cache := c\<rparr>) m p = ledger_ok bc m p"
  by (simp add: ledger_ok_def chain_ok_def fits_memory_def)

lemma pool_add_chain:
  assumes "pool_add tx nd = Some (r, nd')"
  shows "\<exists>c m. nd' = nd\<lparr>nd_mempool := m, nd_chain := (nd_chain nd)\<lparr>bc_sig_cache := c\<rparr>\<rparr>"
  using assms by (auto simp: pool_add_def Let_def)

lemma keeps_pool_add:
  assumes "pool_add tx nd = Some (r, nd')"
  shows "keeps net nd nd'"
proof -
  let ?cfg = "nd_config nd" and ?src = "chain_source (nd_chain nd)"
  obtain m c where run: "mp_Add ?cfg (Some ?src) (bc_sig_cache (nd_chain nd)) tx (nd_mempool nd) = Some (r, m, c)"
    and nd': "nd' = nd\<lparr>nd_mempool := m, nd_chain := (nd_chain nd)\<lparr>bc_sig_cache := c\<rparr>\<rparr>"
    using assms by (auto simp: pool_add_def Let_def)
  have "pool_fits (sane ?cfg) ?cfg m" if ok: "pool_fits (sane ?cfg) ?cfg (nd_mempool nd)"
  proof (cases "add_checks ?cfg (Some ?src) (bc_sig_cache (nd_chain nd)) tx (nd_mempool nd) = (Inr True, c)")
    case True
    hence "sane ?cfg tx"
      by (auto simp: add_checks_def sane_def Let_def split: if_splits option.splits prod.splits)
    moreover have "add_locked ?cfg (Some ?src) tx (nd_mempool nd) = Some (r, m)" using run True by (auto simp: mp_Add_def)
    ultimately show ?thesis using pool_ok_add ok by blast
  next
    case False
    thus ?thesis using run ok by (auto simp: mp_Add_def split: prod.splits sum.splits bool.splits)
  qed
  thus ?thesis by (simp add: nd' keeps_def leads_def running_ok_def ledger_ok_def chain_ok_def fits_memory_def)
qed

lemma keeps_onTx: "onTx e p txo stem nd = Some nd' \<Longrightarrow> keeps net nd nd'"
proof (cases txo)
  case (Some tx)
  assume run: "onTx e p txo stem nd = Some nd'"
  let ?h = "tx_hash (nd_config nd) tx"
  let ?nd1 = "nd\<lparr>nd_tx_req := tr_done ?h (nd_tx_req nd)\<rparr>"
  define nd2 where "nd2 = (if stem then ?nd1 else ?nd1\<lparr>nd_dand := cancelEmbargo ?h (nd_dand ?nd1)\<rparr>)"
  obtain s nd3 where m: "markSeenTx ?h nd2 = (s, nd3)" by (cases "markSeenTx ?h nd2")
  have "keeps net nd ?nd1" by (rule keeps_done)
  also have "keeps net ?nd1 nd2" by (simp add: nd2_def keeps_dandelion)
  also have "keeps net nd2 nd3" using keeps_seen(2) [of net nd2 ?h] by (simp add: m)
  finally have k3: "keeps net nd nd3" .
  show ?thesis
  proof (cases "nd' = nd3")
    case False
    then obtain r nd4 where a: "pool_add tx nd3 = Some (r, nd4)"
      and nd': "nd' = (case r of Inr True \<Rightarrow> publishTx tx (relayTx e tx (Some p) stem (onNewTx nd4)) | _ \<Rightarrow> nd4)"
      using run Some by (auto simp: onTx_def Let_def nd2_def [symmetric] m split: bool.splits if_splits bind_splits)
    have "keeps net nd4 (publishTx tx (relayTx e tx (Some p) stem (onNewTx nd4)))"
      using keeps_trans [OF keeps_generation(2) keeps_trans [OF keeps_relay keeps_publish(2)]] .
    hence "keeps net nd4 nd'" by (simp add: nd' split: sum.splits bool.splits)
    thus ?thesis using keeps_trans [OF k3 keeps_trans [OF keeps_pool_add [OF a]]] by blast
  qed (use k3 in simp)
qed (simp add: onTx_def)

lemma keeps_learn: "learn_txs e p nxt n txs nd = Some (k, nd') \<Longrightarrow> keeps net nd nd'"
proof (induction txs arbitrary: n nd)
  case (Cons tx txs)
  show ?case
  proof (cases "IsExpiredAt tx nxt")
    case False
    let ?h = "tx_hash (nd_config nd) tx"
    let ?nd0 = "nd\<lparr>nd_tx_req := tr_done ?h (nd_tx_req nd)\<rparr>"
    obtain s nd1 where m: "markSeenTx ?h ?nd0 = (s, nd1)" by (cases "markSeenTx ?h ?nd0")
    have k1: "keeps net nd nd1" using keeps_trans [OF keeps_done keeps_seen(2)] m by (metis snd_conv)
    show ?thesis
    proof (cases s)
      case True
      thus ?thesis using Cons False m k1 keeps_trans by (auto simp: Let_def)
    next
      case s: False
      obtain r nd2 where a: "pool_add tx nd1 = Some (r, nd2)" using Cons.prems False m s by (auto simp: Let_def split: option.splits)
      let ?nd3 = "if r = Inr True then publishTx tx (fluff e tx (Some p) nd2) else nd2"
      have k3: "keeps net nd2 ?nd3" using keeps_trans [OF keeps_announce(4) keeps_publish(2)] by simp
      have "\<exists>n. learn_txs e p nxt n txs ?nd3 = Some (k, nd')"
        using Cons.prems False m s a by (auto simp: Let_def split: sum.splits bool.splits)
      thus ?thesis using Cons.IH k1 keeps_pool_add [OF a] k3 keeps_trans by blast
    qed
  qed (use Cons in simp)
qed simp

lemma keeps_mempool_batch: "onMempoolBatch e p txs nd = Some nd' \<Longrightarrow> keeps net nd nd'"
  using keeps_learn keeps_trans keeps_generation(2) by (fastforce simp: onMempoolBatch_def split: bind_splits)

lemma keeps_submit: "SubmitTx e tx nd = Some (r, nd') \<Longrightarrow> keeps net nd nd'"
proof -
  assume run: "SubmitTx e tx nd = Some (r, nd')"
  show "keeps net nd nd'"
  proof (cases "IsExpiredAt tx (bc_Height (nd_chain nd) + 1)")
    case False
    then obtain a nd1 where add: "pool_add tx nd = Some (a, nd1)" and nd': "nd' = nd1 \<or>
        nd' = publishTx tx (relayTx e tx None True (onNewTx (snd (markSeenTx (tx_hash (nd_config nd1) tx) nd1))))"
      using run by (auto simp: SubmitTx_def Let_def split: bind_splits sum.splits bool.splits)
    have "keeps net nd1 (publishTx tx (relayTx e tx None True (onNewTx (snd (markSeenTx (tx_hash (nd_config nd1) tx) nd1)))))"
      using keeps_trans [OF keeps_seen(2) keeps_trans [OF keeps_generation(2) keeps_trans [OF keeps_relay keeps_publish(2)]]] .
    thus ?thesis using nd' keeps_pool_add [OF add] keeps_trans by blast
  qed (use run in \<open>simp add: SubmitTx_def Let_def\<close>)
qed


lemma keeps_want: "keeps net nd (snd (want_txs now hs nd))"
proof (induction hs arbitrary: nd)
  case (Cons h hs)
  obtain ok r where c: "tr_claim h now (nd_tx_req nd) = (ok, r)" by (cases "tr_claim h now (nd_tx_req nd)")
  let ?nd = "nd\<lparr>nd_tx_req := r\<rparr>"
  have "keeps net nd ?nd"
    using requests_ok_claim [of "nd_tx_req nd" h now] by (intro keeps_tables) (auto simp: tables_ok_def c)
  thus ?case using Cons.IH [of ?nd] Cons.IH [of nd] keeps_trans by (auto simp: c split: prod.splits)
qed simp

lemma keeps_txinv [quiet]: "keeps net nd (onTxInv e p hs nd)" "keeps net nd (onGetTx p hs nd)"
proof -
  obtain want nd1 where w: "want_txs (ne_now e) (take maxTxInvBatch hs) nd = (want, nd1)"
    by (cases "want_txs (ne_now e) (take maxTxInvBatch hs) nd")
  hence "keeps net nd nd1" using keeps_want by (metis snd_conv)
  thus "keeps net nd (onTxInv e p hs nd)" using keeps_trans [OF _ keeps_send] by (simp add: onTxInv_def w)
  show "keeps net nd (onGetTx p hs nd)" by (simp add: onGetTx_def Let_def keeps_send)
qed

section \<open>Blocks\<close>

lemma ledger_step:
  assumes "ledger_ok bc m p" "chain_step bc bc'" "fits_memory bc'"
  shows "ledger_ok bc' m p"
proof -
  have ok: "chain_ok bc" "fits_memory bc" using assms(1) by (simp_all add: ledger_ok_def)
  have "bc_prune_keep bc = 0" using ok(1) by (simp add: chain_ok_def)
  then obtain u where "bc_cfg bc' = (bc_cfg bc)\<lparr>upgrades := u\<rparr>" using step_blocks [OF assms(2) _ ok] by blast
  thus ?thesis using assms step_ok [OF assms(2) ok assms(3)] by (simp add: ledger_ok_def)
qed

lemma leads_step: "chain_step (nd_chain nd) bc \<Longrightarrow> leads net nd (nd\<lparr>nd_chain := bc\<rparr>)"
  using ledger_step by (auto simp: leads_def running_ok_def)

lemma prune_length [simp]: "length (bc_blocks (pruneLocked bc)) = length (bc_blocks bc)"
proof -
  have "length (bc_blocks (fold prune_at ks bc)) = length (bc_blocks bc)" for ks bc
    by (induction ks arbitrary: bc) (simp_all add: prune_at_def forgetBody_def Let_def)
  thus ?thesis by (simp add: pruneLocked_def maybeCompactStore_def Let_def)
qed

lemma AddBlock_grows: "AddBlock env b bc = Some (e, bc') \<Longrightarrow> length (bc_blocks bc) \<le> length (bc_blocks bc')"
proof -
  have "length (bc_blocks bc') = length (bc_blocks bc) + 1" if "connect_block b undo h bc = Some bc'" for undo h bc bc'
    using that by (auto simp: connect_block_def refreshDeploymentsLocked_def split: option.splits sum.splits)
  thus "AddBlock env b bc = Some (e, bc') \<Longrightarrow> ?thesis"
    by (fastforce simp: AddBlock_def Let_def split: prod.splits sum.splits option.splits)
qed

lemma keeps_AddBlock: "nd_AddBlock e b nd = Some (r, nd') \<Longrightarrow> keeps net nd nd'"
proof -
  assume "nd_AddBlock e b nd = Some (r, nd')"
  then obtain bc where run: "AddBlock (ne_core e) b (nd_chain nd) = Some (r, bc)" and nd': "nd' = nd\<lparr>nd_chain := bc\<rparr>"
    by (auto simp: nd_AddBlock_def)
  have "leads net nd nd'" unfolding nd' using run by (intro leads_step) (rule chain_step.add)
  thus ?thesis using AddBlock_grows [OF run] by (simp add: keeps_def nd')
qed

lemma keeps_orphans:
  assumes "orphans_ok (nd_config nd) (nd_orphans nd) \<Longrightarrow> orphans_ok (nd_config nd) p"
  shows "keeps net nd (nd\<lparr>nd_orphans := p\<rparr>)"
  using assms by (simp add: keeps_def leads_def running_ok_def ledger_ok_def)

lemma orphans_ok_add: "orphans_ok cfg p \<Longrightarrow> orphans_ok cfg (snd (op_add cfg b p))"
proof -
  assume "orphans_ok cfg p"
  then obtain q where q: "pool_holds cfg p q" "1 \<le> op_max p" "int (length q) \<le> op_max p" "weight cfg q \<le> op_max_bytes p"
    by (auto simp: orphans_ok_def)
  let ?q = "snd (queue_add cfg (op_max p) (op_max_bytes p) b q)"
  have "int (length ?q) \<le> op_max p \<and> weight cfg ?q \<le> op_max_bytes p"
    using q room_fits [OF q(2), of "blockBytes cfg b" "op_max_bytes p" cfg q] by (auto simp: queue_add_def weight_def)
  thus ?thesis using add_holds [OF q(1), of b] pool_limits(1,2) [OF q(1), of b] q(2) by (auto simp: orphans_ok_def)
qed

lemma orphans_ok_take: "orphans_ok cfg p \<Longrightarrow> orphans_ok cfg (snd (takeChildren h p))"
proof -
  assume "orphans_ok cfg p"
  then obtain q where q: "pool_holds cfg p q" "1 \<le> op_max p" "int (length q) \<le> op_max p" "weight cfg q \<le> op_max_bytes p"
    by (auto simp: orphans_ok_def)
  let ?q = "snd (queue_take h q)"
  have "int (length ?q) \<le> op_max p \<and> weight cfg ?q \<le> op_max_bytes p"
    unfolding queue_take_def snd_conv using q(3,4) filter_le [of "\<lambda>b. blk_prev_hash b \<noteq> h" q cfg] by linarith
  thus ?thesis using take_holds [OF q(1), of h] pool_limits(3,4) [OF q(1), of h] q(2) by (auto simp: orphans_ok_def)
qed

lemma keeps_buffer [quiet]: "keeps net nd (snd (bufferOrphan b nd))"
  using keeps_orphans [of nd "snd (op_add (nd_config nd) b (nd_orphans nd))" net] orphans_ok_add
  by (auto simp: bufferOrphan_def split: prod.splits)

lemma keeps_children: "connect_children e bs k nd = Some (j, nd') \<Longrightarrow> keeps net nd nd'"
proof (induction bs arbitrary: k nd)
  case (Cons b bs)
  obtain r nd1 where a: "nd_AddBlock e b nd = Some (r, nd1)" using Cons.prems by (cases "nd_AddBlock e b nd") auto
  let ?nd2 = "if r = None then snd (markSeenBlock (blk_hash b) nd1) else nd1"
  have "keeps net nd1 ?nd2" using keeps_seen(1) by simp
  moreover have "\<exists>k. connect_children e bs k ?nd2 = Some (j, nd')" using Cons.prems a by (auto split: option.splits)
  ultimately show ?case using Cons.IH keeps_AddBlock [OF a] keeps_trans by blast
qed simp

lemma keeps_connect: "connectOrphans e n nd = Some (k, nd') \<Longrightarrow> keeps net nd nd'"
proof (induction e n nd rule: connectOrphans.induct)
  case (1 e n nd)
  obtain cs pool where t: "takeChildren (blk_hash (bc_tip (nd_chain nd))) (nd_orphans nd) = (cs, pool)"
    by (cases "takeChildren (blk_hash (bc_tip (nd_chain nd))) (nd_orphans nd)")
  show ?case
  proof (cases "cs = []")
    case True
    thus ?thesis using "1.prems" by (simp add: connectOrphans.simps [of e n nd] t)
  next
    case False
    let ?nd = "nd\<lparr>nd_orphans := pool\<rparr>"
    obtain j nd1 where c: "connect_children e cs 0 ?nd = Some (j, nd1)"
      using "1.prems" False by (auto simp: connectOrphans.simps [of e n nd] t split: option.splits)
    have "keeps net nd ?nd" using orphans_ok_take [of _ "nd_orphans nd" "blk_hash (bc_tip (nd_chain nd))"] by (intro keeps_orphans) (simp add: t)
    hence k1: "keeps net nd nd1" using keeps_children [OF c] keeps_trans by blast
    show ?thesis
    proof (cases "j = 0")
      case True
      thus ?thesis using k1 "1.prems" False c by (simp add: connectOrphans.simps [of e n nd] t)
    next
      case j: False
      hence "connectOrphans e (n + j) nd1 = Some (k, nd')" using "1.prems" False c by (simp add: connectOrphans.simps [of e n nd] t)
      hence "keeps net nd1 nd'" using "1.IH" [OF t [symmetric] False c refl] j by simp
      thus ?thesis using k1 keeps_trans by blast
    qed
  qed
qed

lemma keeps_pool:
  assumes "pool_fits (sane (nd_config nd)) (nd_config nd) (nd_mempool nd) \<Longrightarrow> pool_fits (sane (nd_config nd)) (nd_config nd) m"
  shows "keeps net nd (nd\<lparr>nd_mempool := m\<rparr>)"
  using assms by (simp add: keeps_def leads_def running_ok_def ledger_ok_def)

lemma keeps_reconcile [quiet]: "keeps net nd (reconcileMempool nd)"
  unfolding reconcileMempool_def by (intro keeps_pool pool.reconcile)

lemma keeps_remove [quiet]: "keeps net nd (nd\<lparr>nd_mempool := mp_Remove (nd_config nd) txs (nd_mempool nd)\<rparr>)"
  by (intro keeps_pool pool.remove)

lemma keeps_after [quiet]: "keeps net nd (afterNewBlock r nd)"
  unfolding afterNewBlock_def using keeps_trans [OF keeps_generation(1) keeps_trans [OF keeps_reconcile keeps_publish(1)]] .

lemma keeps_resurrect: "resurrect txs n nd = Some (k, nd') \<Longrightarrow> keeps net nd nd'"
proof (induction txs arbitrary: n nd)
  case (Cons tx txs)
  thus ?case using keeps_pool_add keeps_trans by (fastforce split: if_splits bind_splits)
qed simp

lemma keeps_adopt: "adopt_reorg e bs nd = Some nd' \<Longrightarrow> keeps net nd nd'"
proof -
  assume "adopt_reorg e bs nd = Some nd'"
  then obtain n nd1 where r: "resurrectTxs bs nd = Some (n, nd1)" and nd': "nd' = afterNewBlock True (noteReorg e bs n nd1)"
    by (auto simp: adopt_reorg_def split: bind_splits)
  have "keeps net nd1 nd'" unfolding nd' using keeps_trans [OF keeps_reorg_log(1) keeps_after] .
  thus ?thesis using keeps_resurrect r keeps_trans unfolding resurrectTxs_def by blast
qed

lemma keeps_block: "onBlockReceived e p b nd = Some nd' \<Longrightarrow> keeps net nd nd'"
proof -
  assume run: "onBlockReceived e p b nd = Some nd'"
  obtain s nd1 where m: "markSeenBlock (blk_hash b) nd = (s, nd1)" by (cases "markSeenBlock (blk_hash b) nd")
  have k1: "keeps net nd nd1" using keeps_seen(1) [of net nd "blk_hash b"] by (simp add: m)
  show ?thesis
  proof (cases "s \<or> SelfValid (nd_config nd1) b \<noteq> None")
    case True
    hence "nd' = nd1 \<or> nd' = ban_peer p banInvalidBlock nd1" using run by (cases s) (simp_all add: onBlockReceived_def m)
    thus ?thesis using k1 keeps_ban(1) keeps_trans by blast
  next
    case False
    let ?nd2 = "noteBestHeight (blk_index b) nd1"
    obtain r nd3 where a: "nd_AddBlock e b ?nd2 = Some (r, nd3)"
      using run False by (cases "nd_AddBlock e b ?nd2") (auto simp: onBlockReceived_def m)
    have k3: "keeps net nd nd3" using k1 keeps_best keeps_AddBlock [OF a] keeps_trans by blast
    show ?thesis
    proof (cases r)
      case (Some err)
      hence nd': "nd' = nd_send p (getHeadersMsg (snd (bufferOrphan b nd3))) (snd (bufferOrphan b nd3))"
        using run False by (simp add: onBlockReceived_def m a Let_def)
      have "keeps net nd3 nd'" unfolding nd' using keeps_trans [OF keeps_buffer keeps_send] .
      thus ?thesis using k3 keeps_trans by blast
    next
      case None
      obtain k nd4 where c: "connectOrphans e 0 nd3 = Some (k, nd4)" and nd': "nd' = announceBlock e b (Some p) (afterNewBlock False nd4)"
        using run False None by (cases "connectOrphans e 0 nd3") (auto simp: onBlockReceived_def m a)
      have "keeps net nd4 nd'" unfolding nd' using keeps_trans [OF keeps_after keeps_announce(3)] .
      thus ?thesis using k3 keeps_connect [OF c] keeps_trans by blast
    qed
  qed
qed


section \<open>Compact blocks\<close>

text \<open>What the order of a map iteration and the \<open>net\<close> package of a handler are assumed to be.\<close>

definition proper :: "net_lib \<Rightarrow> node_env \<Rightarrow> bool" where
  "proper net e \<longleftrightarrow> ne_net e = net \<and> (\<forall>xs. set (ne_keys e xs) = set xs)"

lemma older_pending_fold:
  assumes "ks = [] \<longrightarrow> acc \<noteq> None" "set ks \<subseteq> fmdom' m" "\<forall>h at. acc = Some (h, at) \<longrightarrow> h \<in> fmdom' m"
  shows "\<exists>h at. fold (older_pending m) ks acc = Some (h, at) \<and> h \<in> fmdom' m"
  using assms
proof (induction ks arbitrary: acc)
  case (Cons k ks)
  obtain pb where pb: "fmlookup m k = Some pb" using Cons.prems(2) by (auto simp: fmlookup_dom'_iff)
  have k: "k \<in> fmdom' m" using Cons.prems(2) by simp
  have "older_pending m k acc \<noteq> None" by (auto simp: older_pending_def pb split: option.splits)
  moreover have "\<forall>h at. older_pending m k acc = Some (h, at) \<longrightarrow> h \<in> fmdom' m"
    using Cons.prems(3) k by (auto simp: older_pending_def pb split: option.splits if_splits)
  ultimately show ?case using Cons.IH Cons.prems(2) by simp
qed auto

lemma drop_oldest_card:
  assumes "proper net e"
  shows "fcard (fmdom (drop_oldest_pending e m)) = fcard (fmdom m) - 1"
proof (cases "fmdom' m = {}")
  case True
  hence m: "m = fmempty" by (metis fmdom'_notD fmap_ext fmempty_lookup empty_iff)
  have "fold (older_pending fmempty) ks None = None" for ks
    by (induction ks) (simp_all add: older_pending_def)
  thus ?thesis by (simp add: drop_oldest_pending_def m fcard.rep_eq)
next
  case False
  have keys: "set (ne_keys e (fmkeys m)) = fmdom' m" using assms by (simp add: proper_def)
  have ne: "ne_keys e (fmkeys m) \<noteq> []" using keys False by auto
  obtain h at where "fold (older_pending m) (ne_keys e (fmkeys m)) None = Some (h, at)" "h \<in> fmdom' m"
    using older_pending_fold [of "ne_keys e (fmkeys m)" None m] keys ne by auto
  moreover have "fcard (fmdom (fmdrop h m)) = fcard (fmdom m) - 1" if "h \<in> fmdom' m"
    using that by (simp add: fcard_fminus_finsert fmdom'_alt_def fcard.rep_eq)
  ultimately show ?thesis by (simp add: drop_oldest_pending_def)
qed

lemma assembly_put_bound:
  assumes "proper net e"
  shows "fcard (fmdom (assembly_put e h pb m)) \<le> maxPendingBlocks"
proof -
  define m1 where "m1 = fmfilter (\<lambda>h. case fmlookup m h of None \<Rightarrow> False | Some p \<Rightarrow> \<not> pd_deadline p < ne_now e) m"
  let ?n = "fcard (fmdom m1) + 1 - maxPendingBlocks"
  have "fcard (fmdom ((drop_oldest_pending e ^^ k) m1)) = fcard (fmdom m1) - k" for k
    by (induction k) (simp_all add: drop_oldest_card [OF assms])
  hence "fcard (fmdom ((drop_oldest_pending e ^^ ?n) m1)) \<le> maxPendingBlocks - 1" by (simp add: maxPendingBlocks_def)
  thus ?thesis by (simp add: assembly_put_def m1_def [symmetric] Let_def fcard_finsert_if maxPendingBlocks_def)
qed

lemma keeps_assembly:
  "fcard (fmdom asm) \<le> fcard (fmdom (nd_assembly nd)) \<or> fcard (fmdom asm) \<le> maxPendingBlocks \<Longrightarrow> keeps net nd (nd\<lparr>nd_assembly := asm\<rparr>)"
  by (rule keeps_tables) (auto simp: tables_ok_def)

lemma assembly_take_le: "fcard (fmdom (snd (assembly_take e h m))) \<le> fcard (fmdom m)"
  by (auto simp: assembly_take_def intro: fcard_mono split: option.splits)

lemma keeps_complete: "completeBlock e p h txs nd = Some nd' \<Longrightarrow> keeps net nd nd'"
proof -
  assume run: "completeBlock e p h txs nd = Some nd'"
  have q: "keeps net nd (nd\<lparr>nd_compact_hit := i\<rparr>)" "keeps net nd (nd\<lparr>nd_compact_miss := i\<rparr>)" for i
    by (rule keeps_quiet; simp)+
  show ?thesis
  proof (cases "MerkleRoot (nd_config nd) txs \<noteq> hdr_merkle_root h")
    case True
    thus ?thesis using run keeps_trans [OF q(2) keeps_send] by (auto simp: completeBlock_def Let_def)
  next
    case False
    hence "onBlockReceived e p ((BlockFromHeader h)\<lparr>blk_transactions := txs\<rparr>) (nd\<lparr>nd_compact_hit := nd_compact_hit nd + 1\<rparr>) = Some nd'"
      using run by (simp add: completeBlock_def Let_def)
    from keeps_block [OF this] q(1) show ?thesis using keeps_trans by blast
  qed
qed

lemma keeps_compact:
  assumes "proper net e" "onCompactBlock e p cbo nd = Some nd'"
  shows "keeps net nd nd'"
proof (cases cbo)
  case (Some cb)
  let ?cfg = "nd_config nd" and ?hash = "hdr_hash (cb_header cb)"
  let ?byID = "by_short_id ?cfg ?hash (mp_All (nd_mempool nd))"
  let ?txs = "cb_coinbase cb # resolve_ids ?byID (cb_short_ids cb)" and ?missing = "missing_ids ?byID (cb_short_ids cb)"
  show ?thesis
  proof (cases "?hash = [] \<or> MaxBlockTxs < length (cb_short_ids cb) \<or> sn_has ?hash (nd_seen_blk nd) \<or> \<not> hdr_HasValidPoW ?cfg (cb_header cb)")
    case True
    hence "nd' = nd \<or> nd' = ban_peer p banInvalidBlock nd" using assms(2) Some by (auto simp: onCompactBlock_def Let_def split: if_splits)
    thus ?thesis using keeps_ban(1) by auto
  next
    case guard: False
    show ?thesis
    proof (cases "?missing = []")
      case True
      hence "completeBlock e p (cb_header cb) ?txs nd = Some nd'" using assms(2) Some guard by (simp add: onCompactBlock_def Let_def)
      thus ?thesis by (rule keeps_complete)
    next
      case False
      thus ?thesis using assms(2) Some guard keeps_trans [OF keeps_assembly keeps_send] assembly_put_bound [OF assms(1)]
        by (auto simp: onCompactBlock_def Let_def)
    qed
  qed
qed (use assms in \<open>simp add: onCompactBlock_def\<close>)

lemma keeps_blocktxn: "onBlockTxn e p h txs nd = Some nd' \<Longrightarrow> keeps net nd nd'"
proof -
  assume run: "onBlockTxn e p h txs nd = Some nd'"
  obtain r m where t: "assembly_take e h (nd_assembly nd) = (r, m)" by (cases "assembly_take e h (nd_assembly nd)")
  let ?nd1 = "nd\<lparr>nd_assembly := m\<rparr>"
  have k: "keeps net nd ?nd1" using assembly_take_le [of e h "nd_assembly nd"] by (intro keeps_assembly) (simp add: t)
  show ?thesis
  proof (cases "nd' = ?nd1 \<or> (\<exists>m. nd' = nd_send p m ?nd1)")
    case True
    thus ?thesis using k keeps_send keeps_trans by blast
  next
    case False
    then obtain hd body where "completeBlock e p hd body ?nd1 = Some nd'"
      using run by (auto simp: onBlockTxn_def t Let_def split: option.splits if_splits)
    thus ?thesis using k keeps_complete keeps_trans by blast
  qed
qed

lemma keeps_getblocktxn [quiet]: "keeps net nd (onGetBlockTxn p i h ixs nd)"
  by (simp add: onGetBlockTxn_def Let_def keeps_send split: option.split)


section \<open>Synchronisation\<close>

lemma keeps_headers [quiet]: "keeps net nd (onHeaders e p hs nd)"
  using keeps_send keeps_ban(1) keeps_trans [OF keeps_best keeps_trans [OF keeps_send keeps_requests(2)]]
  by (auto simp: onHeaders_def Let_def split: list.split option.split)

lemma keeps_extend: "extend_with e bs i j nd = Some (i', j', nd') \<Longrightarrow> keeps net nd nd'"
proof (induction bs arbitrary: i j nd)
  case (Cons b bs)
  obtain r nd1 where a: "nd_AddBlock e b nd = Some (r, nd1)" using Cons.prems by (cases "nd_AddBlock e b nd") auto
  let ?nd2 = "if r = None then snd (markSeenBlock (blk_hash b) nd1) else snd (bufferOrphan b nd1)"
  have "keeps net nd1 ?nd2" using keeps_seen(1) keeps_buffer by simp
  moreover have "\<exists>i j. extend_with e bs i j ?nd2 = Some (i', j', nd')"
    using Cons.prems a by (cases r; cases "bufferOrphan b nd1") auto
  ultimately show ?case using Cons.IH keeps_AddBlock [OF a] keeps_trans by blast
qed simp

lemma keeps_mark_all: "keeps net nd (fold (\<lambda>b n. snd (markSeenBlock (blk_hash b) n)) bs nd)"
  by (rule keeps_fold) (rule keeps_seen)

lemma node_fits: "running_ok net nd \<Longrightarrow> fits_memory (nd_chain nd)"
  by (simp add: running_ok_def ledger_ok_def)

lemma keeps_finish [quiet]: "keeps net nd (fork_adopted e p bs nd)" "keeps net nd (extended e p k n m nd)"
proof -
  show "keeps net nd (fork_adopted e p bs nd)"
    using keeps_announce(1) keeps_trans [OF keeps_announce(1) keeps_send] by (simp add: fork_adopted_def Let_def)
  have b: "keeps net nd (broadcastExcept e x y (afterNewBlock r nd))" for x y r using keeps_trans [OF keeps_after keeps_announce(1)] .
  have "keeps net nd (nd_send p z (broadcastExcept e x y (afterNewBlock r nd)))" for z x y r using keeps_trans [OF b keeps_send] .
  thus "keeps net nd (extended e p k n m nd)" by (simp add: extended_def Let_def b keeps_send)
qed

lemma leads_onFork: "onFork e p blocks nd = Some nd' \<Longrightarrow> leads net nd nd'"
proof -
  assume run: "onFork e p blocks nd = Some nd'"
  then obtain r bc where f: "ReorgFrom (ne_core e) (blk_index (hd blocks) - 1) blocks (nd_chain nd) = Some (r, bc)"
    by (auto simp: onFork_def split: option.splits)
  have l: "leads net nd (nd\<lparr>nd_chain := bc\<rparr>)" by (intro leads_step chain_step.reorg [OF f])
  show ?thesis
  proof (cases "\<exists>bs. r = Inr (True, bs)")
    case True
    then obtain bs nd3 where a: "adopt_reorg e bs (fold (\<lambda>b n. snd (markSeenBlock (blk_hash b) n)) blocks (nd\<lparr>nd_chain := bc\<rparr>)) = Some nd3"
      and nd': "nd' = fork_adopted e p blocks nd3" using run f by (auto simp: onFork_def)
    show ?thesis unfolding nd'
      by (rule leads_keeps [OF l keeps_trans [OF keeps_trans [OF keeps_mark_all keeps_adopt [OF a]] keeps_finish(1)]])
  next
    case False
    hence "nd' = nd_send p (Message MsgGetChain) (nd\<lparr>nd_chain := bc\<rparr>)"
      using run f by (auto simp: onFork_def split: sum.splits prod.splits bool.splits)
    thus ?thesis using leads_keeps [OF l keeps_send] by simp
  qed
qed

lemma keeps_onExtension: "onExtension e p blocks nd = Some nd' \<Longrightarrow> keeps net nd nd'"
proof -
  assume run: "onExtension e p blocks nd = Some nd'"
  obtain i j nd2 where x: "extend_with e blocks 0 0 nd = Some (i, j, nd2)"
    using run by (auto simp: onExtension_def split: option.splits)
  obtain n nd3 where c: "connectOrphans e i nd2 = Some (n, nd3)" and nd': "nd' = extended e p (length blocks) n j nd3"
    using run x by (auto simp: onExtension_def)
  show ?thesis unfolding nd' by (rule keeps_trans [OF keeps_trans [OF keeps_extend [OF x] keeps_connect [OF c]] keeps_finish(2)])
qed

lemma leads_onBlocks: "onBlocks e p blocks nd0 = Some nd' \<Longrightarrow> leads net nd0 nd'"
proof -
  assume run: "onBlocks e p blocks nd0 = Some nd'"
  define nd where "nd = noteBestHeight (blk_index (last blocks)) (clearRequest p nd0)"
  have k: "keeps net nd0 nd" unfolding nd_def using keeps_trans [OF keeps_requests(1) keeps_best] .
  have same: "nd_chain nd = nd_chain nd0" by (simp add: nd_def noteBestHeight_def clearRequest_def)
  show ?thesis
  proof (cases "blocks = []")
    case True
    thus ?thesis using run keeps_requests(1) keeps_leads by (auto simp: onBlocks_def Let_def)
  next
    case False
    hence "onFork e p blocks nd = Some nd' \<or> onExtension e p blocks nd = Some nd'"
      using run by (simp add: onBlocks_def Let_def nd_def [symmetric] split: if_splits)
    hence "leads net nd nd'" using leads_onFork keeps_onExtension keeps_leads by blast
    thus ?thesis using k same node_fits unfolding leads_def keeps_def by metis
  qed
qed

lemma leads_onChain: "onChain e blocks nd = Some nd' \<Longrightarrow> leads net nd nd'"
proof -
  assume run: "onChain e blocks nd = Some nd'"
  then obtain r bc where f: "ReplaceChain (ne_core e) blocks (nd_chain nd) = Some (r, bc)"
    by (auto simp: onChain_def split: option.splits)
  have l: "leads net nd (nd\<lparr>nd_chain := bc\<rparr>)" by (intro leads_step chain_step.replace [OF f])
  have "keeps net (nd\<lparr>nd_chain := bc\<rparr>) nd'"
    using run f keeps_adopt keeps_reorg_log(2) by (auto simp: onChain_def split: sum.splits prod.splits bool.splits)
  thus ?thesis by (rule leads_keeps [OF l])
qed

lemma keeps_stalled [quiet]: "keeps net nd (dropStalledPeers e nd)"
proof -
  have "keeps net n ((ban_peer p banStalling n)\<lparr>nd_dropped := x\<rparr>)" for p n x
    by (rule keeps_trans [OF keeps_ban(1)], rule keeps_quiet) simp_all
  hence "keeps net (nd\<lparr>nd_inflight := i\<rparr>) (fold (\<lambda>p n. (ban_peer p banStalling n)\<lparr>nd_dropped := nd_dropped n @ [p]\<rparr>) ps (nd\<lparr>nd_inflight := i\<rparr>))" for i ps
    by (intro keeps_fold)
  moreover have "keeps net nd (nd\<lparr>nd_inflight := i\<rparr>)" for i by (rule keeps_quiet) simp_all
  ultimately show ?thesis unfolding dropStalledPeers_def Let_def using keeps_trans by blast
qed

lemma keeps_windows: "keeps net nd (request_windows e best ps w s nd)"
proof (induction ps arbitrary: w s nd)
  case (Cons p ps)
  show ?case
  proof (cases "s \<le> 0 \<or> best < w")
    case False
    let ?to1 = "w + of_nat maxBlocksBatch - 1" let ?to = "if best < ?to1 then best else ?to1"
    let ?nd = "trackRequest e p w ?to (nd_send p ((Message MsgGetBlocks)\<lparr>msg_from := w, msg_to := ?to\<rparr>) nd)"
    have "request_windows e best (p # ps) w s nd = request_windows e best ps (?to + 1) (s - 1) ?nd"
      using False by (simp only: request_windows.simps Let_def if_False)
    thus ?thesis using keeps_trans [OF keeps_trans [OF keeps_send keeps_requests(2)] Cons.IH] by simp
  qed simp
qed simp

lemma keeps_sync [quiet]: "keeps net nd (syncTick e nd)"
proof -
  have r: "keeps net nd (requestMoreBlocks e nd)" for nd
    using keeps_send keeps_windows by (simp add: requestMoreBlocks_def Let_def split: list.split)
  have "keeps net n (n\<lparr>nd_peers := ps\<rparr>)" for n ps by (rule keeps_quiet) simp_all
  hence "keeps net n (nd_send i m (n\<lparr>nd_peers := ps\<rparr>))" for n i m ps using keeps_trans [OF _ keeps_send] by blast
  hence "keeps net nd (reconcileMempoolWithPeers e nd)" for nd
    unfolding reconcileMempoolWithPeers_def by (auto intro: keeps_fold)
  thus ?thesis unfolding syncTick_def by (rule keeps_trans [OF keeps_trans [OF keeps_stalled r]])
qed

lemma keeps_filters [quiet]:
  "keeps net nd (onGetCFilters p a b nd)" "keeps net nd (onGetCFHeaders p a b nd)" "keeps net nd (onCFilters m nd)" "keeps net nd (onCFHeaders m nd)"
  by (auto intro: keeps_quiet simp: onGetCFilters_def onGetCFHeaders_def onCFilters_def onCFHeaders_def nd_send_def Let_def)

lemma keeps_serving [quiet]:
  "keeps net nd (onInv p i nd)" "keeps net nd (onGetChain e p nd)" "keeps net nd (onGetHeaders p m nd)" "keeps net nd (onGetBlocks p m nd)"
  by (auto intro: keeps_quiet simp: onInv_def onGetChain_def onGetHeaders_def onGetBlocks_def nd_send_def noteBestHeight_def Let_def split: option.split)


section \<open>Outbound connections\<close>

lemma tables_addr: "tables_ok net sb st r asm a b \<Longrightarrow> tables_ok net sb st r asm (addr_do net c a) b"
  by (simp add: tables_ok_def live_ok_do new_table_do)

lemma tables_book:
  "tables_ok net sb st r asm a b \<Longrightarrow> tables_ok net sb st r asm a (pb_note addr b)"
  "tables_ok net sb st r asm a b \<Longrightarrow> tables_ok net sb st r asm a (snd (shouldDial addr b))"
  "tables_ok net sb st r asm a b \<Longrightarrow> tables_ok net sb st r asm a (noteSelf addr b)"
proof -
  assume ok: "tables_ok net sb st r asm a b"
  show "tables_ok net sb st r asm a (pb_note addr b)" using ok by (auto simp: tables_ok_def pb_note_def)
  show "tables_ok net sb st r asm a (snd (shouldDial addr b))" using ok peerbook_bounded [of b addr] by (auto simp: tables_ok_def)
  have "fcard (pb_dialing b |-| {|addr|}) \<le> fcard (pb_dialing b)" by (rule fcard_mono) auto
  thus "tables_ok net sb st r asm a (noteSelf addr b)" using ok by (auto simp: tables_ok_def noteSelf_def)
qed

lemma keeps_dial:
  assumes "proper net e"
  shows "keeps net nd (maybeDial e addr nd)"
proof (rule keeps_tables)
  let ?a = "snd (am_Reserve net addr (nd_addrs nd))"
  assume ok: "tables_ok net (nd_seen_blk nd) (nd_seen_tx nd) (nd_tx_req nd) (nd_assembly nd) (nd_addrs nd) (nd_book nd)"
  have net: "ne_net e = net" using assms by (simp add: proper_def)
  have r: "tables_ok net (nd_seen_blk nd) (nd_seen_tx nd) (nd_tx_req nd) (nd_assembly nd) ?a (snd (shouldDial addr (nd_book nd)))"
    using tables_addr [OF ok, of "CReserve addr"] tables_book(2) by simp
  show "tables_ok net (nd_seen_blk (maybeDial e addr nd)) (nd_seen_tx (maybeDial e addr nd)) (nd_tx_req (maybeDial e addr nd))
      (nd_assembly (maybeDial e addr nd)) (nd_addrs (maybeDial e addr nd)) (nd_book (maybeDial e addr nd))"
    using ok r tables_addr [OF r, of "CRelease addr"]
    by (cases "am_Reserve net addr (nd_addrs nd)"; cases "shouldDial addr (nd_book nd)") (auto simp: maybeDial_def net split: bool.splits)
qed (auto simp: maybeDial_def split: prod.splits bool.splits)

lemma keeps_heard:
  assumes "proper net e"
  shows "keeps net nd (nd\<lparr>nd_book := pb_note addr (nd_book nd), nd_addrs := snd (am_Add (ne_net e) (ne_now e) addr src (nd_addrs nd))\<rparr>)"
  using assms tables_addr [of net _ _ _ _ _ _ "CAdd (ne_now e) addr src"] tables_book(1) by (intro keeps_tables) (simp_all add: proper_def)

lemma keeps_peers: "proper net e \<Longrightarrow> keeps net nd (onPeers e p addrs nd)"
  unfolding onPeers_def Let_def by (rule keeps_fold) (rule keeps_trans [OF keeps_heard keeps_dial])

lemma keeps_hello:
  assumes "proper net e"
  shows "keeps net nd (onHello e p addr nd)"
proof -
  let ?nd = "nd\<lparr>nd_book := pb_note addr (nd_book nd), nd_addrs := snd (am_Add (ne_net e) (ne_now e) addr ''hello'' (nd_addrs nd))\<rparr>"
  have "keeps net ?nd (onHello e p addr nd)" by (rule keeps_quiet) (simp_all add: onHello_def)
  thus ?thesis by (rule keeps_trans [OF keeps_heard [OF assms]])
qed

lemma keeps_slot:
  assumes "ne_net e = net"
  shows "keeps net n (case shouldDial addr (nd_book n) of
      (False, b) \<Rightarrow> n\<lparr>nd_book := b, nd_addrs := am_Release (ne_net e) addr (nd_addrs n)\<rparr>
    | (True, b) \<Rightarrow> n\<lparr>nd_book := b, nd_dials := nd_dials n @ [addr]\<rparr>)"
proof -
  obtain ok b where s: "shouldDial addr (nd_book n) = (ok, b)" by (cases "shouldDial addr (nd_book n)")
  have t: "tables_ok net sb st r asm a b" if "tables_ok net sb st r asm a (nd_book n)" for sb st r asm a
    using tables_book(2) [OF that, of addr] by (simp add: s)
  show ?thesis using t tables_addr [OF t, of _ _ _ _ _ "CRelease addr"] assms
    by (intro keeps_tables) (simp_all add: s split: bool.split)
qed

lemma keeps_fill:
  assumes "proper net e"
  shows "keeps net nd (fillOutbound e shuffle nd)"
proof -
  let ?skip = "\<lambda>addr. addr = nc_advertise_addr (nd_cfg nd) \<or> pb_isSelf addr (nd_book nd) \<or> connectedTo addr nd"
  let ?want = "nc_max_peers (nd_cfg nd) - int (fcard (pb_dialing (nd_book nd)))"
  have net: "ne_net e = net" using assms by (simp add: proper_def)
  obtain got a where s: "am_Select net shuffle ?want ?skip (nd_addrs nd) = (got, a)"
    by (cases "am_Select net shuffle ?want ?skip (nd_addrs nd)")
  have "keeps net nd (nd\<lparr>nd_addrs := a\<rparr>)"
    using tables_addr [of net _ _ _ _ "nd_addrs nd" _ "CSelect shuffle ?want ?skip"] by (intro keeps_tables) (simp_all add: s)
  also have "keeps net (nd\<lparr>nd_addrs := a\<rparr>) (fold (\<lambda>addr n. case shouldDial addr (nd_book n) of
      (False, b) \<Rightarrow> n\<lparr>nd_book := b, nd_addrs := am_Release (ne_net e) addr (nd_addrs n)\<rparr>
    | (True, b) \<Rightarrow> n\<lparr>nd_book := b, nd_dials := nd_dials n @ [addr]\<rparr>) got (nd\<lparr>nd_addrs := a\<rparr>))"
    by (rule keeps_fold) (rule keeps_slot [OF net])
  finally show ?thesis by (simp add: fillOutbound_def net s Let_def)
qed


section \<open>Mined blocks\<close>

lemma keeps_mined: "SubmitMinedBlock e b nd = Some (r, nd') \<Longrightarrow> keeps net nd nd'"
proof -
  assume run: "SubmitMinedBlock e b nd = Some (r, nd')"
  then obtain x nd1 where a: "nd_AddBlock e b nd = Some (x, nd1)" by (auto simp: SubmitMinedBlock_def split: bind_splits)
  let ?nd2 = "snd (markSeenBlock (blk_hash b) nd1)"
  let ?nd3 = "?nd2\<lparr>nd_mempool := mp_Remove (nd_config ?nd2) (drop 1 (blk_transactions b)) (nd_mempool ?nd2)\<rparr>"
  have "nd' = nd1 \<or> nd' = announceBlock e b None (afterNewBlock False ?nd3)"
    using run a by (auto simp: SubmitMinedBlock_def Let_def split: option.splits)
  moreover have "keeps net nd1 (announceBlock e b None (afterNewBlock False ?nd3))"
    using keeps_trans [OF keeps_trans [OF keeps_seen(1) keeps_remove] keeps_trans [OF keeps_after keeps_announce(3)]] .
  ultimately show ?thesis using keeps_AddBlock [OF a] keeps_trans by blast
qed

lemma keeps_committed: "commitMined e b txs nd = Some (r, nd') \<Longrightarrow> keeps net nd nd'"
proof -
  assume run: "commitMined e b txs nd = Some (r, nd')"
  then obtain x nd1 where a: "nd_AddBlock e b nd = Some (x, nd1)" by (auto simp: commitMined_def split: bind_splits)
  let ?nd2 = "snd (markSeenBlock (blk_hash b) nd1)"
  let ?nd3 = "?nd2\<lparr>nd_mempool := mp_Remove (nd_config ?nd2) txs (nd_mempool ?nd2)\<rparr>"
  have "nd' = nd1 \<or> nd' = publishBlock False (announceBlock e b None (onTipChanged ?nd3))"
    using run a by (auto simp: commitMined_def Let_def split: option.splits)
  moreover have "keeps net nd1 (publishBlock False (announceBlock e b None (onTipChanged ?nd3)))"
    using keeps_trans [OF keeps_trans [OF keeps_seen(1) keeps_remove] keeps_trans [OF keeps_generation(1) keeps_trans [OF keeps_announce(3) keeps_publish(1)]]] .
  ultimately show ?thesis using keeps_AddBlock [OF a] keeps_trans by blast
qed

definition rederived :: "chain \<Rightarrow> chain \<Rightarrow> bool" where
  "rederived bc bc' \<longleftrightarrow> (\<exists>c n. bc' = bc\<lparr>bc_sig_cache := c, bc_nodes := n\<rparr>)"

lemma rederivedI: "bc' = bc\<lparr>bc_sig_cache := c, bc_nodes := n\<rparr> \<Longrightarrow> rederived bc bc'"
  by (auto simp: rederived_def)

lemma rederived_refl: "rederived bc bc"
  by (rule rederivedI [where c = "bc_sig_cache bc" and n = "bc_nodes bc"]) simp

lemma NextStateRoot_chain: "NextStateRoot cand bc = (r, bc') \<Longrightarrow> rederived bc bc'"
proof -
  assume run: "NextStateRoot cand bc = (r, bc')"
  obtain x s cache where ap: "applyTxsAndCoinbase (bc_cfg bc) (bc_state bc) (bc_blocks bc) cand (bc_sig_cache bc) = (x, s, cache)"
    by (metis prod_cases3)
  show ?thesis
  proof (cases x)
    case (Inl err)
    thus ?thesis using run ap by (intro rederivedI [where c = cache and n = "bc_nodes bc"]) (auto simp: NextStateRoot_def)
  next
    case (Inr undo)
    obtain root cc where "commitStateRoot (bc_cfg bc) s undo (Some (commitCtxAt (length (bc_blocks bc) - 1) bc)) = (root, cc)"
      by (metis surj_pair)
    thus ?thesis using run ap Inr by (intro rederivedI [where c = cache and n = "cc_nodes (the cc)"]) (simp add: NextStateRoot_def)
  qed
qed

lemma ledger_derived [simp]: "ledger_ok (bc\<lparr>bc_sig_cache := c, bc_nodes := n\<rparr>) m p = ledger_ok bc m p"
  by (simp add: ledger_ok_def chain_ok_def fits_memory_def)

lemma ledger_remove: "ledger_ok bc m p \<Longrightarrow> ledger_ok bc (mp_Remove (bc_cfg bc) txs m) p"
  by (simp add: ledger_ok_def pool.remove)

lemma build_step:
  assumes "build_attempts k now signals miner bc m = (r, bc', m')"
  shows "rederived bc bc' \<and> m' = m \<or>
    (\<exists>k' bc1 tx. k = Suc k' \<and> rederived bc bc1 \<and> build_attempts k' now signals miner bc1 (mp_Remove (bc_cfg bc) [tx] m) = (r, bc', m'))"
proof -
  obtain cand txs where c: "assembleBlock bc m now signals miner = (cand, txs)" by (cases "assembleBlock bc m now signals miner")
  note step = build_attempts.simps [of k now signals miner bc m]
  show ?thesis
  proof (cases "NextCommitments cand bc")
    case None
    thus ?thesis using assms rederived_refl by (simp add: step c del: build_attempts.simps)
  next
    case (Some fh)
    let ?cand = "cand\<lparr>blk_filter_root := fst fh, blk_history_root := snd fh\<rparr>"
    obtain x bc1 where s: "NextStateRoot ?cand bc = (x, bc1)" by (metis surj_pair)
    have d: "rederived bc bc1" by (rule NextStateRoot_chain [OF s])
    have "bc' = bc1 \<and> m' = m \<or> (\<exists>k' tx. k = Suc k' \<and> build_attempts k' now signals miner bc1 (mp_Remove (bc_cfg bc) [tx] m) = (r, bc', m'))"
      using assms s by (cases fh; cases x) (auto simp: step c Some Let_def simp del: build_attempts.simps
        split: apply_block_error.splits nat.splits if_splits)
    thus ?thesis using d by blast
  qed
qed

lemma build_ledger:
  "build_attempts k now signals miner bc m = (r, bc', m') \<Longrightarrow>
     bc_blocks bc' = bc_blocks bc \<and> (ledger_ok bc m p \<longrightarrow> ledger_ok bc' m' p)"
proof (induction k arbitrary: bc m)
  case 0
  from build_step [OF this] show ?case by (auto simp: rederived_def)
next
  case (Suc k)
  from build_step [OF Suc.prems] show ?case
  proof (elim disjE exE conjE)
    fix k' bc1 tx
    assume "Suc k = Suc k'" and d: "rederived bc bc1"
      and run: "build_attempts k' now signals miner bc1 (mp_Remove (bc_cfg bc) [tx] m) = (r, bc', m')"
    hence "bc_blocks bc' = bc_blocks bc1" "ledger_ok bc1 (mp_Remove (bc_cfg bc) [tx] m) p \<longrightarrow> ledger_ok bc' m' p" using Suc.IH by simp_all
    thus ?thesis using d ledger_remove [of bc m p "[tx]"] by (auto simp: rederived_def)
  qed (auto simp: rederived_def)
qed

lemma keeps_build: "nd_buildBlockFor e miner nd = (r, nd') \<Longrightarrow> keeps net nd nd'"
proof -
  assume "nd_buildBlockFor e miner nd = (r, nd')"
  then obtain bc m where "buildBlockFor (ne_now e div 10 ^ 9) (nc_signal_bits (nd_cfg nd)) miner (nd_chain nd) (nd_mempool nd) = (r, bc, m)"
    and "nd' = nd\<lparr>nd_chain := bc, nd_mempool := m\<rparr>" by (auto simp: nd_buildBlockFor_def split: prod.splits)
  thus ?thesis using build_ledger [of "maxBuildAttempts - 1"] by (auto simp: keeps_def leads_def running_ok_def buildBlockFor_def)
qed

lemma keeps_share: "submitShareChecked e b bits key nd = Some (r, nd') \<Longrightarrow> keeps net nd nd'"
proof -
  assume run: "submitShareChecked e b bits key nd = Some (r, nd')"
  have q: "keeps net nd (nd\<lparr>nd_shares := l\<rparr>)" for nd l by (rule keeps_quiet) simp_all
  let ?nd = "nd\<lparr>nd_shares := (nd_shares nd)\<lparr>sl_submitted := sl_submitted (nd_shares nd) + 1\<rparr>\<rparr>"
  show ?thesis
  proof (cases "\<exists>l. nd' = nd\<lparr>nd_shares := l\<rparr>")
    case True
    thus ?thesis using q by blast
  next
    case False
    then obtain x nd1 l where s: "SubmitMinedBlock e b ?nd = Some (x, nd1)" and nd': "nd' = nd1\<lparr>nd_shares := l\<rparr>"
      using run by (auto simp: submitShareChecked_def Let_def split: if_splits list.splits bind_splits prod.splits)
    show ?thesis unfolding nd' by (rule keeps_trans [OF keeps_trans [OF q keeps_mined [OF s]] q])
  qed
qed


section \<open>Every call\<close>

lemma leads_message:
  assumes "proper net e" "handleMessage e p m nd = Some nd'"
  shows "leads net nd nd'"
proof -
  note silent = keeps_leads [OF keeps_send] keeps_leads [OF keeps_refl]
  note simple = keeps_leads [OF keeps_hello [OF assms(1)]] keeps_leads [OF keeps_peers [OF assms(1)]]
    keeps_leads [OF keeps_txinv(1)] keeps_leads [OF keeps_txinv(2)] keeps_leads [OF keeps_serving(1)]
    keeps_leads [OF keeps_serving(2)] keeps_leads [OF keeps_serving(3)] keeps_leads [OF keeps_serving(4)]
    keeps_leads [OF keeps_headers] keeps_leads [OF keeps_getblocktxn] keeps_leads [OF keeps_filters(1)]
    keeps_leads [OF keeps_filters(2)] keeps_leads [OF keeps_filters(3)] keeps_leads [OF keeps_filters(4)]
  note blocks = keeps_leads [OF keeps_onTx] keeps_leads [OF keeps_mempool_batch] keeps_leads [OF keeps_block]
    keeps_leads [OF keeps_compact [OF assms(1)]] keeps_leads [OF keeps_blocktxn] leads_onBlocks leads_onChain
  show ?thesis
  proof (cases "msg_kind m")
    case MsgMempool
    thus ?thesis using assms(2) blocks(2) by (simp add: handleMessage_def)
  next
    case MsgTxs
    thus ?thesis using assms(2) blocks(2) by (simp add: handleMessage_def)
  next
    case MsgTx
    thus ?thesis using assms(2) blocks(1) by (simp add: handleMessage_def)
  next
    case MsgBlock
    thus ?thesis using assms(2) blocks(3) silent(2) by (auto simp: handleMessage_def split: option.splits)
  next
    case MsgCmpctBlock
    thus ?thesis using assms(2) blocks(4) by (simp add: handleMessage_def)
  next
    case MsgBlockTxn
    thus ?thesis using assms(2) blocks(5) by (simp add: handleMessage_def)
  next
    case MsgBlocks
    thus ?thesis using assms(2) blocks(6) by (simp add: handleMessage_def)
  next
    case MsgChain
    thus ?thesis using assms(2) blocks(7) by (simp add: handleMessage_def)
  next
    case MsgGetMempool
    thus ?thesis using assms(2) silent by (auto simp: handleMessage_def Let_def split: if_splits)
  next
    case MsgGetData
    thus ?thesis using assms(2) silent by (auto simp: handleMessage_def split: option.splits)
  qed (use assms(2) simple silent in \<open>auto simp: handleMessage_def\<close>)
qed

lemma keeps_open:
  assumes "proper net e"
  shows "keeps net nd (snd (openConn e verify sign i ip inbound dialed channel idmo vmo nd))"
proof -
  have good: "keeps net n (if dialed = [] then n else n\<lparr>nd_addrs := am_Good (ne_net e) (ne_now e) dialed (nd_addrs n)\<rparr>)" for n
    using assms tables_addr [of net _ _ _ _ _ _ "CGood (ne_now e) dialed"] by (auto intro!: keeps_tables simp: proper_def)
  have self: "keeps net n (n\<lparr>nd_book := noteSelf dialed (nd_book n)\<rparr>)" for n
    using tables_book(3) by (auto intro!: keeps_tables)
  have k1: "keeps net nd (nd_send i x nd)" for x by (rule keeps_send)
  have k2: "keeps net nd (nd_send i y (nd_send i x nd))" for x y by (rule keeps_trans [OF k1 keeps_send])
  have added: "keeps net n (nd_send i x3 (nd_send i x2 (nd_send i x1
      (if dialed = [] then addPeer i pr n else (addPeer i pr n)\<lparr>nd_addrs := am_Good (ne_net e) (ne_now e) dialed (nd_addrs (addPeer i pr n))\<rparr>))))" for n pr x1 x2 x3
    using keeps_trans [OF keeps_trans [OF keeps_requests(3) good] keeps_trans [OF keeps_send keeps_trans [OF keeps_send keeps_send]]] .
  show ?thesis
    using k1 k2 keeps_trans [OF k1 keeps_ban(2)] keeps_trans [OF k1 self] keeps_ban(2) keeps_trans [OF k2 added]
    by (auto simp: openConn_def Let_def split: option.splits)
qed

text \<open>
  What happens to a node: a connection is opened or closed, a message of one is handled, a transaction or
  a block is submitted, a candidate built and committed, a share submitted, a timer fires, the address
  manager is told about a dial.
\<close>

datatype node_call =
    NMessage node_env nat message
  | NConnect node_env "string \<Rightarrow> string \<Rightarrow> bytes \<Rightarrow> bool" "bytes \<Rightarrow> string" nat string bool string "bytes option" "message option" "message option"
  | NClose nat
  | NSubmitTx node_env transaction
  | NSubmitBlock node_env block
  | NCommit node_env block "transaction list"
  | NBuild node_env string
  | NShare node_env block u32 string
  | NSync node_env
  | NEmbargo node_env string
  | NFill node_env "string list \<Rightarrow> string list"
  | NDial node_env addr_call

fun node_do :: "node_call \<Rightarrow> node \<Rightarrow> node option" where
  "node_do (NMessage e p m) nd = handleMessage e p m nd"
| "node_do (NConnect e verify sign i ip inbound dialed channel idmo vmo) nd =
     Some (snd (openConn e verify sign i ip inbound dialed channel idmo vmo nd))"
| "node_do (NClose i) nd = Some (removePeer i nd)"
| "node_do (NSubmitTx e tx) nd = map_option snd (SubmitTx e tx nd)"
| "node_do (NSubmitBlock e b) nd = map_option snd (SubmitMinedBlock e b nd)"
| "node_do (NCommit e b txs) nd = map_option snd (commitMined e b txs nd)"
| "node_do (NBuild e miner) nd = Some (snd (nd_buildBlockFor e miner nd))"
| "node_do (NShare e b bits key) nd = map_option snd (submitShareChecked e b bits key nd)"
| "node_do (NSync e) nd = Some (syncTick e nd)"
| "node_do (NEmbargo e h) nd = Some (embargo_fires e h nd)"
| "node_do (NFill e shuffle) nd = Some (fillOutbound e shuffle nd)"
| "node_do (NDial e c) nd = Some (nd\<lparr>nd_addrs := addr_do (ne_net e) c (nd_addrs nd)\<rparr>)"

fun call_env :: "node_call \<Rightarrow> node_env option" where
  "call_env (NMessage e _ _) = Some e"
| "call_env (NConnect e _ _ _ _ _ _ _ _ _) = Some e"
| "call_env (NFill e _) = Some e"
| "call_env (NDial e _) = Some e"
| "call_env _ = None"

lemma leads_do:
  assumes "\<forall>e. call_env c = Some e \<longrightarrow> proper net e" "node_do c nd = Some nd'"
  shows "leads net nd nd'"
proof (cases c)
  case (NMessage e p m)
  thus ?thesis using assms leads_message by simp
next
  case (NConnect e v s i ip inb d ch im vm)
  thus ?thesis using assms keeps_open keeps_leads by fastforce
next
  case (NEmbargo e h)
  have "keeps net nd (fluff e tx None (nd\<lparr>nd_dand := d\<rparr>))" for tx d
    by (rule keeps_trans [OF keeps_dandelion keeps_announce(4)])
  thus ?thesis using NEmbargo assms(2) keeps_leads by (auto simp: embargo_fires_def split: option.splits)
next
  case (NFill e sh)
  thus ?thesis using assms keeps_fill keeps_leads by fastforce
next
  case (NDial e a)
  have "keeps net nd (nd\<lparr>nd_addrs := addr_do net a (nd_addrs nd)\<rparr>)" using tables_addr by (intro keeps_tables) simp_all
  thus ?thesis using NDial assms keeps_leads by (auto simp: proper_def)
next
  case (NBuild e miner)
  thus ?thesis using assms(2) keeps_build keeps_leads by (metis node_do.simps(7) option.inject surj_pair snd_conv)
qed (use assms(2) keeps_leads [OF keeps_requests(4)] keeps_leads [OF keeps_submit] keeps_leads [OF keeps_mined] keeps_leads [OF keeps_committed]
    keeps_leads [OF keeps_share] keeps_leads [OF keeps_sync] in auto)


inductive node_run :: "net_lib \<Rightarrow> node \<Rightarrow> node \<Rightarrow> bool" for net nd where
  start: "node_run net nd nd"
| step: "node_run net nd nd1 \<Longrightarrow> \<forall>e. call_env c = Some e \<longrightarrow> proper net e \<Longrightarrow> node_do c nd1 = Some nd2 \<Longrightarrow> fits_memory (nd_chain nd2)
    \<Longrightarrow> node_run net nd nd2"

lemma newNode_ok:
  assumes "chain_ok bc" "fits_memory bc" "pool_ok (bc_cfg bc) m"
  shows "running_ok net (newNode nc mine order bc m)"
proof -
  have "pool_fits (sane (bc_cfg bc)) (bc_cfg bc) m" using assms(3) by (auto simp: pool_fits_def all_txs_def relayable_def sane_def)
  moreover have "orphans_ok cfg (newOrphanPool orphanPoolCapacity orphanPoolBytes)" for cfg
    by (auto simp: orphans_ok_def newOrphanPool_def orphanPoolCapacity_def orphanPoolBytes_def pool_holds_def counts_def waiting_def weight_def
        intro!: exI [of _ "[]"])
  moreover have "live_ok net (newAddrman order)"
    by (auto simp: live_ok_def newAddrman_def counts_groups_def live_groups_def routable_in_def maxOutboundPerGroup_def fcard.rep_eq)
  moreover have "in_table False (newAddrman order) = {}" by (simp add: in_table_def newAddrman_def)
  ultimately show ?thesis using assms(1,2) seen_ok_new requests_ok_new
    by (simp add: running_ok_def ledger_ok_def tables_ok_def newNode_def newPeerbook_def fcard.rep_eq)
qed


section \<open>Rebuilding a block from its short ids\<close>

lemma fill_missing_spec:
  assumes "\<forall>p \<in> set ps. unat p < length xs" "length L = length xs"
  shows "fill_missing (zip ps (map (\<lambda>p. L ! unat p) ps)) xs = Some (map (\<lambda>i. if i \<in> unat ` set ps then L ! i else xs ! i) [0..<length xs])"
  using assms
proof (induction ps arbitrary: xs)
  case Nil
  thus ?case by (simp add: map_nth)
next
  case (Cons p ps)
  have "fill_missing (zip ps (map (\<lambda>p. L ! unat p) ps)) (xs[unat p := L ! unat p])
      = Some (map (\<lambda>i. if i \<in> unat ` set ps then L ! i else xs[unat p := L ! unat p] ! i) [0..<length xs])"
    using Cons.IH [of "xs[unat p := L ! unat p]"] Cons.prems by simp
  moreover have "map (\<lambda>i. if i \<in> unat ` set ps then L ! i else xs[unat p := L ! unat p] ! i) [0..<length xs]
      = map (\<lambda>i. if i \<in> unat ` set (p # ps) then L ! i else xs ! i) [0..<length xs]"
    by (rule map_cong) (auto simp: nth_list_update)
  ultimately show ?case using Cons.prems by simp
qed

lemma by_short_id_lookup:
  assumes "fmlookup (by_short_id cfg h txs) k = Some tx"
  shows "tx \<in> set txs \<and> k = shortID cfg h (tx_hash cfg tx)"
proof -
  have "fmlookup (fold (\<lambda>tx. fmupd (shortID cfg h (tx_hash cfg tx)) tx) txs m) k = Some tx \<Longrightarrow>
      fmlookup m k = Some tx \<or> tx \<in> set txs \<and> k = shortID cfg h (tx_hash cfg tx)" for m
    by (induction txs arbitrary: m) (fastforce split: if_splits)+
  thus ?thesis using assms unfolding by_short_id_def by fastforce
qed

text \<open>No transaction of the block shares its short id with a different transaction of the pool.\<close>

definition no_short_collision :: "config \<Rightarrow> block \<Rightarrow> mempool \<Rightarrow> bool" where
  "no_short_collision cfg b m \<longleftrightarrow> (\<forall>tx \<in> set (drop 1 (blk_transactions b)). \<forall>tx' \<in> set (mp_All m).
     shortID cfg (blk_hash b) (tx_hash cfg tx) = shortID cfg (blk_hash b) (tx_hash cfg tx') \<longrightarrow> tx = tx')"

lemma asked_positions:
  assumes "length ids \<le> MaxBlockTxs"
  shows "unat ` set (missing_ids byID ids) = Suc ` {i. i < length ids \<and> fmlookup byID (ids ! i) = None}"
    and "length (missing_ids byID ids) \<le> MaxBlockTxs" "p \<in> set (missing_ids byID ids) \<Longrightarrow> unat p < Suc (length ids)"
proof -
  have small: "i < length ids \<Longrightarrow> unat (of_nat (Suc i) :: u32) = Suc i" for i
    using assms by (simp only: unat_of_nat) (simp add: MaxBlockTxs_def)
  show pos: "unat ` set (missing_ids byID ids) = Suc ` {i. i < length ids \<and> fmlookup byID (ids ! i) = None}"
    using small by (force simp: missing_ids_def image_iff simp del: of_nat_Suc)
  show "length (missing_ids byID ids) \<le> MaxBlockTxs"
    using assms length_filter_le [of "\<lambda>i. fmlookup byID (ids ! i) = None" "[0..<length ids]"] by (simp add: missing_ids_def)
  assume "p \<in> set (missing_ids byID ids)"
  hence "unat p \<in> Suc ` {i. i < length ids \<and> fmlookup byID (ids ! i) = None}" unfolding pos [symmetric] by (rule imageI)
  thus "unat p < Suc (length ids)" by auto
qed

lemma restored:
  assumes "blk_transactions b = coinbase # txs" "no_short_collision cfg b m" "length txs \<le> MaxBlockTxs"
  defines "ids \<equiv> map (\<lambda>tx. shortID cfg (blk_hash b) (tx_hash cfg tx)) txs" and "byID \<equiv> by_short_id cfg (blk_hash b) (mp_All m)"
  shows "fill_missing (zip (missing_ids byID ids) (map (\<lambda>p. blk_transactions b ! unat p) (missing_ids byID ids))) (coinbase # resolve_ids byID ids)
    = Some (blk_transactions b)"
proof -
  have len: "length ids = length txs" "length (resolve_ids byID ids) = length txs" by (simp_all add: ids_def resolve_ids_def)
  have ids: "length ids \<le> MaxBlockTxs" using assms(3) len by simp
  have pos: "unat ` set (missing_ids byID ids) = Suc ` {i. i < length txs \<and> fmlookup byID (ids ! i) = None}"
    using asked_positions(1) [OF ids] len by simp
  have known: "resolve_ids byID ids ! i = txs ! i" if i: "i < length txs" "fmlookup byID (ids ! i) \<noteq> None" for i
  proof -
    obtain tx where tx: "fmlookup byID (ids ! i) = Some tx" using i(2) by blast
    have "tx \<in> set (mp_All m)" "ids ! i = shortID cfg (blk_hash b) (tx_hash cfg tx)"
      using by_short_id_lookup [OF tx [unfolded byID_def]] by simp_all
    hence "txs ! i = tx" using assms(2) i(1) unfolding no_short_collision_def assms(1) by (simp add: ids_def)
    thus ?thesis using i(1) tx by (simp add: resolve_ids_def len fmget_def)
  qed
  let ?xs = "coinbase # resolve_ids byID ids" and ?L = "blk_transactions b"
  have "\<forall>p \<in> set (missing_ids byID ids). unat p < length ?xs" using asked_positions(3) [OF ids] len by simp
  moreover have "length ?L = length ?xs" by (simp add: assms(1) len)
  moreover have "map (\<lambda>i. if i \<in> unat ` set (missing_ids byID ids) then ?L ! i else ?xs ! i) [0..<length ?xs] = ?L"
  proof (rule nth_equalityI)
    fix i assume "i < length (map (\<lambda>i. if i \<in> unat ` set (missing_ids byID ids) then ?L ! i else ?xs ! i) [0..<length ?xs])"
    hence i: "i < length ?xs" by simp
    have "(if i \<in> unat ` set (missing_ids byID ids) then ?L ! i else ?xs ! i) = ?L ! i"
    proof (cases i)
      case 0
      have "0 \<notin> unat ` set (missing_ids byID ids)" unfolding pos by simp
      thus ?thesis using 0 assms(1) by simp
    next
      case (Suc j)
      have j: "j < length txs" using i len Suc by simp
      have "Suc j \<in> unat ` set (missing_ids byID ids) \<longleftrightarrow> fmlookup byID (ids ! j) = None" unfolding pos using j by auto
      thus ?thesis using known [OF j] Suc assms(1) by simp
    qed
    moreover have "map (\<lambda>i. if i \<in> unat ` set (missing_ids byID ids) then ?L ! i else ?xs ! i) [0..<length ?xs] ! i
        = (if i \<in> unat ` set (missing_ids byID ids) then ?L ! i else ?xs ! i)"
      using i by (subst nth_map) (simp_all del: upt_Suc)
    ultimately show "map (\<lambda>i. if i \<in> unat ` set (missing_ids byID ids) then ?L ! i else ?xs ! i) [0..<length ?xs] ! i = ?L ! i"
      by (rule trans [rotated])
  qed (simp add: assms(1) len)
  ultimately show ?thesis using fill_missing_spec [of "missing_ids byID ids" ?xs ?L] by simp
qed


lemma fetched: "BlockFromHeader (block_Header b)\<lparr>blk_transactions := blk_transactions b\<rparr> = b"
  by (simp add: BlockFromHeader_def block_Header_def)

lemma completed:
  assumes "MerkleRoot (nd_config nd) (blk_transactions b) = blk_merkle_root b"
  shows "completeBlock e p (block_Header b) (blk_transactions b) nd = onBlockReceived e p b (nd\<lparr>nd_compact_hit := nd_compact_hit nd + 1\<rparr>)"
  using assms by (simp add: completeBlock_def Let_def fetched) (simp add: block_Header_def)

lemma served:
  assumes "BlockAt (blk_index b) (nd_chain a) = Some b" "blk_transactions b \<noteq> []" "length ps \<le> MaxBlockTxs"
    and "\<forall>i \<in> set ps. unat i < length (blk_transactions b)"
  shows "onGetBlockTxn q (blk_index b) (blk_hash b) ps a
    = nd_send q ((Message MsgBlockTxn)\<lparr>msg_hash := blk_hash b, msg_txs := map (\<lambda>p. blk_transactions b ! unat p) ps\<rparr>) a"
proof -
  have "filter (\<lambda>i. unat i < length (blk_transactions b)) (take MaxBlockTxs ps) = ps" using assms(3,4) by simp
  thus ?thesis using assms(1,2) by (simp add: onGetBlockTxn_def Let_def IsPlaceholder_def)
qed

text \<open>
  C19. Compact relay delivers the miner's block. A node that holds no different transaction with the same
  short id handles the compact form of a well-formed block in one of two ways: it finds every transaction
  in its pool and goes on exactly as if it had received the block itself, or it asks for the transactions
  it lacks, and once a peer that has the block answers within the minute, the node goes on as if it had
  received the block. In neither case does it reconstruct anything else.
\<close>

theorem compact_relay:
  assumes "NewCompactBlock (nd_config nd) b = Some cb" "length (blk_transactions b) \<le> MaxBlockTxs + 1"
    and "MerkleRoot (nd_config nd) (blk_transactions b) = blk_merkle_root b" "blk_HasValidPoW (nd_config nd) b"
    and "blk_hash b \<noteq> []" "\<not> sn_has (blk_hash b) (nd_seen_blk nd)" "no_short_collision (nd_config nd) b (nd_mempool nd)"
    and "BlockAt (blk_index b) (nd_chain a) = Some b" "ne_now e2 \<le> ne_now e + pendingBlockTTL"
  shows "onCompactBlock e p (Some cb) nd = onBlockReceived e p b (nd\<lparr>nd_compact_hit := nd_compact_hit nd + 1\<rparr>) \<or>
    (\<exists>nd1 ask txs. onCompactBlock e p (Some cb) nd = Some nd1 \<and>
       nd_out nd1 = nd_out nd @ [(p, (Message MsgGetBlockTxn)\<lparr>msg_indexes := ask, msg_index := blk_index b, msg_hash := blk_hash b\<rparr>)] \<and>
       onGetBlockTxn q (blk_index b) (blk_hash b) ask a = nd_send q ((Message MsgBlockTxn)\<lparr>msg_hash := blk_hash b, msg_txs := txs\<rparr>) a \<and>
       onBlockTxn e2 p (blk_hash b) txs nd1
         = onBlockReceived e2 p b (nd1\<lparr>nd_assembly := fmdrop (blk_hash b) (nd_assembly nd1), nd_compact_hit := nd_compact_hit nd1 + 1\<rparr>))"
proof -
  let ?cfg = "nd_config nd"
  obtain coinbase txs where txs: "blk_transactions b = coinbase # txs" using assms(1) by (auto simp: NewCompactBlock_def split: list.splits)
  define ids where "ids = map (\<lambda>tx. shortID ?cfg (blk_hash b) (tx_hash ?cfg tx)) txs"
  define byID where "byID = by_short_id ?cfg (blk_hash b) (mp_All (nd_mempool nd))"
  let ?ask = "missing_ids byID ids" and ?body = "coinbase # resolve_ids byID ids"
  let ?sent = "map (\<lambda>p. blk_transactions b ! unat p) ?ask"
  have cb: "cb = \<lparr>cb_header = block_Header b, cb_coinbase = coinbase, cb_short_ids = ids\<rparr>" using assms(1) txs by (simp add: NewCompactBlock_def ids_def)
  have n: "length txs \<le> MaxBlockTxs" "length ids \<le> MaxBlockTxs" "length txs = length ids" using assms(2) txs by (simp_all add: ids_def)
  have h: "hdr_hash (block_Header b) = blk_hash b" "hdr_index (block_Header b) = blk_index b" by (simp_all add: block_Header_def)
  have guards: "\<not> (blk_hash b = [] \<or> MaxBlockTxs < length ids)" "hdr_HasValidPoW ?cfg (block_Header b)"
    using assms(4,5) n by (auto simp: blk_HasValidPoW_def)
  have fill: "fill_missing (zip ?ask ?sent) ?body = Some (blk_transactions b)"
    unfolding ids_def byID_def by (rule restored [OF txs assms(7) n(1)])
  have run: "onCompactBlock e p (Some cb) nd = (if ?ask = [] then completeBlock e p (block_Header b) ?body nd
      else Some (nd_send p ((Message MsgGetBlockTxn)\<lparr>msg_indexes := ?ask, msg_index := blk_index b, msg_hash := blk_hash b\<rparr>)
        (nd\<lparr>nd_assembly := assembly_put e (blk_hash b) \<lparr>pd_header = block_Header b, pd_txs = ?body, pd_missing = ?ask, pd_from = p,
            pd_deadline = ne_now e + pendingBlockTTL\<rparr> (nd_assembly nd)\<rparr>)))"
    using guards assms(6) by (simp add: onCompactBlock_def cb h Let_def byID_def)
  show ?thesis
  proof (cases "?ask = []")
    case True
    hence "?body = blk_transactions b" using fill by simp
    thus ?thesis using run True completed [OF assms(3)] by simp
  next
    case False
    define nd1 where "nd1 = nd_send p ((Message MsgGetBlockTxn)\<lparr>msg_indexes := ?ask, msg_index := blk_index b, msg_hash := blk_hash b\<rparr>)
        (nd\<lparr>nd_assembly := assembly_put e (blk_hash b) \<lparr>pd_header = block_Header b, pd_txs = ?body, pd_missing = ?ask, pd_from = p,
            pd_deadline = ne_now e + pendingBlockTTL\<rparr> (nd_assembly nd)\<rparr>)"
    have waiting: "fmlookup (nd_assembly nd1) (blk_hash b) = Some \<lparr>pd_header = block_Header b, pd_txs = ?body, pd_missing = ?ask, pd_from = p,
            pd_deadline = ne_now e + pendingBlockTTL\<rparr>" by (simp add: nd1_def nd_send_def assembly_put_def Let_def)
    have root: "MerkleRoot (nd_config (nd1\<lparr>nd_assembly := fmdrop (blk_hash b) (nd_assembly nd1)\<rparr>)) (blk_transactions b) = blk_merkle_root b"
      using assms(3) by (simp add: nd1_def nd_send_def)
    have "onBlockTxn e2 p (blk_hash b) ?sent nd1 = completeBlock e2 p (block_Header b) (blk_transactions b)
        (nd1\<lparr>nd_assembly := fmdrop (blk_hash b) (nd_assembly nd1)\<rparr>)"
      using waiting fill assms(9) by (simp add: onBlockTxn_def assembly_take_def Let_def)
    hence got: "onBlockTxn e2 p (blk_hash b) ?sent nd1
        = onBlockReceived e2 p b (nd1\<lparr>nd_assembly := fmdrop (blk_hash b) (nd_assembly nd1), nd_compact_hit := nd_compact_hit nd1 + 1\<rparr>)"
      using completed [OF root] by simp
    have "onGetBlockTxn q (blk_index b) (blk_hash b) ?ask a = nd_send q ((Message MsgBlockTxn)\<lparr>msg_hash := blk_hash b, msg_txs := ?sent\<rparr>) a"
      by (rule served [OF assms(8)]) (use txs n(3) asked_positions(2,3) [OF n(2), where byID = byID] in simp_all)
    thus ?thesis using run False got unfolding nd1_def [symmetric] by (intro disjI2 exI [of _ nd1] exI [of _ ?ask] exI [of _ ?sent]) (simp add: nd1_def nd_send_def)
  qed
qed


section \<open>Instances\<close>

definition sample_net :: net_lib where
  "sample_net = \<lparr>split_host_port = (\<lambda>_. None), parse_ip = (\<lambda>_. None), ip_string = (\<lambda>_. [])\<rparr>"

definition sample_env :: node_env where
  "sample_env = \<lparr>ne_now = 1, ne_stamp = [], ne_core = \<lparr>env_now = 0, env_cores = 1, env_order = id\<rparr>, ne_order = id, ne_keys = id,
     ne_net = sample_net, ne_fluff = False, ne_pick = (\<lambda>_. 0)\<rparr>"

definition sample_node :: node where
  "sample_node = newNode \<lparr>nc_advertise_addr = ''me'', nc_dandelion = False, nc_signal_bits = [], nc_share_factor = 0, nc_identity = ''id'',
     nc_network = ''mainnet'', nc_max_peers = 8\<rparr> False id (genesis_chain zero_cfg fmempty) (NewMempoolWithLimits id 10 1000 1)"

definition relayed_block :: block where
  "relayed_block = plain_block\<lparr>blk_transactions := [zero_tx, zero_tx\<lparr>tx_nonce := 1\<rparr>],
     blk_merkle_root := hex_encode (replicate 32 (CHR 0x00)), blk_hash := hex_encode (replicate 32 (CHR 0x00))\<rparr>"

lemma sample_proper: "proper sample_net sample_env"
  by (simp add: proper_def sample_env_def)

lemma sample_run: "node_run sample_net sample_node (nd_send 7 (Message MsgPong) sample_node)"
proof (rule node_run.step [OF node_run.start, where c = "NMessage sample_env 7 (Message MsgPing)"])
  show "node_do (NMessage sample_env 7 (Message MsgPing)) sample_node = Some (nd_send 7 (Message MsgPong) sample_node)"
    by (simp add: handleMessage_def Message_def)
  show "fits_memory (nd_chain (nd_send 7 (Message MsgPong) sample_node))"
    by (simp add: fits_memory_def nd_send_def sample_node_def newNode_def genesis_chain_def)
qed (simp add: sample_proper)


lemma zero_hash: "hashBytes zero_cfg x = hex_encode (replicate 32 (CHR 0x00))"
  by (simp add: hashBytes_def zero_cfg_def)

lemma relayed_valid: "blk_HasValidPoW zero_cfg relayed_block"
proof -
  have "meetsTarget (hex_encode (replicate 32 (CHR 0x00))) GenesisBits"
    using GenesisBits_range by (simp add: meetsTarget_def hashToBig_def hex_decode_encode be_val_replicate_0 Let_def)
  thus ?thesis
    by (simp add: blk_HasValidPoW_def hdr_HasValidPoW_def hdr_ComputeHash_def zero_hash block_Header_def relayed_block_def plain_block_def)
qed

lemma relayed_root: "MerkleRoot zero_cfg (blk_transactions relayed_block) = blk_merkle_root relayed_block"
  by (simp add: relayed_block_def MerkleRoot_def merkleRootOf_def txHashes_def zero_hash Let_def merkle_up.simps)

theorem compact_relay_witness:
  "let nd = sample_node; a = sample_node\<lparr>nd_chain := (nd_chain sample_node)\<lparr>bc_blocks := [GenesisBlock zero_cfg, relayed_block]\<rparr>\<rparr>;
       cb = the (NewCompactBlock zero_cfg relayed_block) in
   onCompactBlock sample_env 3 (Some cb) nd = onBlockReceived sample_env 3 relayed_block (nd\<lparr>nd_compact_hit := nd_compact_hit nd + 1\<rparr>) \<or>
   (\<exists>nd1 ask txs. onCompactBlock sample_env 3 (Some cb) nd = Some nd1 \<and>
      onGetBlockTxn 4 1 (blk_hash relayed_block) ask a
        = nd_send 4 ((Message MsgBlockTxn)\<lparr>msg_hash := blk_hash relayed_block, msg_txs := txs\<rparr>) a \<and>
      onBlockTxn sample_env 3 (blk_hash relayed_block) txs nd1 = onBlockReceived sample_env 3 relayed_block
        (nd1\<lparr>nd_assembly := fmdrop (blk_hash relayed_block) (nd_assembly nd1), nd_compact_hit := nd_compact_hit nd1 + 1\<rparr>))"
proof -
  let ?a = "sample_node\<lparr>nd_chain := (nd_chain sample_node)\<lparr>bc_blocks := [GenesisBlock zero_cfg, relayed_block]\<rparr>\<rparr>"
  have cfg: "nd_config sample_node = zero_cfg" by (simp add: sample_node_def newNode_def genesis_chain_def)
  have "NewCompactBlock (nd_config sample_node) relayed_block = Some (the (NewCompactBlock zero_cfg relayed_block))"
    by (simp add: cfg NewCompactBlock_def relayed_block_def)
  moreover have "length (blk_transactions relayed_block) \<le> MaxBlockTxs + 1" by (simp add: relayed_block_def MaxBlockTxs_def)
  moreover have "MerkleRoot (nd_config sample_node) (blk_transactions relayed_block) = blk_merkle_root relayed_block"
    "blk_HasValidPoW (nd_config sample_node) relayed_block" using relayed_root relayed_valid by (simp_all add: cfg)
  moreover have "hex_encode bs = [] \<longleftrightarrow> bs = []" for bs by (cases bs) simp_all
  hence "blk_hash relayed_block \<noteq> []" by (simp add: relayed_block_def)
  moreover have "\<not> sn_has (blk_hash relayed_block) (nd_seen_blk sample_node)" by (simp add: sample_node_def newNode_def sn_has_def newSeenSet_def)
  moreover have "no_short_collision (nd_config sample_node) relayed_block (nd_mempool sample_node)"
    by (simp add: no_short_collision_def sample_node_def newNode_def mp_All_def NewMempoolWithLimits_def fmkeys_def)
  moreover have index: "blk_index relayed_block = 1" by (simp add: relayed_block_def plain_block_def)
  moreover have "BlockAt (blk_index relayed_block) (nd_chain ?a) = Some relayed_block" by (simp add: index BlockAt_def word_le_nat_alt)
  moreover have "ne_now sample_env \<le> ne_now sample_env + pendingBlockTTL" by (simp add: pendingBlockTTL_def)
  ultimately show ?thesis
    using compact_relay [of sample_node relayed_block "the (NewCompactBlock zero_cfg relayed_block)" ?a sample_env sample_env 3 4]
    unfolding Let_def by fastforce
qed

end
