(* ===== verification/Wire.thy ===== *)
theory Wire
  imports Node Store_Codec "HOL-Library.State_Monad"
begin

text \<open>
  The bytes peers exchange (\<open>core/wirecodec.go\<close>, \<open>node/wirebuf.go\<close>, \<open>node/wire.go\<close>): records of
  blocks, headers and transactions, the tagged fields of a message, and frames with their bounds. The
  reader is a state monad over the unread bytes and the sticky error of the code; its loop over the
  fields is shown to end on every input.
\<close>

section \<open>Names of message types\<close>

text \<open>\<open>MsgType\<close> is a string in the code; the constants of \<open>protocol.go\<close> are the constructors of the model.\<close>

fun msg_type_name :: "msg_type \<Rightarrow> string" where
  "msg_type_name MsgIdentity = ''identity''"
| "msg_type_name MsgHello = ''hello''"
| "msg_type_name MsgGetPeers = ''getpeers''"
| "msg_type_name MsgPeers = ''peers''"
| "msg_type_name MsgTx = ''tx''"
| "msg_type_name MsgTxInv = ''txinv''"
| "msg_type_name MsgGetTx = ''gettx''"
| "msg_type_name MsgTxs = ''txs''"
| "msg_type_name MsgGetMempool = ''getmempool''"
| "msg_type_name MsgMempool = ''mempool''"
| "msg_type_name MsgInv = ''inv''"
| "msg_type_name MsgGetData = ''getdata''"
| "msg_type_name MsgBlock = ''block''"
| "msg_type_name MsgCmpctBlock = ''cmpctblock''"
| "msg_type_name MsgGetBlockTxn = ''getblocktxn''"
| "msg_type_name MsgBlockTxn = ''blocktxn''"
| "msg_type_name MsgGetHeaders = ''getheaders''"
| "msg_type_name MsgHeaders = ''headers''"
| "msg_type_name MsgGetBlocks = ''getblocks''"
| "msg_type_name MsgBlocks = ''blocks''"
| "msg_type_name MsgGetCFilters = ''getcfilters''"
| "msg_type_name MsgCFilters = ''cfilters''"
| "msg_type_name MsgGetCFHeaders = ''getcfheaders''"
| "msg_type_name MsgCFHeaders = ''cfheaders''"
| "msg_type_name MsgGetChain = ''getchain''"
| "msg_type_name MsgChain = ''chain''"
| "msg_type_name MsgPing = ''ping''"
| "msg_type_name MsgPong = ''pong''"
| "msg_type_name MsgVersion = ''version''"
| "msg_type_name (MsgUnknown s) = s"

definition known_types :: "msg_type list" where
  "known_types =
     [MsgIdentity, MsgHello, MsgGetPeers, MsgPeers, MsgTx, MsgTxInv, MsgGetTx, MsgTxs, MsgGetMempool, MsgMempool,
      MsgInv, MsgGetData, MsgBlock, MsgCmpctBlock, MsgGetBlockTxn, MsgBlockTxn, MsgGetHeaders, MsgHeaders,
      MsgGetBlocks, MsgBlocks, MsgGetCFilters, MsgCFilters, MsgGetCFHeaders, MsgCFHeaders, MsgGetChain, MsgChain,
      MsgPing, MsgPong, MsgVersion]"

definition msg_type_of :: "string \<Rightarrow> msg_type" where
  "msg_type_of s = (case find (\<lambda>t. msg_type_name t = s) known_types of None \<Rightarrow> MsgUnknown s | Some t \<Rightarrow> t)"

definition genuine_type :: "msg_type \<Rightarrow> bool" where
  "genuine_type t \<longleftrightarrow> (case t of MsgUnknown s \<Rightarrow> s \<notin> set (map msg_type_name known_types) | _ \<Rightarrow> True)"

section \<open>Records\<close>

datatype wire_error =
    WireTruncated nat nat | TooManyItems u64 | ItemsOverRest u64 nat | BlobOverRest u64 nat
  | UnknownField char | EmptyTxRecord | TxRecordVersion char | BadRecord store_error

definition EncodeBlock :: "block \<Rightarrow> bytes" where
  "EncodeBlock b = encodeBlockV5 b"

definition wire_result :: "store_error + 'a \<Rightarrow> wire_error + 'a" where
  "wire_result r = map_sum BadRecord id r"

definition DecodeBlock :: "(bytes \<Rightarrow> block option) \<Rightarrow> bytes \<Rightarrow> wire_error + block" where
  "DecodeBlock json data = wire_result (decodeStoredBlock json data)"

definition header_block :: "header \<Rightarrow> block" where
  "header_block h =
     \<lparr>blk_version = hdr_version h, blk_index = hdr_index h, blk_timestamp = hdr_timestamp h, blk_transactions = [],
      blk_prev_hash = hdr_prev_hash h, blk_merkle_root = hdr_merkle_root h, blk_state_root = hdr_state_root h,
      blk_base_fee = hdr_base_fee h, blk_bits = hdr_bits h, blk_nonce = hdr_nonce h, blk_hash = hdr_hash h,
      blk_filter_root = hdr_filter_root h, blk_history_root = hdr_history_root h\<rparr>"

definition EncodeHeader :: "header \<Rightarrow> bytes" where
  "EncodeHeader h = encodeBlockV5 (header_block h)"

definition DecodeHeader :: "(bytes \<Rightarrow> block option) \<Rightarrow> bytes \<Rightarrow> wire_error + header" where
  "DecodeHeader json data = map_sum id block_Header (DecodeBlock json data)"

definition EncodeTransaction :: "transaction \<Rightarrow> bytes" where
  "EncodeTransaction t = char_of storeRecordV5 # encodeTxV2 storeRecordV5 t"

definition DecodeTransaction :: "bytes \<Rightarrow> wire_error + transaction" where
  "DecodeTransaction data =
     (if length data = 0 then Inl EmptyTxRecord
      else let version = of_char (hd data) in
        if version < storeRecordV2 \<or> storeRecordV5 < version then Inl (TxRecordVersion (hd data))
        else case decodeTxV2 version \<lparr>rd_rest = tl data, rd_err = None\<rparr> of (tx, r) \<Rightarrow>
          (case rd_err r of Some e \<Rightarrow> Inl (BadRecord e) | None \<Rightarrow> Inr tx))"

section \<open>The write buffer\<close>

definition maxWireItems :: nat where "maxWireItems = 2 ^ 20"

definition wb_u64 :: "u64 \<Rightarrow> bytes" where "wb_u64 v = be64 v"

definition wb_blob :: "bytes \<Rightarrow> bytes" where
  "wb_blob data = wb_u64 (of_nat (length data)) @ data"

definition wb_str :: "string \<Rightarrow> bytes" where "wb_str s = wb_blob s"

definition wb_items :: "('a \<Rightarrow> bytes) \<Rightarrow> 'a list \<Rightarrow> bytes" where
  "wb_items f xs = wb_u64 (of_nat (length xs)) @ concat (map f xs)"

definition wb_strs :: "string list \<Rightarrow> bytes" where "wb_strs ss = wb_items wb_str ss"

definition wb_txs :: "transaction list \<Rightarrow> bytes" where
  "wb_txs txs = wb_items (\<lambda>tx. wb_blob (EncodeTransaction tx)) txs"

definition wb_blocks :: "block list \<Rightarrow> bytes" where
  "wb_blocks bs = wb_items (\<lambda>b. wb_blob (EncodeBlock b)) bs"

definition wb_filter :: "block_filter \<Rightarrow> bytes" where
  "wb_filter f = wb_u64 (bf_index f) @ wb_u64 (word_of_int (bf_n f)) @ wb_str (bf_block_hash f) @ wb_str (bf_data f)
     @ wb_str (bf_key f)"

definition wb_filters :: "block_filter list \<Rightarrow> bytes" where
  "wb_filters fs = wb_items wb_filter fs"

section \<open>The read buffer\<close>

record rbuf =
  rb_rest :: bytes
  rb_err :: "wire_error option"

type_synonym 'a rb = "(rbuf, 'a) state"

definition rb_get_err :: "wire_error option rb" where
  "rb_get_err = State (\<lambda>r. (rb_err r, r))"

definition rb_left :: "nat rb" where
  "rb_left = State (\<lambda>r. (length (rb_rest r), r))"

definition rb_fail :: "wire_error \<Rightarrow> unit rb" where
  "rb_fail e = State (\<lambda>r. ((), if rb_err r = None then r\<lparr>rb_err := Some e\<rparr> else r))"

definition rb_take :: "nat \<Rightarrow> bytes option rb" where
  "rb_take n = State (\<lambda>r.
     if rb_err r \<noteq> None then (None, r)
     else if length (rb_rest r) < n then (None, r\<lparr>rb_err := Some (WireTruncated n (length (rb_rest r)))\<rparr>)
     else (Some (take n (rb_rest r)), r\<lparr>rb_rest := drop n (rb_rest r)\<rparr>))"

definition rb_byte :: "char rb" where
  "rb_byte = do {b \<leftarrow> rb_take 1; State_Monad.return (case b of None \<Rightarrow> CHR 0x00 | Some bs \<Rightarrow> hd bs)}"

definition rb_u64 :: "u64 rb" where
  "rb_u64 = do {b \<leftarrow> rb_take 8; State_Monad.return (case b of None \<Rightarrow> 0 | Some bs \<Rightarrow> of_nat (be_val bs))}"

definition rb_count :: "nat rb" where
  "rb_count = do {
     n \<leftarrow> rb_u64; e \<leftarrow> rb_get_err;
     if e \<noteq> None then State_Monad.return 0
     else if maxWireItems < unat n then do {rb_fail (TooManyItems n); State_Monad.return 0}
     else do {
       left \<leftarrow> rb_left;
       if left < unat n then do {rb_fail (ItemsOverRest n left); State_Monad.return 0}
       else State_Monad.return (unat n)}}"

text \<open>The empty list also stands for the \<open>nil\<close> of a failed read.\<close>

definition rb_blob :: "bytes rb" where
  "rb_blob = do {
     n \<leftarrow> rb_u64; e \<leftarrow> rb_get_err;
     if e \<noteq> None then State_Monad.return []
     else do {
       left \<leftarrow> rb_left;
       if left < unat n then do {rb_fail (BlobOverRest n left); State_Monad.return []}
       else do {b \<leftarrow> rb_take (unat n); State_Monad.return (case b of None \<Rightarrow> [] | Some bs \<Rightarrow> bs)}}}"

definition rb_str :: "string rb" where "rb_str = rb_blob"

text \<open>A loop that gives up with \<open>nil\<close> once the reader has failed.\<close>

fun rb_loop :: "'a rb \<Rightarrow> nat \<Rightarrow> 'a list \<Rightarrow> 'a list rb" where
  "rb_loop x 0 out = State_Monad.return (rev out)"
| "rb_loop x (Suc n) out = do {
     a \<leftarrow> x; e \<leftarrow> rb_get_err;
     if e \<noteq> None then State_Monad.return [] else rb_loop x n (a # out)}"

definition rb_counted :: "'a rb \<Rightarrow> 'a list rb" where
  "rb_counted x = do {
     n \<leftarrow> rb_count; e \<leftarrow> rb_get_err;
     if e \<noteq> None then State_Monad.return [] else rb_loop x n []}"

definition rb_strs :: "string list rb" where "rb_strs = rb_counted rb_str"

definition rb_filter :: "block_filter rb" where
  "rb_filter = do {
     i \<leftarrow> rb_u64; n \<leftarrow> rb_u64; h \<leftarrow> rb_str; d \<leftarrow> rb_str; k \<leftarrow> rb_str;
     State_Monad.return \<lparr>bf_index = i, bf_n = sint n, bf_block_hash = h, bf_data = d, bf_key = k\<rparr>}"

definition rb_filters :: "block_filter list rb" where "rb_filters = rb_counted rb_filter"

text \<open>
  Records in a loop: transactions and blocks look at the reader before they decode the blob
  (\<open>strict\<close>), headers decode whatever the reader gave.
\<close>

fun rb_records :: "bool \<Rightarrow> (bytes \<Rightarrow> wire_error + 'a) \<Rightarrow> nat \<Rightarrow> 'a list \<Rightarrow> (wire_error + 'a list) rb" where
  "rb_records strict dcd 0 out = State_Monad.return (Inr (rev out))"
| "rb_records strict dcd (Suc n) out = do {
     raw \<leftarrow> rb_blob; e \<leftarrow> rb_get_err;
     case (if strict then e else None) of Some err \<Rightarrow> State_Monad.return (Inl err)
     | None \<Rightarrow> (case dcd raw of Inl err \<Rightarrow> State_Monad.return (Inl err) | Inr a \<Rightarrow> rb_records strict dcd n (a # out))}"

definition rb_counted_records :: "bool \<Rightarrow> (bytes \<Rightarrow> wire_error + 'a) \<Rightarrow> (wire_error + 'a list) rb" where
  "rb_counted_records strict dcd = do {
     n \<leftarrow> rb_count; e \<leftarrow> rb_get_err;
     case e of Some err \<Rightarrow> State_Monad.return (Inl err) | None \<Rightarrow> rb_records strict dcd n []}"

definition rb_txs :: "(wire_error + transaction list) rb" where
  "rb_txs = rb_counted_records True DecodeTransaction"

definition rb_blocks :: "(bytes \<Rightarrow> block option) \<Rightarrow> (wire_error + block list) rb" where
  "rb_blocks json = rb_counted_records True (DecodeBlock json)"

definition rb_headers :: "(bytes \<Rightarrow> block option) \<Rightarrow> (wire_error + header list) rb" where
  "rb_headers json = rb_counted_records False (DecodeHeader json)"

fun rb_u32s :: "nat \<Rightarrow> u32 list \<Rightarrow> u32 list rb" where
  "rb_u32s 0 out = State_Monad.return (rev out)"
| "rb_u32s (Suc n) out = do {v \<leftarrow> rb_u64; rb_u32s n (ucast v # out)}"

definition rb_indexes :: "(wire_error + u32 list) rb" where
  "rb_indexes = do {
     n \<leftarrow> rb_count; e \<leftarrow> rb_get_err;
     case e of Some err \<Rightarrow> State_Monad.return (Inl err)
     | None \<Rightarrow> do {is \<leftarrow> rb_u32s n []; State_Monad.return (Inr is)}}"

definition rb_cmpct :: "(bytes \<Rightarrow> block option) \<Rightarrow> (wire_error + compact_block) rb" where
  "rb_cmpct json = do {
     hb \<leftarrow> rb_blob;
     case DecodeHeader json hb of Inl err \<Rightarrow> State_Monad.return (Inl err)
     | Inr h \<Rightarrow> do {
         tb \<leftarrow> rb_blob;
         case DecodeTransaction tb of Inl err \<Rightarrow> State_Monad.return (Inl err)
         | Inr cb \<Rightarrow> do {
             ids \<leftarrow> rb_strs;
             State_Monad.return (Inr \<lparr>cb_header = h, cb_coinbase = cb, cb_short_ids = ids\<rparr>)}}}"

section \<open>Messages\<close>

definition fEnd :: char where "fEnd = CHR 0x00"
definition fType :: char where "fType = CHR 0x01"
definition fPubKey :: char where "fPubKey = CHR 0x02"
definition fSig :: char where "fSig = CHR 0x03"
definition fAddr :: char where "fAddr = CHR 0x04"
definition fPeers :: char where "fPeers = CHR 0x05"
definition fVersion :: char where "fVersion = CHR 0x06"
definition fCaps :: char where "fCaps = CHR 0x07"
definition fNetwork :: char where "fNetwork = CHR 0x08"
definition fTime :: char where "fTime = CHR 0x09"
definition fTx :: char where "fTx = CHR 0x0A"
definition fStem :: char where "fStem = CHR 0x0B"
definition fBlock :: char where "fBlock = CHR 0x0C"
definition fTxs :: char where "fTxs = CHR 0x0D"
definition fBlocks :: char where "fBlocks = CHR 0x0E"
definition fChain :: char where "fChain = CHR 0x0F"
definition fHeaders :: char where "fHeaders = CHR 0x10"
definition fLocator :: char where "fLocator = CHR 0x11"
definition fHashes :: char where "fHashes = CHR 0x12"
definition fIndexes :: char where "fIndexes = CHR 0x13"
definition fCmpct :: char where "fCmpct = CHR 0x14"
definition fIndex :: char where "fIndex = CHR 0x15"
definition fHash :: char where "fHash = CHR 0x16"
definition fFrom :: char where "fFrom = CHR 0x17"
definition fTo :: char where "fTo = CHR 0x18"
definition fFilters :: char where "fFilters = CHR 0x19"
definition fCFHeaders :: char where "fCFHeaders = CHR 0x1A"
definition fBase :: char where "fBase = CHR 0x1B"

lemmas tag_defs = fEnd_def fType_def fPubKey_def fSig_def fAddr_def fPeers_def fVersion_def fCaps_def fNetwork_def
  fTime_def fTx_def fStem_def fBlock_def fTxs_def fBlocks_def fChain_def fHeaders_def fLocator_def fHashes_def
  fIndexes_def fCmpct_def fIndex_def fHash_def fFrom_def fTo_def fFilters_def fCFHeaders_def fBase_def

definition wb_field :: "bool \<Rightarrow> char \<Rightarrow> bytes \<Rightarrow> bytes" where
  "wb_field set_p tag bs = (if set_p then tag # bs else [])"

definition wb_option :: "char \<Rightarrow> ('a \<Rightarrow> bytes) \<Rightarrow> 'a option \<Rightarrow> bytes" where
  "wb_option tag f x = (case x of None \<Rightarrow> [] | Some a \<Rightarrow> tag # f a)"

definition wb_cmpct :: "compact_block \<Rightarrow> bytes" where
  "wb_cmpct c = wb_blob (EncodeHeader (cb_header c)) @ wb_blob (EncodeTransaction (cb_coinbase c)) @ wb_strs (cb_short_ids c)"

definition encodeMessageBinary :: "message \<Rightarrow> bytes" where
  "encodeMessageBinary m =
     fType # wb_str (msg_type_name (msg_kind m))
     @ wb_field (msg_pubkey m \<noteq> []) fPubKey (wb_str (msg_pubkey m))
     @ wb_field (msg_sig m \<noteq> []) fSig (wb_str (msg_sig m))
     @ wb_field (msg_addr m \<noteq> []) fAddr (wb_str (msg_addr m))
     @ wb_field (msg_peers m \<noteq> []) fPeers (wb_strs (msg_peers m))
     @ wb_field (msg_version m \<noteq> 0) fVersion (wb_u64 (word_of_int (msg_version m)))
     @ wb_field (msg_caps m \<noteq> []) fCaps (wb_strs (msg_caps m))
     @ wb_field (msg_network m \<noteq> []) fNetwork (wb_str (msg_network m))
     @ wb_field (msg_time m \<noteq> 0) fTime (wb_u64 (word_of_int (msg_time m)))
     @ wb_option fTx (\<lambda>tx. wb_blob (EncodeTransaction tx)) (msg_tx m)
     @ wb_field (msg_stem m) fStem (wb_u64 1)
     @ wb_option fBlock (\<lambda>b. wb_blob (EncodeBlock b)) (msg_block m)
     @ wb_field (msg_txs m \<noteq> []) fTxs (wb_txs (msg_txs m))
     @ wb_field (msg_blocks m \<noteq> []) fBlocks (wb_blocks (msg_blocks m))
     @ wb_field (msg_chain m \<noteq> []) fChain (wb_blocks (msg_chain m))
     @ wb_field (msg_headers m \<noteq> []) fHeaders (wb_items (\<lambda>h. wb_blob (EncodeHeader h)) (msg_headers m))
     @ wb_field (msg_locator m \<noteq> []) fLocator (wb_strs (msg_locator m))
     @ wb_field (msg_filters m \<noteq> []) fFilters (wb_filters (msg_filters m))
     @ wb_field (msg_cfheaders m \<noteq> []) fCFHeaders (wb_strs (msg_cfheaders m))
     @ wb_field (msg_base m \<noteq> 0) fBase (wb_u64 (msg_base m))
     @ wb_field (msg_hashes m \<noteq> []) fHashes (wb_strs (msg_hashes m))
     @ wb_field (msg_indexes m \<noteq> []) fIndexes (wb_items (\<lambda>i. wb_u64 (ucast i)) (msg_indexes m))
     @ wb_option fCmpct wb_cmpct (msg_cmpct m)
     @ wb_field (msg_index m \<noteq> 0) fIndex (wb_u64 (msg_index m))
     @ wb_field (msg_hash m \<noteq> []) fHash (wb_str (msg_hash m))
     @ wb_field (msg_from m \<noteq> 0) fFrom (wb_u64 (msg_from m))
     @ wb_field (msg_to m \<noteq> 0) fTo (wb_u64 (msg_to m))
     @ [fEnd]"

text \<open>One turn of the decoding loop: a field that is read whatever the reader says, or one that may fail.\<close>

definition rb_set :: "('a \<Rightarrow> message) \<Rightarrow> 'a rb \<Rightarrow> (wire_error + message) rb" where
  "rb_set f x = do {a \<leftarrow> x; State_Monad.return (Inr (f a))}"

definition rb_try :: "('a \<Rightarrow> message) \<Rightarrow> (wire_error + 'a) rb \<Rightarrow> (wire_error + message) rb" where
  "rb_try f x = do {a \<leftarrow> x; State_Monad.return (map_sum id f a)}"

definition rb_record :: "(bytes \<Rightarrow> wire_error + 'a) \<Rightarrow> (wire_error + 'a) rb" where
  "rb_record dcd = do {raw \<leftarrow> rb_blob; State_Monad.return (dcd raw)}"

definition decode_field :: "(bytes \<Rightarrow> block option) \<Rightarrow> char \<Rightarrow> message \<Rightarrow> (wire_error + message) rb" where
  "decode_field json tag m =
     (if tag = fType then rb_set (\<lambda>s. m\<lparr>msg_kind := msg_type_of s\<rparr>) rb_str
      else if tag = fPubKey then rb_set (\<lambda>s. m\<lparr>msg_pubkey := s\<rparr>) rb_str
      else if tag = fSig then rb_set (\<lambda>s. m\<lparr>msg_sig := s\<rparr>) rb_str
      else if tag = fAddr then rb_set (\<lambda>s. m\<lparr>msg_addr := s\<rparr>) rb_str
      else if tag = fPeers then rb_set (\<lambda>s. m\<lparr>msg_peers := s\<rparr>) rb_strs
      else if tag = fVersion then rb_set (\<lambda>v. m\<lparr>msg_version := sint v\<rparr>) rb_u64
      else if tag = fCaps then rb_set (\<lambda>s. m\<lparr>msg_caps := s\<rparr>) rb_strs
      else if tag = fNetwork then rb_set (\<lambda>s. m\<lparr>msg_network := s\<rparr>) rb_str
      else if tag = fTime then rb_set (\<lambda>v. m\<lparr>msg_time := sint v\<rparr>) rb_u64
      else if tag = fTx then rb_try (\<lambda>tx. m\<lparr>msg_tx := Some tx\<rparr>) (rb_record DecodeTransaction)
      else if tag = fStem then rb_set (\<lambda>v. m\<lparr>msg_stem := (v = 1)\<rparr>) rb_u64
      else if tag = fBlock then rb_try (\<lambda>b. m\<lparr>msg_block := Some b\<rparr>) (rb_record (DecodeBlock json))
      else if tag = fTxs then rb_try (\<lambda>txs. m\<lparr>msg_txs := txs\<rparr>) rb_txs
      else if tag = fBlocks then rb_try (\<lambda>bs. m\<lparr>msg_blocks := bs\<rparr>) (rb_blocks json)
      else if tag = fChain then rb_try (\<lambda>bs. m\<lparr>msg_chain := bs\<rparr>) (rb_blocks json)
      else if tag = fHeaders then rb_try (\<lambda>hs. m\<lparr>msg_headers := hs\<rparr>) (rb_headers json)
      else if tag = fLocator then rb_set (\<lambda>s. m\<lparr>msg_locator := s\<rparr>) rb_strs
      else if tag = fHashes then rb_set (\<lambda>s. m\<lparr>msg_hashes := s\<rparr>) rb_strs
      else if tag = fIndexes then rb_try (\<lambda>is. m\<lparr>msg_indexes := is\<rparr>) rb_indexes
      else if tag = fCmpct then rb_try (\<lambda>c. m\<lparr>msg_cmpct := Some c\<rparr>) (rb_cmpct json)
      else if tag = fIndex then rb_set (\<lambda>v. m\<lparr>msg_index := v\<rparr>) rb_u64
      else if tag = fHash then rb_set (\<lambda>s. m\<lparr>msg_hash := s\<rparr>) rb_str
      else if tag = fFrom then rb_set (\<lambda>v. m\<lparr>msg_from := v\<rparr>) rb_u64
      else if tag = fTo then rb_set (\<lambda>v. m\<lparr>msg_to := v\<rparr>) rb_u64
      else if tag = fFilters then rb_set (\<lambda>fs. m\<lparr>msg_filters := fs\<rparr>) rb_filters
      else if tag = fCFHeaders then rb_set (\<lambda>s. m\<lparr>msg_cfheaders := s\<rparr>) rb_strs
      else if tag = fBase then rb_set (\<lambda>v. m\<lparr>msg_base := v\<rparr>) rb_u64
      else State_Monad.return (Inl (UnknownField tag)))"

text \<open>The reader never moves backwards, and a tag takes a byte: the loop over the fields ends.\<close>

abbreviation shrinks :: "'a rb \<Rightarrow> bool" where
  "shrinks \<equiv> state_io_rel (\<lambda>r r'. length (rb_rest r') \<le> length (rb_rest r))"

named_theorems shrink_intros \<open>readers that never lengthen what is left to read\<close>

lemma shrinks_return [shrink_intros]: "shrinks (State_Monad.return a)"
  by (simp add: state_io_rel_def)

lemma shrinks_bind [shrink_intros]: "shrinks x \<Longrightarrow> (\<And>a. shrinks (f a)) \<Longrightarrow> shrinks (State_Monad.bind x f)"
  unfolding state_io_rel_def by (auto split: prod.split) (metis order_trans snd_conv)

lemma shrinks_get_err [shrink_intros]: "shrinks rb_get_err"
  by (simp add: state_io_rel_def rb_get_err_def)

lemma shrinks_left [shrink_intros]: "shrinks rb_left"
  by (simp add: state_io_rel_def rb_left_def)

lemma shrinks_fail [shrink_intros]: "shrinks (rb_fail e)"
  by (simp add: state_io_rel_def rb_fail_def)

lemma shrinks_take [shrink_intros]: "shrinks (rb_take n)"
  by (simp add: state_io_rel_def rb_take_def)

lemma shrinks_if [shrink_intros]: "shrinks x \<Longrightarrow> shrinks y \<Longrightarrow> shrinks (if c then x else y)"
  by simp

lemma shrinks_case_sum [shrink_intros]:
  "(\<And>a. shrinks (f a)) \<Longrightarrow> (\<And>b. shrinks (g b)) \<Longrightarrow> shrinks (case v of Inl a \<Rightarrow> f a | Inr b \<Rightarrow> g b)"
  by (simp split: sum.split)

lemma shrinks_case_option [shrink_intros]:
  "shrinks x \<Longrightarrow> (\<And>b. shrinks (g b)) \<Longrightarrow> shrinks (case v of None \<Rightarrow> x | Some b \<Rightarrow> g b)"
  by (simp split: option.split)

lemma shrinks_basic [shrink_intros]: "shrinks rb_byte" "shrinks rb_u64" "shrinks rb_count" "shrinks rb_blob"
  unfolding rb_byte_def rb_u64_def rb_count_def rb_blob_def by (rule shrink_intros)+

lemma shrinks_str [shrink_intros]: "shrinks rb_str"
  unfolding rb_str_def by (rule shrink_intros)

lemma shrinks_loop [shrink_intros]: "shrinks x \<Longrightarrow> shrinks (rb_loop x n out)"
  by (induction n arbitrary: out) (simp_all add: shrink_intros)

lemma shrinks_records [shrink_intros]: "shrinks (rb_records strict dcd n out)"
  by (induction n arbitrary: out) (simp_all add: shrink_intros)

lemma shrinks_u32s [shrink_intros]: "shrinks (rb_u32s n out)"
  by (induction n arbitrary: out) (simp_all add: shrink_intros)

lemma shrinks_counted [shrink_intros]: "shrinks x \<Longrightarrow> shrinks (rb_counted x)" "shrinks (rb_counted_records strict dcd)"
  unfolding rb_counted_def rb_counted_records_def by (rule shrink_intros | assumption)+

lemma shrinks_fields [shrink_intros]:
  "shrinks rb_strs" "shrinks rb_filters" "shrinks rb_txs" "shrinks (rb_blocks json)" "shrinks (rb_headers json)"
  "shrinks rb_indexes" "shrinks (rb_cmpct json)" "shrinks (rb_record dcd)"
  unfolding rb_strs_def rb_filters_def rb_filter_def rb_txs_def rb_blocks_def rb_headers_def rb_indexes_def rb_cmpct_def
    rb_record_def
  by (rule shrink_intros)+

lemma shrinks_set [shrink_intros]: "shrinks x \<Longrightarrow> shrinks (rb_set f x)"
  unfolding rb_set_def by (rule shrink_intros | assumption)+

lemma shrinks_try [shrink_intros]: "shrinks x \<Longrightarrow> shrinks (rb_try g x)"
  unfolding rb_try_def by (rule shrink_intros | assumption)+

lemma shrinks_decode_field: "shrinks (decode_field json tag m)"
  unfolding decode_field_def by (rule shrink_intros)+

lemma rb_byte_less:
  "run_state rb_byte r = (c, r') \<Longrightarrow> rb_err r' = None \<Longrightarrow> length (rb_rest r') < length (rb_rest r)"
  by (cases "rb_rest r") (auto simp: rb_byte_def rb_take_def split: if_splits)

lemma turn_less:
  assumes "run_state rb_byte r = (tag, r1)" "rb_err r1 = None" "run_state (decode_field json tag m) r1 = (res, r2)"
  shows "length (rb_rest r2) < length (rb_rest r)"
  using rb_byte_less [OF assms(1,2)] state_io_relD [OF shrinks_decode_field assms(3)] by simp

function decode_loop :: "(bytes \<Rightarrow> block option) \<Rightarrow> rbuf \<Rightarrow> message \<Rightarrow> wire_error + message" where
  "decode_loop json r m =
     (case run_state rb_byte r of (tag, r1) \<Rightarrow>
        (case rb_err r1 of Some e \<Rightarrow> Inl e
         | None \<Rightarrow>
             if tag = fEnd then Inr m
             else case run_state (decode_field json tag m) r1 of (res, r2) \<Rightarrow>
               (case res of Inl e \<Rightarrow> Inl e
                | Inr m' \<Rightarrow> (case rb_err r2 of Some e \<Rightarrow> Inl e | None \<Rightarrow> decode_loop json r2 m'))))"
  by pat_completeness auto
termination
  by (relation "measure (\<lambda>(_, r, _). length (rb_rest r))", simp, simp, metis turn_less)

declare decode_loop.simps [simp del]

definition decodeMessageBinary :: "(bytes \<Rightarrow> block option) \<Rightarrow> bytes \<Rightarrow> wire_error + message" where
  "decodeMessageBinary json data = decode_loop json \<lparr>rb_rest = data, rb_err = None\<rparr> (Message (MsgUnknown []))"


section \<open>What the reader makes of written fields\<close>

abbreviation at_bytes :: "bytes \<Rightarrow> rbuf" where
  "at_bytes bs \<equiv> \<lparr>rb_rest = bs, rb_err = None\<rparr>"

definition gives :: "'a rb \<Rightarrow> bytes \<Rightarrow> 'a \<Rightarrow> bool" where
  "gives x bs v \<longleftrightarrow> (\<forall>rest. run_state x (at_bytes (bs @ rest)) = (v, at_bytes rest))"

named_theorems gives_intros \<open>a reader returns what its writer wrote\<close>

lemma gives_run: "gives x bs v \<Longrightarrow> run_state x (at_bytes (bs @ rest)) = (v, at_bytes rest)"
  by (simp add: gives_def)

lemma gives_return: "gives (State_Monad.return v) [] v"
  by (simp add: gives_def)

lemma gives_bind: "gives x xs a \<Longrightarrow> gives (f a) ys b \<Longrightarrow> gives (State_Monad.bind x f) (xs @ ys) b"
  by (simp add: gives_def)

lemma gives_last: "gives x xs a \<Longrightarrow> f a = State_Monad.return b \<Longrightarrow> gives (State_Monad.bind x f) xs b"
  by (simp add: gives_def)

lemma gives_get_err: "gives (f None) bs v \<Longrightarrow> gives (State_Monad.bind rb_get_err f) bs v"
  by (simp add: gives_def rb_get_err_def)

lemma gives_take: "length bs = n \<Longrightarrow> gives (rb_take n) bs (Some bs)"
  by (auto simp: gives_def rb_take_def)

lemma gives_byte: "gives rb_byte [c] c"
  unfolding rb_byte_def by (rule gives_last [OF gives_take]) simp_all

lemma gives_u64 [gives_intros]: "gives rb_u64 (wb_u64 v) v"
  unfolding rb_u64_def wb_u64_def by (rule gives_last [OF gives_take]) (simp_all add: be64_val)

definition wire_len :: "bytes \<Rightarrow> bool" where
  "wire_len bs \<longleftrightarrow> length bs < 2 ^ 64"

lemma gives_blob [gives_intros]: "wire_len bs \<Longrightarrow> gives rb_blob (wb_blob bs) bs"
proof -
  assume "wire_len bs"
  then have n: "unat (of_nat (length bs) :: u64) = length bs" by (simp add: wire_len_def unat_of_nat)
  show ?thesis unfolding rb_blob_def wb_blob_def
  proof (rule gives_bind [OF gives_u64], rule gives_get_err)
    show "gives (if None \<noteq> (None :: wire_error option) then State_Monad.return []
       else State_Monad.bind rb_left (\<lambda>left. if left < unat (of_nat (length bs) :: u64)
         then State_Monad.bind (rb_fail (BlobOverRest (of_nat (length bs)) left)) (\<lambda>_. State_Monad.return [])
         else State_Monad.bind (rb_take (unat (of_nat (length bs) :: u64)))
           (\<lambda>b. State_Monad.return (case b of None \<Rightarrow> [] | Some bs \<Rightarrow> bs)))) bs bs"
      by (auto simp: gives_def n rb_left_def rb_take_def)
  qed
qed

lemma gives_str [gives_intros]: "wire_len s \<Longrightarrow> gives rb_str (wb_str s) s"
  unfolding rb_str_def wb_str_def by (rule gives_blob)

lemma run_count:
  assumes "n \<le> maxWireItems" "n \<le> length bs"
  shows "run_state rb_count (at_bytes (wb_u64 (of_nat n) @ bs)) = (n, at_bytes bs)"
proof -
  have "unat (of_nat n :: u64) = n" using assms(1) by (simp add: maxWireItems_def unat_of_nat)
  then show ?thesis using assms
    by (simp add: rb_count_def gives_run [OF gives_u64] rb_get_err_def rb_left_def)
qed

text \<open>Lists of items whose encodings are not empty.\<close>

lemma items_length: "(\<And>x. w x \<noteq> []) \<Longrightarrow> length xs \<le> length (concat (map w xs))"
proof (induction xs)
  case (Cons x xs)
  have "1 \<le> length (w x)" using Cons.prems [of x] by (cases "w x") simp_all
  moreover have "length xs \<le> length (concat (map w xs))" using Cons by simp
  ultimately have "1 + length xs \<le> length (w x) + length (concat (map w xs))" by (rule add_mono)
  then show ?case by simp
qed simp

lemma gives_loop:
  assumes "\<And>x. x \<in> set xs \<Longrightarrow> gives rd (w x) x"
  shows "gives (rb_loop rd (length xs) out) (concat (map w xs)) (rev out @ xs)"
  using assms
proof (induction xs arbitrary: out)
  case (Cons x xs)
  have "gives (rb_loop rd (length xs) (x # out)) (concat (map w xs)) (rev (x # out) @ xs)"
    by (rule Cons.IH) (simp add: Cons.prems)
  then show ?case using Cons.prems [of x] by (auto intro!: gives_bind gives_get_err)
qed (simp add: gives_return)

lemma gives_counted:
  assumes "\<And>x. x \<in> set xs \<Longrightarrow> gives rd (w x) x" "\<And>x. w x \<noteq> []" "length xs \<le> maxWireItems"
  shows "gives (rb_counted rd) (wb_items w xs) xs"
proof -
  have "length xs \<le> length (concat (map w xs))" using assms(2) by (rule items_length)
  moreover have "gives (rb_loop rd (length xs) []) (concat (map w xs)) xs"
    using gives_loop [of xs rd w "[]"] assms(1) by simp
  ultimately show ?thesis using run_count [OF assms(3), of "concat (map w xs) @ rest" for rest]
    by (simp add: gives_def rb_counted_def wb_items_def rb_get_err_def)
qed

lemma gives_records:
  assumes "\<And>x. x \<in> set xs \<Longrightarrow> wire_len (ecd x) \<and> dcd (ecd x) = Inr (g x)"
  shows "gives (rb_records strict dcd (length xs) out) (concat (map (\<lambda>x. wb_blob (ecd x)) xs)) (Inr (rev out @ map g xs))"
  using assms
proof (induction xs arbitrary: out)
  case (Cons x xs)
  have "gives (rb_records strict dcd (length xs) (g x # out)) (concat (map (\<lambda>x. wb_blob (ecd x)) xs))
      (Inr (rev (g x # out) @ map g xs))"
    by (rule Cons.IH) (simp add: Cons.prems)
  then show ?case using Cons.prems [of x] by (auto intro!: gives_bind [OF gives_blob] gives_get_err)
qed (simp add: gives_return)

lemma blob_not_Nil [simp]: "wb_blob bs \<noteq> []"
  by (simp add: wb_blob_def wb_u64_def be64_def flip: length_0_conv)

lemma gives_counted_records:
  assumes "\<And>x. x \<in> set xs \<Longrightarrow> wire_len (ecd x) \<and> dcd (ecd x) = Inr (g x)" "length xs \<le> maxWireItems"
  shows "gives (rb_counted_records strict dcd) (wb_items (\<lambda>x. wb_blob (ecd x)) xs) (Inr (map g xs))"
proof -
  let ?w = "\<lambda>x. wb_blob (ecd x)"
  have "length xs \<le> length (concat (map ?w xs))" by (rule items_length) simp
  moreover have "gives (rb_records strict dcd (length xs) []) (concat (map ?w xs)) (Inr (map g xs))"
    using gives_records [of xs ecd dcd g strict "[]"] assms(1) by simp
  ultimately show ?thesis using run_count [OF assms(2), of "concat (map ?w xs) @ rest" for rest]
    by (simp add: gives_def rb_counted_records_def wb_items_def rb_get_err_def)
qed

lemma gives_u32s: "gives (rb_u32s (length xs) out) (concat (map (\<lambda>i. wb_u64 (ucast i)) xs)) (rev out @ xs)"
proof (induction xs arbitrary: out)
  case (Cons x xs)
  have "ucast (ucast x :: u64) = x" by (simp add: unsigned_ucast_eq take_bit_word_eq_self flip: word_unat_eq_iff)
  then show ?case using Cons.IH [of "x # out"] by (auto intro!: gives_bind [OF gives_u64])
qed (simp add: gives_return)

lemma gives_indexes:
  assumes "length xs \<le> maxWireItems"
  shows "gives rb_indexes (wb_items (\<lambda>i. wb_u64 (ucast i)) xs) (Inr xs)"
proof -
  let ?w = "\<lambda>i :: u32. wb_u64 (ucast i)"
  have "length xs \<le> length (concat (map ?w xs))"
    by (rule items_length) (simp add: wb_u64_def be64_def flip: length_0_conv)
  then show ?thesis using run_count [OF assms, of "concat (map ?w xs) @ rest" for rest] gives_u32s [of xs "[]"]
    by (simp add: gives_def rb_indexes_def wb_items_def rb_get_err_def)
qed

definition wire_strs :: "string list \<Rightarrow> bool" where
  "wire_strs ss \<longleftrightarrow> length ss \<le> maxWireItems \<and> list_all wire_len ss"

lemma gives_strs [gives_intros]: "wire_strs ss \<Longrightarrow> gives rb_strs (wb_strs ss) ss"
  unfolding rb_strs_def wb_strs_def
  by (rule gives_counted) (auto simp: wire_strs_def list_all_iff wb_str_def intro: gives_str [unfolded wb_str_def])

definition wire_filter :: "block_filter \<Rightarrow> bool" where
  "wire_filter f \<longleftrightarrow> in_i64 (bf_n f) \<and> wire_len (bf_block_hash f) \<and> wire_len (bf_data f) \<and> wire_len (bf_key f)"

lemma sint_word_of_int: "in_i64 v \<Longrightarrow> sint (word_of_int v :: u64) = v"
  by (simp add: in_i64_def signed_of_int signed_take_bit_int_eq_self)

lemma return_cong: "a = b \<Longrightarrow> State_Monad.return a = State_Monad.return b"
  by simp

lemma gives_filter: "wire_filter f \<Longrightarrow> gives rb_filter (wb_filter f) f"
  unfolding rb_filter_def wb_filter_def wire_filter_def
  by (rule gives_bind gives_last gives_intros return_cong block_filter.equality | simp add: sint_word_of_int)+

lemma gives_filters [gives_intros]:
  "length fs \<le> maxWireItems \<Longrightarrow> list_all wire_filter fs \<Longrightarrow> gives rb_filters (wb_filters fs) fs"
  unfolding rb_filters_def wb_filters_def
proof (rule gives_counted)
  show "wb_filter f \<noteq> []" for f by (simp add: wb_filter_def wb_u64_def be64_def flip: length_0_conv)
qed (auto simp: list_all_iff gives_filter)

section \<open>Records read back\<close>

lemma DecodeBlock_Encode: "storable b \<Longrightarrow> DecodeBlock json (EncodeBlock b) = Inr (kept_block storeRecordV5 b)"
  using decode_encode_version [of b storeRecordV5]
  by (simp add: DecodeBlock_def EncodeBlock_def encodeBlockV5_def decodeStoredBlock_def decodeBlockV5_def wire_result_def
      storeRecordV2_def storeRecordV5_def)

lemma DecodeHeader_Encode: "storable (header_block h) \<Longrightarrow> DecodeHeader json (EncodeHeader h) = Inr h"
  using DecodeBlock_Encode [of "header_block h" json]
  by (simp add: DecodeHeader_def EncodeHeader_def EncodeBlock_def)
    (simp add: kept_block_def header_block_def block_Header_def storeRecordV3_def storeRecordV5_def)

lemma DecodeTransaction_Encode: "storable_tx t \<Longrightarrow> DecodeTransaction (EncodeTransaction t) = Inr (kept_tx storeRecordV5 t)"
  using reads_run [OF reads_tx, of t storeRecordV5 "[]"]
  by (simp add: DecodeTransaction_def EncodeTransaction_def) (simp add: storeRecordV2_def storeRecordV5_def)

definition wire_tx :: "transaction \<Rightarrow> bool" where
  "wire_tx t \<longleftrightarrow> storable_tx t \<and> wire_len (EncodeTransaction t)"

definition wire_block :: "block \<Rightarrow> bool" where
  "wire_block b \<longleftrightarrow> storable b \<and> wire_len (EncodeBlock b)"

definition wire_header :: "header \<Rightarrow> bool" where
  "wire_header h \<longleftrightarrow> storable (header_block h) \<and> wire_len (EncodeHeader h)"

definition wire_cmpct :: "compact_block \<Rightarrow> bool" where
  "wire_cmpct c \<longleftrightarrow> wire_header (cb_header c) \<and> wire_tx (cb_coinbase c) \<and> wire_strs (cb_short_ids c)"

definition kept_cmpct :: "compact_block \<Rightarrow> compact_block" where
  "kept_cmpct c = c\<lparr>cb_coinbase := kept_tx storeRecordV5 (cb_coinbase c)\<rparr>"

lemma gives_record:
  "wire_len (ecd x) \<Longrightarrow> dcd (ecd x) = Inr y \<Longrightarrow> gives (rb_record dcd) (wb_blob (ecd x)) (Inr y)"
  unfolding rb_record_def by (rule gives_last [OF gives_blob]) simp_all

lemma gives_cmpct: "wire_cmpct c \<Longrightarrow> gives (rb_cmpct json) (wb_cmpct c) (Inr (kept_cmpct c))"
  unfolding rb_cmpct_def wb_cmpct_def wire_cmpct_def wire_header_def wire_tx_def kept_cmpct_def
  by (elim conjE, rule gives_bind [OF gives_blob], assumption, simp add: DecodeHeader_Encode,
      rule gives_bind [OF gives_blob], assumption, simp add: DecodeTransaction_Encode,
      rule gives_last [OF gives_strs], assumption)
    (rule return_cong, simp)

section \<open>The loop over the fields\<close>

lemma gives_set: "gives x bs v \<Longrightarrow> gives (rb_set f x) bs (Inr (f v))"
  unfolding rb_set_def by (rule gives_last) simp_all

lemma gives_try: "gives x bs (Inr v) \<Longrightarrow> gives (rb_try f x) bs (Inr (f v))"
  unfolding rb_try_def by (rule gives_last [where a = "Inr v"]) simp_all

lemma loop_tag:
  "tag \<noteq> fEnd \<Longrightarrow> gives (decode_field json tag m) bs (Inr m') \<Longrightarrow>
   decode_loop json (at_bytes (tag # bs @ rest)) m = decode_loop json (at_bytes rest) m'"
  using gives_run [OF gives_byte, of tag "bs @ rest"] by (subst decode_loop.simps) (simp add: gives_run)

lemma loop_end: "decode_loop json (at_bytes (fEnd # rest)) m = Inr m"
  using gives_run [OF gives_byte, of fEnd rest] by (subst decode_loop.simps) simp


text \<open>Each written field, present or left out, moves the message on by one update.\<close>

abbreviation fills :: "(bytes \<Rightarrow> block option) \<Rightarrow> bytes \<Rightarrow> message \<Rightarrow> message \<Rightarrow> bool" where
  "fills json bs m m' \<equiv>
     \<forall>rest. decode_loop json (at_bytes (bs @ rest)) m = decode_loop json (at_bytes rest) m'"

named_theorems field_fills \<open>what reading a written field does to the message\<close>

lemmas update_intros = gives_set gives_try gives_intros gives_indexes gives_cmpct

lemma fills_field:
  "tag \<noteq> fEnd \<Longrightarrow> (c \<Longrightarrow> gives (decode_field json tag m) bs (Inr m')) \<Longrightarrow> (\<not> c \<Longrightarrow> m' = m) \<Longrightarrow>
   fills json (wb_field c tag bs) m m'"
  by (cases c) (auto simp: wb_field_def loop_tag)

lemma fills_option:
  "tag \<noteq> fEnd \<Longrightarrow> (\<And>a. x = Some a \<Longrightarrow> gives (decode_field json tag m) (f a) (Inr m')) \<Longrightarrow> (x = None \<Longrightarrow> m' = m) \<Longrightarrow>
   fills json (wb_option tag f x) m m'"
  by (cases x) (auto simp: wb_option_def loop_tag)

lemma fills_strings [field_fills]:
  assumes "wire_len s"
  shows
    "msg_pubkey m = [] \<Longrightarrow> fills json (wb_field (s \<noteq> []) fPubKey (wb_str s)) m (m\<lparr>msg_pubkey := s\<rparr>)"
    "msg_sig m = [] \<Longrightarrow> fills json (wb_field (s \<noteq> []) fSig (wb_str s)) m (m\<lparr>msg_sig := s\<rparr>)"
    "msg_addr m = [] \<Longrightarrow> fills json (wb_field (s \<noteq> []) fAddr (wb_str s)) m (m\<lparr>msg_addr := s\<rparr>)"
    "msg_network m = [] \<Longrightarrow> fills json (wb_field (s \<noteq> []) fNetwork (wb_str s)) m (m\<lparr>msg_network := s\<rparr>)"
    "msg_hash m = [] \<Longrightarrow> fills json (wb_field (s \<noteq> []) fHash (wb_str s)) m (m\<lparr>msg_hash := s\<rparr>)"
  by (rule fills_field; use assms in \<open>force simp: decode_field_def tag_defs intro: update_intros message.equality\<close>)+

lemma fills_string_lists [field_fills]:
  assumes "wire_strs s"
  shows
    "msg_peers m = [] \<Longrightarrow> fills json (wb_field (s \<noteq> []) fPeers (wb_strs s)) m (m\<lparr>msg_peers := s\<rparr>)"
    "msg_caps m = [] \<Longrightarrow> fills json (wb_field (s \<noteq> []) fCaps (wb_strs s)) m (m\<lparr>msg_caps := s\<rparr>)"
    "msg_locator m = [] \<Longrightarrow> fills json (wb_field (s \<noteq> []) fLocator (wb_strs s)) m (m\<lparr>msg_locator := s\<rparr>)"
    "msg_cfheaders m = [] \<Longrightarrow> fills json (wb_field (s \<noteq> []) fCFHeaders (wb_strs s)) m (m\<lparr>msg_cfheaders := s\<rparr>)"
    "msg_hashes m = [] \<Longrightarrow> fills json (wb_field (s \<noteq> []) fHashes (wb_strs s)) m (m\<lparr>msg_hashes := s\<rparr>)"
  by (rule fills_field; use assms in \<open>force simp: decode_field_def tag_defs intro: update_intros message.equality\<close>)+

lemma fills_words [field_fills]:
  fixes m :: message
  shows
    "msg_base m = 0 \<Longrightarrow> fills json (wb_field (v \<noteq> 0) fBase (wb_u64 v)) m (m\<lparr>msg_base := v\<rparr>)"
    "msg_index m = 0 \<Longrightarrow> fills json (wb_field (v \<noteq> 0) fIndex (wb_u64 v)) m (m\<lparr>msg_index := v\<rparr>)"
    "msg_from m = 0 \<Longrightarrow> fills json (wb_field (v \<noteq> 0) fFrom (wb_u64 v)) m (m\<lparr>msg_from := v\<rparr>)"
    "msg_to m = 0 \<Longrightarrow> fills json (wb_field (v \<noteq> 0) fTo (wb_u64 v)) m (m\<lparr>msg_to := v\<rparr>)"
  by (rule fills_field; force simp: decode_field_def tag_defs intro: update_intros message.equality)+

lemma fills_numbers [field_fills]:
  assumes "in_i64 v"
  shows
    "msg_version m = 0 \<Longrightarrow> fills json (wb_field (v \<noteq> 0) fVersion (wb_u64 (word_of_int v))) m (m\<lparr>msg_version := v\<rparr>)"
    "msg_time m = 0 \<Longrightarrow> fills json (wb_field (v \<noteq> 0) fTime (wb_u64 (word_of_int v))) m (m\<lparr>msg_time := v\<rparr>)"
proof -
  have "gives (rb_set (\<lambda>w. f (sint w)) rb_u64) (wb_u64 (word_of_int v)) (Inr (f v))" for f
    using gives_set [OF gives_u64, of "\<lambda>w. f (sint w)" "word_of_int v"] assms by (simp add: sint_word_of_int)
  then show "msg_version m = 0 \<Longrightarrow> fills json (wb_field (v \<noteq> 0) fVersion (wb_u64 (word_of_int v))) m (m\<lparr>msg_version := v\<rparr>)"
    "msg_time m = 0 \<Longrightarrow> fills json (wb_field (v \<noteq> 0) fTime (wb_u64 (word_of_int v))) m (m\<lparr>msg_time := v\<rparr>)"
    by (auto intro!: fills_field [rule_format] simp: decode_field_def tag_defs)
qed

lemma fills_stem [field_fills]: "\<not> msg_stem m \<Longrightarrow> fills json (wb_field c fStem (wb_u64 1)) m (m\<lparr>msg_stem := c\<rparr>)"
  using gives_set [OF gives_u64, of "\<lambda>v. m\<lparr>msg_stem := (v = 1)\<rparr>" 1]
  by (intro fills_field) (auto simp: decode_field_def tag_defs)

lemma fills_filters [field_fills]:
  "length s \<le> maxWireItems \<Longrightarrow> list_all wire_filter s \<Longrightarrow> msg_filters m = [] \<Longrightarrow>
   fills json (wb_field (s \<noteq> []) fFilters (wb_filters s)) m (m\<lparr>msg_filters := s\<rparr>)"
  by (rule fills_field; force simp: decode_field_def tag_defs intro: update_intros message.equality)

lemma fills_indexes [field_fills]:
  "length s \<le> maxWireItems \<Longrightarrow> msg_indexes m = [] \<Longrightarrow>
   fills json (wb_field (s \<noteq> []) fIndexes (wb_items (\<lambda>i. wb_u64 (ucast i)) s)) m (m\<lparr>msg_indexes := s\<rparr>)"
  by (rule fills_field; force simp: decode_field_def tag_defs intro: update_intros message.equality)

lemma fills_tx [field_fills]:
  "pred_option wire_tx x \<Longrightarrow> msg_tx m = None \<Longrightarrow>
   fills json (wb_option fTx (\<lambda>tx. wb_blob (EncodeTransaction tx)) x) m (m\<lparr>msg_tx := map_option (kept_tx storeRecordV5) x\<rparr>)"
  by (rule fills_option; force simp: decode_field_def tag_defs wire_tx_def DecodeTransaction_Encode
      intro: gives_try gives_record message.equality)

lemma fills_block [field_fills]:
  "pred_option wire_block x \<Longrightarrow> msg_block m = None \<Longrightarrow>
   fills json (wb_option fBlock (\<lambda>b. wb_blob (EncodeBlock b)) x) m (m\<lparr>msg_block := map_option (kept_block storeRecordV5) x\<rparr>)"
  by (rule fills_option; force simp: decode_field_def tag_defs wire_block_def DecodeBlock_Encode
      intro: gives_try gives_record message.equality)

lemma fills_cmpct [field_fills]:
  "pred_option wire_cmpct x \<Longrightarrow> msg_cmpct m = None \<Longrightarrow>
   fills json (wb_option fCmpct wb_cmpct x) m (m\<lparr>msg_cmpct := map_option kept_cmpct x\<rparr>)"
  by (rule fills_option; force simp: decode_field_def tag_defs intro: gives_try gives_cmpct message.equality)


lemma gives_record_lists:
  "length txs \<le> maxWireItems \<Longrightarrow> list_all wire_tx txs \<Longrightarrow> gives rb_txs (wb_txs txs) (Inr (map (kept_tx storeRecordV5) txs))"
  "length bs \<le> maxWireItems \<Longrightarrow> list_all wire_block bs \<Longrightarrow>
   gives (rb_blocks json) (wb_blocks bs) (Inr (map (kept_block storeRecordV5) bs))"
  "length hs \<le> maxWireItems \<Longrightarrow> list_all wire_header hs \<Longrightarrow>
   gives (rb_headers json) (wb_items (\<lambda>h. wb_blob (EncodeHeader h)) hs) (Inr (map (\<lambda>h. h) hs))"
  unfolding rb_txs_def wb_txs_def rb_blocks_def wb_blocks_def rb_headers_def
  by (rule gives_counted_records;
      auto simp: list_all_iff wire_tx_def wire_block_def wire_header_def DecodeTransaction_Encode DecodeBlock_Encode DecodeHeader_Encode)+

lemma fills_record_lists [field_fills]:
  "length txs \<le> maxWireItems \<Longrightarrow> list_all wire_tx txs \<Longrightarrow> msg_txs m = [] \<Longrightarrow>
   fills json (wb_field (txs \<noteq> []) fTxs (wb_txs txs)) m (m\<lparr>msg_txs := map (kept_tx storeRecordV5) txs\<rparr>)"
  "length bs \<le> maxWireItems \<Longrightarrow> list_all wire_block bs \<Longrightarrow> msg_blocks m = [] \<Longrightarrow>
   fills json (wb_field (bs \<noteq> []) fBlocks (wb_blocks bs)) m (m\<lparr>msg_blocks := map (kept_block storeRecordV5) bs\<rparr>)"
  "length bs \<le> maxWireItems \<Longrightarrow> list_all wire_block bs \<Longrightarrow> msg_chain m = [] \<Longrightarrow>
   fills json (wb_field (bs \<noteq> []) fChain (wb_blocks bs)) m (m\<lparr>msg_chain := map (kept_block storeRecordV5) bs\<rparr>)"
  "length hs \<le> maxWireItems \<Longrightarrow> list_all wire_header hs \<Longrightarrow> msg_headers m = [] \<Longrightarrow>
   fills json (wb_field (hs \<noteq> []) fHeaders (wb_items (\<lambda>h. wb_blob (EncodeHeader h)) hs)) m (m\<lparr>msg_headers := hs\<rparr>)"
  by (rule fills_field; force simp: decode_field_def tag_defs
      intro: gives_try gives_record_lists gives_record_lists(3) [simplified] message.equality)+

section \<open>Round trip of a message\<close>

lemma find_known: "t \<in> set known_types \<Longrightarrow> find (\<lambda>k. msg_type_name k = msg_type_name t) known_types = Some t"
  unfolding known_types_def by (simp only: list.set) (elim insertE emptyE; hypsubst; simp)

lemma msg_type_of_name: "genuine_type t \<Longrightarrow> msg_type_of (msg_type_name t) = t"
proof (cases "t \<in> set known_types")
  case False
  then obtain s where "t = MsgUnknown s" by (cases t) (simp_all add: known_types_def)
  then show "genuine_type t \<Longrightarrow> msg_type_of (msg_type_name t) = t"
    by (auto simp: genuine_type_def msg_type_of_def find_None_iff split: option.split dest: find_Some_iff [THEN iffD1])
qed (simp add: msg_type_of_def find_known)

lemma fills_kind:
  "wire_len (msg_type_name t) \<Longrightarrow> genuine_type t \<Longrightarrow>
   decode_loop json (at_bytes (fType # wb_str (msg_type_name t) @ rest)) m = decode_loop json (at_bytes rest) (m\<lparr>msg_kind := t\<rparr>)"
  using gives_set [OF gives_str, of "msg_type_name t" "\<lambda>s. m\<lparr>msg_kind := msg_type_of s\<rparr>"]
  by (intro loop_tag) (simp_all add: decode_field_def tag_defs msg_type_of_name)

text \<open>The messages of the protocol: counts within the item cap, records within the limits of their codec.\<close>

definition wireable :: "message \<Rightarrow> bool" where
  "wireable m \<longleftrightarrow> genuine_type (msg_kind m)
     \<and> list_all wire_len [msg_type_name (msg_kind m), msg_pubkey m, msg_sig m, msg_addr m, msg_network m, msg_hash m]
     \<and> list_all wire_strs [msg_peers m, msg_caps m, msg_locator m, msg_cfheaders m, msg_hashes m]
     \<and> in_i64 (msg_version m) \<and> in_i64 (msg_time m)
     \<and> pred_option wire_tx (msg_tx m) \<and> pred_option wire_block (msg_block m) \<and> pred_option wire_cmpct (msg_cmpct m)
     \<and> length (msg_txs m) \<le> maxWireItems \<and> list_all wire_tx (msg_txs m)
     \<and> length (msg_blocks m) \<le> maxWireItems \<and> list_all wire_block (msg_blocks m)
     \<and> length (msg_chain m) \<le> maxWireItems \<and> list_all wire_block (msg_chain m)
     \<and> length (msg_headers m) \<le> maxWireItems \<and> list_all wire_header (msg_headers m)
     \<and> length (msg_filters m) \<le> maxWireItems \<and> list_all wire_filter (msg_filters m)
     \<and> length (msg_indexes m) \<le> maxWireItems"

definition kept_message :: "message \<Rightarrow> message" where
  "kept_message m = m\<lparr>msg_tx := map_option (kept_tx storeRecordV5) (msg_tx m),
     msg_block := map_option (kept_block storeRecordV5) (msg_block m),
     msg_txs := map (kept_tx storeRecordV5) (msg_txs m), msg_blocks := map (kept_block storeRecordV5) (msg_blocks m),
     msg_chain := map (kept_block storeRecordV5) (msg_chain m), msg_cmpct := map_option kept_cmpct (msg_cmpct m)\<rparr>"

lemma decode_encode_message:
  assumes "wireable m"
  shows "decodeMessageBinary json (encodeMessageBinary m) = Inr (kept_message m)"
proof -
  define M where "M = Message (MsgUnknown [])"
  have M: "msg_pubkey M = []" "msg_sig M = []" "msg_addr M = []" "msg_peers M = []" "msg_version M = 0" "msg_caps M = []"
    "msg_network M = []" "msg_time M = 0" "msg_tx M = None" "\<not> msg_stem M" "msg_block M = None" "msg_txs M = []"
    "msg_blocks M = []" "msg_chain M = []" "msg_headers M = []" "msg_locator M = []" "msg_hashes M = []" "msg_indexes M = []"
    "msg_cmpct M = None" "msg_index M = 0" "msg_hash M = []" "msg_from M = 0" "msg_to M = 0" "msg_filters M = []"
    "msg_cfheaders M = []" "msg_base M = 0"
    by (simp_all add: M_def Message_def)
  have ok: "genuine_type (msg_kind m)" "wire_len (msg_type_name (msg_kind m))" "wire_len (msg_pubkey m)" "wire_len (msg_sig m)"
    "wire_len (msg_addr m)" "wire_len (msg_network m)" "wire_len (msg_hash m)" "wire_strs (msg_peers m)" "wire_strs (msg_caps m)"
    "wire_strs (msg_locator m)" "wire_strs (msg_cfheaders m)" "wire_strs (msg_hashes m)" "in_i64 (msg_version m)"
    "in_i64 (msg_time m)" "pred_option wire_tx (msg_tx m)" "pred_option wire_block (msg_block m)" "pred_option wire_cmpct (msg_cmpct m)"
    "length (msg_txs m) \<le> maxWireItems" "list_all wire_tx (msg_txs m)" "length (msg_blocks m) \<le> maxWireItems"
    "list_all wire_block (msg_blocks m)" "length (msg_chain m) \<le> maxWireItems" "list_all wire_block (msg_chain m)"
    "length (msg_headers m) \<le> maxWireItems" "list_all wire_header (msg_headers m)" "length (msg_filters m) \<le> maxWireItems"
    "list_all wire_filter (msg_filters m)" "length (msg_indexes m) \<le> maxWireItems"
    using assms by (simp_all add: wireable_def)
  show ?thesis unfolding decodeMessageBinary_def encodeMessageBinary_def M_def [symmetric]
    by (simp add: fills_kind field_fills loop_end M ok) (simp add: kept_message_def message.equality)
qed


section \<open>Frames\<close>

definition wireJSON :: char where "wireJSON = CHR ''{''"
definition wireBinary :: char where "wireBinary = CHR 0xB1"
definition wireMinBinaryVersion :: int where "wireMinBinaryVersion = 2"

definition useBinary :: "int \<Rightarrow> bool \<Rightarrow> bool" where
  "useBinary peerVersion bin \<longleftrightarrow> bin \<or> wireMinBinaryVersion \<le> peerVersion"

datatype frame_error =
    MarshalFailed | NotAnObject | OutgoingTooLarge nat | ShortFrame | FrameTooLarge nat
  | OverTypeCap nat msg_type | BadPayload wire_error | BadJSONMessage | UnknownFormat char

text \<open>
  What is written for one message, with \<open>encoding/json\<close> a parameter. The stream to be read is the bytes
  that arrive before the connection ends, so that asking for more than there are is an error.
\<close>

definition Encode :: "(message \<Rightarrow> bytes option) \<Rightarrow> bool \<Rightarrow> message \<Rightarrow> frame_error + bytes" where
  "Encode marshal bin m =
     (let body =
        (if bin then Inr (wireBinary, encodeMessageBinary m)
         else case marshal m of None \<Rightarrow> Inl MarshalFailed
           | Some b \<Rightarrow> if b = [] \<or> hd b \<noteq> wireJSON then Inl NotAnObject else Inr (wireJSON, tl b))
      in case body of Inl e \<Rightarrow> Inl e
         | Inr (format, payload) \<Rightarrow>
             if maxFrame < length payload then Inl (OutgoingTooLarge (length payload))
             else Inr (format # be32 (of_nat (length payload)) @ payload))"

definition peek :: "bytes \<Rightarrow> nat \<Rightarrow> bytes option" where
  "peek stream n = (if n \<le> length stream then Some (take n stream) else None)"

definition peekBinaryType :: "bytes \<Rightarrow> nat \<Rightarrow> msg_type option" where
  "peekBinaryType stream len =
     (if len < 9 then None
      else case peek stream 9 of None \<Rightarrow> None
        | Some head \<Rightarrow>
            if hd head \<noteq> fType then None
            else let n = be_val (tl head) in
              if n = 0 \<or> 32 < n \<or> len - 9 < n then None
              else map_option (\<lambda>full. msg_type_of (drop 9 full)) (peek stream (9 + n)))"

definition Decode ::
  "(bytes \<Rightarrow> block option) \<Rightarrow> (bytes \<Rightarrow> message option) \<Rightarrow> bytes \<Rightarrow> frame_error + (message \<times> bytes)" where
  "Decode json unmarshal stream =
     (if length stream < 5 then Inl ShortFrame
      else let format = hd stream; len = be_val (take 4 (tl stream)); body = drop 5 stream in
        if maxFrame < len then Inl (FrameTooLarge len)
        else case (if format = wireBinary then peekBinaryType body len else None) of
          Some t \<Rightarrow>
            if maxPayloadFor t < len then Inl (OverTypeCap len t)
            else if length body < len then Inl ShortFrame
            else (case decodeMessageBinary json (take len body) of Inl e \<Rightarrow> Inl (BadPayload e)
                  | Inr m \<Rightarrow> Inr (m, drop len body))
        | None \<Rightarrow>
            if length body < len then Inl ShortFrame
            else if format = wireJSON then
              (case unmarshal (wireJSON # take len body) of None \<Rightarrow> Inl BadJSONMessage
               | Some m \<Rightarrow>
                   if maxPayloadFor (msg_kind m) < len then Inl (OverTypeCap len (msg_kind m)) else Inr (m, drop len body))
            else if format = wireBinary then
              (case decodeMessageBinary json (take len body) of Inl e \<Rightarrow> Inl (BadPayload e)
               | Inr m \<Rightarrow> Inr (m, drop len body))
            else Inl (UnknownFormat format))"

lemma be32_len: "n \<le> maxFrame \<Longrightarrow> be_val (be32 (of_nat n)) = n"
  by (simp add: maxFrame_def be32_def be_val_bytes unat_of_nat)

lemma Decode_binary:
  assumes "length payload \<le> maxFrame" "length payload \<le> maxPayloadFor t \<or> peekBinaryType (payload @ rest) (length payload) = None"
    "peekBinaryType (payload @ rest) (length payload) \<in> {None, Some t}"
  shows "Decode json unmarshal (wireBinary # be32 (of_nat (length payload)) @ payload @ rest)
    = (case decodeMessageBinary json payload of Inl e \<Rightarrow> Inl (BadPayload e) | Inr m \<Rightarrow> Inr (m, rest))"
proof -
  let ?len = "be32 (of_nat (length payload))"
  have l: "length ?len = 4" by simp
  then have "take 4 (?len @ payload @ rest) = ?len" "drop 4 (?len @ payload @ rest) = payload @ rest" by simp_all
  then show ?thesis using assms be32_len [OF assms(1)]
    by (auto simp: Decode_def Let_def l wireBinary_def wireJSON_def split: sum.split)
qed

lemma peek_append: "length xs = n \<Longrightarrow> peek (xs @ ys) n = Some xs"
  by (simp add: peek_def)

lemma peek_own_type:
  assumes "genuine_type t" "msg_type_name t \<noteq> []" "length (msg_type_name t) \<le> 32"
  shows "peekBinaryType (fType # wb_str (msg_type_name t) @ ys) (9 + length (msg_type_name t) + k) = Some t"
proof -
  let ?n = "msg_type_name t"
  have h: "length (wb_u64 (of_nat (length ?n))) = 8" by (simp add: wb_u64_def)
  have "unat (of_nat (length ?n) :: u64) = length ?n" using assms(3) by (simp add: unat_of_nat)
  then have v: "be_val (wb_u64 (of_nat (length ?n))) = length ?n"
    using assms(3) by (simp add: wb_u64_def be64_def be_val_bytes)
  have "peek (fType # wb_str ?n @ ys) 9 = Some (fType # wb_u64 (of_nat (length ?n)))"
    using peek_append [of "fType # wb_u64 (of_nat (length ?n))" 9] h by (simp add: wb_str_def wb_blob_def)
  moreover have "peek (fType # wb_str ?n @ ys) (9 + length ?n) = Some (fType # wb_u64 (of_nat (length ?n)) @ ?n)"
    using peek_append [of "fType # wb_u64 (of_nat (length ?n)) @ ?n" "9 + length ?n"] h by (simp add: wb_str_def wb_blob_def)
  ultimately show ?thesis using assms h v msg_type_of_name [OF assms(1)] by (simp add: peekBinaryType_def)
qed

lemma known_name: "t \<in> set known_types \<Longrightarrow> genuine_type t \<and> msg_type_name t \<noteq> [] \<and> length (msg_type_name t) \<le> 32"
  unfolding known_types_def by (simp only: list.set) (elim insertE emptyE; hypsubst; simp add: genuine_type_def)

lemma own_frame:
  assumes "wireable m" "msg_kind m \<in> set known_types"
    "Encode marshal True m = Inr bs" "length (encodeMessageBinary m) \<le> maxPayloadFor (msg_kind m)"
  shows "Decode json unmarshal (bs @ rest) = Inr (kept_message m, rest)"

proof -
  let ?p = "encodeMessageBinary m" and ?n = "msg_type_name (msg_kind m)"
  obtain ys where ys: "?p = fType # wb_str ?n @ ys" by (simp add: encodeMessageBinary_def)
  have "length ?p = 9 + length ?n + length ys" by (simp add: ys wb_str_def wb_blob_def wb_u64_def)
  then have "peekBinaryType (?p @ rest) (length ?p) = Some (msg_kind m)"
    using peek_own_type [of "msg_kind m" "ys @ rest" "length ys"] known_name [OF assms(2)] by (simp add: ys add.assoc)
  moreover have "bs = wireBinary # be32 (of_nat (length ?p)) @ ?p" "length ?p \<le> maxFrame"
    using assms(3) by (auto simp: Encode_def Let_def split: if_splits)
  ultimately show ?thesis
    using Decode_binary [of ?p "msg_kind m" rest json unmarshal] assms(4) decode_encode_message [OF assms(1), of json] by simp
qed


section \<open>What a payload can make a reader build\<close>

text \<open>
  An accounting of bytes: with \<open>c\<close> bytes of credit, a reader that ends without an error returns a value
  whose cost is covered by the credit and by the bytes it has consumed.
\<close>

definition pays :: "nat \<Rightarrow> ('a \<Rightarrow> nat) \<Rightarrow> 'a rb \<Rightarrow> bool" where
  "pays c cost x \<longleftrightarrow> (\<forall>r a r'. run_state x r = (a, r') \<longrightarrow> rb_err r' = None \<longrightarrow>
     rb_err r = None \<and> cost a + length (rb_rest r') \<le> c + length (rb_rest r))"

lemma pays_bind: "pays c g x \<Longrightarrow> (\<And>a. pays (g a) h (f a)) \<Longrightarrow> pays c h (State_Monad.bind x f)"
  unfolding pays_def
proof (intro allI impI)
  fix r b r'
  assume x: "\<forall>r a r'. run_state x r = (a, r') \<longrightarrow> rb_err r' = None \<longrightarrow>
      rb_err r = None \<and> g a + length (rb_rest r') \<le> c + length (rb_rest r)"
    and f: "\<And>a. \<forall>r b r'. run_state (f a) r = (b, r') \<longrightarrow> rb_err r' = None \<longrightarrow>
      rb_err r = None \<and> h b + length (rb_rest r') \<le> g a + length (rb_rest r)"
    and run: "run_state (State_Monad.bind x f) r = (b, r')" "rb_err r' = None"
  obtain a r1 where "run_state x r = (a, r1)" by (cases "run_state x r")
  moreover have "run_state (f a) r1 = (b, r')" using calculation run(1) by simp
  ultimately have "rb_err r1 = None" "h b + length (rb_rest r') \<le> g a + length (rb_rest r1)" "run_state x r = (a, r1)"
    using f [of a] run(2) by blast+
  then show "rb_err r = None \<and> h b + length (rb_rest r') \<le> c + length (rb_rest r)"
    using x by (meson order_trans)
qed

lemma pays_return: "cost a \<le> c \<Longrightarrow> pays c cost (State_Monad.return a)"
  by (simp add: pays_def)

lemma pays_mono: "pays c g x \<Longrightarrow> (\<And>a. h a \<le> g a) \<Longrightarrow> pays c h x"
  unfolding pays_def by (meson add_le_mono1 order_trans)

lemma pays_get_err: "pays c (\<lambda>_. c) rb_get_err"
  by (simp add: pays_def rb_get_err_def)

lemma pays_left: "pays c (\<lambda>_. c) rb_left"
  by (simp add: pays_def rb_left_def)

lemma pays_fail: "pays c cost (rb_fail e)"
  by (auto simp: pays_def rb_fail_def)

lemma pays_take: "pays c (\<lambda>b. c + max n (case b of None \<Rightarrow> 0 | Some bs \<Rightarrow> length bs)) (rb_take n)"
  by (auto simp: pays_def rb_take_def split: if_splits)

lemma pays_if: "pays c cost x \<Longrightarrow> pays c cost y \<Longrightarrow> pays c cost (if b then x else y)"
  by simp

lemma pays_fail_then: "pays c cost (State_Monad.bind (rb_fail e) f)"
  if "\<And>a. pays (cost_f a) cost (f a)"
  by (rule pays_bind [OF pays_fail that])

lemma pays_u64: "pays c (\<lambda>_. c + 8) rb_u64"
  unfolding rb_u64_def by (rule pays_bind [OF pays_take]) (auto intro: pays_return)

lemma pays_blob: "pays c (\<lambda>bs. c + 8 + length bs) rb_blob"
  unfolding rb_blob_def
  by (rule pays_bind [OF pays_u64] pays_bind [OF pays_get_err] pays_bind [OF pays_left] pays_if
      pays_fail_then [where cost_f = "\<lambda>_. c + 8"] pays_bind [OF pays_take] pays_return | simp split: option.split)+

lemma pays_count: "pays c (\<lambda>_. c + 8) rb_count"
  unfolding rb_count_def
  by (rule pays_bind [OF pays_u64] pays_bind [OF pays_get_err] pays_bind [OF pays_left] pays_if
      pays_fail_then [where cost_f = "\<lambda>_. c + 8"] pays_return | simp)+

lemma pays_loop:
  assumes "\<And>c. pays c (\<lambda>a. c + cost a) x"
  shows "pays (c + sum_list (map cost out)) (\<lambda>xs. c + sum_list (map cost xs)) (rb_loop x n out)"
proof (induction n arbitrary: out)
  case (Suc n)
  have "pays (c + sum_list (map cost out) + cost a) (\<lambda>xs. c + sum_list (map cost xs))
      (if e \<noteq> None then State_Monad.return [] else rb_loop x n (a # out))" for a e
    using Suc.IH [of "a # out"] by (auto simp: ac_simps intro: pays_return)
  then show ?case by (auto intro!: pays_bind [OF assms] pays_bind [OF pays_get_err])
qed (simp add: pays_return rev_map [symmetric] sum_list_rev)

lemma pays_counted:
  assumes "\<And>c. pays c (\<lambda>a. c + cost a) x"
  shows "pays c (\<lambda>xs. c + sum_list (map cost xs)) (rb_counted x)"
proof -
  have "pays (c + 8) (\<lambda>xs. c + sum_list (map cost xs)) (rb_loop x n [])" for n
    using pays_mono [OF pays_loop [OF assms, of "c + 8" "[]" n]] by simp
  then show ?thesis unfolding rb_counted_def
    by (intro pays_bind [OF pays_count] pays_bind [OF pays_get_err] pays_if) (simp_all add: pays_return)
qed

lemma pays_records: "pays (c + length out) (case_sum (\<lambda>_. 0) (\<lambda>xs. c + length xs)) (rb_records strict dcd n out)"
proof (induction n arbitrary: out)
  case (Suc n)
  have "pays (c + length out + 8 + length raw) (case_sum (\<lambda>_. 0) (\<lambda>xs. c + length xs)) (rb_records strict dcd n (a # out))"
    for raw :: bytes and a using Suc.IH [of "a # out"] unfolding pays_def by fastforce
  then show ?case by (auto intro!: pays_bind [OF pays_blob] pays_bind [OF pays_get_err] pays_return split: option.split sum.split)
qed (simp add: pays_return)

lemma pays_counted_records: "pays c (case_sum (\<lambda>_. 0) (\<lambda>xs. c + length xs)) (rb_counted_records strict dcd)"
proof -
  have "pays (c + 8) (case_sum (\<lambda>_. 0) (\<lambda>xs. c + length xs)) (rb_records strict dcd n [])" for n
    using pays_records [of c "[]" strict dcd n] unfolding pays_def by fastforce
  then show ?thesis unfolding rb_counted_records_def
    by (auto intro!: pays_bind [OF pays_count] pays_bind [OF pays_get_err] pays_return split: option.split)
qed

lemma pays_u32s: "pays (c + length out) (\<lambda>xs. c + length xs) (rb_u32s n out)"
proof (induction n arbitrary: out)
  case (Suc n)
  have "pays (c + length out + 8) (\<lambda>xs. c + length xs) (rb_u32s n (a # out))" for a
    using Suc.IH [of "a # out"] unfolding pays_def by fastforce
  then show ?case by (auto intro!: pays_bind [OF pays_u64])
qed (simp add: pays_return)

lemma pays_indexes: "pays c (case_sum (\<lambda>_. 0) (\<lambda>xs. c + length xs)) rb_indexes"
proof -
  have "pays (c + 8) (\<lambda>xs. c + length xs) (rb_u32s n [])" for n
    using pays_u32s [of c "[]" n] unfolding pays_def by fastforce
  then have "pays (c + 8) (case_sum (\<lambda>_. 0) (\<lambda>xs. c + length xs)) (State_Monad.bind (rb_u32s n []) (\<lambda>xs. State_Monad.return (Inr xs)))" for n
    by (rule pays_bind) (simp add: pays_return)
  then show ?thesis unfolding rb_indexes_def
    by (auto intro!: pays_bind [OF pays_count] pays_bind [OF pays_get_err] pays_return split: option.split)
qed


text \<open>What a message takes in memory: the bytes of its strings and an entry per list element.\<close>

definition strs_size :: "string list \<Rightarrow> nat" where
  "strs_size ss = sum_list (map (\<lambda>s. 1 + length s) ss)"

definition filters_size :: "block_filter list \<Rightarrow> nat" where
  "filters_size fs = sum_list (map (\<lambda>f. 1 + length (bf_block_hash f) + length (bf_data f) + length (bf_key f)) fs)"

definition msg_size :: "message \<Rightarrow> nat" where
  "msg_size m = length (msg_type_name (msg_kind m)) + length (msg_pubkey m) + length (msg_sig m) + length (msg_addr m)
     + length (msg_network m) + length (msg_hash m)
     + strs_size (msg_peers m) + strs_size (msg_caps m) + strs_size (msg_locator m) + strs_size (msg_hashes m)
     + strs_size (msg_cfheaders m) + filters_size (msg_filters m)
     + length (msg_txs m) + length (msg_blocks m) + length (msg_chain m) + length (msg_headers m) + length (msg_indexes m)
     + (case msg_cmpct m of None \<Rightarrow> 0 | Some cb \<Rightarrow> strs_size (cb_short_ids cb))"

lemma pays_strs: "pays c (\<lambda>ss. c + strs_size ss) rb_strs"
  unfolding rb_strs_def strs_size_def rb_str_def
  by (rule pays_counted) (rule pays_mono [OF pays_blob], simp)

lemma pays_filter: "pays c (\<lambda>f. c + (1 + length (bf_block_hash f) + length (bf_data f) + length (bf_key f))) rb_filter"
  unfolding rb_filter_def rb_str_def
  by (rule pays_bind [OF pays_u64] pays_bind [OF pays_blob] pays_return | simp)+

lemma pays_filters: "pays c (\<lambda>fs. c + filters_size fs) rb_filters"
  unfolding rb_filters_def filters_size_def by (rule pays_counted [OF pays_filter])

lemma pays_sum_return: "(\<And>b. v = Inr b \<Longrightarrow> cost b \<le> c) \<Longrightarrow> pays c (case_sum (\<lambda>_. 0) cost) (State_Monad.return v)"
  by (cases v) (auto intro: pays_return)

lemma pays_cmpct: "pays c (case_sum (\<lambda>_. 0) (\<lambda>cb. c + strs_size (cb_short_ids cb))) (rb_cmpct json)"
proof -
  have "pays k (case_sum (\<lambda>_. 0) (\<lambda>cb. c + strs_size (cb_short_ids cb)))
      (State_Monad.bind rb_strs (\<lambda>ids. State_Monad.return (Inr \<lparr>cb_header = h, cb_coinbase = t, cb_short_ids = ids\<rparr>)))"
    if "c \<le> k" for k h t
    by (rule pays_bind [OF pays_strs]) (simp add: pays_return that)
  note ids = this
  show ?thesis unfolding rb_cmpct_def
    by (auto intro!: pays_bind [OF pays_blob] pays_return ids simp del: bind_assoc split: sum.split)
qed

abbreviation result_size :: "wire_error + message \<Rightarrow> nat" where
  "result_size \<equiv> case_sum (\<lambda>_. 0) msg_size"

lemma pays_set: "pays c g x \<Longrightarrow> (\<And>a. msg_size (f a) \<le> g a) \<Longrightarrow> pays c result_size (rb_set f x)"
  unfolding rb_set_def by (rule pays_bind, assumption) (simp add: pays_return)

lemma pays_try: "pays c (case_sum (\<lambda>_. 0) g) x \<Longrightarrow> (\<And>a. msg_size (f a) \<le> g a) \<Longrightarrow> pays c result_size (rb_try f x)"
  unfolding rb_try_def by (rule pays_bind, assumption) (auto intro!: pays_return split: sum.split)

lemma pays_record: "pays c (case_sum (\<lambda>_. 0) (\<lambda>_. c)) (rb_record dcd)"
  unfolding rb_record_def by (rule pays_bind [OF pays_blob]) (auto intro!: pays_return split: sum.split)

lemma pays_word: "pays c (\<lambda>_. c) rb_u64"
  by (rule pays_mono [OF pays_u64]) simp

lemma pays_string: "pays c (\<lambda>s. c + length s) rb_str"
  unfolding rb_str_def by (rule pays_mono [OF pays_blob]) simp

lemma msg_type_name_of: "msg_type_name (msg_type_of s) = s"
  by (auto simp: msg_type_of_def find_Some_iff split: option.split)

lemmas pays_fields = pays_set [OF pays_string] pays_set [OF pays_strs] pays_set [OF pays_word] pays_set [OF pays_filters]
  pays_try [OF pays_record] pays_try [OF pays_counted_records] pays_try [OF pays_indexes] pays_try [OF pays_cmpct]

lemma pays_decode_field: "pays (msg_size m) result_size (decode_field json tag m)"
  unfolding decode_field_def rb_txs_def rb_blocks_def rb_headers_def
  by (rule pays_if pays_fields pays_return | simp add: msg_size_def msg_type_name_of split: option.split)+

lemma decode_loop_size:
  "rb_err r = None \<Longrightarrow> decode_loop json r m = Inr m' \<Longrightarrow> msg_size m' < msg_size m + length (rb_rest r)"
proof (induction json r m rule: decode_loop.induct)
  case (1 json r m)
  obtain tag r1 where byte: "run_state rb_byte r = (tag, r1)" by (cases "run_state rb_byte r")
  then have e1: "rb_err r1 = None" using 1(3) by (auto simp: decode_loop.simps [of json r] split: option.splits)
  note less = rb_byte_less [OF byte e1]
  obtain res r2 where field: "run_state (decode_field json tag m) r1 = (res, r2)" by (cases "run_state (decode_field json tag m) r1")
  show ?case
  proof (cases "tag = fEnd")
    case True
    then show ?thesis using 1(3) byte e1 less by (cases "rb_rest r") (simp_all add: decode_loop.simps [of json r])
  next
    case False
    then obtain m1 where m1: "res = Inr m1" "rb_err r2 = None" "decode_loop json r2 m1 = Inr m'"
      using 1(3) byte e1 field by (auto simp: decode_loop.simps [of json r] split: option.splits sum.splits)
    then have "msg_size m1 + length (rb_rest r2) \<le> msg_size m + length (rb_rest r1)"
      using pays_decode_field [of m json tag] field by (fastforce simp: pays_def)
    moreover have "msg_size m' < msg_size m1 + length (rb_rest r2)"
      by (rule 1(1) [OF byte [symmetric] e1 False field [symmetric] m1(1,2,2,3)])
    ultimately show ?thesis using less by simp
  qed
qed


section \<open>Theorems\<close>

text \<open>
  C20. A message of the protocol that a node writes as a binary frame within the cap of its type is read
  back by its peer, which stands exactly behind the frame afterwards. What is read is the message in
  which the transactions and blocks have lost what their record does not carry: a transaction arrives
  as it was sent exactly when it has no name operation, no script and no issue metadata.
\<close>

theorem frame_roundtrip:
  assumes "wireable m" "msg_kind m \<in> set known_types"
    "Encode marshal True m = Inr bs" "length (encodeMessageBinary m) \<le> maxPayloadFor (msg_kind m)"
  shows "Decode json unmarshal (bs @ rest) = Inr (kept_message m, rest)
    \<and> (msg_tx m = Some t \<longrightarrow> (msg_tx (kept_message m) = Some t \<longleftrightarrow>
         tx_name t = None \<and> tx_script t = None \<and> pred_option (\<lambda>i. iss_metadata i = []) (tx_issue t)))"
proof -
  have "kept_tx storeRecordV5 t = t \<longleftrightarrow> tx_name t = None \<and> tx_script t = None \<and> pred_option (\<lambda>i. iss_metadata i = []) (tx_issue t)"
    by (cases t; cases "tx_issue t") (auto simp: kept_tx_def storeRecordV4_def storeRecordV5_def no_metadata)
  then show ?thesis using own_frame [OF assms, of json unmarshal rest] by (simp add: kept_message_def)
qed

definition naming_message :: message where
  "naming_message = (Message MsgTx)\<lparr>msg_tx := Some (hd (blk_transactions naming_block)), msg_stem := True\<rparr>"

theorem frame_roundtrip_witness:
  "\<exists>bs. Encode (\<lambda>_. None) True naming_message = Inr bs
    \<and> Decode (\<lambda>_. None) (\<lambda>_. None) (bs @ ''next'') = Inr (kept_message naming_message, ''next'')
    \<and> msg_tx (kept_message naming_message) \<noteq> msg_tx naming_message"
proof -
  let ?m = naming_message and ?t = "hd (blk_transactions naming_block)"
  have len: "length (EncodeTransaction ?t) = 109" by code_simp
  then have "wireable ?m"
    by (simp add: wireable_def naming_message_def Message_def wire_tx_def wire_len_def wire_strs_def in_i64_def genuine_type_def)
      (simp add: naming_block_def storable_tx_def zero_tx_def fits_def maxStoredBlockBytes_def)
  have size: "length (encodeMessageBinary ?m) = 139"
    using len by (simp add: encodeMessageBinary_def naming_message_def Message_def wb_field_def wb_option_def wb_str_def
        wb_blob_def wb_u64_def)
  have kind: "msg_kind ?m = MsgTx" by (simp add: naming_message_def Message_def)
  obtain bs where bs: "Encode (\<lambda>_. None) True ?m = Inr bs" using size by (simp add: Encode_def maxFrame_def)
  have "length (encodeMessageBinary ?m) \<le> maxPayloadFor (msg_kind ?m)"
    using size kind by (simp add: maxPayloadFor_def MaxBlockBytes_def blockOverhead_def)
  from frame_roundtrip [OF \<open>wireable ?m\<close> _ bs this, of "\<lambda>_. None" "\<lambda>_. None" "''next''" ?t]
  show ?thesis using bs kind by (auto simp: known_types_def) (auto simp: naming_message_def naming_block_def)
qed



text \<open>
  The caps per message type do not bind a sender that orders the fields of a message differently: a
  frame as large as the limit for all types is accepted and decoded as a ping, whose cap is 1 MiB.
\<close>

theorem ping_cap_bypassed:
  "\<exists>frame m. length frame = 5 + maxFrame \<and> Decode json unmarshal frame = Inr (m, []) \<and> msg_kind m = MsgPing
     \<and> maxPayloadFor (msg_kind m) < maxFrame"
proof -
  define pk where "pk = replicate (maxFrame - 23) (CHR ''a'')"
  define p where "p = fPubKey # wb_str pk @ fType # wb_str (msg_type_name MsgPing) @ [fEnd]"
  have pk: "wire_len pk" "pk \<noteq> []" by (simp_all add: pk_def wire_len_def maxFrame_def)
  have len: "length p = maxFrame"
    by (simp add: p_def wb_str_def wb_blob_def wb_u64_def pk_def) (simp add: maxFrame_def)
  have "peekBinaryType (p @ []) (length p) = None"
    by (simp add: peekBinaryType_def peek_def p_def tag_defs)
  moreover have "decodeMessageBinary json p = Inr ((Message MsgPing)\<lparr>msg_pubkey := pk\<rparr>)"
    using fills_strings(1) [OF pk(1), of "Message (MsgUnknown [])" json] fills_kind [of MsgPing json "[fEnd]"] pk(2)
    by (simp add: decodeMessageBinary_def p_def wb_field_def wire_len_def genuine_type_def loop_end) (simp add: Message_def)
  ultimately have "Decode json unmarshal (wireBinary # be32 (of_nat (length p)) @ p @ []) = Inr ((Message MsgPing)\<lparr>msg_pubkey := pk\<rparr>, [])"
    by (subst Decode_binary) (simp_all add: len)
  moreover have "length (wireBinary # be32 (of_nat (length p)) @ p @ []) = 5 + maxFrame" by (simp add: len)
  ultimately show ?thesis
    by (intro exI conjI) (auto simp: Message_def maxPayloadFor_def smallMsgCap_def maxFrame_def)
qed

end
